(* ===== verification/Prelude.thy ===== *)
theory Prelude
  imports Main "HOL-Library.Word" "HOL-Library.Signed_Division" "HOL-Library.Multiset"
begin

text \<open>
  Shared material of the development: names for the machine integers of the C++ sources, the
  result type of the operations that may throw, the lemma collections the component proofs draw
  on, facts about words built from disjoint bit fields, and the generic runner that turns the
  one-call contract of a sequence worker into a statement about whole runs.
\<close>

unbundle bit_operations_syntax

section \<open>Machine integers and results\<close>

text \<open>
  The signed and the unsigned integers of one width share a word type; a signed reading is
  \<open>sint\<close>, a signed comparison \<open><s\<close> and \<open>\<le>s\<close>. The synonyms only record how the source
  declares a value.
\<close>

type_synonym u32 = "32 word"
type_synonym i32 = "32 word"
type_synonym u64 = "64 word"
type_synonym i64 = "64 word"

type_synonym ('e, 'a) result = "'e + 'a"

named_theorems model_defs "definitions of the modelled operations"
named_theorems word_field "words assembled from disjoint bit fields"

section \<open>C division on signed words\<close>

text \<open>C truncates towards zero: the library's \<open>sdiv\<close> and \<open>smod\<close> on the signed reading.\<close>

definition c_sdiv :: "'a::len word \<Rightarrow> 'a word \<Rightarrow> 'a word" where
  "c_sdiv a b = word_of_int (sint a sdiv sint b)"

definition c_smod :: "'a::len word \<Rightarrow> 'a word \<Rightarrow> 'a word" where
  "c_smod a b = word_of_int (sint a smod sint b)"

section \<open>Words read as integers\<close>

lemma sint_eq_uint_small:
  fixes w :: "'a::len word"
  assumes "uint w < 2 ^ (LENGTH('a) - 1)"
  shows "sint w = uint w"
proof -
  have "- (2 ^ (LENGTH('a) - 1)) \<le> uint w"
    by (rule order_trans [of _ 0]) simp_all
  with assms show ?thesis
    by (simp add: sint_uint signed_take_bit_int_eq_self)
qed

text \<open>A non-negative field below bit \<open>n\<close> can be or-ed onto a multiple of \<open>2 ^ n\<close>.\<close>

lemma int_or_field [word_field]:
  fixes a b :: int
  assumes "0 \<le> b" "b < 2 ^ n"
  shows "(a * 2 ^ n) OR b = a * 2 ^ n + b"
proof -
  have b: "take_bit n b = b" using assms by (simp add: take_bit_int_eq_self)
  have "(push_bit n a) AND b = 0"
    by (subst b [symmetric]) (auto intro!: bit_eqI simp: bit_simps)
  then have "push_bit n a + b = push_bit n a OR b" by (rule disjunctive_add_eq_or)
  then show ?thesis by (simp add: push_bit_eq_mult)
qed

lemma uint_or_field [word_field]:
  fixes x y :: "'a::len word"
  assumes "uint x = a * 2 ^ n" and "uint y < 2 ^ n"
  shows "uint (x OR y) = a * 2 ^ n + uint y"
  using int_or_field [of "uint y" n a] assms by (simp add: unsigned_or_eq)

lemma uint_push_bit_small [word_field]:
  fixes x :: "'a::len word"
  assumes "uint x * 2 ^ n < 2 ^ LENGTH('a)"
  shows "uint (push_bit n x) = uint x * 2 ^ n"
  using assms by (subst unsigned_push_bit_eq) (simp add: push_bit_eq_mult take_bit_int_eq_self)

lemma uint_ucast_up [word_field]:
  fixes x :: "'a::len word"
  assumes "LENGTH('a) \<le> LENGTH('b::len)"
  shows "uint (ucast x :: 'b word) = uint x"
  using assms by (simp add: unsigned_ucast_eq take_bit_int_eq_self_iff)
    (meson lt2p_lem nle_le order_less_le_trans)

lemma uint_plus_small:
  fixes x y :: "'a::len word"
  assumes "uint x + uint y < 2 ^ LENGTH('a)"
  shows "uint (x + y) = uint x + uint y"
  using assms by (simp add: uint_word_ariths take_bit_eq_mod)

lemma uint_mult_small:
  fixes x y :: "'a::len word"
  assumes "uint x * uint y < 2 ^ LENGTH('a)"
  shows "uint (x * y) = uint x * uint y"
  using assms by (simp add: uint_word_ariths take_bit_eq_mod)

lemma uint_minus_small:
  fixes x y :: "'a::len word"
  assumes "uint y \<le> uint x"
  shows "uint (x - y) = uint x - uint y"
  using assms by (simp add: uint_sub_if')

lemma sint_plus_small:
  fixes x y :: "'a::len word"
  assumes "- (2 ^ (LENGTH('a) - 1)) \<le> sint x + sint y" "sint x + sint y < 2 ^ (LENGTH('a) - 1)"
  shows "sint (x + y) = sint x + sint y"
  using assms by (simp add: sint_word_ariths signed_take_bit_int_eq_self)

lemma sint_minus_small:
  fixes x y :: "'a::len word"
  assumes "- (2 ^ (LENGTH('a) - 1)) \<le> sint x - sint y" "sint x - sint y < 2 ^ (LENGTH('a) - 1)"
  shows "sint (x - y) = sint x - sint y"
  using assms by (simp add: sint_word_ariths signed_take_bit_int_eq_self)

lemma uint_eq_sint_nonneg:
  fixes x :: "'a::len word"
  assumes "0 \<le> sint x"
  shows "uint x = sint x"
proof -
  have "sint x < 2 ^ (LENGTH('a) - 1)" by (rule sint_lt)
  also have "(2::int) ^ (LENGTH('a) - 1) \<le> 2 ^ LENGTH('a)" by (simp add: power_increasing)
  finally show ?thesis using assms by (simp add: uint_sint take_bit_int_eq_self)
qed

lemma sint_word_of_int_small:
  assumes "- (2 ^ (LENGTH('a) - 1)) \<le> k" "k < 2 ^ (LENGTH('a) - 1)"
  shows "sint (word_of_int k :: 'a::len word) = k"
  using assms by (simp add: sint_sbintrunc' signed_take_bit_int_eq_self)

lemma sint_scast_up:
  fixes x :: "'a::len word"
  assumes "LENGTH('a) \<le> LENGTH('b::len)"
  shows "sint (scast x :: 'b word) = sint x"
proof -
  have "- (2 ^ (LENGTH('a) - 1)) \<le> sint x" "sint x < 2 ^ (LENGTH('a) - 1)"
    by (rule sint_ge, rule sint_lt)
  moreover have "(2::int) ^ (LENGTH('a) - 1) \<le> 2 ^ (LENGTH('b) - 1)"
    using assms by (simp add: power_increasing diff_le_mono)
  ultimately have "- (2 ^ (LENGTH('b) - 1)) \<le> sint x" "sint x < 2 ^ (LENGTH('b) - 1)" by linarith+
  then show ?thesis by (simp add: signed_scast_eq signed_take_bit_int_eq_self)
qed

section \<open>Runs of a stateful call\<close>

text \<open>
  \<open>run_calls call w is\<close> performs one call per input, threads the object's state and collects
  what the successful calls return.
\<close>

fun run_calls :: "('w \<Rightarrow> 'i \<Rightarrow> 'w \<times> 'r option) \<Rightarrow> 'w \<Rightarrow> 'i list \<Rightarrow> 'r list" where
  "run_calls call w [] = []"
| "run_calls call w (i # is) =
     (case call w i of
        (w', None) \<Rightarrow> run_calls call w' is
      | (w', Some r) \<Rightarrow> r # run_calls call w' is)"

fun run_state :: "('w \<Rightarrow> 'i \<Rightarrow> 'w \<times> 'r option) \<Rightarrow> 'w \<Rightarrow> 'i list \<Rightarrow> 'w" where
  "run_state call w [] = w"
| "run_state call w (i # is) = run_state call (fst (call w i)) is"

text \<open>
  The contract of a worker that hands out ranges: every call moves a position forward, and a
  returned range lies strictly after the old position and not beyond the new one.
\<close>

locale range_source =
  fixes call :: "'w \<Rightarrow> 'i \<Rightarrow> 'w \<times> 'r option"
    and inv :: "'w \<Rightarrow> bool"
    and ok :: "'i \<Rightarrow> bool"
    and pos :: "'w \<Rightarrow> int"
    and lo :: "'r \<Rightarrow> int"
    and hi :: "'r \<Rightarrow> int"
  assumes inv_call: "inv w \<Longrightarrow> ok i \<Longrightarrow> inv (fst (call w i))"
    and pos_call: "inv w \<Longrightarrow> ok i \<Longrightarrow> pos w \<le> pos (fst (call w i))"
    and range_call: "inv w \<Longrightarrow> ok i \<Longrightarrow> call w i = (w', Some r) \<Longrightarrow>
      pos w < lo r \<and> lo r \<le> hi r \<and> hi r \<le> pos w'"
begin

lemma run_after:
  "inv w \<Longrightarrow> list_all ok is \<Longrightarrow> r \<in> set (run_calls call w is) \<Longrightarrow> pos w < lo r \<and> lo r \<le> hi r"
proof (induction "is" arbitrary: w)
  case Nil
  then show ?case by simp
next
  case (Cons i "is")
  obtain w' x where c: "call w i = (w', x)" by (cases "call w i")
  have IH: "r \<in> set (run_calls call w' is) \<Longrightarrow> pos w' < lo r \<and> lo r \<le> hi r"
    using Cons.IH [of w'] Cons.prems inv_call [of w i] c by simp
  have "pos w \<le> pos w'" using pos_call [of w i] Cons.prems c by simp
  then show ?case
    using Cons.prems IH range_call [of w i w'] c by (fastforce split: option.splits)
qed

text \<open>Ranges returned by successive calls are disjoint and increase.\<close>

lemma run_sorted:
  "inv w \<Longrightarrow> list_all ok is \<Longrightarrow> sorted_wrt (\<lambda>a b. hi a < lo b) (run_calls call w is)"
proof (induction "is" arbitrary: w)
  case Nil
  then show ?case by simp
next
  case (Cons i "is")
  obtain w' x where c: "call w i = (w', x)" by (cases "call w i")
  have w': "inv w'" using Cons.prems inv_call [of w i] c by simp
  have IH: "sorted_wrt (\<lambda>a b. hi a < lo b) (run_calls call w' is)"
    using Cons.IH [of w'] Cons.prems w' by simp
  have "hi r < lo b" if "x = Some r" "b \<in> set (run_calls call w' is)" for r b
    using run_after [OF w', of "is" b] range_call [of w i w' r] that Cons.prems c by force
  then show ?case using IH c by (auto split: option.splits)
qed

lemma run_all:
  assumes "\<And>w i w' r. inv w \<Longrightarrow> ok i \<Longrightarrow> call w i = (w', Some r) \<Longrightarrow> P r"
  shows "inv w \<Longrightarrow> list_all ok is \<Longrightarrow> \<forall>r \<in> set (run_calls call w is). P r"
proof (induction "is" arbitrary: w)
  case Nil
  then show ?case by simp
next
  case (Cons i "is")
  then show ?case
    using assms [of w i] inv_call [of w i] by (cases "call w i") (auto split: option.splits)
qed

lemma run_state_inv:
  "inv w \<Longrightarrow> list_all ok is \<Longrightarrow> inv (run_state call w is)"
  by (induction "is" arbitrary: w) (auto intro: inv_call)

end

end
