(* ===== verification/CString.thy ===== *)
theory CString
  imports Prelude
begin

text \<open>
  The C string functions the sources call, on strings without their terminating NUL: searching
  a character, decimal conversion in both directions, and the lexicographic comparison of
  \<open>strcmp\<close>. \<open>strtol\<close> follows the C standard for base 10: leading white space, an optional sign,
  the longest run of digits, and the nearest \<open>long\<close> when the value does not fit.
\<close>

abbreviation NUL :: char where "NUL \<equiv> CHR 0x00"
abbreviation NL :: char where "NL \<equiv> CHR 0x0A"

section \<open>Searching\<close>

text \<open>
  \<open>split_at c s\<close> is \<open>strchr\<close> used to cut a string: what is before the first \<open>c\<close> and what is
  after it, or \<open>None\<close> where \<open>strchr\<close> returns a null pointer.
\<close>

definition split_at :: "char \<Rightarrow> string \<Rightarrow> (string \<times> string) option" where
  "split_at c s = (case dropWhile (\<lambda>x. x \<noteq> c) s of
       [] \<Rightarrow> None
     | _ # rest \<Rightarrow> Some (takeWhile (\<lambda>x. x \<noteq> c) s, rest))"

lemma split_at_Nil [simp]: "split_at c [] = None"
  by (simp add: split_at_def)

lemma split_at_Cons [simp]:
  "split_at c (x # s) = (if x = c then Some ([], s)
     else map_option (\<lambda>(a, b). (x # a, b)) (split_at c s))"
  unfolding split_at_def
  by (cases "dropWhile (\<lambda>x. x \<noteq> c) s") (simp_all del: dropWhile_eq_Nil_conv)

lemma split_at_append [simp]: "c \<notin> set a \<Longrightarrow> split_at c (a @ c # b) = Some (a, b)"
  by (induction a) auto

lemma split_at_None_iff: "split_at c s = None \<longleftrightarrow> c \<notin> set s"
  by (induction s) auto

lemma split_at_SomeD: "split_at c s = Some (a, b) \<Longrightarrow> s = a @ c # b \<and> c \<notin> set a"
  by (induction s arbitrary: a) (auto split: if_splits)

section \<open>Decimal numbers\<close>

definition is_digit :: "char \<Rightarrow> bool" where
  "is_digit c \<longleftrightarrow> 48 \<le> (of_char c :: nat) \<and> (of_char c :: nat) \<le> 57"

definition is_space :: "char \<Rightarrow> bool" where
  "is_space c \<longleftrightarrow> (of_char c :: nat) = 32 \<or> (9 \<le> (of_char c :: nat) \<and> (of_char c :: nat) \<le> 13)"

definition digit_val :: "char \<Rightarrow> int" where
  "digit_val c = int (of_char c) - 48"

fun digits_val :: "int \<Rightarrow> string \<Rightarrow> int" where
  "digits_val acc [] = acc"
| "digits_val acc (c # cs) = (if is_digit c then digits_val (acc * 10 + digit_val c) cs else acc)"

definition LONG_MAX :: int where "LONG_MAX = 2 ^ 63 - 1"
definition LONG_MIN :: int where "LONG_MIN = - (2 ^ 63)"

definition clamp_long :: "int \<Rightarrow> int" where
  "clamp_long n = (if n < LONG_MIN then LONG_MIN else if LONG_MAX < n then LONG_MAX else n)"

definition atol :: "string \<Rightarrow> int" where
  "atol s = clamp_long (case dropWhile is_space s of
       [] \<Rightarrow> 0
     | c # cs \<Rightarrow> if c = CHR ''-'' then - digits_val 0 cs
                else if c = CHR ''+'' then digits_val 0 cs
                else digits_val 0 (c # cs))"

text \<open>\<open>atoi\<close> keeps the low 32 bits of the \<open>long\<close>, read as a signed number.\<close>

definition int_of_long :: "int \<Rightarrow> int" where
  "int_of_long n = signed_take_bit 31 n"

definition atoi :: "string \<Rightarrow> int" where
  "atoi s = int_of_long (atol s)"

text \<open>Decimal output (\<open>CAST(... AS CHAR)\<close> of the stored function, \<open>sprintf("%d")\<close>).\<close>

fun show_nat :: "nat \<Rightarrow> string" where
  "show_nat n = (if n < 10 then [char_of (48 + n)] else show_nat (n div 10) @ [char_of (48 + n mod 10)])"

declare show_nat.simps [simp del]

definition show_int :: "int \<Rightarrow> string" where
  "show_int k = (if k < 0 then CHR ''-'' # show_nat (nat (- k)) else show_nat (nat k))"

lemma digits_val_append:
  "list_all is_digit xs \<Longrightarrow> digits_val acc (xs @ ys) = digits_val (digits_val acc xs) ys"
  by (induction xs arbitrary: acc) auto

lemma digits_val_stop: "\<not> is_digit c \<Longrightarrow> digits_val acc (c # cs) = acc"
  by simp

lemma is_digit_char_of [simp]: "d < 10 \<Longrightarrow> is_digit (char_of (48 + d))"
  and digit_val_char_of [simp]: "d < 10 \<Longrightarrow> digit_val (char_of (48 + d)) = int d"
  by (simp_all add: is_digit_def digit_val_def of_char_of)

lemma show_nat_digits: "list_all is_digit (show_nat n)" and show_nat_nonempty: "show_nat n \<noteq> []"
proof (induction n rule: show_nat.induct)
  case (1 n)
  {
    case 1
    then show ?case using "1.IH" by (subst show_nat.simps) simp
  next
    case 2
    then show ?case by (subst show_nat.simps) simp
  }
qed

lemma digits_val_show_nat: "digits_val 0 (show_nat n) = int n"
proof (induction n rule: show_nat.induct)
  case (1 n)
  show ?case
  proof (cases "n < 10")
    case True
    then show ?thesis by (subst show_nat.simps) simp
  next
    case False
    then have "digits_val 0 (show_nat n) = int (n div 10) * 10 + int (n mod 10)"
      using "1.IH" by (subst show_nat.simps) (simp add: digits_val_append show_nat_digits)
    then show ?thesis by (metis div_mult_mod_eq of_nat_add of_nat_mult of_nat_numeral)
  qed
qed

lemma digit_not_special: "is_digit c \<Longrightarrow> \<not> is_space c \<and> c \<noteq> CHR ''-'' \<and> c \<noteq> CHR ''+'' \<and> c \<noteq> CHR '',''
    \<and> c \<noteq> CHR ''/''"
  by (auto simp: is_digit_def is_space_def)

text \<open>Reading back a printed number, whatever non-digit follows it.\<close>

lemma atol_show_int_clamp:
  assumes "rest = [] \<or> \<not> is_digit (hd rest)"
  shows "atol (show_int k @ rest) = clamp_long k"
proof -
  have d: "digits_val 0 (show_nat n @ rest) = int n" for n
    using assms by (cases rest) (simp_all add: digits_val_append show_nat_digits digits_val_show_nat)
  obtain c cs where c: "show_nat (nat k) = c # cs" by (meson neq_Nil_conv show_nat_nonempty)
  then have "is_digit c" using show_nat_digits [of "nat k"] by simp
  note c' = digit_not_special [OF this]
  show ?thesis
  proof (cases "k < 0")
    case True
    have "\<not> is_space (CHR ''-'')" by (simp add: is_space_def)
    with True d [of "nat (- k)"] assms show ?thesis
      by (simp add: atol_def show_int_def)
  next
    case False
    with c c' d [of "nat k"] assms show ?thesis
      by (simp add: atol_def show_int_def)
  qed
qed

lemma atol_show_int:
  assumes "LONG_MIN \<le> k" "k \<le> LONG_MAX" and "rest = [] \<or> \<not> is_digit (hd rest)"
  shows "atol (show_int k @ rest) = k"
  using assms by (simp add: atol_show_int_clamp clamp_long_def)

lemma show_int_no_comma: "CHR '','' \<notin> set (show_int k)"
  using show_nat_digits digit_not_special
  by (auto simp: show_int_def list_all_iff)

lemma length_show_nat: "n < 10 ^ Suc k \<Longrightarrow> length (show_nat n) \<le> Suc k"
proof (induction k arbitrary: n)
  case 0
  then show ?case by (subst show_nat.simps) simp
next
  case (Suc k)
  show ?case
  proof (cases "n < 10")
    case True
    then show ?thesis by (subst show_nat.simps) simp
  next
    case False
    have "n div 10 < 10 ^ Suc k" using Suc.prems by (simp add: less_mult_imp_div_less)
    then have "length (show_nat (n div 10)) \<le> Suc k" by (rule Suc.IH)
    with False show ?thesis by (subst show_nat.simps) simp
  qed
qed

lemma atoi_show_int:
  "- (2 ^ 31) \<le> k \<Longrightarrow> k < 2 ^ 31 \<Longrightarrow> atoi (show_int k) = k"
  using atol_show_int [of k "[]"]
  by (simp add: atoi_def int_of_long_def LONG_MIN_def LONG_MAX_def signed_take_bit_int_eq_self)

end
