(* ===== verification/DbPool.thy ===== *)
theory DbPool
  imports CString
begin

text \<open>
  The database connection pool (MySQLDBPool.cpp, MySQLDBPool.h). The MySQL driver is not part
  of the repository: its calls are the functions of a \<open>driver\<close> record over a driver state, and
  the theorems hold for every such record unless they say otherwise. Every operation runs under
  the pool's mutex, so it is one step; the time cached by Toolkits.cpp is an argument. A value
  \<open>Undef\<close> marks a write outside a fixed-size buffer.
\<close>

section \<open>The driver\<close>

datatype 'a outcome = Ret 'a | Throw | Undef

datatype opt_value = OStr string | OInt int | OBool bool

datatype connect_reply = ConnectNull | ConnectThrows | Connected nat int

datatype query_reply = SqlException | NoRow | Row string

text \<open>
  \<open>drv_connect\<close> is \<open>connect\<close> followed by \<open>setAutoCommit(true)\<close>: a null pointer, an exception,
  or a connection with an identity and the value its uninitialised \<open>lastTime\<close> happens to have.
  \<open>drv_query\<close> is preparing a statement, binding its arguments, executing it and reading the
  first column of the first row.
\<close>

record 'd driver =
  drv_connect :: "(string \<times> opt_value) list \<Rightarrow> 'd \<Rightarrow> connect_reply \<times> 'd"
  drv_close :: "nat \<Rightarrow> 'd \<Rightarrow> 'd"
  drv_query :: "nat \<Rightarrow> string \<Rightarrow> string list \<Rightarrow> 'd \<Rightarrow> query_reply \<times> 'd"

section \<open>Connections and their options\<close>

record ConnectOptions =
  co_min :: int
  co_max :: int
  dbid :: int
  port :: int
  hostName :: string
  user :: string
  pass :: string
  schema :: string
  ctimeout :: int
  wtimeout :: int
  rtimeout :: int
  expiretime :: int

record Connection =
  conn_id :: nat
  conn_dbid :: int
  lastTime :: int
  isErr :: bool
  autoCommitCache :: bool

definition mk_Connection :: "ConnectOptions \<Rightarrow> nat \<Rightarrow> int \<Rightarrow> Connection" where
  "mk_Connection opt i junk = \<lparr>conn_id = i, conn_dbid = dbid opt, lastTime = junk, isErr = False,
     autoCommitCache = True\<rparr>"

datatype split_result = SplitOk ConnectOptions | SplitFail ConnectOptions | SplitOverflow

text \<open>
  \<open>spliteStr\<close> cuts \<open>user/pass@host:port/schema\<close> into the fixed-size buffers of the options
  (\<open>user\<close>, \<open>pass\<close> and \<open>schema\<close> have 32 bytes, the host 128, the local port buffer 32). A field
  that does not leave room for its terminating NUL is written past its buffer.
\<close>

definition spliteStr :: "string \<Rightarrow> ConnectOptions \<Rightarrow> split_result" where
  "spliteStr constr opt =
     (case split_at (CHR ''/'') constr of None \<Rightarrow> SplitFail opt
      | Some (u, s1) \<Rightarrow>
          if 32 \<le> length u then SplitOverflow else
          let opt1 = opt\<lparr>user := u\<rparr> in
          (case split_at (CHR ''@'') s1 of None \<Rightarrow> SplitFail opt1
           | Some (pw, s2) \<Rightarrow>
               if 32 \<le> length pw then SplitOverflow else
               let opt2 = opt1\<lparr>pass := pw\<rparr> in
               (case split_at (CHR '':'') s2 of None \<Rightarrow> SplitFail opt2
                | Some (h, s3) \<Rightarrow>
                    if 128 \<le> length h then SplitOverflow else
                    let opt3 = opt2\<lparr>hostName := h\<rparr> in
                    (case split_at (CHR ''/'') s3 of None \<Rightarrow> SplitFail opt3
                     | Some (pt, s4) \<Rightarrow>
                         if 32 \<le> length pt then SplitOverflow else
                         let opt4 = opt3\<lparr>port := atoi pt\<rparr> in
                         if 32 \<le> length s4 then SplitOverflow
                         else SplitOk (opt4\<lparr>schema := s4\<rparr>)))))"

definition buildConnectOptionsMap :: "ConnectOptions \<Rightarrow> (string \<times> opt_value) list" where
  "buildConnectOptionsMap opt =
     [(''hostName'', OStr (hostName opt)), (''userName'', OStr (user opt)),
      (''password'', OStr (pass opt)), (''schema'', OStr (schema opt)),
      (''port'', OInt (port opt)), (''OPT_RECONNECT'', OBool True),
      (''OPT_CONNECT_TIMEOUT'', OInt (ctimeout opt)), (''OPT_READ_TIMEOUT'', OInt (rtimeout opt)),
      (''OPT_WRITE_TIMEOUT'', OInt (wtimeout opt))]"

section \<open>The pool of one database\<close>

record MySQLSingleDBPool =
  runing :: bool
  connOpt :: ConnectOptions
  freeQueue :: "Connection list"
  usedConns :: int
  connectstr :: string

definition new_MySQLSingleDBPool :: "string \<Rightarrow> int \<Rightarrow> int \<Rightarrow> int \<Rightarrow> MySQLSingleDBPool outcome" where
  "new_MySQLSingleDBPool connstr mn mx i =
     (if 256 \<le> length connstr then Undef
      else Ret \<lparr>runing = False,
        connOpt = \<lparr>co_min = mn, co_max = mx, dbid = i, port = 0, hostName = [], user = [],
          pass = [], schema = [], ctimeout = 30, wtimeout = 30, rtimeout = 60, expiretime = 240\<rparr>,
        freeQueue = [], usedConns = 0, connectstr = connstr\<rparr>)"

fun close_all :: "'d driver \<Rightarrow> Connection list \<Rightarrow> 'd \<Rightarrow> 'd" where
  "close_all drv [] d = d"
| "close_all drv (c # cs) d = close_all drv cs (drv_close drv (conn_id c) d)"

definition sp_ReleaseAll :: "'d driver \<Rightarrow> MySQLSingleDBPool \<Rightarrow> 'd \<Rightarrow> MySQLSingleDBPool \<times> 'd" where
  "sp_ReleaseAll drv p d =
     (if \<not> runing p then (p, d)
      else (p\<lparr>runing := False, freeQueue := []\<rparr>, close_all drv (freeQueue p) d))"

text \<open>The loop of \<open>InitPool\<close> that opens the first \<open>min\<close> connections.\<close>

fun open_min ::
  "'d driver \<Rightarrow> ConnectOptions \<Rightarrow> nat \<Rightarrow> Connection list \<Rightarrow> 'd \<Rightarrow>
     bool outcome \<times> Connection list \<times> 'd" where
  "open_min drv opt 0 q d = (Ret True, q, d)"
| "open_min drv opt (Suc n) q d =
     (case drv_connect drv (buildConnectOptionsMap opt) d of
        (ConnectNull, d') \<Rightarrow> (Ret False, q, d')
      | (ConnectThrows, d') \<Rightarrow> (Throw, q, d')
      | (Connected i junk, d') \<Rightarrow> open_min drv opt n (q @ [mk_Connection opt i junk]) d')"

definition InitPool ::
  "'d driver \<Rightarrow> MySQLSingleDBPool \<Rightarrow> 'd \<Rightarrow> bool outcome \<times> MySQLSingleDBPool \<times> 'd" where
  "InitPool drv p d =
     (if runing p then (Ret False, p, d)
      else case spliteStr (connectstr p) (connOpt p) of
        SplitOverflow \<Rightarrow> (Undef, p, d)
      | SplitFail opt \<Rightarrow> (Ret False, p\<lparr>connOpt := opt\<rparr>, d)
      | SplitOk opt \<Rightarrow>
          let p1 = p\<lparr>connOpt := opt\<rparr> in
          if co_min opt < 1 then (Ret False, p1, d)
          else if co_max opt < co_min opt then (Ret False, p1, d)
          else case open_min drv opt (nat (co_min opt)) (freeQueue p1) d of
            (Ret True, q, d') \<Rightarrow> (Ret True, p1\<lparr>freeQueue := q, runing := True\<rparr>, d')
          | (Ret False, q, d') \<Rightarrow>
              let (p2, d2) = sp_ReleaseAll drv (p1\<lparr>freeQueue := q\<rparr>) d' in (Ret False, p2, d2)
          | (Throw, q, d') \<Rightarrow> (Throw, p1\<lparr>freeQueue := q\<rparr>, d')
          | (Undef, q, d') \<Rightarrow> (Undef, p1\<lparr>freeQueue := q\<rparr>, d'))"

definition sp_GetConnection ::
  "'d driver \<Rightarrow> int \<Rightarrow> MySQLSingleDBPool \<Rightarrow> 'd \<Rightarrow>
     Connection option outcome \<times> MySQLSingleDBPool \<times> 'd" where
  "sp_GetConnection drv now p d =
     (if \<not> runing p then (Ret None, p, d)
      else case freeQueue p of
        c # q \<Rightarrow> let c' = c\<lparr>lastTime := now\<rparr>
                 in (Ret (Some c'), p\<lparr>freeQueue := q, usedConns := usedConns p + 1\<rparr>, d)
      | [] \<Rightarrow>
          if usedConns p \<le> co_max (connOpt p)
          then case drv_connect drv (buildConnectOptionsMap (connOpt p)) d of
                 (ConnectNull, d') \<Rightarrow> (Ret None, p, d')
               | (ConnectThrows, d') \<Rightarrow> (Throw, p, d')
               | (Connected i junk, d') \<Rightarrow>
                   (Ret (Some (mk_Connection (connOpt p) i junk)),
                    p\<lparr>usedConns := usedConns p + 1\<rparr>, d')
          else (Ret None, p, d))"

definition sp_ReleaseConnect ::
  "'d driver \<Rightarrow> int \<Rightarrow> Connection \<Rightarrow> MySQLSingleDBPool \<Rightarrow> 'd \<Rightarrow> MySQLSingleDBPool \<times> 'd" where
  "sp_ReleaseConnect drv now c p d =
     (if runing p \<and> \<not> isErr c
      then (p\<lparr>freeQueue := freeQueue p @ [c\<lparr>lastTime := now, autoCommitCache := True\<rparr>],
              usedConns := usedConns p - 1\<rparr>, d)
      else (p\<lparr>usedConns := usedConns p - 1\<rparr>, drv_close drv (conn_id c) d))"

section \<open>Maintenance of idle connections\<close>

text \<open>
  First loop of \<open>CheckConnection\<close>: while more than \<open>min\<close> connections are queued, take expired
  ones from the front (the result's first part). Second loop: take every expired one.
\<close>

fun take_excess :: "int \<Rightarrow> int \<Rightarrow> int \<Rightarrow> Connection list \<Rightarrow> Connection list \<times> Connection list" where
  "take_excess now mn ex [] = ([], [])"
| "take_excess now mn ex (c # q) =
     (if mn < int (length (c # q)) \<and> \<not> now - lastTime c < ex
      then let (t, q') = take_excess now mn ex q in (c # t, q')
      else ([], c # q))"

fun take_expired :: "int \<Rightarrow> int \<Rightarrow> Connection list \<Rightarrow> Connection list \<times> Connection list" where
  "take_expired now ex [] = ([], [])"
| "take_expired now ex (c # q) =
     (if now - lastTime c < ex then ([], c # q)
      else let (t, q') = take_expired now ex q in (c # t, q'))"

text \<open>
  Third loop: each expired connection is tested with \<open>SELECT 1\<close>; leaving the scope of the
  \<open>ProxStream\<close> gives it back to the pool, marked as broken when the test threw.
\<close>

fun validate_all ::
  "'d driver \<Rightarrow> int \<Rightarrow> Connection list \<Rightarrow> MySQLSingleDBPool \<Rightarrow> 'd \<Rightarrow> MySQLSingleDBPool \<times> 'd" where
  "validate_all drv now [] p d = (p, d)"
| "validate_all drv now (c # cs) p d =
     (let (r, d1) = drv_query drv (conn_id c) ''SELECT 1'' [] d;
          c' = (case r of SqlException \<Rightarrow> c\<lparr>isErr := True\<rparr> | NoRow \<Rightarrow> c | Row _ \<Rightarrow> c);
          (p1, d2) = sp_ReleaseConnect drv now c' p d1
      in validate_all drv now cs p1 d2)"

definition CheckConnection ::
  "'d driver \<Rightarrow> int \<Rightarrow> int \<Rightarrow> MySQLSingleDBPool \<Rightarrow> 'd \<Rightarrow> MySQLSingleDBPool \<times> 'd" where
  "CheckConnection drv now1 now2 p d =
     (let (t1, q1) = take_excess now1 (co_min (connOpt p)) (expiretime (connOpt p)) (freeQueue p);
          p1 = p\<lparr>freeQueue := q1, usedConns := usedConns p - int (length t1)\<rparr>;
          d1 = close_all drv t1 d;
          (t2, q2) = take_expired now2 (expiretime (connOpt p)) (freeQueue p1);
          p2 = p1\<lparr>freeQueue := q2, usedConns := usedConns p1 - int (length t2)\<rparr>
      in validate_all drv now2 t2 p2 d1)"

section \<open>The pools of all databases\<close>

text \<open>\<open>std::map\<close> keeps its entries ordered by key: an association list sorted by key.\<close>

record MySQLDBPool =
  poolMap :: "(int \<times> MySQLSingleDBPool) list"
  m_runing :: bool

fun put_pool :: "int \<Rightarrow> MySQLSingleDBPool \<Rightarrow> (int \<times> MySQLSingleDBPool) list \<Rightarrow>
    (int \<times> MySQLSingleDBPool) list" where
  "put_pool k p [] = [(k, p)]"
| "put_pool k p ((k', p') # m) =
     (if k < k' then (k, p) # (k', p') # m
      else if k = k' then (k, p) # m
      else (k', p') # put_pool k p m)"

definition RegistDataBase ::
  "int \<Rightarrow> string \<Rightarrow> int \<Rightarrow> int \<Rightarrow> MySQLDBPool \<Rightarrow> bool outcome \<times> MySQLDBPool" where
  "RegistDataBase i connstr mn mx P =
     (case map_of (poolMap P) i of
        Some _ \<Rightarrow> (Ret False, P)
      | None \<Rightarrow>
          (case new_MySQLSingleDBPool connstr mn mx i of
             Ret sp \<Rightarrow> (Ret True, P\<lparr>poolMap := put_pool i sp (poolMap P)\<rparr>)
           | Throw \<Rightarrow> (Throw, P)
           | Undef \<Rightarrow> (Undef, P)))"

fun init_pools ::
  "'d driver \<Rightarrow> (int \<times> MySQLSingleDBPool) list \<Rightarrow> 'd \<Rightarrow>
     bool outcome \<times> (int \<times> MySQLSingleDBPool) list \<times> 'd" where
  "init_pools drv [] d = (Ret True, [], d)"
| "init_pools drv ((k, p) # m) d =
     (case InitPool drv p d of
        (Ret True, p', d') \<Rightarrow>
          (case init_pools drv m d' of (r, m', d'') \<Rightarrow> (r, (k, p') # m', d''))
      | (r, p', d') \<Rightarrow> (r, (k, p') # m, d'))"

text \<open>
  \<open>Startup\<close> catches every exception. Its last step starts the maintenance thread;
  \<open>thread_ok\<close> says whether \<open>pthread_create\<close> succeeds.
\<close>

definition Startup ::
  "'d driver \<Rightarrow> bool \<Rightarrow> MySQLDBPool \<Rightarrow> 'd \<Rightarrow> bool outcome \<times> MySQLDBPool \<times> 'd" where
  "Startup drv thread_ok P d =
     (if m_runing P then (Ret False, P, d)
      else case init_pools drv (poolMap P) d of
        (Ret True, m, d') \<Rightarrow> (Ret thread_ok, P\<lparr>m_runing := True, poolMap := m\<rparr>, d')
      | (Undef, m, d') \<Rightarrow> (Undef, P\<lparr>m_runing := True, poolMap := m\<rparr>, d')
      | (_, m, d') \<Rightarrow> (Ret False, P\<lparr>m_runing := True, poolMap := m\<rparr>, d'))"

definition GetConnection ::
  "'d driver \<Rightarrow> int \<Rightarrow> int \<Rightarrow> MySQLDBPool \<Rightarrow> 'd \<Rightarrow>
     Connection option outcome \<times> MySQLDBPool \<times> 'd" where
  "GetConnection drv now i P d =
     (case map_of (poolMap P) i of
        None \<Rightarrow> (Ret None, P, d)
      | Some sp \<Rightarrow>
          (case sp_GetConnection drv now sp d of
             (r, sp', d') \<Rightarrow> (r, P\<lparr>poolMap := put_pool i sp' (poolMap P)\<rparr>, d')))"

definition FreeConnection ::
  "'d driver \<Rightarrow> int \<Rightarrow> Connection option \<Rightarrow> MySQLDBPool \<Rightarrow> 'd \<Rightarrow> MySQLDBPool \<times> 'd" where
  "FreeConnection drv now pConn P d =
     (case pConn of
        None \<Rightarrow> (P, d)
      | Some c \<Rightarrow>
          (case map_of (poolMap P) (conn_dbid c) of
             None \<Rightarrow> (P, drv_close drv (conn_id c) d)
           | Some sp \<Rightarrow>
               (case sp_ReleaseConnect drv now c sp d of
                  (sp', d') \<Rightarrow> (P\<lparr>poolMap := put_pool (conn_dbid c) sp' (poolMap P)\<rparr>, d'))))"

fun release_pools :: "'d driver \<Rightarrow> (int \<times> MySQLSingleDBPool) list \<Rightarrow> 'd \<Rightarrow> 'd" where
  "release_pools drv [] d = d"
| "release_pools drv ((k, p) # m) d = release_pools drv m (snd (sp_ReleaseAll drv p d))"

definition ReleaseAll :: "'d driver \<Rightarrow> MySQLDBPool \<Rightarrow> 'd \<Rightarrow> MySQLDBPool \<times> 'd" where
  "ReleaseAll drv P d = (P\<lparr>m_runing := False, poolMap := []\<rparr>, release_pools drv (poolMap P) d)"

text \<open>One round of the maintenance thread, which runs while \<open>m_runing\<close> holds.\<close>

fun check_pools ::
  "'d driver \<Rightarrow> int \<Rightarrow> int \<Rightarrow> (int \<times> MySQLSingleDBPool) list \<Rightarrow> 'd \<Rightarrow>
     (int \<times> MySQLSingleDBPool) list \<times> 'd" where
  "check_pools drv now1 now2 [] d = ([], d)"
| "check_pools drv now1 now2 ((k, p) # m) d =
     (let (p', d1) = CheckConnection drv now1 now2 p d;
          (m', d2) = check_pools drv now1 now2 m d1
      in ((k, p') # m', d2))"

definition PoolCheckRound :: "'d driver \<Rightarrow> int \<Rightarrow> int \<Rightarrow> MySQLDBPool \<Rightarrow> 'd \<Rightarrow> MySQLDBPool \<times> 'd" where
  "PoolCheckRound drv now1 now2 P d =
     (if m_runing P
      then let (m, d') = check_pools drv now1 now2 (poolMap P) d in (P\<lparr>poolMap := m\<rparr>, d')
      else (P, d))"

text \<open>
  How long the thread sleeps after a round: \<open>CHECK_INTERVAL\<close> less the time the round took, in
  one-second naps, none when the round took longer.
\<close>

definition CHECK_INTERVAL :: int where "CHECK_INTERVAL = 120"

definition check_naps :: "int \<Rightarrow> int \<Rightarrow> nat" where
  "check_naps started finished = nat (CHECK_INTERVAL - (finished - started))"

section \<open>Reading the configuration\<close>

text \<open>
  Reading a connection string gives back the five parts it was written from, for every
  user without a slash, password without an at sign, host without a colon and any port, as long
  as each part fits its buffer.
\<close>

theorem spliteStr_roundtrip:
  assumes "CHR ''/'' \<notin> set u" "CHR ''@'' \<notin> set pw" "CHR '':'' \<notin> set h"
    and "length u < 32" "length pw < 32" "length h < 128" "length sc < 32"
    and "0 \<le> pt" "pt < 65536"
  shows "spliteStr (u @ ''/'' @ pw @ ''@'' @ h @ '':'' @ show_int pt @ ''/'' @ sc) opt =
    SplitOk (opt\<lparr>user := u, pass := pw, hostName := h, port := pt, schema := sc\<rparr>)"
proof -
  have "length (show_nat (nat pt)) \<le> Suc 4" using assms by (intro length_show_nat) simp
  moreover have "CHR ''/'' \<notin> set (show_int pt)"
    using assms(8) show_nat_digits [of "nat pt"] digit_not_special
    by (auto simp: show_int_def list_all_iff)
  moreover have "atoi (show_int pt) = pt" using assms by (intro atoi_show_int) simp_all
  ultimately show ?thesis
    using assms by (simp add: spliteStr_def show_int_def)
qed

definition demo_opt :: ConnectOptions where
  "demo_opt = \<lparr>co_min = 1, co_max = 2, dbid = 0, port = 0, hostName = [], user = [], pass = [],
     schema = [], ctimeout = 30, wtimeout = 30, rtimeout = 60, expiretime = 240\<rparr>"

theorem spliteStr_roundtrip_witness:
  "spliteStr (''root'' @ ''/'' @ ''1'' @ ''@'' @ ''127.0.0.1'' @ '':'' @ show_int 3306 @ ''/'' @ ''test'') demo_opt
     = SplitOk (demo_opt\<lparr>user := ''root'', pass := ''1'', hostName := ''127.0.0.1'', port := 3306,
         schema := ''test''\<rparr>)"
  by (rule spliteStr_roundtrip) simp_all

lemma split_at_lengths: "split_at c s = Some (a, b) \<Longrightarrow> length a < length s \<and> length b < length s"
  by (drule split_at_SomeD) auto

text \<open>
  A connection string shorter than 32 characters never overruns a buffer, whatever it
  contains.
\<close>

theorem spliteStr_short_safe:
  assumes "length s < 32"
  shows "spliteStr s opt \<noteq> SplitOverflow"
proof
  assume "spliteStr s opt = SplitOverflow"
  then have "32 \<le> length s"
    by (simp add: spliteStr_def Let_def split: option.splits if_splits prod.splits)
      ((drule split_at_lengths)+, linarith)+
  with assms show False by simp
qed

theorem spliteStr_short_safe_witness: "spliteStr ''root/1@127.0.0.1:3306/test'' demo_opt \<noteq> SplitOverflow"
  by (rule spliteStr_short_safe) simp

section \<open>Accounting of connections\<close>

text \<open>
  What the pool relies on in a driver: connections it opens are new, and no other call makes
  an old identity new again.
\<close>

locale sql_driver =
  fixes drv :: "'d driver" and next_id :: "'d \<Rightarrow> nat"
  assumes connect_fresh: "drv_connect drv m d = (Connected i j, d') \<Longrightarrow> next_id d \<le> i \<and> i < next_id d'"
    and connect_mono: "next_id d \<le> next_id (snd (drv_connect drv m d))"
    and close_mono: "next_id d \<le> next_id (drv_close drv i d)"
    and query_mono: "next_id d \<le> next_id (snd (drv_query drv i q ps d))"

text \<open>
  Clients take connections and give them back, possibly marked as broken; the second component
  lists the connections in the hands of clients.
\<close>

type_synonym 'd pool_state = "MySQLSingleDBPool \<times> Connection list \<times> 'd"

inductive pool_step :: "'d driver \<Rightarrow> 'd pool_state \<Rightarrow> 'd pool_state \<Rightarrow> bool" for drv where
  get: "sp_GetConnection drv now p d = (Ret (Some c), p', d') \<Longrightarrow>
    pool_step drv (p, out, d) (p', c # out, d')"
| get_none: "sp_GetConnection drv now p d = (r, p', d') \<Longrightarrow> \<forall>c. r \<noteq> Ret (Some c) \<Longrightarrow>
    pool_step drv (p, out, d) (p', out, d')"
| release: "sp_ReleaseConnect drv now (c\<lparr>isErr := e\<rparr>) p d = (p', d') \<Longrightarrow>
    pool_step drv (p, xs @ c # ys, d) (p', xs @ ys, d')"

inductive_cases pool_stepE: "pool_step drv (p, out, d) (p', out', d')"

definition pool_ids :: "MySQLSingleDBPool \<Rightarrow> Connection list \<Rightarrow> nat list" where
  "pool_ids p out = map conn_id (freeQueue p @ out)"

definition pool_inv :: "('d \<Rightarrow> nat) \<Rightarrow> 'd pool_state \<Rightarrow> bool" where
  "pool_inv nid s = (case s of (p, out, d) \<Rightarrow>
     usedConns p = int (length out)
     \<and> int (length (pool_ids p out)) \<le> co_max (connOpt p) + 1
     \<and> distinct (pool_ids p out) \<and> (\<forall>i \<in> set (pool_ids p out). i < nid d))"

text \<open>Moving a connection between the queue and a client, and dropping one, keep identities apart.\<close>

lemma pool_inv_move:
  assumes "pool_inv nid (p, out, d)" and "mset (pool_ids p' out') = mset (pool_ids p out)"
    and "connOpt p' = connOpt p" and "usedConns p' = int (length out')" and "nid d \<le> nid d'"
  shows "pool_inv nid (p', out', d')"
proof -
  have "distinct (pool_ids p' out') = distinct (pool_ids p out)"
    and "set (pool_ids p' out') = set (pool_ids p out)"
    and "length (pool_ids p' out') = length (pool_ids p out)"
    using assms(2) by (auto dest: mset_eq_imp_distinct_iff mset_eq_setD mset_eq_length)
  with assms show ?thesis by (force simp: pool_inv_def)
qed

lemma pool_inv_drop:
  assumes "pool_inv nid (p, out, d)" and "pool_ids p out = as @ i # bs" and "pool_ids p' out' = as @ bs"
    and "connOpt p' = connOpt p" and "usedConns p' = int (length out')" and "nid d \<le> nid d'"
  shows "pool_inv nid (p', out', d')"
  using assms by (simp add: pool_inv_def) (meson UnI1 UnI2 order_less_le_trans)

context sql_driver
begin

lemma get_inv:
  assumes "sp_GetConnection drv now p d = (Ret (Some c), p', d')" and "pool_inv next_id (p, out, d)"
  shows "pool_inv next_id (p', c # out, d')"
proof (cases "freeQueue p")
  case (Cons c0 q)
  with assms(1) have "p' = p\<lparr>freeQueue := q, usedConns := usedConns p + 1\<rparr>" "c = c0\<lparr>lastTime := now\<rparr>" "d' = d"
    by (auto simp: sp_GetConnection_def Let_def split: if_splits)
  with Cons assms(2) show ?thesis
    by (intro pool_inv_move [OF assms(2)]) (auto simp: pool_ids_def pool_inv_def)
next
  case Nil
  with assms(1) obtain j where con: "drv_connect drv (buildConnectOptionsMap (connOpt p)) d = (Connected (conn_id c) j, d')"
    and u: "usedConns p \<le> co_max (connOpt p)" and p': "p' = p\<lparr>usedConns := usedConns p + 1\<rparr>"
    by (auto simp: sp_GetConnection_def mk_Connection_def split: if_splits prod.splits connect_reply.splits)
  have "next_id d \<le> conn_id c" "conn_id c < next_id d'" using connect_fresh [OF con] by auto
  with assms(2) Nil u p' show ?thesis by (force simp: pool_inv_def pool_ids_def)
qed

lemma release_inv:
  assumes "sp_ReleaseConnect drv now (c\<lparr>isErr := e\<rparr>) p d = (p', d')"
    and "pool_inv next_id (p, xs @ c # ys, d)"
  shows "pool_inv next_id (p', xs @ ys, d')"
proof (cases "runing p \<and> \<not> e")
  case True
  with assms show ?thesis
    by (intro pool_inv_move [OF assms(2)]) (auto simp: sp_ReleaseConnect_def pool_ids_def pool_inv_def)
next
  case False
  with assms close_mono [of d "conn_id c"] show ?thesis
    by (intro pool_inv_drop [OF assms(2), of "map conn_id (freeQueue p @ xs)" "conn_id c" "map conn_id ys"])
      (auto simp: sp_ReleaseConnect_def pool_ids_def pool_inv_def split: if_splits)
qed

lemma get_none_inv:
  assumes "sp_GetConnection drv now p d = (r, p', d')" "\<forall>c. r \<noteq> Ret (Some c)"
    and "pool_inv next_id (p, out, d)"
  shows "pool_inv next_id (p', out, d')"
proof -
  have "p' = p \<and> next_id d \<le> next_id d'"
    using assms(1,2) connect_mono [of d "buildConnectOptionsMap (connOpt p)"]
    by (auto simp: sp_GetConnection_def Let_def split: if_splits list.splits prod.splits connect_reply.splits)
  with assms(3) show ?thesis by (force simp: pool_inv_def)
qed

lemma steps_inv:
  "(pool_step drv)\<^sup>*\<^sup>* s t \<Longrightarrow> pool_inv next_id s \<Longrightarrow> pool_inv next_id t"
  by (induction rule: rtranclp_induct)
    (auto elim!: pool_step.cases intro: get_inv get_none_inv release_inv)

lemma open_min_ids:
  assumes "open_min drv opt n q d = (r, q', d')"
    and "distinct (map conn_id q)" "\<forall>i \<in> set (map conn_id q). i < next_id d"
  shows "distinct (map conn_id q')" and "\<forall>i \<in> set (map conn_id q'). i < next_id d'"
    and "length q' \<le> length q + n" and "r = Ret True \<Longrightarrow> length q' = length q + n"
proof -
  have "distinct (map conn_id q') \<and> (\<forall>i \<in> set (map conn_id q'). i < next_id d')
    \<and> length q' \<le> length q + n \<and> (r = Ret True \<longrightarrow> length q' = length q + n)"
    using assms
  proof (induction n arbitrary: q d)
    case 0
    then show ?case by auto
  next
    case (Suc n)
    obtain x d1 where c: "drv_connect drv (buildConnectOptionsMap opt) d = (x, d1)" by fastforce
    then have m: "next_id d \<le> next_id d1" using connect_mono [of d "buildConnectOptionsMap opt"] by simp
    show ?case
    proof (cases x)
      case (Connected i j)
      have i: "next_id d \<le> i" "i < next_id d1" using connect_fresh c Connected by blast+
      let ?q = "q @ [mk_Connection opt i j]"
      have "distinct (map conn_id ?q)" "\<forall>k \<in> set (map conn_id ?q). k < next_id d1"
        using Suc.prems(2,3) i by (auto simp: mk_Connection_def)
      from Suc.IH [OF _ this] Suc.prems(1) c Connected show ?thesis by simp
    qed (use Suc.prems c m in force)+
  qed
  then show "distinct (map conn_id q')" "\<forall>i \<in> set (map conn_id q'). i < next_id d'"
    "length q' \<le> length q + n" "r = Ret True \<Longrightarrow> length q' = length q + n" by auto
qed

lemma init_inv:
  assumes "InitPool drv p0 d0 = (Ret True, p1, d1)" and "freeQueue p0 = []" "usedConns p0 = 0"
  shows "pool_inv next_id (p1, [], d1)" and "runing p1" and "connectstr p1 = connectstr p0"
    and "1 \<le> co_min (connOpt p1)" and "int (length (freeQueue p1)) = co_min (connOpt p1)"
proof -
  from assms obtain opt q where q: "open_min drv opt (nat (co_min opt)) [] d0 = (Ret True, q, d1)"
    and p1: "p1 = p0\<lparr>connOpt := opt, freeQueue := q, runing := True\<rparr>"
    and mm: "1 \<le> co_min opt" "co_min opt \<le> co_max opt"
    by (auto simp: InitPool_def Let_def split: if_splits split_result.splits prod.splits outcome.splits bool.splits)
  from open_min_ids [OF q] mm p1 assms(3)
  show "pool_inv next_id (p1, [], d1)" "runing p1" "connectstr p1 = connectstr p0"
    "1 \<le> co_min (connOpt p1)" "int (length (freeQueue p1)) = co_min (connOpt p1)"
    by (auto simp: pool_inv_def pool_ids_def)
qed

end

text \<open>The maximum of a pool never changes while clients use it.\<close>

lemma pool_step_connOpt: "pool_step drv s t \<Longrightarrow> connOpt (fst t) = connOpt (fst s)"
  by (auto elim!: pool_step.cases simp: sp_GetConnection_def sp_ReleaseConnect_def Let_def
      split: if_splits list.splits prod.splits connect_reply.splits)

text \<open>
  C29: while clients only take and return connections, the pool counts them correctly. From a
  pool that has just started, after any sequence of \<open>GetConnection\<close> and \<open>ReleaseConnect\<close>
  calls (returned connections may be marked broken), \<open>usedConns\<close> is the number of connections
  in use, there are never more than \<open>max + 1\<close> connections, and no connection is in the hands
  of two clients or both free and in use.
\<close>

theorem pool_accounting:
  assumes "sql_driver drv nid" and "InitPool drv p0 d0 = (Ret True, p1, d1)"
    and "freeQueue p0 = []" and "usedConns p0 = 0"
    and "(pool_step drv)\<^sup>*\<^sup>* (p1, [], d1) (p, out, d)"
  shows "usedConns p = int (length out)
    \<and> int (length (freeQueue p) + length out) \<le> co_max (connOpt p1) + 1
    \<and> distinct (map conn_id (freeQueue p @ out))"
proof -
  have "pool_inv nid (p, out, d)"
    using sql_driver.steps_inv [OF assms(1,5)] sql_driver.init_inv(1) [OF assms(1,2,3,4)] .
  moreover have "connOpt (fst t) = connOpt (fst s)" if "(pool_step drv)\<^sup>*\<^sup>* s t" for s t
    using that by (induction rule: rtranclp_induct) (auto dest: pool_step_connOpt)
  from this [OF assms(5)] have "connOpt p = connOpt p1" by simp
  ultimately show ?thesis by (simp add: pool_inv_def pool_ids_def)
qed

section \<open>Maintenance\<close>

lemma take_excess_split:
  "take_excess now mn ex q = (t, q') \<Longrightarrow>
     q = t @ q' \<and> (\<forall>c \<in> set t. \<not> now - lastTime c < ex)
     \<and> (q' = [] \<or> int (length q') \<le> mn \<or> now - lastTime (hd q') < ex)"
  by (induction q arbitrary: t) (auto split: if_splits prod.splits)

lemma take_expired_split:
  "take_expired now ex q = (t, q') \<Longrightarrow>
     q = t @ q' \<and> (\<forall>c \<in> set t. \<not> now - lastTime c < ex)
     \<and> (q' = [] \<or> now - lastTime (hd q') < ex)"
  by (induction q arbitrary: t) (auto split: if_splits prod.splits)

lemma validate_all_frame:
  "validate_all drv now cs p d = (p', d') \<Longrightarrow>
     connOpt p' = connOpt p \<and> runing p' = runing p \<and> usedConns p' = usedConns p - int (length cs)
     \<and> (\<exists>bs. freeQueue p' = freeQueue p @ bs \<and> (\<forall>c \<in> set bs. lastTime c = now) \<and> length bs \<le> length cs)"
proof (induction cs arbitrary: p d)
  case Nil
  then show ?case by simp
next
  case (Cons c cs)
  obtain r d1 where q: "drv_query drv (conn_id c) ''SELECT 1'' [] d = (r, d1)" by fastforce
  define c' where "c' = (case r of SqlException \<Rightarrow> c\<lparr>isErr := True\<rparr> | NoRow \<Rightarrow> c | Row _ \<Rightarrow> c)"
  obtain p1 d2 where rel: "sp_ReleaseConnect drv now c' p d1 = (p1, d2)" by fastforce
  have rest: "validate_all drv now cs p1 d2 = (p', d')"
    using Cons.prems q rel by (simp add: c'_def)
  obtain bs where "freeQueue p' = freeQueue p1 @ bs" "\<forall>c \<in> set bs. lastTime c = now" "length bs \<le> length cs"
    using Cons.IH [OF rest] by blast
  moreover have "(freeQueue p1 = freeQueue p @ [c'\<lparr>lastTime := now, autoCommitCache := True\<rparr>]
      \<or> freeQueue p1 = freeQueue p) \<and> connOpt p1 = connOpt p \<and> runing p1 = runing p
      \<and> usedConns p1 = usedConns p - 1"
    using rel by (auto simp: sp_ReleaseConnect_def split: if_splits)
  ultimately show ?case using Cons.IH [OF rest] by fastforce
qed

lemma usedConns_CheckConnection:
  assumes "take_excess now1 (co_min (connOpt p)) (expiretime (connOpt p)) (freeQueue p) = (t1, q1)"
    and "take_expired now2 (expiretime (connOpt p)) q1 = (t2, q2)"
  shows "usedConns (fst (CheckConnection drv now1 now2 p d)) =
    usedConns p - int (length t1) - 2 * int (length t2)"
proof -
  let ?p2 = "p\<lparr>freeQueue := q2, usedConns := usedConns p - int (length t1) - int (length t2)\<rparr>"
  obtain p' d' where v: "validate_all drv now2 t2 ?p2 (close_all drv t1 d) = (p', d')" by fastforce
  with assms have "CheckConnection drv now1 now2 p d = (p', d')" by (simp add: CheckConnection_def)
  with validate_all_frame [OF v] show ?thesis by simp
qed

text \<open>
  What a maintenance round does to the count. It lowers \<open>usedConns\<close> by one for every idle
  connection it closes and by two for every idle connection it tests, although an idle
  connection was never counted as used.
\<close>

theorem CheckConnection_accounting:
  assumes "take_excess now1 (co_min (connOpt p)) (expiretime (connOpt p)) (freeQueue p) = (t1, q1)"
    and "take_expired now2 (expiretime (connOpt p)) q1 = (t2, q2)"
  shows "usedConns (fst (CheckConnection drv now1 now2 p d)) =
    usedConns p - int (length t1) - 2 * int (length t2)"
  using assms by (rule usedConns_CheckConnection)

definition demo_driver :: "nat driver" where
  "demo_driver = \<lparr>drv_connect = (\<lambda>m d. (Connected d 0, d + 1)), drv_close = (\<lambda>i d. d),
     drv_query = (\<lambda>i q ps d. (Row ''1'', d))\<rparr>"

definition demo_pool :: MySQLSingleDBPool where
  "demo_pool = \<lparr>runing = True, connOpt = demo_opt,
     freeQueue = [mk_Connection demo_opt 0 0, mk_Connection demo_opt 1 10, mk_Connection demo_opt 2 900],
     usedConns = 0, connectstr = []\<rparr>"

theorem CheckConnection_accounting_witness:
  "usedConns (fst (CheckConnection demo_driver 1000 1000 demo_pool 7)) = 0 - int 2 - 2 * int 0"
proof -
  have t: "take_excess 1000 (co_min (connOpt demo_pool)) (expiretime (connOpt demo_pool)) (freeQueue demo_pool)
      = ([mk_Connection demo_opt 0 0, mk_Connection demo_opt 1 10], [mk_Connection demo_opt 2 900])"
    "take_expired 1000 (expiretime (connOpt demo_pool)) [mk_Connection demo_opt 2 900]
      = ([], [mk_Connection demo_opt 2 900])"
    by (simp_all add: demo_pool_def demo_opt_def mk_Connection_def)
  show ?thesis using CheckConnection_accounting [OF t, of demo_driver 7] by (simp add: demo_pool_def)
qed

text \<open>
  The count of an idle pool becomes negative. When nothing is in use and the connection at
  the front of the queue has expired, a maintenance round leaves \<open>usedConns\<close> below zero, so
  that the pool afterwards hands out more connections than its limit.
\<close>

theorem CheckConnection_negative:
  assumes "usedConns p = 0" and "freeQueue p = c # q"
    and "\<not> now1 - lastTime c < expiretime (connOpt p)" and "now1 \<le> now2"
  shows "usedConns (fst (CheckConnection drv now1 now2 p d)) < 0"
proof -
  obtain t1 q1 where t1: "take_excess now1 (co_min (connOpt p)) (expiretime (connOpt p)) (freeQueue p) = (t1, q1)"
    by fastforce
  obtain t2 q2 where t2: "take_expired now2 (expiretime (connOpt p)) q1 = (t2, q2)" by fastforce
  have "t1 \<noteq> [] \<or> q1 = c # q" using take_excess_split [OF t1] assms(2) by (cases t1) auto
  then have "t1 \<noteq> [] \<or> t2 \<noteq> []" using t2 assms(3,4) by (auto split: prod.splits)
  then have "0 < length t1 + length t2" by auto
  then show ?thesis unfolding usedConns_CheckConnection [OF t1 t2] using assms(1) by linarith
qed

theorem CheckConnection_negative_witness:
  "usedConns (fst (CheckConnection demo_driver 1000 1001 demo_pool 7)) < 0"
  by (rule CheckConnection_negative [of demo_pool "mk_Connection demo_opt 0 0"
        "[mk_Connection demo_opt 1 10, mk_Connection demo_opt 2 900]"])
    (simp_all add: demo_pool_def demo_opt_def mk_Connection_def)

text \<open>
  A maintenance round leaves no expired connection in the queue. If the queue is ordered by
  the time of last use (connections are always added at its end), then stopping at the first
  connection that has not expired loses none: afterwards every queued connection was used or
  tested less than \<open>expiretime\<close> seconds ago.
\<close>

theorem CheckConnection_removes_expired:
  assumes "sorted (map lastTime (freeQueue p))" and "0 < expiretime (connOpt p)"
  shows "\<forall>c \<in> set (freeQueue (fst (CheckConnection drv now1 now2 p d))).
    now2 - lastTime c < expiretime (connOpt p)"
proof -
  obtain t1 q1 where t1: "take_excess now1 (co_min (connOpt p)) (expiretime (connOpt p)) (freeQueue p) = (t1, q1)"
    by fastforce
  obtain t2 q2 where t2: "take_expired now2 (expiretime (connOpt p)) q1 = (t2, q2)" by fastforce
  let ?p2 = "p\<lparr>freeQueue := q2, usedConns := usedConns p - int (length t1) - int (length t2)\<rparr>"
  obtain p' d' where v: "validate_all drv now2 t2 ?p2 (close_all drv t1 d) = (p', d')" by fastforce
  have p': "fst (CheckConnection drv now1 now2 p d) = p'"
    using t1 t2 v by (simp add: CheckConnection_def)
  have q: "freeQueue p = t1 @ t2 @ q2" "q2 = [] \<or> now2 - lastTime (hd q2) < expiretime (connOpt p)"
    using take_excess_split [OF t1] take_expired_split [OF t2] by auto
  then have "sorted (map lastTime q2)" using assms(1) by (simp add: sorted_append)
  with q(2) have "\<forall>c \<in> set q2. now2 - lastTime c < expiretime (connOpt p)" by (cases q2) auto
  moreover obtain bs where "freeQueue p' = q2 @ bs" "\<forall>c \<in> set bs. lastTime c = now2"
    using validate_all_frame [OF v] by auto
  ultimately show ?thesis using p' assms(2) by auto
qed

theorem CheckConnection_removes_expired_witness:
  "list_all (\<lambda>c. 1200 - lastTime c < 240) (freeQueue (fst (CheckConnection demo_driver 1000 1200 demo_pool 7)))"
  using CheckConnection_removes_expired [of demo_pool demo_driver 1000 1200 7]
  by (simp add: list_all_iff demo_pool_def demo_opt_def mk_Connection_def)

end
