(* ===== verification/SeqTable.thy ===== *)
theory SeqTable
  imports DbPool
begin

text \<open>
  The database side of the sequences (tests/init.sql): the table \<open>t_sequence\<close> and the stored
  function \<open>seq_nextval_v2\<close>, which claims a block of values by an optimistic update and tries
  again when another session was faster. Other sessions are a function \<open>others\<close>, applied at
  every point where MySQL may run them: it may change the table, and is numbered by a tick so
  that it may do something else each time. A driver over this table instantiates the interface
  of the connection pool.
\<close>

section \<open>The table and the stored function\<close>

record seq_row =
  row_value :: int
  row_step :: int
  row_algorithm :: int

type_synonym seq_table = "string \<Rightarrow> seq_row option"

record mysql =
  my_next :: nat
  my_tick :: nat
  my_tbl :: seq_table

definition block_text :: "int \<Rightarrow> int \<Rightarrow> string" where
  "block_text v inc = show_int v @ '','' @ show_int inc"

text \<open>
  One pass of the loop reads \<open>value + step\<close> and \<open>step\<close>, and writes the sum where the value is
  still the one read. \<open>ROW_COUNT\<close> counts changed rows, so a step of 0 never succeeds. A sum
  outside BIGINT is an SQL error, the result None.
\<close>

fun nextval_loop ::
  "(nat \<Rightarrow> seq_table \<Rightarrow> seq_table) \<Rightarrow> string \<Rightarrow> nat \<Rightarrow> nat \<Rightarrow> seq_table \<Rightarrow> string option \<times> nat \<times> seq_table" where
  "nextval_loop others name 0 tick tbl = (Some ''-1,0'', tick, tbl)"
| "nextval_loop others name (Suc n) tick tbl =
     (let t0 = others tick tbl in
      case t0 name of
        None \<Rightarrow> nextval_loop others name n (Suc (Suc tick)) t0
      | Some r \<Rightarrow>
          let val = row_value r + row_step r; inc = row_step r;
              t1 = others (Suc tick) t0
          in if val < LONG_MIN \<or> LONG_MAX < val then (None, Suc tick, t0)
             else case t1 name of
               None \<Rightarrow> nextval_loop others name n (Suc (Suc tick)) t1
             | Some r1 \<Rightarrow>
                 if row_value r1 = val - inc \<and> row_value r1 \<noteq> val
                 then (Some (block_text (val - inc) inc), Suc (Suc tick), t1(name \<mapsto> r1\<lparr>row_value := val\<rparr>))
                 else nextval_loop others name n (Suc (Suc tick)) t1)"

definition seq_nextval_v2 ::
  "(nat \<Rightarrow> seq_table \<Rightarrow> seq_table) \<Rightarrow> string \<Rightarrow> nat \<Rightarrow> seq_table \<Rightarrow> string option \<times> nat \<times> seq_table" where
  "seq_nextval_v2 others name tick tbl = nextval_loop others name 100 tick tbl"

text \<open>Other sessions run the same function: they keep the rows and only raise the values.\<close>

fun row_advances :: "seq_row option \<Rightarrow> seq_row option \<Rightarrow> bool" where
  "row_advances None x = (x = None)"
| "row_advances (Some r) None = False"
| "row_advances (Some r) (Some r') =
     (row_value r \<le> row_value r' \<and> row_step r' = row_step r \<and> row_algorithm r' = row_algorithm r)"

definition advances :: "seq_table \<Rightarrow> seq_table \<Rightarrow> bool" where
  "advances t t' \<longleftrightarrow> (\<forall>n. row_advances (t n) (t' n))"

definition fair_others :: "(nat \<Rightarrow> seq_table \<Rightarrow> seq_table) \<Rightarrow> bool" where
  "fair_others others \<longleftrightarrow> (\<forall>k t. advances t (others k t))"

section \<open>The statements the program sends\<close>

definition sql_nextval :: string where "sql_nextval = ''SELECT seq_nextval_v2(?)''"
definition sql_algorithm :: string where
  "sql_algorithm = ''select algorithm from t_sequence where name=?''"

definition mysql_query ::
  "(nat \<Rightarrow> seq_table \<Rightarrow> seq_table) \<Rightarrow> string \<Rightarrow> string list \<Rightarrow> mysql \<Rightarrow> query_reply \<times> mysql" where
  "mysql_query others sql args d =
     (if sql = sql_nextval
      then case seq_nextval_v2 others (hd args) (my_tick d) (my_tbl d) of
             (Some s, tick', tbl') \<Rightarrow> (Row s, d\<lparr>my_tick := tick', my_tbl := tbl'\<rparr>)
           | (None, tick', tbl') \<Rightarrow> (SqlException, d\<lparr>my_tick := tick', my_tbl := tbl'\<rparr>)
      else if sql = sql_algorithm
      then case my_tbl d (hd args) of
             None \<Rightarrow> (NoRow, d)
           | Some r \<Rightarrow> (Row (show_int (row_algorithm r)), d)
      else if sql = ''SELECT 1'' then (Row ''1'', d)
      else (SqlException, d))"

definition mysql_driver :: "(nat \<Rightarrow> seq_table \<Rightarrow> seq_table) \<Rightarrow> mysql driver" where
  "mysql_driver others =
     \<lparr>drv_connect = (\<lambda>m d. (Connected (my_next d) 0, d\<lparr>my_next := Suc (my_next d)\<rparr>)),
      drv_close = (\<lambda>i d. d),
      drv_query = (\<lambda>i sql args d. mysql_query others sql args d)\<rparr>"

section \<open>What the stored function promises\<close>

lemma row_advances_refl: "row_advances x x"
  by (cases x) simp_all

lemma row_advances_trans: "row_advances x y \<Longrightarrow> row_advances y z \<Longrightarrow> row_advances x z"
  by (cases x; cases y; cases z) simp_all

lemma advances_refl: "advances t t"
  by (simp add: advances_def row_advances_refl)

lemma advances_trans: "advances t u \<Longrightarrow> advances u v \<Longrightarrow> advances t v"
  unfolding advances_def by (blast intro: row_advances_trans)

lemma advances_update:
  "t n = Some r \<Longrightarrow> row_value r \<le> v \<Longrightarrow> advances t (t(n \<mapsto> r\<lparr>row_value := v\<rparr>))"
  by (simp add: advances_def row_advances_refl)

lemma advances_row:
  assumes "advances t u" and "u n = Some q"
  obtains r where "t n = Some r" "row_value r \<le> row_value q" "row_step q = row_step r"
    "row_algorithm q = row_algorithm r"
  using assms unfolding advances_def by (cases "t n") (metis row_advances.simps)+

lemma advances_row_fwd:
  assumes "advances t u" and "t n = Some r"
  obtains q where "u n = Some q" "row_value r \<le> row_value q" "row_step q = row_step r"
    "row_algorithm q = row_algorithm r"
  using assms unfolding advances_def by (cases "u n") (metis row_advances.simps)+

text \<open>
  A call either gives up, or claims the block after some value \<open>v\<close> that is at least the value
  stored when the call began, and stores \<open>v + step\<close>.
\<close>

definition claims :: "seq_table \<Rightarrow> seq_table \<Rightarrow> string \<Rightarrow> string \<Rightarrow> bool" where
  "claims t t' name s \<longleftrightarrow> (\<exists>r r' v. t name = Some r \<and> t' name = Some r'
    \<and> row_value r \<le> v \<and> s = block_text v (row_step r) \<and> row_value r' = v + row_step r
    \<and> v + row_step r \<le> LONG_MAX)"

lemma claims_before:
  assumes "advances t u" and "claims u t' name s"
  shows "claims t t' name s"
proof -
  obtain q r' v where q: "u name = Some q" "t' name = Some r'" "row_value q \<le> v"
    "s = block_text v (row_step q)" "row_value r' = v + row_step q" "v + row_step q \<le> LONG_MAX"
    using assms(2) unfolding claims_def by blast
  obtain r where "t name = Some r" "row_value r \<le> row_value q" "row_step q = row_step r"
    by (rule advances_row [OF assms(1) q(1)])
  with q show ?thesis unfolding claims_def by auto
qed

lemma nextval_loop_claims:
  assumes "fair_others others" and "\<forall>r. tbl name = Some r \<longrightarrow> 0 < row_step r"
    and "nextval_loop others name n tick tbl = (s, tick', tbl')"
  shows "advances tbl tbl' \<and> (s = None \<or> s = Some ''-1,0'' \<or> (\<exists>str. s = Some str \<and> claims tbl tbl' name str))"
  using assms(2,3)
proof (induction n arbitrary: tick tbl)
  case 0
  then show ?case by (simp add: advances_refl)
next
  case (Suc n)
  have f: "advances t (others k t)" for k t using assms(1) by (simp add: fair_others_def)
  let ?t0 = "others tick tbl" and ?t1 = "others (Suc tick) (others tick tbl)"
  have a0: "advances tbl ?t0" and a1: "advances tbl ?t1" by (blast intro: f advances_trans)+
  have again: ?case if "advances tbl u" "nextval_loop others name n k u = (s, tick', tbl')" for u k
  proof -
    have "\<forall>r. u name = Some r \<longrightarrow> 0 < row_step r"
      using Suc.prems(1) that(1) by (metis advances_row)
    then have "advances u tbl' \<and> (s = None \<or> s = Some ''-1,0'' \<or> (\<exists>str. s = Some str \<and> claims u tbl' name str))" using Suc.IH that(2) by blast
    with that(1) show ?thesis by (blast intro: advances_trans claims_before)
  qed
  show ?case
  proof (cases "?t0 name")
    case None
    with Suc.prems(2) show ?thesis by (intro again [OF a0]) simp
  next
    case (Some r)
    obtain r1 where r1: "?t1 name = Some r1" by (rule advances_row_fwd [OF f [of ?t0 "Suc tick"] Some])
    obtain r0 where r0: "tbl name = Some r0" "row_value r0 \<le> row_value r" "row_step r = row_step r0"
      by (rule advances_row [OF a0 Some])
    consider (err) "row_value r + row_step r < LONG_MIN \<or> LONG_MAX < row_value r + row_step r"
      | (won) "row_value r1 = row_value r \<and> row_step r \<noteq> 0" "LONG_MIN \<le> row_value r + row_step r"
          "row_value r + row_step r \<le> LONG_MAX"
      | (lost) "\<not> (row_value r1 = row_value r \<and> row_step r \<noteq> 0)" "LONG_MIN \<le> row_value r + row_step r"
          "row_value r + row_step r \<le> LONG_MAX" by linarith
    then show ?thesis
    proof cases
      case err
      with Some Suc.prems(2) have "s = None" "tbl' = ?t0" by (simp_all add: Let_def)
      with a0 show ?thesis by simp
    next
      case won
      with Some r1 Suc.prems(2) have s: "s = Some (block_text (row_value r) (row_step r))"
        "tbl' = ?t1(name \<mapsto> r1\<lparr>row_value := row_value r + row_step r\<rparr>)" by (simp_all add: Let_def)
      have "row_value r1 \<le> row_value r + row_step r"
        using won r0 Suc.prems(1) by simp
      then have "advances ?t1 tbl'" unfolding s(2)
        by (rule advances_update [where t = ?t1 and n = name, OF r1])
      with a1 have "advances tbl tbl'" by (rule advances_trans)
      moreover have "claims tbl tbl' name (block_text (row_value r) (row_step r))" using s r0 won by (simp add: claims_def)
      ultimately show ?thesis using s(1) by blast
    next
      case lost
      with Some r1 Suc.prems(2) show ?thesis by (intro again [OF a1]) (auto simp: Let_def)
    qed
  qed
qed

interpretation mysql: sql_driver "mysql_driver others" my_next for others
  by unfold_locales
    (auto simp: mysql_driver_def mysql_query_def split: option.splits prod.splits)

section \<open>Blocks claimed by any number of sessions\<close>

text \<open>
  A call of the stored function as one step on the table: the first number and the length of the
  block it claims, or none when it gave up or failed.
\<close>

definition claim_call ::
  "string \<Rightarrow> nat \<times> seq_table \<Rightarrow> (nat \<Rightarrow> seq_table \<Rightarrow> seq_table) \<Rightarrow> (nat \<times> seq_table) \<times> (int \<times> int) option" where
  "claim_call name x others = (case seq_nextval_v2 others name (fst x) (snd x) of
     (None, tick, tbl) \<Rightarrow> ((tick, tbl), None)
   | (Some s, tick, tbl) \<Rightarrow> ((tick, tbl),
       if s = ''-1,0'' then None
       else map_option (\<lambda>(a, b). (atol a, atol b)) (split_at (CHR '','') s)))"

definition claim_inv :: "string \<Rightarrow> int \<Rightarrow> nat \<times> seq_table \<Rightarrow> bool" where
  "claim_inv name S x \<longleftrightarrow> 0 < S \<and> S < 2 ^ 31 \<and> (case snd x name of None \<Rightarrow> False
     | Some r \<Rightarrow> row_step r = S \<and> 0 \<le> row_value r)"

definition claim_pos :: "string \<Rightarrow> nat \<times> seq_table \<Rightarrow> int" where
  "claim_pos name x = row_value (the (snd x name))"

lemma claim_call_progress:
  assumes inv: "claim_inv name S x" and fair: "fair_others others"
    and call: "claim_call name x others = (x', b)"
  shows "claim_inv name S x' \<and> claim_pos name x \<le> claim_pos name x' \<and>
    (\<forall>c. b = Some c \<longrightarrow> snd c = S \<and> claim_pos name x < fst c + 1 \<and> fst c + snd c \<le> claim_pos name x')"
proof -
  obtain s tick tbl where q: "nextval_loop others name 100 (fst x) (snd x) = (s, tick, tbl)" by (metis prod.collapse)
  obtain r where r: "snd x name = Some r" "row_step r = S" "0 \<le> row_value r" and S: "0 < S" "S < 2 ^ 31"
    using inv by (auto simp: claim_inv_def split: option.splits)
  have c: "advances (snd x) tbl" "s = None \<or> s = Some ''-1,0'' \<or> (\<exists>t. s = Some t \<and> claims (snd x) tbl name t)"
    using nextval_loop_claims [OF fair _ q] r S by simp_all
  obtain r' where r': "tbl name = Some r'" "row_value r \<le> row_value r'" "row_step r' = row_step r"
    by (rule advances_row_fwd [OF c(1) r(1)])
  have x': "claim_inv name S (tick, tbl)" "claim_pos name x \<le> claim_pos name (tick, tbl)"
    using r r' S by (simp_all add: claim_inv_def claim_pos_def)
  consider (no) "s = None \<or> s = Some ''-1,0''" | (won) v where "s = Some (block_text v S)" "s \<noteq> Some ''-1,0''"
    "row_value r \<le> v" "v + S \<le> LONG_MAX" "row_value r' = v + S"
    using c(2) r r' by (auto simp: claims_def)
  then show ?thesis
  proof cases
    case no
    then have "b = None" "x' = (tick, tbl)" using call q
      by (auto simp: claim_call_def seq_nextval_v2_def split: option.splits)
    with x' show ?thesis by simp
  next
    case won
    have "b = Some (v, S)" "x' = (tick, tbl)"
      using call q won r S atol_show_int [of v "[]"] atol_show_int [of S "[]"] show_int_no_comma [of v]
      by (auto simp: claim_call_def seq_nextval_v2_def block_text_def LONG_MIN_def LONG_MAX_def)
    then show ?thesis using r r' x' won by (simp add: claim_pos_def)
  qed
qed

interpretation claim: range_source "claim_call name" "claim_inv name S" fair_others "claim_pos name"
  "\<lambda>c. fst c + 1" "\<lambda>c. fst c + snd c" for name S
proof
  fix x :: "nat \<times> seq_table" and others
  assume a: "claim_inv name S x" "fair_others others"
  note p = claim_call_progress [OF a prod.collapse [symmetric]]
  show "claim_inv name S (fst (claim_call name x others))" "claim_pos name x \<le> claim_pos name (fst (claim_call name x others))"
    using p by simp_all
  show "claim_pos name x < fst c + 1 \<and> fst c + 1 \<le> fst c + snd c \<and> fst c + snd c \<le> claim_pos name x'"
    if "claim_call name x others = (x', Some c)" for x' c
    using claim_call_progress [OF a that] a(1) by (auto simp: claim_inv_def)
qed


text \<open>A session that takes the block between the two statements of the first pass.\<close>

definition racing :: "nat \<Rightarrow> seq_table \<Rightarrow> seq_table" where
  "racing k t = (if k = 1 then map_option (\<lambda>r. if row_step r = 10 then r\<lparr>row_value := row_value r + 10\<rparr> else r) \<circ> t else t)"

lemma fair_racing: "fair_others racing"
proof -
  have "row_advances (t n) (racing k t n)" for k t n by (cases "t n") (simp_all add: racing_def)
  then show ?thesis by (simp add: fair_others_def advances_def)
qed


section \<open>The pool on this database\<close>

definition ex_pool0 :: MySQLSingleDBPool where
  "ex_pool0 = \<lparr>runing = False, connOpt = demo_opt, freeQueue = [], usedConns = 0, connectstr = ''u/p@h:1/x''\<rparr>"

definition ex_pool1 :: MySQLSingleDBPool where
  "ex_pool1 = ex_pool0\<lparr>runing := True, connOpt := demo_opt\<lparr>user := ''u'', pass := ''p'', hostName := ''h'',
     port := 1, schema := ''x''\<rparr>, freeQueue := [\<lparr>conn_id = 0, conn_dbid = 0, lastTime = 0, isErr = False,
     autoCommitCache = True\<rparr>]\<rparr>"

definition ex_empty :: "nat \<Rightarrow> mysql" where
  "ex_empty n = \<lparr>my_next = n, my_tick = 0, my_tbl = Map.empty\<rparr>"

lemma ex_InitPool: "InitPool (mysql_driver (\<lambda>k t. t)) ex_pool0 (ex_empty 0) = (Ret True, ex_pool1, ex_empty 1)"
  by (simp add: InitPool_def ex_pool0_def ex_pool1_def demo_opt_def spliteStr_def atoi_def atol_def is_space_def
      is_digit_def digit_val_def clamp_long_def LONG_MIN_def LONG_MAX_def int_of_long_def mysql_driver_def
      ex_empty_def mk_Connection_def)

theorem pool_accounting_witness:
  "usedConns (ex_pool1\<lparr>freeQueue := [], usedConns := 1\<rparr>) = int (length [hd (freeQueue ex_pool1)\<lparr>lastTime := 5\<rparr>])
    \<and> int (length (freeQueue (ex_pool1\<lparr>freeQueue := [], usedConns := 1\<rparr>)) + length [hd (freeQueue ex_pool1)\<lparr>lastTime := 5\<rparr>])
        \<le> co_max (connOpt ex_pool1) + 1
    \<and> distinct (map conn_id (freeQueue (ex_pool1\<lparr>freeQueue := [], usedConns := 1\<rparr>) @ [hd (freeQueue ex_pool1)\<lparr>lastTime := 5\<rparr>]))"
proof -
  have "sp_GetConnection (mysql_driver (\<lambda>k t. t)) 5 ex_pool1 (ex_empty 1) =
    (Ret (Some (hd (freeQueue ex_pool1)\<lparr>lastTime := 5\<rparr>)), ex_pool1\<lparr>freeQueue := [], usedConns := 1\<rparr>, ex_empty 1)"
    by (simp add: sp_GetConnection_def ex_pool1_def ex_pool0_def)
  then have "(pool_step (mysql_driver (\<lambda>k t. t)))\<^sup>*\<^sup>* (ex_pool1, [], ex_empty 1)
      (ex_pool1\<lparr>freeQueue := [], usedConns := 1\<rparr>, [hd (freeQueue ex_pool1)\<lparr>lastTime := 5\<rparr>], ex_empty 1)"
    by (intro r_into_rtranclp pool_step.get)
  from pool_accounting [OF mysql.sql_driver_axioms ex_InitPool _ _ this] show ?thesis
    by (simp add: ex_pool0_def)
qed

end
