(* ===== verification/SeqBase.thy ===== *)
theory SeqBase
  imports Prelude
begin

text \<open>
  Data shared by the sequence service: the range returned to a client
  (slice/tdd_sequence.ice) and the exceptions the service throws. The source throws
  \<open>SequenceException\<close> with a message text; the model has one constructor per message, with
  the values the text prints. \<open>SQLExceptionEscapes\<close> is a \<open>sql::SQLException\<close> that no handler
  turns into a \<open>SequenceException\<close>.
\<close>

record SequenceRange =
  sr_min :: i64
  sr_max :: i64

datatype seq_error =
    StepTooLarge i32
  | ClockMovedBackwards i64 i64
  | DatacenterIdOutOfRange u32
  | WorkerIdOutOfRange u32
  | NameIsNull
  | CantGetConnection
  | DBServerBusy
  | ValueLessThanZero i64
  | SystemError
  | SequenceNotExists string
  | UnknownAlgorithm int
  | UnknownError
  | RetriedTooManyTimes
  | SQLExceptionEscapes

text \<open>
  How a call ends: it returns, throws, ends the process (\<open>LOG(FATAL)\<close>), or reads or writes
  outside an object, after which nothing can be said.
\<close>

datatype 'a exec = Returned 'a | Thrown seq_error | Aborted | OutOfBounds

definition exec_val :: "'a exec \<Rightarrow> 'a option" where
  "exec_val e = (case e of Returned a \<Rightarrow> Some a | Thrown x \<Rightarrow> None | Aborted \<Rightarrow> None | OutOfBounds \<Rightarrow> None)"

text \<open>The identifiers of a range, read as signed 64-bit numbers.\<close>

definition range_ids :: "SequenceRange \<Rightarrow> int set" where
  "range_ids r = {sint (sr_min r) .. sint (sr_max r)}"

lemma sorted_ranges_disjoint:
  assumes "sorted_wrt (\<lambda>a b. sint (sr_max a) < sint (sr_min b)) rs"
    and "i < j" and "j < length rs"
  shows "range_ids (rs ! i) \<inter> range_ids (rs ! j) = {}"
  using sorted_wrt_nth_less [OF assms] by (auto simp: range_ids_def)

end
