(* ===== verification/DefaultWorker.thy ===== *)
theory DefaultWorker
  imports SeqTable SeqBase
begin

text \<open>
  The worker for incrementing sequences (DefaultSequenceWorker.cpp). It claims a block of values
  from the database, hands out pieces of it, and claims the next block when the current one is
  used up. The operations take the database driver, the two cached times read by the pool, the
  pool and the driver state, and return the worker, pool and driver state with the outcome.
\<close>

section \<open>Constants and state\<close>

definition datacenterIdBits32 :: nat where "datacenterIdBits32 = 5"
definition datacenterIdBits64 :: nat where "datacenterIdBits64 = 10"
definition sequenceBits32 :: nat where "sequenceBits32 = 31 - datacenterIdBits32"
definition sequenceBits64 :: nat where "sequenceBits64 = 61 - datacenterIdBits64"
definition DELTA :: i64 where "DELTA = 100000000"

record DefaultSequenceWorker =
  dw_name :: string
  dw_value :: i64
  dw_max :: i64
  dw_step :: i32
  datacenterIdMask64 :: u64
  datacenterIdMask32 :: u32
  maxDatacenterId :: u32
  seqBits :: int

type_synonym dw = DefaultSequenceWorker

section \<open>Claiming a block\<close>

text \<open>
  \<open>my_strchr\<close> tests the first character of the string in every round instead of the current
  one, so it leaves a non-empty string only through a match: without one it runs past the end.
\<close>

datatype strchr_result = SNull | SFound string string | SPastEnd

definition my_strchr :: "string \<Rightarrow> char \<Rightarrow> strchr_result" where
  "my_strchr str ch =
     (if str = [] \<or> hd str = CHR 0x00 then SNull
      else case split_at ch str of Some (a, b) \<Rightarrow> SFound a b | None \<Rightarrow> SPastEnd)"

text \<open>The row \<open>value,step\<close> as the 64-bit value and the 32-bit step; None is a read past the end.\<close>

definition read_block :: "query_reply \<Rightarrow> (i64 \<times> i32) option" where
  "read_block reply =
     (case reply of
        Row s \<Rightarrow>
          (case my_strchr s (CHR '','') of
             SPastEnd \<Rightarrow> None
           | SNull \<Rightarrow> Some (- 1, 0)
           | SFound a b \<Rightarrow> Some (word_of_int (atol a), word_of_int (atol b)))
      | _ \<Rightarrow> Some (- 1, 0))"

definition nextRange ::
  "'d driver \<Rightarrow> int \<times> int \<Rightarrow> string \<Rightarrow> dw \<Rightarrow> MySQLDBPool \<Rightarrow> 'd \<Rightarrow>
     unit exec \<times> dw \<times> MySQLDBPool \<times> 'd" where
  "nextRange drv now name out P d =
     (if name = [] then (Thrown NameIsNull, out, P, d)
      else case GetConnection drv (fst now) 0 P d of
        (Throw, P1, d1) \<Rightarrow> (Thrown SQLExceptionEscapes, out, P1, d1)
      | (Undef, P1, d1) \<Rightarrow> (OutOfBounds, out, P1, d1)
      | (Ret None, P1, d1) \<Rightarrow> (Thrown CantGetConnection, out, P1, d1)
      | (Ret (Some con), P1, d1) \<Rightarrow>
          (case drv_query drv (conn_id con) sql_nextval [name] d1 of
             (SqlException, d2) \<Rightarrow>
               (case FreeConnection drv (snd now) (Some (con\<lparr>isErr := True\<rparr>)) P1 d2 of
                  (P3, d3) \<Rightarrow> (Thrown SystemError, out, P3, d3))
           | (reply, d2) \<Rightarrow>
               (case read_block reply of
                  None \<Rightarrow> (OutOfBounds, out, P1, d2)
                | Some (newValue, step) \<Rightarrow>
                    (case FreeConnection drv (snd now) (Some con) P1 d2 of
                       (P3, d3) \<Rightarrow>
                         if newValue = - 1 then (Thrown DBServerBusy, out, P3, d3)
                         else if newValue = 0 then (Thrown (ValueLessThanZero newValue), out, P3, d3)
                         else if newValue <s 0x7fffffffffffffff - DELTA
                         then (Returned (),
                               out\<lparr>dw_value := newValue, dw_max := newValue + scast step, dw_step := step\<rparr>,
                               P3, d3)
                         else (Aborted, out, P1, d2)))))"

section \<open>Construction\<close>

text \<open>
  The mask of the width that is not in use is never set and never read; the model has 0 there.
\<close>

definition new_DefaultSequenceWorker ::
  "'d driver \<Rightarrow> int \<times> int \<Rightarrow> string \<Rightarrow> i32 \<Rightarrow> int \<Rightarrow> MySQLDBPool \<Rightarrow> 'd \<Rightarrow>
     dw exec \<times> MySQLDBPool \<times> 'd" where
  "new_DefaultSequenceWorker drv now name dc bits P d =
     (let m32 = (if bits = 32 then push_bit sequenceBits32 dc else 0);
          m64 = (if bits = 64 then push_bit sequenceBits64 (scast dc) else 0);
          maxDc = (if bits = 32 then (- 1) XOR push_bit datacenterIdBits32 (- 1)
                   else if bits = 64 then (- 1) XOR push_bit datacenterIdBits64 (- 1) else 0);
          dc' = (if bits = 32 \<or> bits = 64 then dc else 0)
      in if maxDc < dc' \<or> dc' <s 0 then (Thrown (DatacenterIdOutOfRange maxDc), P, d)
         else let w = \<lparr>dw_name = name, dw_value = 0, dw_max = 0, dw_step = 0, datacenterIdMask64 = m64,
                       datacenterIdMask32 = m32, maxDatacenterId = maxDc, seqBits = bits\<rparr>
              in case nextRange drv now name w P d of
                   (Returned _, w', P', d') \<Rightarrow> (Returned w', P', d')
                 | (Thrown e, w', P', d') \<Rightarrow> (Thrown e, P', d')
                 | (Aborted, w', P', d') \<Rightarrow> (Aborted, P', d')
                 | (OutOfBounds, w', P', d') \<Rightarrow> (OutOfBounds, P', d'))"

section \<open>Handing out ranges\<close>

text \<open>
  The two atomic parts of \<open>addAndIncrement\<close>: the test of the bounds, and the atomic addition
  with the decision on its result. Readers run them concurrently (below).
\<close>

definition used_up :: "dw \<Rightarrow> bool" where
  "used_up w \<longleftrightarrow> dw_max w \<le>s dw_value w"

definition add_and_fetch :: "i32 \<Rightarrow> dw \<Rightarrow> SequenceRange option \<times> dw" where
  "add_and_fetch step w =
     (let cur = dw_value w + scast step; w' = w\<lparr>dw_value := cur\<rparr> in
      if dw_max w <s cur
      then if cur - scast step <s dw_max w
           then (Some \<lparr>sr_min = cur - scast step + 1, sr_max = dw_max w\<rparr>, w')
           else (None, w')
      else (Some \<lparr>sr_min = cur - scast step + 1, sr_max = cur\<rparr>, w'))"

definition addAndIncrement :: "i32 \<Rightarrow> dw \<Rightarrow> SequenceRange option \<times> dw" where
  "addAndIncrement step w = (if used_up w then (None, w) else add_and_fetch step w)"

definition apply_mask :: "dw \<Rightarrow> SequenceRange \<Rightarrow> SequenceRange" where
  "apply_mask w sr =
     (if seqBits w = 32
      then \<lparr>sr_min = ucast (datacenterIdMask32 w) OR sr_min sr, sr_max = ucast (datacenterIdMask32 w) OR sr_max sr\<rparr>
      else if seqBits w = 64
      then \<lparr>sr_min = datacenterIdMask64 w OR sr_min sr, sr_max = datacenterIdMask64 w OR sr_max sr\<rparr>
      else sr)"

text \<open>The value 0 of the source is \<open>Some\<close> range, the value -1 is \<open>None\<close>.\<close>

definition dw_finish ::
  "SequenceRange option \<times> dw \<Rightarrow> SequenceRange option exec \<times> dw" where
  "dw_finish x = (case x of (r, w) \<Rightarrow> (Returned (map_option (apply_mask w) r), w))"

definition dw_getAndIncrement ::
  "'d driver \<Rightarrow> int \<times> int \<Rightarrow> i32 \<Rightarrow> dw \<Rightarrow> MySQLDBPool \<Rightarrow> 'd \<Rightarrow>
     SequenceRange option exec \<times> dw \<times> MySQLDBPool \<times> 'd" where
  "dw_getAndIncrement drv now step w P d =
     (case addAndIncrement step w of
        (Some r, w1) \<Rightarrow> (Returned (Some (apply_mask w1 r)), w1, P, d)
      | (None, w1) \<Rightarrow>
          if used_up w1
          then (case nextRange drv now (dw_name w1) w1 P d of
                  (Returned _, w2, P2, d2) \<Rightarrow>
                    (case dw_finish (addAndIncrement step w2) of (r, w3) \<Rightarrow> (r, w3, P2, d2))
                | (Thrown e, w2, P2, d2) \<Rightarrow> (Thrown e, w2, P2, d2)
                | (Aborted, w2, P2, d2) \<Rightarrow> (Aborted, w2, P2, d2)
                | (OutOfBounds, w2, P2, d2) \<Rightarrow> (OutOfBounds, w2, P2, d2))
          else (case dw_finish (addAndIncrement step w1) of (r, w2) \<Rightarrow> (r, w2, P, d)))"


section \<open>One addition\<close>

lemma add_and_fetch_spec:
  assumes "sint (dw_value w) < sint (dw_max w)" "0 < sint step"
    "sint (dw_value w) + sint step < 2 ^ 63"
  shows "\<exists>r. add_and_fetch step w = (Some r, w\<lparr>dw_value := dw_value w + scast step\<rparr>)
    \<and> sint (dw_value w + scast step) = sint (dw_value w) + sint step
    \<and> sint (sr_min r) = sint (dw_value w) + 1
    \<and> sint (sr_max r) = min (sint (dw_value w) + sint step) (sint (dw_max w))"
proof -
  let ?v = "dw_value w" and ?s = "scast step :: i64"
  have s: "sint ?s = sint step" by (simp add: sint_scast_up)
  have lo: "- (2 ^ 63) \<le> sint ?v" using sint_ge [of ?v] by simp
  have c: "sint (?v + ?s) = sint ?v + sint step"
    using assms lo by (subst sint_plus_small) (simp_all add: s)
  have "sint (dw_max w) < 2 ^ 63" using sint_lt [of "dw_max w"] by simp
  then have "sint (?v + 1) = sint ?v + 1"
    using assms lo by (subst sint_plus_small) simp_all
  moreover have "?v + ?s - ?s = ?v" by simp
  ultimately show ?thesis
    using assms c by (auto simp: add_and_fetch_def Let_def word_sless_alt)
qed

section \<open>The row read back\<close>

lemma show_int_first: "show_int k \<noteq> [] \<and> hd (show_int k @ rest) \<noteq> CHR 0x00"
proof -
  have "hd (show_nat n @ r) \<noteq> CHR 0x00 \<and> show_nat n \<noteq> []" for n r
    using show_nat_digits [of n] show_nat_nonempty [of n] by (cases "show_nat n") (auto simp: is_digit_def)
  from this [of "nat k" "[]"] this [of "nat k" rest] show ?thesis by (auto simp: show_int_def)
qed

lemma read_block_text:
  "0 \<le> S \<Longrightarrow> S < 2 ^ 31 \<Longrightarrow> read_block (Row (block_text v S)) = Some (word_of_int (clamp_long v), word_of_int S)"
  using atol_show_int_clamp [of "[]" v] atol_show_int [of S "[]"] show_int_first [of v "[]"]
  by (simp add: read_block_def block_text_def my_strchr_def show_int_no_comma LONG_MIN_def LONG_MAX_def)


lemma mysql_GetConnection_tbl:
  "GetConnection (mysql_driver others) t i P d = (r, P', d') \<Longrightarrow> my_tbl d' = my_tbl d"
  by (auto simp: GetConnection_def sp_GetConnection_def mysql_driver_def Let_def
      split: option.splits prod.splits list.splits if_splits connect_reply.splits)

lemma mysql_FreeConnection_db:
  "FreeConnection (mysql_driver others) t c P d = (P', d') \<Longrightarrow> d' = d"
  by (auto simp: FreeConnection_def sp_ReleaseConnect_def mysql_driver_def Let_def
      split: option.splits prod.splits list.splits if_splits connect_reply.splits)

section \<open>Claiming from the table\<close>

lemma mysql_query_nextval:
  "drv_query (mysql_driver others) i sql_nextval [name] d =
     (case seq_nextval_v2 others name (my_tick d) (my_tbl d) of
        (s, tick', tbl') \<Rightarrow> (case s of None \<Rightarrow> SqlException | Some str \<Rightarrow> Row str, d\<lparr>my_tick := tick', my_tbl := tbl'\<rparr>))"
  by (simp add: mysql_driver_def mysql_query_def split: prod.splits option.splits)

text \<open>
  Whatever happens, the table only advances; when \<open>nextRange\<close> returns, the worker holds the
  block after a value \<open>v\<close> that was not handed out before.
\<close>

definition row_ok :: "int \<Rightarrow> string \<Rightarrow> mysql \<Rightarrow> bool" where
  "row_ok S name d \<longleftrightarrow> (case my_tbl d name of None \<Rightarrow> False | Some r \<Rightarrow> row_step r = S \<and> 0 \<le> row_value r)"

lemma row_ok_advances:
  assumes "row_ok S name d" and "advances (my_tbl d) (my_tbl d')"
  obtains r r' where "my_tbl d name = Some r" "my_tbl d' name = Some r'" "row_step r = S"
    "row_step r' = S" "0 \<le> row_value r" "row_value r \<le> row_value r'" "row_ok S name d'"
    "row_algorithm r' = row_algorithm r"
proof -
  obtain r where r: "my_tbl d name = Some r" "row_step r = S" "0 \<le> row_value r"
    using assms(1) by (auto simp: row_ok_def split: option.splits)
  obtain q where "my_tbl d' name = Some q" "row_value r \<le> row_value q" "row_step q = row_step r"
    "row_algorithm q = row_algorithm r" by (rule advances_row_fwd [OF assms(2) r(1)])
  with r that show ?thesis by (simp add: row_ok_def)
qed

lemma nextRange_no_connection:
  assumes "nextRange (mysql_driver others) now name w P d = (e, w', P', d')"
    and "name = [] \<or> (\<forall>c. fst (GetConnection (mysql_driver others) (fst now) 0 P d) \<noteq> Ret (Some c))"
  shows "my_tbl d' = my_tbl d \<and> w' = w \<and> e \<noteq> Returned ()"
proof -
  obtain x P1 d1 where g: "GetConnection (mysql_driver others) (fst now) 0 P d = (x, P1, d1)"
    by (metis prod.collapse)
  with assms show ?thesis
    by (auto simp: nextRange_def dest: mysql_GetConnection_tbl split: if_splits outcome.splits option.splits)
qed

lemma nextRange_row:
  assumes "name \<noteq> []" and "GetConnection drv (fst now) 0 P d = (Ret (Some c), P1, d1)"
    and "drv_query drv (conn_id c) sql_nextval [name] d1 = (Row s, d2)"
    and "read_block (Row s) = Some (nv, st)"
    and "FreeConnection drv (snd now) (Some c) P1 d2 = (P3, d3)"
  shows "nextRange drv now name w P d =
    (if nv = - 1 then (Thrown DBServerBusy, w, P3, d3)
     else if nv = 0 then (Thrown (ValueLessThanZero 0), w, P3, d3)
     else if nv <s 0x7fffffffffffffff - DELTA
     then (Returned (), w\<lparr>dw_value := nv, dw_max := nv + scast st, dw_step := st\<rparr>, P3, d3)
     else (Aborted, w, P1, d2))"
  using assms by (simp add: nextRange_def)

text \<open>The values between 1 and \<open>LONG_MAX - DELTA\<close> are the ones \<open>nextRange\<close> accepts.\<close>

lemma clamp_word_cases:
  assumes "0 \<le> v"
  defines "nv \<equiv> word_of_int (clamp_long v) :: i64"
  shows "nv \<noteq> - 1" and "nv = 0 \<longleftrightarrow> v = 0"
    and "nv <s 0x7fffffffffffffff - DELTA \<longleftrightarrow> v < 2 ^ 63 - 1 - 100000000"
    and "v < 2 ^ 63 - 1 - 100000000 \<Longrightarrow> nv = word_of_int v"
proof -
  have c: "clamp_long v = min v (2 ^ 63 - 1)" using assms by (simp add: clamp_long_def LONG_MIN_def LONG_MAX_def)
  have s: "sint nv = min v (2 ^ 63 - 1)"
    unfolding nv_def c using assms by (subst sint_word_of_int_small) auto
  show "nv \<noteq> - 1" using s assms by auto
  show "nv = 0 \<longleftrightarrow> v = 0" using s assms by (auto simp: nv_def c)
  have "sint (0x7fffffffffffffff - DELTA) = 2 ^ 63 - 1 - 100000000" by (simp add: DELTA_def)
  with s show "nv <s 0x7fffffffffffffff - DELTA \<longleftrightarrow> v < 2 ^ 63 - 1 - 100000000"
    by (auto simp: word_sless_alt)
  show "nv = word_of_int v" if "v < 2 ^ 63 - 1 - 100000000" using that by (simp add: nv_def c)
qed

lemma nextRange_mysql:
  assumes "fair_others others" "0 < S" "S \<le> 50000000" "row_ok S name d"
    and "nextRange (mysql_driver others) now name w P d = (e, w', P', d')"
  shows "advances (my_tbl d) (my_tbl d') \<and>
    (e \<noteq> Returned () \<and> w' = w \<or>
     e = Returned () \<and> (\<exists>r r' v. my_tbl d name = Some r \<and> my_tbl d' name = Some r' \<and>
       row_value r \<le> v \<and> row_value r' = v + S \<and> 0 < v \<and> v < 2 ^ 63 - 1 - 100000000 \<and>
       w' = w\<lparr>dw_value := word_of_int v, dw_max := word_of_int (v + S), dw_step := word_of_int S\<rparr>))"
proof (cases "name = [] \<or> (\<forall>c. fst (GetConnection (mysql_driver others) (fst now) 0 P d) \<noteq> Ret (Some c))")
  case True
  with nextRange_no_connection [OF assms(5)] show ?thesis by (simp add: advances_refl)
next
  case False
  then obtain c P1 d1 where g: "GetConnection (mysql_driver others) (fst now) 0 P d = (Ret (Some c), P1, d1)"
    and n: "name \<noteq> []" by (metis prod.collapse)
  obtain s tick' tbl' where q: "seq_nextval_v2 others name (my_tick d1) (my_tbl d) = (s, tick', tbl')"
    by (metis prod.collapse)
  let ?d2 = "d1\<lparr>my_tick := tick', my_tbl := tbl'\<rparr>"
  have q': "drv_query (mysql_driver others) (conn_id c) sql_nextval [name] d1 =
      (case s of None \<Rightarrow> SqlException | Some str \<Rightarrow> Row str, ?d2)"
    using q by (simp add: mysql_query_nextval mysql_GetConnection_tbl [OF g])
  have f: "\<exists>P3. FreeConnection (mysql_driver others) (snd now) (Some c') P1 ?d2 = (P3, ?d2)" for c'
    using mysql_FreeConnection_db by (metis prod.collapse)
  obtain r where r: "my_tbl d name = Some r" "row_step r = S" "0 \<le> row_value r"
    using assms(4) by (auto simp: row_ok_def split: option.splits)
  have c: "advances (my_tbl d) tbl' \<and> (s = None \<or> s = Some ''-1,0'' \<or> (\<exists>str. s = Some str \<and> claims (my_tbl d) tbl' name str))"
    using nextval_loop_claims [OF assms(1) _ q [unfolded seq_nextval_v2_def]] r assms(2) by simp
  consider (err) "s = None" | (busy) "s = Some ''-1,0''" | (won) str where "s = Some str" "claims (my_tbl d) tbl' name str"
    using c by blast
  then show ?thesis
  proof cases
    case err
    obtain P3 where "FreeConnection (mysql_driver others) (snd now) (Some (c\<lparr>isErr := True\<rparr>)) P1 ?d2 = (P3, ?d2)"
      using f by blast
    with assms(5) n g q' err c show ?thesis by (auto simp: nextRange_def)
  next
    case busy
    have "read_block (Row ''-1,0'') = Some (- 1, 0)"
      by code_simp
    moreover obtain P3 where "FreeConnection (mysql_driver others) (snd now) (Some c) P1 ?d2 = (P3, ?d2)"
      using f by blast
    ultimately show ?thesis using q' assms(5) busy c n g by (auto simp: nextRange_def)
  next
    case won
    then obtain v r' where v: "row_value r \<le> v" "str = block_text v S" "tbl' name = Some r'"
       "row_value r' = v + S" using r by (auto simp: claims_def)
    obtain P3 where f3: "FreeConnection (mysql_driver others) (snd now) (Some c) P1 ?d2 = (P3, ?d2)"
      using f by blast
    have q'': "drv_query (mysql_driver others) (conn_id c) sql_nextval [name] d1 = (Row str, ?d2)"
      using q' won(1) by simp
    have v0: "0 \<le> v" using v(1) r(3) by simp
    have rb: "read_block (Row str) = Some (word_of_int (clamp_long v), word_of_int S)"
      using read_block_text assms v(2) by simp
    have sS: "scast (word_of_int S :: i32) = (word_of_int S :: i64)"
      using assms by (intro signed_word_eqI [where 'a = int]) (simp add: sint_scast_up sint_word_of_int_small)
    note eq = nextRange_row [OF n g q'' rb f3, of w, unfolded sS]
    note cl = clamp_word_cases [OF v0]
    consider "v = 0" | "0 < v" "v < 2 ^ 63 - 1 - 100000000" | "2 ^ 63 - 1 - 100000000 \<le> v"
      using v0 by linarith
    then show ?thesis
    proof cases
      case 1
      with eq cl(1,2) assms(5) c show ?thesis by simp
    next
      case 2
      then have "(word_of_int (clamp_long v) :: i64) = word_of_int v" by (intro cl(4))
      then have "e = Returned ()" "d' = ?d2"
        "w' = w\<lparr>dw_value := word_of_int v, dw_max := word_of_int (v + S), dw_step := word_of_int S\<rparr>"
        using eq assms(5) cl(1-3) 2 by simp_all
      with 2 c r v show ?thesis by simp
    next
      case 3
      then have "\<not> (word_of_int (clamp_long v) <s 0x7fffffffffffffff - DELTA)" "v \<noteq> 0" using cl(3) by simp_all
      with eq cl(1,2) assms(5) c show ?thesis by simp
    qed
  qed
qed

section \<open>Runs of one worker\<close>

text \<open>
  A worker with its pool and database as the object of a call; the calls that succeed give the
  range before the datacenter mask is set.
\<close>

type_synonym dw_world = "dw \<times> MySQLDBPool \<times> mysql"

definition dw_call ::
  "(nat \<Rightarrow> seq_table \<Rightarrow> seq_table) \<Rightarrow> dw_world \<Rightarrow> (int \<times> int) \<times> i32 \<Rightarrow> dw_world \<times> SequenceRange option" where
  "dw_call others x i = (case x of (w, P, d) \<Rightarrow> case i of (now, step) \<Rightarrow>
     case dw_getAndIncrement (mysql_driver others) now step w P d of
       (e, w', P', d') \<Rightarrow> ((w', P', d'), (case exec_val e of None \<Rightarrow> None | Some r \<Rightarrow> r)))"

definition dw_inv :: "(nat \<Rightarrow> seq_table \<Rightarrow> seq_table) \<Rightarrow> int \<Rightarrow> string \<Rightarrow> dw_world \<Rightarrow> bool" where
  "dw_inv others S name x \<longleftrightarrow> (case x of (w, P, d) \<Rightarrow> fair_others others \<and> 0 < S \<and> S \<le> 50000000 \<and> dw_name w = name \<and> row_ok S name d \<and>
     seqBits w \<noteq> 32 \<and> seqBits w \<noteq> 64 \<and>
     sint (dw_max w) \<le> row_value (the (my_tbl d name)) \<and> sint (dw_max w) < 2 ^ 63 - 50000000)"

definition dw_pos :: "dw_world \<Rightarrow> int" where
  "dw_pos x = min (sint (dw_value (fst x))) (sint (dw_max (fst x)))"

definition client_step :: "(int \<times> int) \<times> i32 \<Rightarrow> bool" where
  "client_step i \<longleftrightarrow> 0 < sint (snd i) \<and> sint (snd i) \<le> 50000000"

definition dw_step_ok :: "dw \<Rightarrow> SequenceRange option \<Rightarrow> dw \<Rightarrow> bool" where
  "dw_step_ok w r w' \<longleftrightarrow> w' = w\<lparr>dw_value := dw_value w'\<rparr> \<and>
     (case r of None \<Rightarrow> False
      | Some q \<Rightarrow> sint (sr_min q) = sint (dw_value w) + 1 \<and> sint (sr_min q) \<le> sint (sr_max q) \<and>
          sint (sr_max q) = min (sint (dw_value w')) (sint (dw_max w)))"

lemma addAndIncrement_ok:
  assumes "sint (dw_value w) < sint (dw_max w)" "0 < sint step" "sint step \<le> 50000000"
    "sint (dw_max w) < 2 ^ 63 - 50000000" "addAndIncrement step w = (r, w')"
  shows "dw_step_ok w r w'"
  using add_and_fetch_spec [of w step] assms
  by (auto simp: addAndIncrement_def used_up_def word_sle_eq dw_step_ok_def)

lemma addAndIncrement_used_up: "used_up w \<Longrightarrow> addAndIncrement step w = (None, w)"
  by (simp add: addAndIncrement_def)

lemma used_up_iff: "used_up w \<longleftrightarrow> sint (dw_max w) \<le> sint (dw_value w)"
  by (simp add: used_up_def word_sle_eq)

text \<open>The four ways a call on a positive step goes.\<close>

lemma dw_call_cases:
  assumes "dw_inv others S name (w, P, d)" "client_step (now, step)"
    and "dw_call others (w, P, d) (now, step) = ((w', P', d'), r)"
  shows "(\<not> used_up w \<and> dw_step_ok w r w' \<and> P' = P \<and> d' = d) \<or>
    (used_up w \<and> r = None \<and> w' = w \<and> advances (my_tbl d) (my_tbl d')) \<or>
    (used_up w \<and> (\<exists>v w2. w2 = w\<lparr>dw_value := word_of_int v, dw_max := word_of_int (v + S), dw_step := word_of_int S\<rparr>
       \<and> dw_step_ok w2 r w' \<and> row_value (the (my_tbl d name)) \<le> v \<and> advances (my_tbl d) (my_tbl d')
       \<and> row_value (the (my_tbl d' name)) = v + S \<and> 0 < v \<and> v < 2 ^ 63 - 1 - 100000000))"
proof -
  have fo: "fair_others others" and S0: "0 < S" "S \<le> 50000000" using assms(1) by (simp_all add: dw_inv_def)
  show ?thesis
proof (cases "used_up w")
  case False
  then have lt: "sint (dw_value w) < sint (dw_max w)" by (simp add: used_up_iff)
  obtain q w1 where a: "addAndIncrement step w = (q, w1)" by (metis prod.collapse)
  have ok: "dw_step_ok w q w1"
    using addAndIncrement_ok [OF lt _ _ _ a] assms(1,2) by (simp add: dw_inv_def client_step_def)
  then obtain q' where q: "q = Some q'" by (cases q) (simp_all add: dw_step_ok_def)
  have "apply_mask w1 q' = q'"
    using assms(1) ok by (cases w; cases w1) (simp add: apply_mask_def dw_inv_def dw_step_ok_def)
  with assms(3) a q ok False show ?thesis
    by (simp add: dw_call_def dw_getAndIncrement_def exec_val_def)
next
  case True
  obtain e w2 P2 d2 where n: "nextRange (mysql_driver others) now (dw_name w) w P d = (e, w2, P2, d2)"
    by (metis prod.collapse)
  have nm: "dw_name w = name" and ro: "row_ok S name d" and b: "seqBits w \<noteq> 32" "seqBits w \<noteq> 64"
    using assms(1) by (simp_all add: dw_inv_def)
  note nr = nextRange_mysql [OF fo S0(1,2) ro n [unfolded nm]]
  show ?thesis
  proof (cases "e = Returned ()")
    case False
    then show ?thesis using True nr assms(3) n
      by (cases e) (simp_all add: dw_call_def dw_getAndIncrement_def exec_val_def addAndIncrement_used_up)
  next
    case e: True
    then obtain v where v: "row_value (the (my_tbl d name)) \<le> v" "row_value (the (my_tbl d2 name)) = v + S" "0 < v"
      "v < 2 ^ 63 - 1 - 100000000" "w2 = w\<lparr>dw_value := word_of_int v, dw_max := word_of_int (v + S), dw_step := word_of_int S\<rparr>"
      using nr by auto
    have s: "sint (dw_value w2) = v" "sint (dw_max w2) = v + S"
      using v S0 by (simp_all add: sint_word_of_int_small del: of_int_add)
    obtain q w3 where a: "addAndIncrement step w2 = (q, w3)" by (metis prod.collapse)
    have ok: "dw_step_ok w2 q w3"
      using addAndIncrement_ok [OF _ _ _ _ a] s S0 assms(2) v by (simp add: client_step_def)
    then obtain q' where q: "q = Some q'" by (cases q) (simp_all add: dw_step_ok_def)
    have "apply_mask w3 q' = q'"
      using b ok v(5) by (cases w; cases w3) (simp add: apply_mask_def dw_step_ok_def)
    then have "w' = w3" "d' = d2" "r = q"
      using assms(3) a q n True e
      by (simp_all add: dw_call_def dw_getAndIncrement_def exec_val_def addAndIncrement_used_up dw_finish_def)
    with True ok v nr show ?thesis by auto
  qed
qed
qed


lemma dw_step_ok_pos:
  assumes "dw_step_ok w r w'" "sint (dw_value w) < sint (dw_max w)"
  shows "sint (dw_value w) \<le> dw_pos (w', P', d') \<and> (\<forall>q. r = Some q \<longrightarrow>
    sint (dw_value w) < sint (sr_min q) \<and> sint (sr_min q) \<le> sint (sr_max q) \<and> sint (sr_max q) \<le> dw_pos (w', P', d'))"
  using assms by (cases w; cases w') (auto simp: dw_step_ok_def dw_pos_def split: option.splits)

lemma dw_call_progress:
  assumes inv: "dw_inv others S name x" and ok: "client_step i" and call: "dw_call others x i = (x', r)"
  shows "dw_inv others S name x' \<and> dw_pos x \<le> dw_pos x' \<and> (\<forall>q. r = Some q \<longrightarrow>
    dw_pos x < sint (sr_min q) \<and> sint (sr_min q) \<le> sint (sr_max q) \<and> sint (sr_max q) \<le> dw_pos x')"
proof -
  obtain w P d now step w' P' d' where x: "x = (w, P, d)" "i = (now, step)" "x' = (w', P', d')"
    by (metis prod.collapse)
  have ro: "row_ok S name d" and S: "0 < S" "S \<le> 50000000" and mx: "sint (dw_max w) \<le> row_value (the (my_tbl d name))"
    using inv x by (simp_all add: dw_inv_def)
  have pw: "dw_pos x \<le> sint (dw_value w)" "dw_pos x \<le> sint (dw_max w)" by (simp_all add: dw_pos_def x)
  consider (add) "\<not> used_up w" "dw_step_ok w r w'" "d' = d"
    | (none) "r = None" "w' = w" "advances (my_tbl d) (my_tbl d')"
    | (claim) v w2 where "w2 = w\<lparr>dw_value := word_of_int v, dw_max := word_of_int (v + S), dw_step := word_of_int S\<rparr>"
       "dw_step_ok w2 r w'" "row_value (the (my_tbl d name)) \<le> v" "advances (my_tbl d) (my_tbl d')"
       "row_value (the (my_tbl d' name)) = v + S" "0 < v" "v < 2 ^ 63 - 1 - 100000000"
    using dw_call_cases [OF inv [unfolded x] ok [unfolded x] call [unfolded x]] by blast
  then show ?thesis
  proof cases
    case add
    then have "sint (dw_value w) < sint (dw_max w)" by (simp add: used_up_iff)
    moreover have "dw_inv others S name x'"
      using inv add x by (cases w; cases w') (simp add: dw_inv_def dw_step_ok_def)
    ultimately show ?thesis using dw_step_ok_pos [OF add(2), of P' d'] pw x by fastforce
  next
    case none
    obtain q q' where "my_tbl d name = Some q" "my_tbl d' name = Some q'" "row_value q \<le> row_value q'" "row_ok S name d'"
      by (rule row_ok_advances [OF ro none(3)])
    with inv none x show ?thesis by (simp add: dw_inv_def dw_pos_def)
  next
    case claim
    have s: "sint (dw_value w2) = v" "sint (dw_max w2) = v + S" "dw_name w2 = dw_name w" "seqBits w2 = seqBits w"
      using claim(1,6,7) S by (simp_all add: sint_word_of_int_small del: of_int_add)
    have "row_ok S name d'" by (rule row_ok_advances [OF ro claim(4)])
    then have "dw_inv others S name x'"
      using inv x claim(2,5,7) s S by (cases w2; cases w') (simp add: dw_inv_def dw_step_ok_def)
    with dw_step_ok_pos [OF claim(2), of P' d'] s S pw mx claim(3) x show ?thesis by fastforce
  qed
qed

interpretation dwi: range_source "dw_call others" "dw_inv others S name" client_step dw_pos
  "\<lambda>r. sint (sr_min r)" "\<lambda>r. sint (sr_max r)" for others S name
  by unfold_locales (metis dw_call_progress prod.collapse)+

section \<open>A worker and a database to evaluate on\<close>

definition ex_worker :: dw where
  "ex_worker = \<lparr>dw_name = ''s'', dw_value = 5, dw_max = 10, dw_step = 10, datacenterIdMask64 = 0,
     datacenterIdMask32 = 0, maxDatacenterId = 0, seqBits = 0\<rparr>"

definition ex_db :: mysql where
  "ex_db = \<lparr>my_next = 1, my_tick = 0,
     my_tbl = [''s'' \<mapsto> \<lparr>row_value = 10, row_step = 10, row_algorithm = 0\<rparr>]\<rparr>"

definition ex_pool :: MySQLDBPool where
  "ex_pool = \<lparr>poolMap = [(0, \<lparr>runing = True, connOpt = \<lparr>co_min = 1, co_max = 2, dbid = 0, port = 3306,
     hostName = ''h'', user = ''u'', pass = ''p'', schema = ''x'', ctimeout = 30, wtimeout = 30,
     rtimeout = 60, expiretime = 240\<rparr>, freeQueue = [\<lparr>conn_id = 0, conn_dbid = 0, lastTime = 0,
     isErr = False, autoCommitCache = True\<rparr>], usedConns = 0, connectstr = ''''\<rparr>)], m_runing = True\<rparr>"

lemma fair_idle: "fair_others (\<lambda>k t. t)"
  by (simp add: fair_others_def advances_refl)

lemma ex_dw_inv: "dw_inv (\<lambda>k t. t) 10 ''s'' (ex_worker, ex_pool, ex_db)"
  by (simp add: dw_inv_def fair_idle ex_worker_def ex_db_def row_ok_def)

section \<open>What the worker promises\<close>

text \<open>
  C6: the ranges one incrementing worker returns, over any sequence of calls with positive
  steps, with other sessions claiming blocks of the same sequence in between and with failed
  calls allowed anywhere, increase strictly and never overlap. The bounds on the steps are the
  head room \<open>DELTA\<close> that \<open>nextRange\<close> keeps below the largest 64-bit value.
\<close>

theorem default_ids_increase:
  assumes "dw_inv others S name x" and "list_all client_step is"
  shows "sorted_wrt (\<lambda>a b. sint (sr_max a) < sint (sr_min b)) (run_calls (dw_call others) x is)"
  using assms by (rule dwi.run_sorted)

theorem default_ids_increase_witness:
  "sorted_wrt (\<lambda>a b. sint (sr_max a) < sint (sr_min b)) (run_calls (dw_call (\<lambda>k t. t)) (ex_worker, ex_pool, ex_db)
     [((0, 0), 3), ((0, 0), 3), ((0, 0), 7)])
   \<and> run_calls (dw_call (\<lambda>k t. t)) (ex_worker, ex_pool, ex_db) [((0, 0), 3), ((0, 0), 3), ((0, 0), 7)] =
     [\<lparr>sr_min = 6, sr_max = 8\<rparr>, \<lparr>sr_min = 9, sr_max = 10\<rparr>, \<lparr>sr_min = 11, sr_max = 17\<rparr>]"
proof
  show "sorted_wrt (\<lambda>a b. sint (sr_max a) < sint (sr_min b)) (run_calls (dw_call (\<lambda>k t. t)) (ex_worker, ex_pool, ex_db)
     [((0, 0), 3), ((0, 0), 3), ((0, 0), 7)])"
    by (rule default_ids_increase [OF ex_dw_inv]) (simp add: client_step_def)
qed code_simp

section \<open>Functional behaviour\<close>

text \<open>
  While values are left, a call answers from memory: it leaves the pool and the database
  alone, raises the value by the step, and returns the values after the old one, cut at the end
  of the block, with the datacenter mask set.
\<close>

theorem default_answers_from_block:
  assumes "sint (dw_value w) < sint (dw_max w)" "0 < sint step" "sint (dw_value w) + sint step < 2 ^ 63"
  shows "dw_getAndIncrement drv now step w P d =
    (Returned (Some (apply_mask w \<lparr>sr_min = dw_value w + 1,
       sr_max = (if dw_max w <s dw_value w + scast step then dw_max w else dw_value w + scast step)\<rparr>)),
     w\<lparr>dw_value := dw_value w + scast step\<rparr>, P, d)"
  using assms by (auto simp: dw_getAndIncrement_def addAndIncrement_def used_up_iff add_and_fetch_def
      Let_def word_sless_alt apply_mask_def)

lemma nextval_quiet:
  assumes "my_tbl d name = Some r" "0 < row_step r" "0 \<le> row_value r" "row_value r + row_step r \<le> LONG_MAX"
  shows "seq_nextval_v2 (\<lambda>k t. t) name (my_tick d) (my_tbl d) =
    (Some (block_text (row_value r) (row_step r)), Suc (Suc (my_tick d)),
     (my_tbl d)(name \<mapsto> r\<lparr>row_value := row_value r + row_step r\<rparr>))"
proof -
  have "nextval_loop (\<lambda>k t. t) name (Suc 99) (my_tick d) (my_tbl d) =
    (Some (block_text (row_value r) (row_step r)), Suc (Suc (my_tick d)),
     (my_tbl d)(name \<mapsto> r\<lparr>row_value := row_value r + row_step r\<rparr>))"
    using assms by (subst nextval_loop.simps) (simp add: Let_def LONG_MIN_def)
  then show ?thesis by (simp add: seq_nextval_v2_def del: nextval_loop.simps)
qed

lemma nextRange_quiet:
  assumes "name \<noteq> []" "my_tbl d name = Some r"
    and "0 < row_step r" "row_step r \<le> 50000000" "0 < row_value r" "row_value r < 2 ^ 63 - 1 - 100000000"
    and "GetConnection (mysql_driver (\<lambda>k t. t)) (fst now) 0 P d = (Ret (Some c), P1, d1)"
  shows "\<exists>P2 d2. nextRange (mysql_driver (\<lambda>k t. t)) now name w P d = (Returned (),
      w\<lparr>dw_value := word_of_int (row_value r), dw_max := word_of_int (row_value r + row_step r), dw_step := word_of_int (row_step r)\<rparr>, P2, d2)
    \<and> row_value (the (my_tbl d2 name)) = row_value r + row_step r"
proof -
  let ?drv = "mysql_driver (\<lambda>k t. t)"
  obtain e w2 P2 d2 where n: "nextRange ?drv now (name) w P d = (e, w2, P2, d2)" by (metis prod.collapse)
  have t1: "my_tbl d1 = my_tbl d" by (rule mysql_GetConnection_tbl [OF assms(7)])
  have q: "drv_query ?drv (conn_id c) sql_nextval [name] d1 =
    (Row (block_text (row_value r) (row_step r)), d1\<lparr>my_tick := Suc (Suc (my_tick d1)),
       my_tbl := (my_tbl d)(name \<mapsto> r\<lparr>row_value := row_value r + row_step r\<rparr>)\<rparr>)"
    using nextval_quiet [of d1 "name" r] assms t1 by (simp add: mysql_query_nextval LONG_MAX_def)
  have rb: "read_block (Row (block_text (row_value r) (row_step r))) =
    Some (word_of_int (clamp_long (row_value r)), word_of_int (row_step r))"
    using assms by (intro read_block_text) simp_all
  obtain P3 d3 where f: "FreeConnection ?drv (snd now) (Some c) P1 (snd (drv_query ?drv (conn_id c) sql_nextval [name] d1)) = (P3, d3)"
    by (metis prod.collapse)
  have d3: "d3 = snd (drv_query ?drv (conn_id c) sql_nextval [name] d1)" using mysql_FreeConnection_db [OF f] by simp
  have v0: "0 \<le> row_value r" using assms by simp
  note eq = nextRange_row [OF assms(1,7) q rb f [unfolded q snd_conv], of w] and cl = clamp_word_cases [OF v0]
  have e: "e = Returned ()" and d2: "d2 = d3" using n eq cl assms by simp_all
  have ro: "row_ok (row_step r) (name) d" using assms by (simp add: row_ok_def)
  obtain v where v: "w2 = w\<lparr>dw_value := word_of_int v, dw_max := word_of_int (v + row_step r), dw_step := word_of_int (row_step r)\<rparr>"
    "row_value (the (my_tbl d2 (name))) = v + row_step r" "0 < v" "v < 2 ^ 63 - 1 - 100000000"
    using nextRange_mysql [OF fair_idle assms(3,4) ro n] e by auto
  have vr: "v = row_value r" using v(2) d2 d3 q by simp
  show ?thesis using n e v(1,2) vr by auto
qed

text \<open>
  When the block is used up, a connection is available and no other session interferes, the
  call claims the block after the stored value and answers from it, and the stored value moves
  past the block.
\<close>

theorem default_claims_next_block:
  assumes "used_up w" "dw_name w \<noteq> []" "my_tbl d (dw_name w) = Some r"
    and "0 < row_step r" "row_step r \<le> 50000000" "0 < row_value r" "row_value r < 2 ^ 63 - 1 - 100000000"
    and "0 < sint step" "sint step \<le> 50000000"
    and "GetConnection (mysql_driver (\<lambda>k t. t)) (fst now) 0 P d = (Ret (Some c), P1, d1)"
  shows "\<exists>w' P' d' q. dw_getAndIncrement (mysql_driver (\<lambda>k t. t)) now step w P d = (Returned (Some (apply_mask w q)), w', P', d')
    \<and> sint (sr_min q) = row_value r + 1 \<and> sint (sr_max q) = row_value r + min (sint step) (row_step r)
    \<and> row_value (the (my_tbl d' (dw_name w))) = row_value r + row_step r"
proof -
  let ?drv = "mysql_driver (\<lambda>k t. t)" and ?v = "row_value r"
  obtain w2 P2 d2 where n: "nextRange ?drv now (dw_name w) w P d = (Returned (), w2, P2, d2)"
    "row_value (the (my_tbl d2 (dw_name w))) = ?v + row_step r"
    and w2: "w2 = w\<lparr>dw_value := word_of_int ?v, dw_max := word_of_int (?v + row_step r), dw_step := word_of_int (row_step r)\<rparr>"
    using nextRange_quiet [OF assms(2-7,10), of w] by blast
  have s: "sint (dw_value w2) = ?v" "sint (dw_max w2) = ?v + row_step r"
    using w2 assms by (simp_all add: sint_word_of_int_small del: of_int_add)
  obtain q' where a: "add_and_fetch step w2 = (Some q', w2\<lparr>dw_value := dw_value w2 + scast step\<rparr>)"
    "sint (sr_min q') = ?v + 1" "sint (sr_max q') = min (?v + sint step) (?v + row_step r)"
    using add_and_fetch_spec [of w2 step] s assms by auto
  have "\<not> used_up w2" using s assms by (simp add: used_up_iff)
  moreover have "apply_mask (w2\<lparr>dw_value := dw_value w2 + scast step\<rparr>) q' = apply_mask w q'"
    using w2 by (simp add: apply_mask_def)
  ultimately have "dw_getAndIncrement ?drv now step w P d = (Returned (Some (apply_mask w q')), w2\<lparr>dw_value := dw_value w2 + scast step\<rparr>, P2, d2)"
    using assms(1) n a by (simp add: dw_getAndIncrement_def addAndIncrement_def dw_finish_def)
  with a n show ?thesis by auto
qed


theorem default_answers_from_block_witness:
  "dw_getAndIncrement (mysql_driver (\<lambda>k t. t)) (0, 0) 7 ex_worker ex_pool ex_db =
    (Returned (Some \<lparr>sr_min = 6, sr_max = 10\<rparr>), ex_worker\<lparr>dw_value := 12\<rparr>, ex_pool, ex_db)"
  by (subst default_answers_from_block) (simp_all add: ex_worker_def apply_mask_def word_sless_alt)

theorem default_claims_next_block_witness:
  "\<exists>w' P' d' q. dw_getAndIncrement (mysql_driver (\<lambda>k t. t)) (0, 0) 7 (ex_worker\<lparr>dw_value := 10\<rparr>) ex_pool ex_db =
      (Returned (Some (apply_mask (ex_worker\<lparr>dw_value := 10\<rparr>) q)), w', P', d')
    \<and> sint (sr_min q) = 10 + 1 \<and> sint (sr_max q) = 10 + min 7 10
    \<and> row_value (the (my_tbl d' ''s'')) = 10 + 10"
  using default_claims_next_block [of "ex_worker\<lparr>dw_value := 10\<rparr>" ex_db "\<lparr>row_value = 10, row_step = 10, row_algorithm = 0\<rparr>" 7 "(0, 0)" ex_pool]
  by (simp add: ex_worker_def ex_db_def ex_pool_def used_up_iff GetConnection_def sp_GetConnection_def)

section \<open>Connections\<close>

lemma map_of_put_pool: "map_of (put_pool k p m) = (map_of m)(k \<mapsto> p)"
  by (induction k p m rule: put_pool.induct) auto

definition pool0_ok :: "MySQLDBPool \<Rightarrow> bool" where
  "pool0_ok P \<longleftrightarrow> (case map_of (poolMap P) 0 of None \<Rightarrow> False
     | Some p \<Rightarrow> dbid (connOpt p) = 0 \<and> list_all (\<lambda>c. conn_dbid c = 0) (freeQueue p))"

lemma GetConnection_used:
  assumes "GetConnection drv t 0 P d = (r, P1, d1)" "pool0_ok P"
  shows "pool0_ok P1 \<and> (case r of Ret (Some c) \<Rightarrow> conn_dbid c = 0 | _ \<Rightarrow> True) \<and>
    usedConns (the (map_of (poolMap P1) 0)) = usedConns (the (map_of (poolMap P) 0)) +
      (case r of Ret (Some _) \<Rightarrow> 1 | _ \<Rightarrow> 0)"
  using assms by (auto simp: GetConnection_def sp_GetConnection_def pool0_ok_def map_of_put_pool Let_def mk_Connection_def
      split: option.splits prod.splits list.splits if_splits connect_reply.splits)

lemma FreeConnection_used:
  assumes "FreeConnection drv t (Some c) P d = (P1, d1)" "pool0_ok P" "conn_dbid c = 0"
  shows "pool0_ok P1 \<and>
    usedConns (the (map_of (poolMap P1) 0)) = usedConns (the (map_of (poolMap P) 0)) - 1"
  using assms by (auto simp: FreeConnection_def sp_ReleaseConnect_def pool0_ok_def map_of_put_pool Let_def
      split: option.splits prod.splits list.splits if_splits)

text \<open>
  \<open>nextRange\<close> gives its connection back on every path that returns or throws, so it never
  loses one, for every database driver: the number of used connections is what it was.
\<close>

theorem nextRange_frees_connection:
  assumes "nextRange drv now name w P d = (e, w', P', d')" "pool0_ok P"
    and "e \<noteq> Aborted" "e \<noteq> OutOfBounds"
  shows "pool0_ok P' \<and> usedConns (the (map_of (poolMap P') 0)) = usedConns (the (map_of (poolMap P) 0))"
proof (cases "name = []")
  case True
  with assms show ?thesis by (auto simp: nextRange_def)
next
  case False
  obtain r P1 d1 where g: "GetConnection drv (fst now) 0 P d = (r, P1, d1)" by (metis prod.collapse)
  note gu = GetConnection_used [OF g assms(2)]
  show ?thesis
  proof (cases "\<exists>c. r = Ret (Some c)")
    case no: False
    then show ?thesis using assms g gu False by (auto simp: nextRange_def split: outcome.splits option.splits)
  next
    case True
    then obtain c where c: "r = Ret (Some c)" by blast
    obtain q d2 where q: "drv_query drv (conn_id c) sql_nextval [name] d1 = (q, d2)" by (metis prod.collapse)
    have "\<exists>d3. FreeConnection drv (snd now) (Some c) P1 d2 = (P', d3) \<or>
        FreeConnection drv (snd now) (Some (c\<lparr>isErr := True\<rparr>)) P1 d2 = (P', d3)"
      using assms(1,3,4) False g c q gu
      by (auto simp: nextRange_def split: query_reply.splits option.splits prod.splits if_splits)
    then show ?thesis using FreeConnection_used gu c by fastforce
  qed
qed

theorem nextRange_frees_connection_witness:
  "\<exists>e w' P' d'. nextRange (mysql_driver (\<lambda>k t. t)) (0, 0) ''s'' ex_worker ex_pool ex_db = (e, w', P', d')
     \<and> pool0_ok P' \<and> usedConns (the (map_of (poolMap P') 0)) = 0"
proof -
  obtain P2 d2 w2 where n: "nextRange (mysql_driver (\<lambda>k t. t)) (0, 0) ''s'' ex_worker ex_pool ex_db = (Returned (), w2, P2, d2)"
    using nextRange_quiet [of "''s''" ex_db "\<lparr>row_value = 10, row_step = 10, row_algorithm = 0\<rparr>" "(0, 0)" ex_pool]
    by (simp add: ex_db_def ex_pool_def GetConnection_def sp_GetConnection_def) blast
  have "pool0_ok ex_pool" by code_simp
  from nextRange_frees_connection [OF n this] have "pool0_ok P2 \<and> usedConns (the (map_of (poolMap P2) 0)) = 0"
    by (simp add: ex_pool_def)
  with n show ?thesis by blast
qed

section \<open>Inputs the worker does not reject\<close>

text \<open>
  A row without a comma, where the source means to ignore it, makes \<open>my_strchr\<close> read past
  the end of the string.
\<close>

theorem nextRange_no_comma_past_end:
  assumes "name \<noteq> []" and "GetConnection drv (fst now) 0 P d = (Ret (Some c), P1, d1)"
    and "drv_query drv (conn_id c) sql_nextval [name] d1 = (Row s, d2)"
    and "s \<noteq> []" "hd s \<noteq> CHR 0x00" "CHR '','' \<notin> set s"
  shows "fst (nextRange drv now name w P d) = OutOfBounds"
proof -
  have "read_block (Row s) = None"
    using assms(4-6) split_at_None_iff [of "CHR '',''" s] by (simp add: read_block_def my_strchr_def)
  with assms show ?thesis by (simp add: nextRange_def)
qed

definition no_comma_driver :: "nat driver" where
  "no_comma_driver = \<lparr>drv_connect = (\<lambda>m d. (ConnectNull, d)), drv_close = (\<lambda>i d. d),
     drv_query = (\<lambda>i q ps d. (Row ''17'', d))\<rparr>"

theorem nextRange_no_comma_past_end_witness:
  "fst (nextRange no_comma_driver (0, 0) ''s'' ex_worker ex_pool 0) = OutOfBounds"
  using nextRange_no_comma_past_end [of "''s''" no_comma_driver "(0, 0)" ex_pool 0]
  by (simp add: no_comma_driver_def ex_pool_def GetConnection_def sp_GetConnection_def)

lemma scast_uminus:
  fixes s :: i32
  assumes "- (2 ^ 31) < sint s"
  shows "(scast (- s) :: i64) = - scast s"
proof -
  have "sint s < 2 ^ 31" using sint_lt [of s] by simp
  then have a: "sint (- s) = - sint s"
    using sint_minus_small [of 0 s] assms by simp
  have "sint (- (scast s :: i64)) = - sint s"
    using sint_minus_small [of 0 "scast s :: i64"] assms \<open>sint s < 2 ^ 31\<close> by (simp add: sint_scast_up)
  with a show ?thesis by (intro signed_word_eqI [where 'a = int]) (simp add: sint_scast_up)
qed

text \<open>
  A negative step is not rejected and moves the worker back: the call after it returns the
  range the call before it returned, so the same identifiers are handed out twice.
\<close>

theorem default_negative_step_reissues:
  assumes "sint (dw_value w) < sint (dw_max w)" "0 < sint step"
    and "sint (dw_value w) + sint step < sint (dw_max w)"
  shows "\<exists>r1 r2 w1 w2 w3. dw_getAndIncrement drv now step w P d = (Returned (Some r1), w1, P, d)
    \<and> dw_getAndIncrement drv now (- step) w1 P d = (Returned (Some r2), w2, P, d)
    \<and> dw_getAndIncrement drv now step w2 P d = (Returned (Some r1), w3, P, d)"
proof -
  let ?s = "scast step :: i64"
  have m: "(scast (- step) :: i64) = - ?s" using assms(2) by (intro scast_uminus) simp
  have "sint (dw_max w) < 2 ^ 63" using sint_lt [of "dw_max w"] by simp
  moreover have lo: "- (2 ^ 63) \<le> sint (dw_value w)" using sint_ge [of "dw_value w"] by simp
  ultimately have c: "sint (dw_value w + ?s) = sint (dw_value w) + sint step"
    using assms by (subst sint_plus_small) (simp_all add: sint_scast_up)
  let ?r1 = "apply_mask w \<lparr>sr_min = dw_value w + 1, sr_max = dw_value w + ?s\<rparr>"
  let ?w1 = "w\<lparr>dw_value := dw_value w + ?s\<rparr>"
  have 1: "dw_getAndIncrement drv now step w' P d =
    (Returned (Some ?r1), ?w1, P, d)" if "w' = w\<lparr>dw_value := dw_value w\<rparr>" for w'
    using that assms c by (simp add: dw_getAndIncrement_def addAndIncrement_def used_up_iff add_and_fetch_def
        Let_def word_sless_alt apply_mask_def)
  have 2: "dw_getAndIncrement drv now (- step) ?w1 P d =
    (Returned (Some (apply_mask w \<lparr>sr_min = dw_value w + ?s + 1, sr_max = dw_value w\<rparr>)), w\<lparr>dw_value := dw_value w\<rparr>, P, d)"
    using assms c by (simp add: dw_getAndIncrement_def addAndIncrement_def used_up_iff add_and_fetch_def
        Let_def word_sless_alt apply_mask_def m)
  show ?thesis using 1 [of w] 1 [OF refl] 2 by (simp add: exI)
qed

theorem default_negative_step_reissues_witness:
  "\<exists>r1 r2 w1 w2 w3. dw_getAndIncrement no_comma_driver (0, 0) 3 ex_worker ex_pool 0 = (Returned (Some r1), w1, ex_pool, 0)
    \<and> dw_getAndIncrement no_comma_driver (0, 0) (- 3) w1 ex_pool 0 = (Returned (Some r2), w2, ex_pool, 0)
    \<and> dw_getAndIncrement no_comma_driver (0, 0) 3 w2 ex_pool 0 = (Returned (Some r1), w3, ex_pool, 0)"
  by (rule default_negative_step_reissues) (simp_all add: ex_worker_def)

section \<open>Datacenters\<close>

definition mask_width :: "int \<Rightarrow> nat" where
  "mask_width bits = (if bits = 32 then sequenceBits32 else sequenceBits64)"

text \<open>The mask a constructed worker has: its datacenter above the sequence bits.\<close>

lemma nextRange_keeps_mask:
  "nextRange drv now name w P d = (e, w', P', d') \<Longrightarrow>
    seqBits w' = seqBits w \<and> datacenterIdMask32 w' = datacenterIdMask32 w
    \<and> datacenterIdMask64 w' = datacenterIdMask64 w"
  by (auto simp: nextRange_def split: outcome.splits option.splits prod.splits query_reply.splits if_splits)

lemma new_worker_mask:
  assumes "new_DefaultSequenceWorker drv now name dc bits P d = (Returned w, P', d')"
    and "bits = 32 \<or> bits = 64"
  shows "seqBits w = bits" "0 \<le> sint dc"
    "bits = 32 \<Longrightarrow> uint dc < 32 \<and> datacenterIdMask32 w = push_bit 26 dc"
    "bits = 64 \<Longrightarrow> uint dc < 1024 \<and> datacenterIdMask64 w = push_bit 51 (scast dc)"
proof -
  have m: "uint (mask 5 :: u32) = 31" "uint (mask 10 :: u32) = 1023" by (simp_all add: mask_eq_exp_minus_1)
  show "seqBits w = bits" "0 \<le> sint dc"
    "bits = 32 \<Longrightarrow> uint dc < 32 \<and> datacenterIdMask32 w = push_bit 26 dc"
    "bits = 64 \<Longrightarrow> uint dc < 1024 \<and> datacenterIdMask64 w = push_bit 51 (scast dc)"
    using assms
    by (auto simp: new_DefaultSequenceWorker_def Let_def m word_sless_alt word_less_def sequenceBits32_def sequenceBits64_def
        datacenterIdBits32_def datacenterIdBits64_def
        dest!: nextRange_keeps_mask split: if_splits exec.splits prod.splits)
qed

text \<open>Setting the mask adds the datacenter above a value that fits in the sequence bits.\<close>

lemma apply_mask_sint:
  assumes "new_DefaultSequenceWorker drv now name dc bits P d = (Returned w, P', d')"
    and "bits = 32 \<or> bits = 64" and "0 \<le> sint x" "sint x < 2 ^ mask_width bits"
  shows "sint ((if bits = 32 then ucast (datacenterIdMask32 w) else datacenterIdMask64 w) OR x) =
    uint dc * 2 ^ mask_width bits + sint x"
proof -
  note nw = new_worker_mask [OF assms(1,2)]
  have w: "mask_width 32 = 26" "mask_width 64 = 51"
    by (simp_all add: mask_width_def sequenceBits32_def sequenceBits64_def datacenterIdBits32_def datacenterIdBits64_def)
  have ux: "uint x = sint x" using assms(3) by (simp add: uint_eq_sint_nonneg)
  show ?thesis
  proof (cases "bits = 32")
    case True
    have "uint (ucast (push_bit 26 dc) :: u64) = uint dc * 2 ^ 26"
      using nw(3) True by (simp add: uint_ucast_up uint_push_bit_small)
    then have "uint (ucast (push_bit 26 dc) OR x) = uint dc * 2 ^ 26 + uint x"
      using assms(4) True w ux by (intro uint_or_field) simp_all
    moreover have "uint dc * 2 ^ 26 + uint x < 2 ^ 63" using nw(3) True assms(4) w ux by simp
    ultimately show ?thesis using nw(3) True w ux by (subst sint_eq_uint_small) simp_all
  next
    case False
    then have b: "bits = 64" using assms(2) by simp
    have "sint (scast dc :: i64) = sint dc" by (simp add: sint_scast_up)
    then have us: "uint (scast dc :: u64) = uint dc"
      using nw(2) by (simp add: uint_eq_sint_nonneg)
    then have "uint (push_bit 51 (scast dc :: u64)) = uint dc * 2 ^ 51"
      using nw(4) b by (subst uint_push_bit_small) simp_all
    then have "uint (push_bit 51 (scast dc) OR x) = uint dc * 2 ^ 51 + uint x"
      using assms(4) b w ux by (intro uint_or_field) simp_all
    moreover have "uint dc * 2 ^ 51 + uint x < 2 ^ 63" using nw(4) b assms(4) w ux by simp
    ultimately show ?thesis using nw(4) b w ux by (subst sint_eq_uint_small) simp_all
  qed
qed

text \<open>
  Two workers of different datacenters that use the same width, 32 or 64, never return the
  same identifier while their values stay within the sequence bits (26 or 51): the datacenter
  can be read back from an identifier.
\<close>

theorem default_datacenters_disjoint:
  assumes "new_DefaultSequenceWorker drv1 now1 name1 dc1 bits P1 d1 = (Returned w1, P1', d1')"
    and "new_DefaultSequenceWorker drv2 now2 name2 dc2 bits P2 d2 = (Returned w2, P2', d2')"
    and "bits = 32 \<or> bits = 64" and "dc1 \<noteq> dc2"
    and "0 \<le> sint (sr_min r1)" "sint (sr_min r1) \<le> sint (sr_max r1)" "sint (sr_max r1) < 2 ^ mask_width bits"
    and "0 \<le> sint (sr_min r2)" "sint (sr_min r2) \<le> sint (sr_max r2)" "sint (sr_max r2) < 2 ^ mask_width bits"
  shows "range_ids (apply_mask w1 r1) \<inter> range_ids (apply_mask w2 r2) = {}
    \<and> (\<forall>x \<in> range_ids (apply_mask w1 r1). x div 2 ^ mask_width bits = uint dc1)"
proof -
  let ?m = "2 ^ mask_width bits :: int"
  have ids: "x div ?m = uint dc" if c: "new_DefaultSequenceWorker drv now name dc bits P d = (Returned w, P', d')"
    and r: "0 \<le> sint (sr_min r)" "sint (sr_min r) \<le> sint (sr_max r)" "sint (sr_max r) < ?m"
    and x: "x \<in> range_ids (apply_mask w r)" for drv :: "'x driver" and now name dc P d w P' d' r x
  proof -
    have b: "seqBits w = bits" by (rule new_worker_mask(1) [OF c assms(3)])
    have "range_ids (apply_mask w r) = {uint dc * ?m + sint (sr_min r) .. uint dc * ?m + sint (sr_max r)}"
      using apply_mask_sint [OF c assms(3), of "sr_min r"] apply_mask_sint [OF c assms(3), of "sr_max r"] b r assms(3)
      by (auto simp: range_ids_def apply_mask_def)
    then have "0 \<le> x - uint dc * ?m" "x - uint dc * ?m < ?m" using x r by auto
    then show ?thesis using div_mult_self1 [of ?m "x - uint dc * ?m" "uint dc"] by (simp add: mult.commute)
  qed
  show ?thesis using ids [OF assms(1,5-7)] ids [OF assms(2,8-10)] assms(4) by (metis disjoint_iff word_uint_eqI)
qed

definition ex_new :: "i32 \<Rightarrow> int \<Rightarrow> dw" where
  "ex_new dc bits = \<lparr>dw_name = ''s'', dw_value = 10, dw_max = 20, dw_step = 10,
     datacenterIdMask64 = (if bits = 64 then push_bit 51 (scast dc) else 0),
     datacenterIdMask32 = (if bits = 32 then push_bit 26 dc else 0),
     maxDatacenterId = (if bits = 32 then 31 else 1023), seqBits = bits\<rparr>"

lemma ex_new_32:
  "fst (new_DefaultSequenceWorker (mysql_driver (\<lambda>k t. t)) (0, 0) ''s'' 0 32 ex_pool ex_db) = Returned (ex_new 0 32)"
  "fst (new_DefaultSequenceWorker (mysql_driver (\<lambda>k t. t)) (0, 0) ''s'' 1 32 ex_pool ex_db) = Returned (ex_new 1 32)"
  by code_simp+

theorem default_datacenters_disjoint_witness:
  "range_ids (apply_mask (ex_new 0 32) \<lparr>sr_min = 11, sr_max = 13\<rparr>)
     \<inter> range_ids (apply_mask (ex_new 1 32) \<lparr>sr_min = 11, sr_max = 13\<rparr>) = {}"
proof -
  obtain P0 d0 P1 d1 where
    0: "new_DefaultSequenceWorker (mysql_driver (\<lambda>k t. t)) (0, 0) ''s'' 0 32 ex_pool ex_db = (Returned (ex_new 0 32), P0, d0)" and
    1: "new_DefaultSequenceWorker (mysql_driver (\<lambda>k t. t)) (0, 0) ''s'' 1 32 ex_pool ex_db = (Returned (ex_new 1 32), P1, d1)"
    using ex_new_32 by (metis prod.collapse)
  show ?thesis
    by (rule default_datacenters_disjoint [OF 0 1, THEN conjunct1])
      (simp_all add: mask_width_def sequenceBits32_def datacenterIdBits32_def)
qed

text \<open>
  Nothing stops a 32-bit sequence from passing the 26 bits its mask leaves free: past them,
  a worker of datacenter 0 returns the identifiers of datacenter 1.
\<close>

theorem default_mask32_overflow:
  assumes "seqBits w0 = 32" "datacenterIdMask32 w0 = push_bit 26 0"
    and "seqBits w1 = 32" "datacenterIdMask32 w1 = push_bit 26 1"
    and "0 \<le> sint a" "sint a \<le> sint b" "sint b < 2 ^ 26"
  shows "apply_mask w0 \<lparr>sr_min = 2 ^ 26 + a, sr_max = 2 ^ 26 + b\<rparr> = apply_mask w1 \<lparr>sr_min = a, sr_max = b\<rparr>"
proof -
  have "(2 ^ 26 :: u64) OR x = 2 ^ 26 + x" if "0 \<le> sint x" "sint x < 2 ^ 26" for x
  proof (rule unsigned_word_eqI [where 'a = int])
    have ux: "uint x = sint x" using that by (simp add: uint_eq_sint_nonneg)
    have "uint ((2 ^ 26 :: u64) OR x) = 1 * 2 ^ 26 + uint x" using that ux by (intro uint_or_field) simp_all
    moreover have "uint ((2 ^ 26 :: u64) + x) = 2 ^ 26 + uint x" using that ux by (subst uint_plus_small) simp_all
    ultimately show "uint ((2 ^ 26 :: u64) OR x) = uint ((2 ^ 26 :: u64) + x)" by simp
  qed
  from this [of a] this [of b] show ?thesis using assms by (simp add: apply_mask_def)
qed

theorem default_mask32_overflow_witness:
  "apply_mask (ex_new 0 32) \<lparr>sr_min = 2 ^ 26 + 11, sr_max = 2 ^ 26 + 13\<rparr> = apply_mask (ex_new 1 32) \<lparr>sr_min = 11, sr_max = 13\<rparr>"
  by (rule default_mask32_overflow) (simp_all add: ex_new_def)

end
