(* ===== verification/DefaultConcurrent.thy ===== *)
theory DefaultConcurrent
  imports DefaultWorker
begin

text \<open>
  Concurrent calls of \<open>DefaultSequenceWorker::getAndIncrement\<close>. Readers hold the read lock
  together, so the test of \<open>addAndIncrement\<close> in one thread may be followed by additions of other
  threads before its own; the atomic addition is one step. A refill holds the write lock and
  runs with no reader between its test and its addition. The block a refill gets is the block
  \<open>nextRange\<close> claimed: it starts at or after the end of the last one and ends below 2^62.
\<close>

section \<open>The step relation\<close>

datatype pc = Idle | Checked i32 | Refill i32

record conc =
  cw :: dw
  pcs :: "pc list"
  issued :: "SequenceRange list"

definition no_reader :: "conc \<Rightarrow> bool" where
  "no_reader s \<longleftrightarrow> list_all (\<lambda>p. case p of Checked _ \<Rightarrow> False | _ \<Rightarrow> True) (pcs s)"

definition issue :: "SequenceRange option \<Rightarrow> SequenceRange list \<Rightarrow> SequenceRange list" where
  "issue r rs = (case r of None \<Rightarrow> rs | Some q \<Rightarrow> rs @ [q])"

inductive dw_step_conc :: "conc \<Rightarrow> conc \<Rightarrow> bool" where
  test_left: "i < length (pcs s) \<Longrightarrow> pcs s ! i = Idle \<Longrightarrow> 0 < sint step \<Longrightarrow> \<not> used_up (cw s) \<Longrightarrow>
    dw_step_conc s (s\<lparr>pcs := (pcs s)[i := Checked step]\<rparr>)"
| test_used_up: "i < length (pcs s) \<Longrightarrow> pcs s ! i = Idle \<Longrightarrow> 0 < sint step \<Longrightarrow> used_up (cw s) \<Longrightarrow>
    dw_step_conc s (s\<lparr>pcs := (pcs s)[i := Refill step]\<rparr>)"
| add: "i < length (pcs s) \<Longrightarrow> pcs s ! i = Checked step \<Longrightarrow> add_and_fetch step (cw s) = (r, w') \<Longrightarrow>
    dw_step_conc s (s\<lparr>cw := w', issued := issue r (issued s),
      pcs := (pcs s)[i := (if r = None then Refill step else Idle)]\<rparr>)"
| refill: "i < length (pcs s) \<Longrightarrow> pcs s ! i = Refill step \<Longrightarrow> no_reader s \<Longrightarrow> used_up (cw s) \<Longrightarrow>
    sint (dw_max (cw s)) \<le> v \<Longrightarrow> 0 < n \<Longrightarrow> v + n < 2 ^ 62 \<Longrightarrow>
    addAndIncrement step ((cw s)\<lparr>dw_value := word_of_int v, dw_max := word_of_int (v + n), dw_step := word_of_int n\<rparr>) = (r, w') \<Longrightarrow>
    dw_step_conc s (s\<lparr>cw := w', issued := issue r (issued s), pcs := (pcs s)[i := Idle]\<rparr>)"
| late: "i < length (pcs s) \<Longrightarrow> pcs s ! i = Refill step \<Longrightarrow> no_reader s \<Longrightarrow> \<not> used_up (cw s) \<Longrightarrow>
    addAndIncrement step (cw s) = (r, w') \<Longrightarrow>
    dw_step_conc s (s\<lparr>cw := w', issued := issue r (issued s), pcs := (pcs s)[i := Idle]\<rparr>)"
| refill_fails: "i < length (pcs s) \<Longrightarrow> pcs s ! i = Refill step \<Longrightarrow> no_reader s \<Longrightarrow> used_up (cw s) \<Longrightarrow>
    dw_step_conc s (s\<lparr>pcs := (pcs s)[i := Idle]\<rparr>)"

inductive_cases dw_step_concE: "dw_step_conc s t"

section \<open>The invariant\<close>

definition reading :: "pc \<Rightarrow> nat" where
  "reading p = (case p of Checked _ \<Rightarrow> 1 | _ \<Rightarrow> 0)"

definition readers :: "pc list \<Rightarrow> nat" where
  "readers ps = sum_list (map reading ps)"

definition pc_ok :: "pc \<Rightarrow> bool" where
  "pc_ok p = (case p of Idle \<Rightarrow> True | Checked s \<Rightarrow> 0 < sint s | Refill s \<Rightarrow> 0 < sint s)"

text \<open>
  The value may pass the end of the block, by at most one step for each reader: that bounds it,
  so the 64-bit addition never wraps. Every range handed out ends at or before the smaller of
  the value and the end of the block.
\<close>

definition conc_inv :: "conc \<Rightarrow> bool" where
  "conc_inv s \<longleftrightarrow> list_all pc_ok (pcs s) \<and> 0 < length (pcs s) \<and> length (pcs s) < 2 ^ 20 \<and>
     sint (dw_max (cw s)) < 2 ^ 62 \<and>
     (used_up (cw s) \<longrightarrow> sint (dw_value (cw s)) + 2 ^ 31 * int (readers (pcs s)) \<le> sint (dw_max (cw s)) + 2 ^ 31 * int (length (pcs s))) \<and>
     sorted_wrt (\<lambda>a b. sint (sr_max a) < sint (sr_min b)) (issued s) \<and>
     (\<forall>r \<in> set (issued s). sint (sr_min r) \<le> sint (sr_max r) \<and>
        sint (sr_max r) \<le> min (sint (dw_value (cw s))) (sint (dw_max (cw s))))"

lemma reading_simps [simp]: "reading Idle = 0" "reading (Checked s) = 1" "reading (Refill s) = 0"
  by (simp_all add: reading_def)

lemma readers_update:
  assumes "i < length ps"
  shows "int (readers (ps[i := p])) = int (readers ps) - int (reading (ps ! i)) + int (reading p)"
proof -
  have "map reading ps ! i \<le> sum_list (map reading ps)" using assms by (intro elem_le_sum_list) simp
  then show ?thesis using assms by (simp add: readers_def map_update sum_list_update of_nat_diff)
qed

lemma readers_le: "readers ps \<le> length ps"
  by (induction ps) (auto simp: readers_def reading_def split: pc.splits)

lemma no_reader_readers: "no_reader s \<Longrightarrow> readers (pcs s) = 0"
  by (auto simp: no_reader_def readers_def reading_def list_all_iff split: pc.splits)

lemma pc_ok_update: "list_all pc_ok ps \<Longrightarrow> pc_ok p \<Longrightarrow> list_all pc_ok (ps[i := p])"
  by (auto simp: list_all_iff dest!: set_update_subset_insert [THEN subsetD])

lemma add_and_fetch_conc:
  assumes "0 < sint step" "sint (dw_value w) + sint step < 2 ^ 63" "add_and_fetch step w = (r, w')"
  shows "dw_max w' = dw_max w \<and> sint (dw_value w') = sint (dw_value w) + sint step \<and>
    (if used_up w then r = None
     else \<exists>q. r = Some q \<and> sint (sr_min q) = sint (dw_value w) + 1
        \<and> sint (sr_max q) = min (sint (dw_value w')) (sint (dw_max w)))"
proof (cases "used_up w")
  case False
  then show ?thesis using add_and_fetch_spec [of w step] assms by (auto simp: used_up_iff)
next
  case True
  have lo: "- (2 ^ 63) \<le> sint (dw_value w)" using sint_ge [of "dw_value w"] by simp
  have "sint (dw_value w + scast step) = sint (dw_value w) + sint step"
    using assms lo by (subst sint_plus_small) (simp_all add: sint_scast_up)
  with True assms show ?thesis
    by (auto simp: used_up_iff add_and_fetch_def Let_def word_sless_alt split: if_splits)
qed

lemma step_below: "sint (s :: i32) < 2 ^ 31"
  using sint_lt [of s] by simp

text \<open>What a single addition on a bounded worker does to the ranges handed out.\<close>

lemma issue_ok:
  assumes "sorted_wrt (\<lambda>a b. sint (sr_max a) < sint (sr_min b)) rs"
    and "\<forall>r \<in> set rs. sint (sr_min r) \<le> sint (sr_max r) \<and> sint (sr_max r) \<le> m"
    and "case r of None \<Rightarrow> m \<le> m' | Some q \<Rightarrow> m < sint (sr_min q) \<and> sint (sr_min q) \<le> sint (sr_max q) \<and> sint (sr_max q) \<le> m'"
  shows "sorted_wrt (\<lambda>a b. sint (sr_max a) < sint (sr_min b)) (issue r rs) \<and>
    (\<forall>r \<in> set (issue r rs). sint (sr_min r) \<le> sint (sr_max r) \<and> sint (sr_max r) \<le> m')"
  using assms by (fastforce simp: issue_def sorted_wrt_append split: option.splits)

lemma conc_add:
  assumes inv: "conc_inv s" and step: "0 < sint step" and a: "add_and_fetch step (cw s) = (r, w')"
    and ps: "list_all pc_ok ps" "length ps = length (pcs s)"
    and rd: "if used_up (cw s) then readers ps < readers (pcs s) else readers ps < length ps"
  shows "conc_inv (s\<lparr>cw := w', issued := issue r (issued s), pcs := ps\<rparr>)"
proof -
  let ?v = "sint (dw_value (cw s))" and ?m = "sint (dw_max (cw s))" and ?n = "int (length (pcs s))"
  have i: "length (pcs s) < 2 ^ 20" "0 < length (pcs s)" "?m < 2 ^ 62"
    "used_up (cw s) \<Longrightarrow> ?v + 2 ^ 31 * int (readers (pcs s)) \<le> ?m + 2 ^ 31 * ?n"
    using inv by (simp_all add: conc_inv_def)
  have b: "?v + sint step < 2 ^ 63"
  proof (cases "used_up (cw s)")
    case True
    then show ?thesis using i step_below [of step] by simp
  next
    case False
    then show ?thesis using i step_below [of step] by (simp add: used_up_iff)
  qed
  note af = add_and_fetch_conc [OF step b a]
  have u: "sint (dw_value w') + 2 ^ 31 * int (readers ps) \<le> ?m + 2 ^ 31 * ?n"
  proof (cases "used_up (cw s)")
    case True
    then show ?thesis using i af rd step_below [of step] by simp
  next
    case False
    then show ?thesis using i af rd ps step_below [of step] by (simp add: used_up_iff)
  qed
  have "case r of None \<Rightarrow> min ?v ?m \<le> min (sint (dw_value w')) ?m
    | Some q \<Rightarrow> min ?v ?m < sint (sr_min q) \<and> sint (sr_min q) \<le> sint (sr_max q) \<and> sint (sr_max q) \<le> min (sint (dw_value w')) ?m"
    using af step by (auto simp: used_up_iff split: if_splits option.splits)
  from issue_ok [OF _ _ this, of "issued s"] inv show ?thesis
    using af i u ps step by (auto simp: conc_inv_def)
qed

lemma conc_inv_pcs:
  assumes "conc_inv s" "list_all pc_ok ps" "length ps = length (pcs s)"
    and "used_up (cw s) \<Longrightarrow> readers ps \<le> readers (pcs s)"
  shows "conc_inv (s\<lparr>pcs := ps\<rparr>)"
  using assms by (auto simp: conc_inv_def)

lemma conc_inv_block:
  assumes "conc_inv s" "used_up (cw s)" "sint (dw_max (cw s)) \<le> v" "0 < n" "v + n < 2 ^ 62"
    and "w2 = (cw s)\<lparr>dw_value := word_of_int v, dw_max := word_of_int (v + n), dw_step := word_of_int n\<rparr>"
  shows "conc_inv (s\<lparr>cw := w2\<rparr>) \<and> \<not> used_up w2"
proof -
  have "- (2 ^ 63) \<le> sint (dw_max (cw s))" using sint_ge [of "dw_max (cw s)"] by simp
  then have "sint (dw_value w2) = v" "sint (dw_max w2) = v + n"
    using assms(3-6) by (simp_all add: sint_word_of_int_small del: of_int_add)
  with assms show ?thesis by (fastforce simp: conc_inv_def used_up_iff)
qed

lemma conc_inv_positive:
  assumes "conc_inv s" "i < length (pcs s)" "pcs s ! i = Checked step \<or> pcs s ! i = Refill step"
  shows "0 < sint step"
proof -
  have "pc_ok (pcs s ! i)" using assms(1,2) by (simp add: conc_inv_def list_all_length)
  with assms(3) show ?thesis by (auto simp: pc_ok_def)
qed

lemma dw_step_conc_inv:
  assumes "dw_step_conc s t" "conc_inv s"
  shows "conc_inv t"
  using assms
proof (induction rule: dw_step_conc.induct)
  case (test_left i s step)
  then show ?case by (intro conc_inv_pcs pc_ok_update) (auto simp: conc_inv_def pc_ok_def)
next
  case (test_used_up i s step)
  have "readers ((pcs s)[i := Refill step]) = readers (pcs s)"
    using readers_update [of i "pcs s" "Refill step"] test_used_up by simp
  with test_used_up show ?case by (intro conc_inv_pcs pc_ok_update) (auto simp: conc_inv_def pc_ok_def)
next
  case (add i s step r w')
  let ?p = "if r = None then Refill step else Idle"
  have st: "0 < sint step" using conc_inv_positive [of s i step] add by blast
  have "readers ((pcs s)[i := ?p]) < readers (pcs s)"
    using readers_update [of i "pcs s" ?p] add by (cases r) simp_all
  moreover have "readers (pcs s) \<le> length (pcs s)" by (rule readers_le)
  ultimately show ?case using add st by (intro conc_add pc_ok_update) (auto simp: conc_inv_def pc_ok_def)
next
  case (refill i s step v n r w')
  let ?w2 = "(cw s)\<lparr>dw_value := word_of_int v, dw_max := word_of_int (v + n), dw_step := word_of_int n\<rparr>"
  have b: "conc_inv (s\<lparr>cw := ?w2\<rparr>)" "\<not> used_up ?w2" using conc_inv_block [OF _ _ _ _ _ refl] refill by blast+
  have st: "0 < sint step" using conc_inv_positive [of s i step] refill by blast
  have "readers ((pcs s)[i := Idle]) = 0"
    using readers_update [of i "pcs s" Idle] no_reader_readers [of s] refill by simp
  then have "conc_inv ((s\<lparr>cw := ?w2\<rparr>)\<lparr>cw := w', issued := issue r (issued (s\<lparr>cw := ?w2\<rparr>)), pcs := (pcs s)[i := Idle]\<rparr>)"
    using refill st b by (intro conc_add [where step = step] pc_ok_update) (auto simp: conc_inv_def pc_ok_def addAndIncrement_def)
  then show ?case by simp
next
  case (late i s step r w')
  have st: "0 < sint step" using conc_inv_positive [of s i step] late by blast
  have "readers ((pcs s)[i := Idle]) = 0"
    using readers_update [of i "pcs s" Idle] no_reader_readers [of s] late by simp
  then show ?case using late st by (intro conc_add [where step = step] pc_ok_update) (auto simp: conc_inv_def pc_ok_def addAndIncrement_def)
next
  case (refill_fails i s step)
  have "readers ((pcs s)[i := Idle]) = readers (pcs s)"
    using readers_update [of i "pcs s" Idle] refill_fails by simp
  with refill_fails show ?case by (intro conc_inv_pcs pc_ok_update) (auto simp: conc_inv_def pc_ok_def)
qed

lemma dw_steps_conc_inv: "dw_step_conc\<^sup>*\<^sup>* s t \<Longrightarrow> conc_inv s \<Longrightarrow> conc_inv t"
  by (induction rule: rtranclp_induct) (auto intro: dw_step_conc_inv)

definition conc_start :: "dw \<Rightarrow> nat \<Rightarrow> conc" where
  "conc_start w n = \<lparr>cw = w, pcs = replicate n Idle, issued = []\<rparr>"

lemma conc_start_inv:
  assumes "0 < n" "n < 2 ^ 20" "sint (dw_max w) < 2 ^ 62" "sint (dw_value w) \<le> sint (dw_max w)"
  shows "conc_inv (conc_start w n)"
proof -
  have "readers (replicate n Idle) = 0" by (simp add: readers_def sum_list_replicate)
  with assms show ?thesis by (simp add: conc_inv_def conc_start_def pc_ok_def list_all_iff)
qed



end
