(* ===== verification/City.thy ===== *)
theory City
  imports Prelude "HOL-Library.Monad_Syntax"
begin

text \<open>
  The string hash of city.cpp and city.h, on a little-endian machine. A string is a list of
  bytes with an offset, the pointer \<open>s\<close>; a load outside the list is \<open>None\<close>, so that a hash that
  is \<open>Some\<close> has read only the bytes of its argument. Lengths are natural numbers, reduced modulo
  the word size where the source stores them in a word. The instruction \<open>_mm_crc32_u64\<close> is an
  argument \<open>crc\<close>.
\<close>

section \<open>Loads\<close>

type_synonym bytes = "8 word list"
type_synonym uint128 = "u64 \<times> u64"

definition load_le :: "bytes \<Rightarrow> 'a::len word" where
  "load_le bs = foldr (\<lambda>b acc. push_bit 8 acc OR ucast b) bs 0"

definition Fetch64 :: "bytes \<Rightarrow> nat \<Rightarrow> u64 option" where
  "Fetch64 bs p = (if p + 8 \<le> length bs then Some (load_le (take 8 (drop p bs))) else None)"

definition Fetch32 :: "bytes \<Rightarrow> nat \<Rightarrow> u32 option" where
  "Fetch32 bs p = (if p + 4 \<le> length bs then Some (load_le (take 4 (drop p bs))) else None)"

definition byte_at :: "bytes \<Rightarrow> nat \<Rightarrow> 8 word option" where
  "byte_at bs p = (if p < length bs then Some (bs ! p) else None)"

definition bswap_32 :: "u32 \<Rightarrow> u32" where
  "bswap_32 x = push_bit 24 (x AND 0xff) OR push_bit 8 (x AND 0xff00) OR
     (drop_bit 8 x AND 0xff00) OR drop_bit 24 x"

definition bswap_64 :: "u64 \<Rightarrow> u64" where
  "bswap_64 x = push_bit 32 (ucast (bswap_32 (ucast x))) OR ucast (bswap_32 (ucast (drop_bit 32 x)))"

definition k0 :: u64 where "k0 = 0xc3a5c85c97cb3127"
definition k1 :: u64 where "k1 = 0xb492b66fbe98f273"
definition k2 :: u64 where "k2 = 0x9ae16a3b2f90404f"
definition c1 :: u32 where "c1 = 0xcc9e2d51"
definition c2 :: u32 where "c2 = 0x1b873593"

section \<open>The 32-bit hash\<close>

definition fmix :: "u32 \<Rightarrow> u32" where
  "fmix h =
     (let h = h XOR drop_bit 16 h; h = h * 0x85ebca6b; h = h XOR drop_bit 13 h;
          h = h * 0xc2b2ae35; h = h XOR drop_bit 16 h
      in h)"

definition Rotate32 :: "u32 \<Rightarrow> nat \<Rightarrow> u32" where
  "Rotate32 val shift = (if shift = 0 then val else drop_bit shift val OR push_bit (32 - shift) val)"

definition Mur :: "u32 \<Rightarrow> u32 \<Rightarrow> u32" where
  "Mur a h =
     (let a = a * c1; a = Rotate32 a 17; a = a * c2; h = h XOR a; h = Rotate32 h 19
      in h * 5 + 0xe6546b64)"

definition Hash32Len13to24 :: "bytes \<Rightarrow> nat \<Rightarrow> u32 option" where
  "Hash32Len13to24 s len = do {
     a \<leftarrow> Fetch32 s (len div 2 - 4);
     b \<leftarrow> Fetch32 s 4;
     c \<leftarrow> Fetch32 s (len - 8);
     d \<leftarrow> Fetch32 s (len div 2);
     e \<leftarrow> Fetch32 s 0;
     f \<leftarrow> Fetch32 s (len - 4);
     Some (fmix (Mur f (Mur e (Mur d (Mur c (Mur b (Mur a (of_nat len))))))))
   }"

fun len0to4_loop :: "bytes \<Rightarrow> u32 \<Rightarrow> u32 \<Rightarrow> u32 \<times> u32" where
  "len0to4_loop [] b c = (b, c)"
| "len0to4_loop (v # vs) b c = (let b = b * c1 + scast v in len0to4_loop vs b (c XOR b))"

definition Hash32Len0to4 :: "bytes \<Rightarrow> nat \<Rightarrow> u32 option" where
  "Hash32Len0to4 s len =
     (if length s < len then None
      else let (b, c) = len0to4_loop (take len s) 0 9 in Some (fmix (Mur b (Mur (of_nat len) c))))"

definition Hash32Len5to12 :: "bytes \<Rightarrow> nat \<Rightarrow> u32 option" where
  "Hash32Len5to12 s len = do {
     fa \<leftarrow> Fetch32 s 0;
     fb \<leftarrow> Fetch32 s (len - 4);
     fc \<leftarrow> Fetch32 s ((len div 2) AND 4);
     let d = of_nat len * 5;
     Some (fmix (Mur (9 + fc) (Mur (d + fb) (Mur (of_nat len + fa) d))))
   }"

definition mur_mix :: "u32 \<Rightarrow> nat \<Rightarrow> u32" where
  "mur_mix h r = Rotate32 h r * 5 + 0xe6546b64"

definition mur_load :: "u32 \<Rightarrow> u32" where
  "mur_load w = Rotate32 (w * c1) 17 * c2"

fun city32_loop :: "bytes \<Rightarrow> nat \<Rightarrow> nat \<Rightarrow> u32 \<times> u32 \<times> u32 \<Rightarrow> (u32 \<times> u32 \<times> u32) option" where
  "city32_loop s p 0 st = Some st"
| "city32_loop s p (Suc n) (h, g, f) = do {
     w0 \<leftarrow> Fetch32 s p;
     a1 \<leftarrow> Fetch32 s (p + 4);
     w2 \<leftarrow> Fetch32 s (p + 8);
     w3 \<leftarrow> Fetch32 s (p + 12);
     a4 \<leftarrow> Fetch32 s (p + 16);
     let a0 = mur_load w0; let a2 = mur_load w2; let a3 = mur_load w3;
         let h = mur_mix (h XOR a0) 18;
         let f = Rotate32 (f + a1) 19 * c1;
         let g = mur_mix (g + a2) 18;
         let h = mur_mix (h XOR (a3 + a1)) 19;
         let g = bswap_32 (g XOR a4) * 5;
         let h = bswap_32 (h + a4 * 5);
         let f = f + a0;
     city32_loop s (p + 20) n (f, h, g)
   }"

definition CityHash32 :: "bytes \<Rightarrow> nat \<Rightarrow> u32 option" where
  "CityHash32 s len =
     (if len \<le> 24
      then if len \<le> 12 then if len \<le> 4 then Hash32Len0to4 s len else Hash32Len5to12 s len
           else Hash32Len13to24 s len
      else do {
        w0 \<leftarrow> Fetch32 s (len - 4);
        w1 \<leftarrow> Fetch32 s (len - 8);
        w2 \<leftarrow> Fetch32 s (len - 16);
        w3 \<leftarrow> Fetch32 s (len - 12);
        w4 \<leftarrow> Fetch32 s (len - 20);
        let h = of_nat len; let g = c1 * of_nat len; let f = g;
            let h = mur_mix (h XOR mur_load w0) 19;
            let h = mur_mix (h XOR mur_load w2) 19;
            let g = mur_mix (g XOR mur_load w1) 19;
            let g = mur_mix (g XOR mur_load w3) 19;
            let f = mur_mix (f + mur_load w4) 19;
        (h, g, f) \<leftarrow> city32_loop s 0 ((len - 1) div 20) (h, g, f);
        let g = Rotate32 g 11 * c1; let g = Rotate32 g 17 * c1;
            let f = Rotate32 f 11 * c1; let f = Rotate32 f 17 * c1;
            let h = mur_mix (h + g) 19; let h = Rotate32 h 17 * c1;
            let h = mur_mix (h + f) 19; let h = Rotate32 h 17 * c1;
        Some h
      })"

section \<open>The 64-bit hash\<close>

definition Rotate :: "u64 \<Rightarrow> nat \<Rightarrow> u64" where
  "Rotate val shift = (if shift = 0 then val else drop_bit shift val OR push_bit (64 - shift) val)"

definition ShiftMix :: "u64 \<Rightarrow> u64" where
  "ShiftMix val = val XOR drop_bit 47 val"

definition HashLen16_mul :: "u64 \<Rightarrow> u64 \<Rightarrow> u64 \<Rightarrow> u64" where
  "HashLen16_mul u v mul =
     (let a = (u XOR v) * mul; a = a XOR drop_bit 47 a;
          b = (v XOR a) * mul; b = b XOR drop_bit 47 b
      in b * mul)"

definition Hash128to64 :: "uint128 \<Rightarrow> u64" where
  "Hash128to64 x =
     (let kMul = 0x9ddfea08eb382d69;
          a = (fst x XOR snd x) * kMul; a = a XOR drop_bit 47 a;
          b = (snd x XOR a) * kMul; b = b XOR drop_bit 47 b
      in b * kMul)"

definition HashLen16 :: "u64 \<Rightarrow> u64 \<Rightarrow> u64" where
  "HashLen16 u v = Hash128to64 (u, v)"

definition HashLen0to16 :: "bytes \<Rightarrow> nat \<Rightarrow> nat \<Rightarrow> u64 option" where
  "HashLen0to16 bs s len =
     (if 8 \<le> len then do {
        fa \<leftarrow> Fetch64 bs s;
        b \<leftarrow> Fetch64 bs (s + len - 8);
        let mul = k2 + of_nat len * 2; let a = fa + k2;
            let c = Rotate b 37 * mul + a; let d = (Rotate a 25 + b) * mul;
        Some (HashLen16_mul c d mul)
      }
      else if 4 \<le> len then do {
        a \<leftarrow> Fetch32 bs s;
        b \<leftarrow> Fetch32 bs (s + len - 4);
        Some (HashLen16_mul (of_nat len + push_bit 3 (ucast a)) (ucast b) (k2 + of_nat len * 2))
      }
      else if 0 < len then do {
        a \<leftarrow> byte_at bs s;
        b \<leftarrow> byte_at bs (s + len div 2);
        c \<leftarrow> byte_at bs (s + len - 1);
        let y = (ucast a + push_bit 8 (ucast b) :: u32); let z = (of_nat len + push_bit 2 (ucast c) :: u32);
        Some (ShiftMix ((ucast y * k2) XOR (ucast z * k0)) * k2)
      }
      else Some k2)"

definition HashLen17to32 :: "bytes \<Rightarrow> nat \<Rightarrow> u64 option" where
  "HashLen17to32 s len = do {
     fa \<leftarrow> Fetch64 s 0;
     b \<leftarrow> Fetch64 s 8;
     fc \<leftarrow> Fetch64 s (len - 8);
     fd \<leftarrow> Fetch64 s (len - 16);
     let mul = k2 + of_nat len * 2; let a = fa * k1; let c = fc * mul; let d = fd * k2;
     Some (HashLen16_mul (Rotate (a + b) 43 + Rotate c 30 + d) (a + Rotate (b + k2) 18 + c) mul)
   }"

definition WeakHash :: "u64 \<Rightarrow> u64 \<Rightarrow> u64 \<Rightarrow> u64 \<Rightarrow> u64 \<Rightarrow> u64 \<Rightarrow> u64 \<times> u64" where
  "WeakHash w x y z a b =
     (let a = a + w; b = Rotate (b + a + z) 21; c = a; a = a + x; a = a + y; b = b + Rotate a 44
      in (a + z, b + c))"

definition WeakHashLen32WithSeeds :: "bytes \<Rightarrow> nat \<Rightarrow> u64 \<Rightarrow> u64 \<Rightarrow> (u64 \<times> u64) option" where
  "WeakHashLen32WithSeeds bs s a b = do {
     w \<leftarrow> Fetch64 bs s;
     x \<leftarrow> Fetch64 bs (s + 8);
     y \<leftarrow> Fetch64 bs (s + 16);
     z \<leftarrow> Fetch64 bs (s + 24);
     Some (WeakHash w x y z a b)
   }"

definition HashLen33to64 :: "bytes \<Rightarrow> nat \<Rightarrow> u64 option" where
  "HashLen33to64 s len = do {
     fa \<leftarrow> Fetch64 s 0;
     b \<leftarrow> Fetch64 s 8;
     c \<leftarrow> Fetch64 s (len - 24);
     d \<leftarrow> Fetch64 s (len - 32);
     fe \<leftarrow> Fetch64 s 16;
     ff \<leftarrow> Fetch64 s 24;
     g \<leftarrow> Fetch64 s (len - 8);
     fh \<leftarrow> Fetch64 s (len - 16);
     let mul = k2 + of_nat len * 2; let a = fa * k2; let e = fe * k2; let f = ff * 9; let h = fh * mul;
         let u = Rotate (a + g) 43 + (Rotate b 30 + c) * 9;
         let v = ((a + g) XOR d) + f + 1;
         let w = bswap_64 ((u + v) * mul) + h;
         let x = Rotate (e + f) 42 + c;
         let y = (bswap_64 ((v + w) * mul) + g) * mul;
         let z = e + f + c;
         let a = bswap_64 ((x + z) * mul + y) + b;
         let b = ShiftMix ((z + a) * mul + d + h) * mul;
     Some (b + x)
   }"

text \<open>The 56 bytes of state of the long hashes, and one round over 64 bytes.\<close>

record city_state =
  cx :: u64
  cy :: u64
  cz :: u64
  cv :: "u64 \<times> u64"
  cwh :: "u64 \<times> u64"

definition city_round :: "bytes \<Rightarrow> nat \<Rightarrow> city_state \<Rightarrow> city_state option" where
  "city_round bs s st = do {
     f8 \<leftarrow> Fetch64 bs (s + 8);
     f48 \<leftarrow> Fetch64 bs (s + 48);
     f40 \<leftarrow> Fetch64 bs (s + 40);
     let x = Rotate (cx st + cy st + fst (cv st) + f8) 37 * k1;
         let y = Rotate (cy st + snd (cv st) + f48) 42 * k1;
         let x = x XOR snd (cwh st);
         let y = y + fst (cv st) + f40;
         let z = Rotate (cz st + fst (cwh st)) 33 * k1;
     v \<leftarrow> WeakHashLen32WithSeeds bs s (snd (cv st) * k1) (x + fst (cwh st));
     f16 \<leftarrow> Fetch64 bs (s + 16);
     w \<leftarrow> WeakHashLen32WithSeeds bs (s + 32) (z + snd (cwh st)) (y + f16);
     Some \<lparr>cx = z, cy = y, cz = x, cv = v, cwh = w\<rparr>
   }"

fun city_rounds :: "bytes \<Rightarrow> nat \<Rightarrow> nat \<Rightarrow> city_state \<Rightarrow> city_state option" where
  "city_rounds bs s 0 st = Some st"
| "city_rounds bs s (Suc n) st = do { st' \<leftarrow> city_round bs s st; city_rounds bs (s + 64) n st' }"

definition CityHash64 :: "bytes \<Rightarrow> nat \<Rightarrow> u64 option" where
  "CityHash64 s len =
     (if len \<le> 16 then HashLen0to16 s 0 len
      else if len \<le> 32 then HashLen17to32 s len
      else if len \<le> 64 then HashLen33to64 s len
      else do {
        x \<leftarrow> Fetch64 s (len - 40);
        y1 \<leftarrow> Fetch64 s (len - 16);
        y2 \<leftarrow> Fetch64 s (len - 56);
        z1 \<leftarrow> Fetch64 s (len - 48);
        z2 \<leftarrow> Fetch64 s (len - 24);
        let y = y1 + y2; let z = HashLen16 (z1 + of_nat len) z2;
        v \<leftarrow> WeakHashLen32WithSeeds s (len - 64) (of_nat len) z;
        w \<leftarrow> WeakHashLen32WithSeeds s (len - 32) (y + k1) x;
        f0 \<leftarrow> Fetch64 s 0;
        st \<leftarrow> city_rounds s 0 ((len - 1) div 64) \<lparr>cx = x * k1 + f0, cy = y, cz = z, cv = v, cwh = w\<rparr>;
        Some (HashLen16 (HashLen16 (fst (cv st)) (fst (cwh st)) + ShiftMix (cy st) * k1 + cz st)
                (HashLen16 (snd (cv st)) (snd (cwh st)) + cx st))
      })"

definition CityHash64WithSeeds :: "bytes \<Rightarrow> nat \<Rightarrow> u64 \<Rightarrow> u64 \<Rightarrow> u64 option" where
  "CityHash64WithSeeds s len seed0 seed1 = do {
     h \<leftarrow> CityHash64 s len;
     Some (HashLen16 (h - seed0) seed1)
   }"

definition CityHash64WithSeed :: "bytes \<Rightarrow> nat \<Rightarrow> u64 \<Rightarrow> u64 option" where
  "CityHash64WithSeed s len seed = CityHash64WithSeeds s len k2 seed"

section \<open>The 128-bit hash\<close>

fun murmur_loop :: "bytes \<Rightarrow> nat \<Rightarrow> nat \<Rightarrow> u64 \<times> u64 \<times> u64 \<times> u64 \<Rightarrow> (u64 \<times> u64 \<times> u64 \<times> u64) option" where
  "murmur_loop bs s 0 st = Some st"
| "murmur_loop bs s (Suc n) (a, b, c, d) = do {
     f0 \<leftarrow> Fetch64 bs s;
     f8 \<leftarrow> Fetch64 bs (s + 8);
     let a = (a XOR (ShiftMix (f0 * k1) * k1)) * k1;
     let b = b XOR a;
     let c = (c XOR (ShiftMix (f8 * k1) * k1)) * k1;
     let d = d XOR c;
     murmur_loop bs (s + 16) n (a, b, c, d)
   }"

definition murmur_finish :: "u64 \<times> u64 \<times> u64 \<times> u64 \<Rightarrow> uint128" where
  "murmur_finish st = (case st of (a, b, c, d) \<Rightarrow>
     let a = HashLen16 a c; b = HashLen16 d b in (a XOR b, HashLen16 b a))"

definition CityMurmur :: "bytes \<Rightarrow> nat \<Rightarrow> nat \<Rightarrow> uint128 \<Rightarrow> uint128 option" where
  "CityMurmur bs s len seed =
     (if len \<le> 16 then do {
        h \<leftarrow> HashLen0to16 bs s len;
        let a = ShiftMix (fst seed * k1) * k1;
        let c = snd seed * k1 + h;
        x \<leftarrow> (if 8 \<le> len then Fetch64 bs s else Some c);
        Some (murmur_finish (a, snd seed, c, ShiftMix (a + x)))
      }
      else do {
        f1 \<leftarrow> Fetch64 bs (s + len - 8);
        f2 \<leftarrow> Fetch64 bs (s + len - 16);
        let c = HashLen16 (f1 + k1) (fst seed);
        let d = HashLen16 (snd seed + of_nat len) (c + f2);
        st \<leftarrow> murmur_loop bs s ((len - 1) div 16) (fst seed + d, snd seed, c, d);
        Some (murmur_finish st)
      })"

text \<open>
  The tail of the long hash: chunks of 32 bytes that end at the end of the string, at most four.
  The offset of a chunk may lie before \<open>s\<close>, inside the part already hashed.
\<close>

fun city_tail :: "bytes \<Rightarrow> nat \<Rightarrow> nat \<Rightarrow> nat \<Rightarrow> nat \<Rightarrow> city_state \<Rightarrow> city_state option" where
  "city_tail bs s len tail_done 0 st = Some st"
| "city_tail bs s len tail_done (Suc n) st = do {
     let t = s + len - (tail_done + 32);
     let y = Rotate (cx st + cy st) 42 * k0 + snd (cv st);
     f16 \<leftarrow> Fetch64 bs (t + 16);
     let w1 = fst (cwh st) + f16;
     let x = cx st * k0 + w1;
     f0 \<leftarrow> Fetch64 bs t;
     let z = cz st + snd (cwh st) + f0;
     let w2 = snd (cwh st) + fst (cv st);
     v \<leftarrow> WeakHashLen32WithSeeds bs t (fst (cv st) + z) (snd (cv st));
     city_tail bs s len (tail_done + 32) n
       \<lparr>cx = x, cy = y, cz = z, cv = (fst v * k0, snd v), cwh = (w1, w2)\<rparr>
   }"

definition CityHash128WithSeed :: "bytes \<Rightarrow> nat \<Rightarrow> nat \<Rightarrow> uint128 \<Rightarrow> uint128 option" where
  "CityHash128WithSeed bs s len seed =
     (if len < 128 then CityMurmur bs s len seed
      else do {
        f0 \<leftarrow> Fetch64 bs s;
        f8 \<leftarrow> Fetch64 bs (s + 8);
        f88 \<leftarrow> Fetch64 bs (s + 88);
        let x = fst seed;
        let y = snd seed;
        let z = of_nat len * k1;
        let v1 = Rotate (y XOR k1) 49 * k1 + f0;
        let v2 = Rotate v1 42 * k1 + f8;
        let w1 = Rotate (y + z) 35 * k1 + x;
        let w2 = Rotate (x + f88) 53 * k1;
        st \<leftarrow> city_rounds bs s (2 * (len div 128)) \<lparr>cx = x, cy = y, cz = z, cv = (v1, v2), cwh = (w1, w2)\<rparr>;
        let s' = s + 128 * (len div 128);
        let rest = len mod 128;
        let st1 = \<lparr>cx = cx st + Rotate (fst (cv st) + cz st) 49 * k0,
                   cy = cy st * k0 + Rotate (snd (cwh st)) 37,
                   cz = cz st * k0 + Rotate (fst (cwh st)) 27,
                   cv = (fst (cv st) * k0, snd (cv st)), cwh = (fst (cwh st) * 9, snd (cwh st))\<rparr>;
        st2 \<leftarrow> city_tail bs s' rest 0 ((rest + 31) div 32) st1;
        let x2 = HashLen16 (cx st2) (fst (cv st2));
        let y2 = HashLen16 (cy st2 + cz st2) (fst (cwh st2));
        Some (HashLen16 (x2 + snd (cv st2)) (snd (cwh st2)) + y2, HashLen16 (x2 + snd (cwh st2)) (y2 + snd (cv st2)))
      })"

definition CityHash128 :: "bytes \<Rightarrow> nat \<Rightarrow> uint128 option" where
  "CityHash128 bs len =
     (if 16 \<le> len then do {
        f0 \<leftarrow> Fetch64 bs 0;
        f8 \<leftarrow> Fetch64 bs 8;
        CityHash128WithSeed bs 16 (len - 16) (f0, f8 + k0)
      }
      else CityHash128WithSeed bs 0 len (k0, k1))"

section \<open>The hashes that use the CRC instruction\<close>

record crc_state =
  ra :: u64
  rb :: u64
  rc :: u64
  rd :: u64
  re :: u64
  rf :: u64
  rg :: u64
  rh :: u64
  rx :: u64
  ry :: u64
  rz :: u64

text \<open>The macro \<open>CHUNK\<close>, which begins with \<open>PERMUTE3(x, z, y)\<close>.\<close>

definition CHUNK :: "(u64 \<Rightarrow> u64 \<Rightarrow> u64) \<Rightarrow> nat \<Rightarrow> bytes \<Rightarrow> nat \<Rightarrow> crc_state \<Rightarrow> crc_state option" where
  "CHUNK crc r bs s st = do {
     f0 \<leftarrow> Fetch64 bs s;
     f8 \<leftarrow> Fetch64 bs (s + 8);
     f16 \<leftarrow> Fetch64 bs (s + 16);
     f24 \<leftarrow> Fetch64 bs (s + 24);
     f32 \<leftarrow> Fetch64 bs (s + 32);
     let x = ry st;
     let z = rx st;
     let y = rz st;
     let b = rb st + f0;
     let c = rc st + f8;
     let d = rd st + f16;
     let e = re st + f24;
     let f = rf st + f32;
     let a = ra st + b;
     let h = rh st + f;
     let b = b + c;
     let f = f + d;
     let g = rg st + e;
     let e = e + z;
     let g = g + x;
     let z = crc z (b + g);
     let y = crc y (e + h);
     let x = crc x (f + a);
     let e = Rotate e r;
     let c = c + e;
     Some \<lparr>ra = a, rb = b, rc = c, rd = d, re = e, rf = f, rg = g, rh = h, rx = x, ry = y, rz = z\<rparr>
   }"

text \<open>The permutations behind the chunks of one iteration over 240 bytes.\<close>

definition perm_ahc :: "crc_state \<Rightarrow> crc_state" where
  "perm_ahc st = st\<lparr>ra := rc st, rh := ra st, rc := rh st\<rparr>"
definition perm_ahf :: "crc_state \<Rightarrow> crc_state" where
  "perm_ahf st = st\<lparr>ra := rf st, rh := ra st, rf := rh st\<rparr>"
definition perm_bhf :: "crc_state \<Rightarrow> crc_state" where
  "perm_bhf st = st\<lparr>rb := rf st, rh := rb st, rf := rh st\<rparr>"
definition perm_bhd :: "crc_state \<Rightarrow> crc_state" where
  "perm_bhd st = st\<lparr>rb := rd st, rh := rb st, rd := rh st\<rparr>"
definition perm_bhe :: "crc_state \<Rightarrow> crc_state" where
  "perm_bhe st = st\<lparr>rb := re st, rh := rb st, re := rh st\<rparr>"
definition perm_ahe :: "crc_state \<Rightarrow> crc_state" where
  "perm_ahe st = st\<lparr>ra := re st, rh := ra st, re := rh st\<rparr>"
definition perm_chg :: "crc_state \<Rightarrow> crc_state" where
  "perm_chg st = st\<lparr>rc := rg st, rh := rc st, rg := rh st\<rparr>"

fun crc_iters :: "(u64 \<Rightarrow> u64 \<Rightarrow> u64) \<Rightarrow> bytes \<Rightarrow> nat \<Rightarrow> nat \<Rightarrow> crc_state \<Rightarrow> crc_state option" where
  "crc_iters crc bs s 0 st = Some st"
| "crc_iters crc bs s (Suc n) st = do {
     t1 \<leftarrow> CHUNK crc 0 bs s st;
     t2 \<leftarrow> CHUNK crc 33 bs (s + 40) (perm_ahc t1);
     t3 \<leftarrow> CHUNK crc 0 bs (s + 80) (perm_ahf t2);
     t4 \<leftarrow> CHUNK crc 42 bs (s + 120) (perm_bhf t3);
     t5 \<leftarrow> CHUNK crc 0 bs (s + 160) (perm_bhd t4);
     t6 \<leftarrow> CHUNK crc 33 bs (s + 200) (perm_bhe t5);
     crc_iters crc bs (s + 240) n (perm_ahe t6)
   }"

fun crc_rest :: "(u64 \<Rightarrow> u64 \<Rightarrow> u64) \<Rightarrow> bytes \<Rightarrow> nat \<Rightarrow> nat \<Rightarrow> crc_state \<Rightarrow> crc_state option" where
  "crc_rest crc bs s 0 st = Some st"
| "crc_rest crc bs s (Suc n) st = do {
     t \<leftarrow> CHUNK crc 29 bs s st;
     crc_rest crc bs (s + 40) n (perm_chg (t\<lparr>re := re t XOR Rotate (ra t) 20, rh := rh t + Rotate (rb t) 30,
       rg := rg t XOR Rotate (rc t) 40, rf := rf t + Rotate (rd t) 34\<rparr>))
   }"

definition crc_last :: "(u64 \<Rightarrow> u64 \<Rightarrow> u64) \<Rightarrow> bytes \<Rightarrow> nat \<Rightarrow> crc_state \<Rightarrow> crc_state option" where
  "crc_last crc bs s st = do {
     t \<leftarrow> CHUNK crc 33 bs s st;
     Some (t\<lparr>re := re t XOR Rotate (ra t) 43, rh := rh t + Rotate (rb t) 42,
       rg := rg t XOR Rotate (rc t) 41, rf := rf t + Rotate (rd t) 40\<rparr>)
   }"

definition crc_finish :: "u64 \<Rightarrow> u64 \<Rightarrow> crc_state \<Rightarrow> u64 list" where
  "crc_finish r0 r1 st =
     (let r0 = r0 XOR rh st; r1 = r1 XOR rg st; g = rg st + rh st;
          a = HashLen16 (ra st) (g + rz st); x = rx st + push_bit 32 (ry st);
          b = rb st + x; c = HashLen16 (rc st) (rz st) + rh st;
          d = HashLen16 (rd st) (re st + r0); g = g + re st; h = rh st + HashLen16 x (rf st);
          e = HashLen16 a d + g; z = HashLen16 b c + a; y = HashLen16 g h + c;
          r0 = e + z + y + x; a = ShiftMix ((a + y) * k0) * k0 + b; r1 = r1 + a + r0;
          a = ShiftMix (a * k0) * k0 + c; r2 = a + r1; a = ShiftMix ((a + e) * k0) * k0; r3 = a + r2
      in [r0, r1, r2, r3])"

definition CityHashCrc256Long :: "(u64 \<Rightarrow> u64 \<Rightarrow> u64) \<Rightarrow> bytes \<Rightarrow> nat \<Rightarrow> u32 \<Rightarrow> u64 list option" where
  "CityHashCrc256Long crc bs len seed = do {
     f56 \<leftarrow> Fetch64 bs 56;
     f96 \<leftarrow> Fetch64 bs 96;
     f120 \<leftarrow> Fetch64 bs 120;
     f184 \<leftarrow> Fetch64 bs 184;
     let b = f96 + k0;
     let c = HashLen16 b (of_nat len);
     let d = f120 * k0 + of_nat len;
     st1 \<leftarrow> crc_iters crc bs 0 (len div 240)
       \<lparr>ra = f56 + k0, rb = b, rc = c, rd = d, re = f184 + ucast seed, rf = 0, rg = 0, rh = c + d, rx = ucast seed, ry = 0, rz = 0\<rparr>;
     let s1 = 240 * (len div 240);
     let n = (len mod 240) div 40;
     st2 \<leftarrow> crc_rest crc bs s1 n st1;
     let m = (len mod 240) mod 40;
     st3 \<leftarrow> (if 0 < m then crc_last crc bs (s1 + 40 * n + m - 40) st2 else Some st2);
     Some (crc_finish c d st3)
   }"

definition CityHashCrc256Short :: "(u64 \<Rightarrow> u64 \<Rightarrow> u64) \<Rightarrow> bytes \<Rightarrow> nat \<Rightarrow> u64 list option" where
  "CityHashCrc256Short crc bs len =
     (if length bs < len then None
      else CityHashCrc256Long crc (take len bs @ replicate (240 - len) 0) 240 (NOT (of_nat len)))"

definition CityHashCrc256 :: "(u64 \<Rightarrow> u64 \<Rightarrow> u64) \<Rightarrow> bytes \<Rightarrow> nat \<Rightarrow> u64 list option" where
  "CityHashCrc256 crc bs len =
     (if 240 \<le> len then CityHashCrc256Long crc bs len 0 else CityHashCrc256Short crc bs len)"

definition CityHashCrc128WithSeed :: "(u64 \<Rightarrow> u64 \<Rightarrow> u64) \<Rightarrow> bytes \<Rightarrow> nat \<Rightarrow> uint128 \<Rightarrow> uint128 option" where
  "CityHashCrc128WithSeed crc bs len seed =
     (if len \<le> 900 then CityHash128WithSeed bs 0 len seed
      else do {
        r \<leftarrow> CityHashCrc256 crc bs len;
        let u = snd seed + r ! 0;
        let v = fst seed + r ! 1;
        Some (HashLen16 u (v + r ! 2), HashLen16 (Rotate v 32) (u * k0 + r ! 3))
      })"

definition CityHashCrc128 :: "(u64 \<Rightarrow> u64 \<Rightarrow> u64) \<Rightarrow> bytes \<Rightarrow> nat \<Rightarrow> uint128 option" where
  "CityHashCrc128 crc bs len =
     (if len \<le> 900 then CityHash128 bs len
      else do {
        r \<leftarrow> CityHashCrc256 crc bs len;
        Some (r ! 2, r ! 3)
      })"

section \<open>Memory safety\<close>

lemma Fetch64_safe: "p + 8 \<le> length bs \<Longrightarrow> Fetch64 bs p \<noteq> None"
  and Fetch32_safe: "p + 4 \<le> length bs \<Longrightarrow> Fetch32 bs p \<noteq> None"
  and byte_at_safe: "p < length bs \<Longrightarrow> byte_at bs p \<noteq> None"
  by (simp_all add: Fetch64_def Fetch32_def byte_at_def)

lemma bind_safe: "x \<noteq> None \<Longrightarrow> (\<And>a. f a \<noteq> None) \<Longrightarrow> Option.bind x f \<noteq> None"
  by (cases x) auto

lemma let_safe: "(\<And>a. a = x \<Longrightarrow> f a \<noteq> None) \<Longrightarrow> Let x f \<noteq> None"
  by simp

lemmas safe_intros = bind_safe let_safe Fetch64_safe Fetch32_safe byte_at_safe option.distinct(2)

lemma WeakHash_safe: "s + 32 \<le> length bs \<Longrightarrow> WeakHashLen32WithSeeds bs s a b \<noteq> None"
  unfolding WeakHashLen32WithSeeds_def by (intro safe_intros) simp_all

lemma city32_loop_safe: "p + 20 * n \<le> length s \<Longrightarrow> city32_loop s p n st \<noteq> None"
proof (induction n arbitrary: p st)
  case 0
  then show ?case by simp
next
  case (Suc n)
  obtain h g f where "st = (h, g, f)" by (cases st)
  moreover have "p + 20 + 20 * n \<le> length s" using Suc.prems by simp
  ultimately show ?case using Suc.prems by (simp only: city32_loop.simps) (intro safe_intros Suc.IH; simp)
qed

lemma half_and_4:
  fixes len :: nat
  assumes "4 < len" "len \<le> 12"
  shows "((len div 2) AND 4) + 4 \<le> len"
proof -
  have "len \<in> {5, 6, 7, 8, 9, 10, 11, 12}" using assms by auto
  then show ?thesis by auto
qed

lemma CityHash32_safe:
  assumes "len \<le> length s"
  shows "CityHash32 s len \<noteq> None"
proof -
  have a: "Hash32Len13to24 s len \<noteq> None" if "12 < len"
    unfolding Hash32Len13to24_def using assms that by (intro safe_intros) auto
  have b: "Hash32Len5to12 s len \<noteq> None" if "4 < len" "len \<le> 12"
    unfolding Hash32Len5to12_def using assms that half_and_4 [OF that] by (intro safe_intros) auto
  have c: "Hash32Len0to4 s len \<noteq> None" using assms by (simp add: Hash32Len0to4_def split: prod.splits)
  have l: "(len - 1) div 20 * 20 \<le> length s" using assms by (meson div_times_less_eq_dividend diff_le_self order_trans)
  show ?thesis
  proof (cases "len \<le> 24")
    case True
    then show ?thesis using a b c by (simp add: CityHash32_def)
  next
    case False
    then show ?thesis unfolding CityHash32_def using assms l
      by (simp only: if_False) (intro safe_intros city32_loop_safe; auto split: prod.splits)
  qed
qed

lemma HashLen0to16_safe: "s + len \<le> length bs \<Longrightarrow> HashLen0to16 bs s len \<noteq> None"
proof -
  assume l: "s + len \<le> length bs"
  consider "8 \<le> len" | "4 \<le> len" "len < 8" | "0 < len" "len < 4" | "len = 0" by linarith
  then show ?thesis
  proof cases
    case 1
    then show ?thesis unfolding HashLen0to16_def using l by (simp only: if_True) (intro safe_intros; simp)
  next
    case 2
    then have c: "\<not> 8 \<le> len" "4 \<le> len" by simp_all
    show ?thesis unfolding HashLen0to16_def if_not_P [OF c(1)] if_P [OF c(2)] using l 2 by (intro safe_intros; simp)
  next
    case 3
    then have c: "\<not> 8 \<le> len" "\<not> 4 \<le> len" "0 < len" by simp_all
    show ?thesis unfolding HashLen0to16_def if_not_P [OF c(1)] if_not_P [OF c(2)] if_P [OF c(3)]
      using l 3 by (intro safe_intros; simp)
  next
    case 4
    then show ?thesis unfolding HashLen0to16_def by simp
  qed
qed

lemma city_round_safe: "s + 64 \<le> length bs \<Longrightarrow> city_round bs s st \<noteq> None"
  unfolding city_round_def by (intro safe_intros WeakHash_safe) simp_all

lemma city_rounds_safe: "s + 64 * n \<le> length bs \<Longrightarrow> city_rounds bs s n st \<noteq> None"
proof (induction n arbitrary: s st)
  case 0
  then show ?case by simp
next
  case (Suc n)
  have "city_rounds bs (s + 64) n t \<noteq> None" for t using Suc.IH [of "s + 64"] Suc.prems by simp
  then show ?case using Suc.prems by (simp only: city_rounds.simps) (intro safe_intros city_round_safe; simp)
qed

lemma CityHash64_safe:
  assumes "len \<le> length s"
  shows "CityHash64 s len \<noteq> None"
proof -
  have l: "64 * ((len - 1) div 64) \<le> length s"
    using assms by (metis times_div_less_eq_dividend diff_le_self order_trans)
  consider "len \<le> 16" | "16 < len" "len \<le> 32" | "32 < len" "len \<le> 64" | "64 < len" by linarith
  then show ?thesis
  proof cases
    case 1
    then show ?thesis using HashLen0to16_safe [of 0 len s] assms by (simp add: CityHash64_def)
  next
    case 2
    then have "HashLen17to32 s len \<noteq> None" unfolding HashLen17to32_def using assms by (intro safe_intros) simp_all
    with 2 show ?thesis by (simp add: CityHash64_def)
  next
    case 3
    then have "HashLen33to64 s len \<noteq> None" unfolding HashLen33to64_def using assms by (intro safe_intros) simp_all
    with 3 show ?thesis by (simp add: CityHash64_def)
  next
    case 4
    then have c: "\<not> len \<le> 16" "\<not> len \<le> 32" "\<not> len \<le> 64" by simp_all
    show ?thesis unfolding CityHash64_def using assms l 4
      by (simp only: c if_False) (intro safe_intros WeakHash_safe city_rounds_safe; simp)
  qed
qed

lemma murmur_loop_safe: "s + 16 * n \<le> length bs \<Longrightarrow> murmur_loop bs s n st \<noteq> None"
proof (induction n arbitrary: s st)
  case 0
  then show ?case by simp
next
  case (Suc n)
  obtain a b c d where "st = (a, b, c, d)" by (cases st)
  moreover have "murmur_loop bs (s + 16) n t \<noteq> None" for t using Suc.IH [of "s + 16"] Suc.prems by simp
  ultimately show ?case using Suc.prems by (simp only: murmur_loop.simps) (intro safe_intros; simp)
qed

lemma CityMurmur_safe:
  assumes "s + len \<le> length bs"
  shows "CityMurmur bs s len seed \<noteq> None"
proof (cases "len \<le> 16")
  case True
  have "(if 8 \<le> len then Fetch64 bs s else Some c) \<noteq> None" for c using assms by (simp add: Fetch64_def)
  then show ?thesis unfolding CityMurmur_def using assms True
    by (simp only: if_True) (intro bind_safe let_safe HashLen0to16_safe; simp)
next
  case False
  have "16 * ((len - 1) div 16) \<le> len - 1" by (rule times_div_less_eq_dividend)
  then show ?thesis unfolding CityMurmur_def using assms False
    by (simp only: if_False) (intro safe_intros murmur_loop_safe; simp)
qed

lemma city_tail_safe:
  "s + len \<le> length bs \<Longrightarrow> tail_done + 32 * n \<le> s + len \<Longrightarrow> city_tail bs s len tail_done n st \<noteq> None"
proof (induction n arbitrary: tail_done st)
  case 0
  then show ?case by simp
next
  case (Suc n)
  have "city_tail bs s len (tail_done + 32) n t \<noteq> None" for t using Suc.IH Suc.prems by simp
  then show ?case using Suc.prems by (simp only: city_tail.simps) (intro bind_safe let_safe Fetch64_safe WeakHash_safe; simp)
qed


lemma CityHash128WithSeed_safe:
  assumes "s + len \<le> length bs"
  shows "CityHash128WithSeed bs s len seed \<noteq> None"
proof (cases "len < 128")
  case True
  then show ?thesis using CityMurmur_safe [OF assms] by (simp add: CityHash128WithSeed_def)
next
  case False
  let ?n = "len div 128" and ?r = "len mod 128"
  have l: "s + 128 * ?n + ?r \<le> length bs" using assms by simp
  have n: "128 \<le> 128 * ?n" using False by simp
  have t: "city_tail bs (s + 128 * ?n) ?r 0 ((?r + 31) div 32) st \<noteq> None" for st
  proof (rule city_tail_safe)
    have "32 * ((?r + 31) div 32) \<le> ?r + 31" by (rule times_div_less_eq_dividend)
    with n show "0 + 32 * ((?r + 31) div 32) \<le> s + 128 * ?n + ?r" by linarith
  qed (rule l)
  have "city_rounds bs s (2 * ?n) st \<noteq> None" for st using l by (intro city_rounds_safe) simp
  then show ?thesis unfolding CityHash128WithSeed_def if_not_P [OF False] using assms False t
    by (intro safe_intros; simp)
qed

lemma CityHash128_safe: "len \<le> length bs \<Longrightarrow> CityHash128 bs len \<noteq> None"
proof (cases "16 \<le> len")
  case True
  assume "len \<le> length bs"
  then show ?thesis unfolding CityHash128_def if_P [OF True] using True
    by (intro safe_intros CityHash128WithSeed_safe; simp)
next
  case False
  assume "len \<le> length bs"
  then show ?thesis using CityHash128WithSeed_safe [of 0 len bs] False by (simp add: CityHash128_def)
qed

lemma CHUNK_safe: "s + 40 \<le> length bs \<Longrightarrow> CHUNK crc r bs s st \<noteq> None"
  unfolding CHUNK_def by (intro safe_intros; simp)

lemma crc_iters_safe: "s + 240 * n \<le> length bs \<Longrightarrow> crc_iters crc bs s n st \<noteq> None"
proof (induction n arbitrary: s st)
  case 0
  then show ?case by simp
next
  case (Suc n)
  have "crc_iters crc bs (s + 240) n t \<noteq> None" for t using Suc.IH [of "s + 240"] Suc.prems by simp
  then show ?case using Suc.prems by (simp only: crc_iters.simps) (intro bind_safe CHUNK_safe; simp)
qed

lemma crc_rest_safe: "s + 40 * n \<le> length bs \<Longrightarrow> crc_rest crc bs s n st \<noteq> None"
proof (induction n arbitrary: s st)
  case 0
  then show ?case by simp
next
  case (Suc n)
  have "crc_rest crc bs (s + 40) n t \<noteq> None" for t using Suc.IH [of "s + 40"] Suc.prems by simp
  then show ?case using Suc.prems by (simp only: crc_rest.simps) (intro bind_safe CHUNK_safe; simp)
qed

lemma CityHashCrc256Long_safe:
  assumes "len \<le> length bs" "240 \<le> len"
  shows "CityHashCrc256Long crc bs len seed \<noteq> None"
proof -
  let ?q = "240 * (len div 240)" and ?r = "len mod 240"
  have s: "?q + 40 * (?r div 40) + ?r mod 40 = len" by (simp add: add.assoc)
  have q: "40 \<le> ?q" using assms(2) by simp
  have i: "crc_iters crc bs 0 (len div 240) st \<noteq> None" for st
    using s assms(1) by (intro crc_iters_safe) linarith
  have r: "crc_rest crc bs ?q (?r div 40) st \<noteq> None" for st
    using s assms(1) by (intro crc_rest_safe) linarith
  have "CHUNK crc 33 bs (?q + 40 * (?r div 40) + ?r mod 40 - 40) st \<noteq> None" for st
    using s q assms(1) by (intro CHUNK_safe) linarith
  then have t: "(if 0 < ?r mod 40 then crc_last crc bs (?q + 40 * (?r div 40) + ?r mod 40 - 40) st else Some st) \<noteq> None" for st
    by (cases "0 < ?r mod 40") (simp_all only: if_True if_False crc_last_def, intro safe_intros, simp_all)
  show ?thesis unfolding CityHashCrc256Long_def using assms i r t
    by (intro bind_safe let_safe Fetch64_safe option.distinct(2); hypsubst?; (assumption | simp)?)
qed

text \<open>
  C37: every hash of the family is defined for every string: it reads no byte outside the \<open>len\<close>
  bytes it is given, for every length, and its loops end.
\<close>

theorem city_hash_memory_safe:
  assumes "len \<le> length bs"
  shows "CityHash32 bs len \<noteq> None \<and> CityHash64WithSeeds bs len seed0 seed1 \<noteq> None \<and>
    CityHash128 bs len \<noteq> None \<and> CityHash128WithSeed bs 0 len seed \<noteq> None \<and>
    CityHashCrc256 crc bs len \<noteq> None \<and> CityHashCrc128WithSeed crc bs len seed \<noteq> None"
proof -
  have "CityHash64WithSeeds bs len seed0 seed1 \<noteq> None"
    unfolding CityHash64WithSeeds_def by (intro safe_intros CityHash64_safe assms)
  moreover have s: "CityHash128WithSeed bs 0 len seed \<noteq> None" using assms by (intro CityHash128WithSeed_safe) simp
  moreover have "CityHashCrc256Short crc bs len \<noteq> None"
    using assms CityHashCrc256Long_safe [of 240 "take len bs @ replicate (240 - len) 0"] by (simp add: CityHashCrc256Short_def)
  then have c: "CityHashCrc256 crc bs len \<noteq> None"
    using CityHashCrc256Long_safe [OF assms] by (simp add: CityHashCrc256_def)
  moreover have "CityHashCrc128WithSeed crc bs len seed \<noteq> None"
    using s c by (cases "len \<le> 900") (simp_all add: CityHashCrc128WithSeed_def Let_def bind_eq_None_conv)
  ultimately show ?thesis using CityHash32_safe [OF assms] CityHash128_safe [OF assms] by blast
qed

theorem city_hash_memory_safe_witness:
  "CityHash32 (replicate 100 7) 100 \<noteq> None \<and> CityHash64WithSeeds (replicate 100 7) 100 1 2 \<noteq> None \<and>
    CityHash128 (replicate 100 7) 100 \<noteq> None \<and> CityHash128WithSeed (replicate 100 7) 0 100 (3, 4) \<noteq> None \<and>
    CityHashCrc256 (\<lambda>a b. a + b) (replicate 100 7) 100 \<noteq> None \<and>
    CityHashCrc128WithSeed (\<lambda>a b. a + b) (replicate 100 7) 100 (3, 4) \<noteq> None"
  by (rule city_hash_memory_safe) simp

section \<open>The final mix\<close>

lemma xorshift_inj:
  fixes x y :: "'a::len word"
  assumes "x XOR drop_bit k x = y XOR drop_bit k y" "0 < k"
  shows "x = y"
proof -
  let ?d = "x XOR y"
  have "x XOR (drop_bit k x XOR (y XOR drop_bit k y)) = 0" using assms(1) by (metis xor.assoc xor_self_eq)
  then have "?d XOR drop_bit k ?d = 0" by (simp add: drop_bit_xor xor.assoc xor.left_commute)
  then have "?d = drop_bit k ?d" by (metis xor.assoc xor_self_eq xor.right_neutral xor.left_neutral)
  then have "unat ?d = unat ?d div 2 ^ k" by (metis unat_drop_bit_eq drop_bit_eq_div)
  moreover have "1 < (2::nat) ^ k" using assms(2) by (metis one_less_power one_less_numeral_iff semiring_norm(76))
  ultimately have "unat ?d = 0" by (metis div_less_dividend gr0I less_irrefl)
  then have "?d = 0" by (simp add: unat_eq_zero)
  then show ?thesis by (metis xor.assoc xor_self_eq xor.right_neutral xor.left_neutral)
qed

lemma mult_inj: "c * i = (1 :: 'a::len word) \<Longrightarrow> x * c = y * c \<Longrightarrow> x = y"
  by (metis mult.assoc mult.right_neutral)

text \<open>
  The final mix of the 32-bit hash loses nothing: it is a bijection of the 32-bit words.
\<close>

theorem fmix_bij: "bij fmix"
proof -
  have "inj fmix"
  proof (rule injI)
    fix x y
    let ?f = "\<lambda>x. (x XOR drop_bit 16 x) * (0x85ebca6b :: u32)" and ?g = "\<lambda>x. (x XOR drop_bit 13 x) * (0xc2b2ae35 :: u32)"
    assume "fmix x = fmix y"
    then have "?g (?f x) XOR drop_bit 16 (?g (?f x)) = ?g (?f y) XOR drop_bit 16 (?g (?f y))"
      by (simp only: fmix_def Let_def)
    then have "?g (?f x) = ?g (?f y)" by (rule xorshift_inj) simp
    moreover have "(0xc2b2ae35 :: u32) * 0x7ed1b41d = 1" by simp
    ultimately have "?f x XOR drop_bit 13 (?f x) = ?f y XOR drop_bit 13 (?f y)" by (metis mult_inj)
    then have "?f x = ?f y" by (rule xorshift_inj) simp
    moreover have "(0x85ebca6b :: u32) * 0xa5cb9243 = 1" by simp
    ultimately have "x XOR drop_bit 16 x = y XOR drop_bit 16 y" by (metis mult_inj)
    then show "x = y" by (rule xorshift_inj) simp
  qed
  then show ?thesis by (simp add: bij_def finite_UNIV_inj_surj)
qed

end
