(* ===== verification/Snowflake.thy ===== *)
theory Snowflake
  imports SeqBase
begin

text \<open>
  The worker that builds identifiers from a millisecond clock, a worker id and a counter
  (SnowflakeIdWorker.cpp). \<open>gettimeofday\<close> and \<open>time\<close> belong to the operating system: their
  answers are an argument, one \<open>clock_read\<close> per call of \<open>timeGen\<close>. A call that waits for a
  later millisecond than the remaining answers offer has not returned: its value is \<open>None\<close>.
\<close>

section \<open>Constants\<close>

definition twepoch :: i64 where "twepoch = 1514764800000"
definition workerIdBits :: nat where "workerIdBits = 5"
definition datacenterIdBits :: nat where "datacenterIdBits = 5"
definition maxWorkerId_init :: u32 where "maxWorkerId_init = (-1) XOR (push_bit workerIdBits (-1))"
definition maxDatacenterId :: u32 where "maxDatacenterId = (-1) XOR (push_bit datacenterIdBits (-1))"
definition sequenceBits :: nat where "sequenceBits = 12"
definition workerIdShift :: nat where "workerIdShift = sequenceBits"
definition datacenterIdShift :: nat where "datacenterIdShift = sequenceBits + workerIdBits"
definition timestampLeftShift :: nat where
  "timestampLeftShift = sequenceBits + workerIdBits + datacenterIdBits"
definition sequenceMask :: u32 where "sequenceMask = (-1) XOR (push_bit sequenceBits (-1))"

lemma snowflake_constants [simp]:
  "workerIdBits = 5" "datacenterIdBits = 5" "sequenceBits = 12" "workerIdShift = 12"
  "datacenterIdShift = 17" "timestampLeftShift = 22" "maxWorkerId_init = 31"
  "maxDatacenterId = 31" "sequenceMask = 4095" "twepoch = 1514764800000"
  by (simp_all add: workerIdBits_def datacenterIdBits_def sequenceBits_def workerIdShift_def
      datacenterIdShift_def timestampLeftShift_def maxWorkerId_init_def maxDatacenterId_def
      sequenceMask_def twepoch_def mask_eq_exp_minus_1)

section \<open>The clock\<close>

record timeval =
  tv_sec :: i64
  tv_usec :: i64

text \<open>One answer of \<open>gettimeofday\<close>, and what \<open>time(NULL)\<close> would answer right after it.\<close>

record clock_read =
  gettimeofday :: timeval
  time_now :: i64

definition timeGen :: "i64 \<Rightarrow> clock_read \<Rightarrow> i64" where
  "timeGen lastTs r =
     (let tv = gettimeofday r;
          timestamp = tv_sec tv * 1000 + tv_usec tv div 1000
      in if timestamp <s lastTs
         then let sec = (if c_smod (tv_sec tv) 10 \<noteq> c_smod (time_now r) 10
                         then tv_sec tv + 1 else tv_sec tv)
              in sec * 1000 + c_sdiv (tv_usec tv) 1000
         else timestamp)"

fun tilNextMillis :: "i64 \<Rightarrow> clock_read list \<Rightarrow> (i64 \<times> clock_read list) option" where
  "tilNextMillis lastTs [] = None"
| "tilNextMillis lastTs (r # rs) =
     (let timestamp = timeGen lastTs r
      in if timestamp \<le>s lastTs then tilNextMillis lastTs rs else Some (timestamp, rs))"

section \<open>The worker\<close>

record snowflake =
  sf_name :: string
  workerId :: u32
  datacenterId :: i32
  sequence :: u32
  lastTimestamp :: i64

text \<open>
  The constructor reads and writes the file-level variable \<open>maxWorkerId\<close>, which is therefore
  an argument and a result.
\<close>

definition SnowflakeIdWorker ::
  "string \<Rightarrow> u32 \<Rightarrow> i32 \<Rightarrow> u32 \<Rightarrow> (seq_error, snowflake) result \<times> u32" where
  "SnowflakeIdWorker name wid dcid maxWorkerId =
     (let negative = dcid <s 0;
          maxW = (if negative then (-1) XOR (push_bit (workerIdBits + datacenterIdBits) (-1))
                  else maxWorkerId)
      in if \<not> negative \<and> maxDatacenterId < dcid
         then (Inl (DatacenterIdOutOfRange maxDatacenterId), maxW)
         else if maxW < wid \<or> wid < 0
         then (Inl (WorkerIdOutOfRange maxW), maxW)
         else (Inr \<lparr>sf_name = name, workerId = wid, datacenterId = dcid,
                    sequence = 0, lastTimestamp = 0\<rparr>, maxW))"

text \<open>The 64-bit composition of an identifier without its counter, and with it.\<close>

definition compose_base :: "snowflake \<Rightarrow> i64 \<Rightarrow> i64" where
  "compose_base w ts =
     (if datacenterId w <s 0
      then push_bit timestampLeftShift (ts - twepoch) OR ucast (push_bit workerIdShift (workerId w))
      else push_bit timestampLeftShift (ts - twepoch)
             OR scast (push_bit datacenterIdShift (datacenterId w))
             OR ucast (push_bit workerIdShift (workerId w)))"

definition compose_range :: "snowflake \<Rightarrow> i64 \<Rightarrow> u32 \<Rightarrow> u32 \<Rightarrow> SequenceRange" where
  "compose_range w ts minSeq maxSeq =
     \<lparr>sr_min = compose_base w ts OR ucast minSeq, sr_max = compose_base w ts OR ucast maxSeq\<rparr>"

text \<open>
  \<open>getAndIncrement\<close>: the answer (an exception or a range), the worker afterwards and the clock
  answers not consumed.
\<close>

definition sf_getAndIncrement ::
  "snowflake \<Rightarrow> i32 \<Rightarrow> clock_read list \<Rightarrow>
     ((seq_error, SequenceRange) result \<times> snowflake \<times> clock_read list) option" where
  "sf_getAndIncrement w step clk =
     (if sequenceMask < step then Some (Inl (StepTooLarge step), w, clk)
      else case clk of
        [] \<Rightarrow> None
      | r # clk1 \<Rightarrow>
          let last = lastTimestamp w; timestamp = timeGen last r
          in if timestamp <s last
             then Some (Inl (ClockMovedBackwards timestamp last), w, clk1)
             else if last = timestamp
             then let minSeq = sequence w + 1; seq = sequence w + step
                  in if sequenceMask < seq
                     then case tilNextMillis last clk1 of
                            None \<Rightarrow> None
                          | Some (ts', clk2) \<Rightarrow>
                              if sequenceMask < minSeq
                              then Some (Inr (compose_range w ts' 0 (step - 1)),
                                         w\<lparr>sequence := step - 1, lastTimestamp := ts'\<rparr>, clk2)
                              else Some (Inr (compose_range w last minSeq sequenceMask),
                                         w\<lparr>sequence := 0, lastTimestamp := ts'\<rparr>, clk2)
                     else Some (Inr (compose_range w timestamp minSeq seq),
                                w\<lparr>sequence := seq, lastTimestamp := timestamp\<rparr>, clk1)
             else Some (Inr (compose_range w timestamp 0 (step - 1)),
                        w\<lparr>sequence := step - 1, lastTimestamp := timestamp\<rparr>, clk1))"

section \<open>What a clock answer and a worker may look like\<close>

text \<open>
  The clock is after 2018-01-01 and at most 41 bits of milliseconds later (until 2087), and
  the microseconds are below a second. Nothing is assumed about the order of the answers.
\<close>

definition sane_read :: "clock_read \<Rightarrow> bool" where
  "sane_read r \<longleftrightarrow> uint (tv_usec (gettimeofday r)) < 1000000
     \<and> 1514764800000 \<le> uint (tv_sec (gettimeofday r)) * 1000
     \<and> (uint (tv_sec (gettimeofday r)) + 2) * 1000 \<le> 1514764800000 + 2 ^ 41"

definition sane_ts :: "i64 \<Rightarrow> bool" where
  "sane_ts ts \<longleftrightarrow> 1514764800000 \<le> uint ts \<and> uint ts < 1514764800000 + 2 ^ 41"

definition sf_inv :: "snowflake \<Rightarrow> bool" where
  "sf_inv w \<longleftrightarrow> uint (sequence w) \<le> 4095
     \<and> (if datacenterId w <s 0 then uint (workerId w) \<le> 1023
        else uint (workerId w) \<le> 31 \<and> uint (datacenterId w) \<le> 31)
     \<and> (lastTimestamp w = 0 \<or> sane_ts (lastTimestamp w))"

text \<open>The ten bits that tell one worker from another.\<close>

definition sf_node :: "snowflake \<Rightarrow> int" where
  "sf_node w = (if datacenterId w <s 0 then uint (workerId w)
                else uint (datacenterId w) * 32 + uint (workerId w))"

text \<open>The identifier of the counter value last used, as a signed number.\<close>

definition sf_pos :: "snowflake \<Rightarrow> int" where
  "sf_pos w = (uint (lastTimestamp w) - 1514764800000) * 2 ^ 22 + sf_node w * 2 ^ 12
                + uint (sequence w)"

lemma sane_ts_sint: "sane_ts ts \<Longrightarrow> sint ts = uint ts"
  by (rule sint_eq_uint_small) (simp add: sane_ts_def)

lemma sane_read_millis:
  assumes "sane_read r" and s: "s = tv_sec (gettimeofday r) \<or> s = tv_sec (gettimeofday r) + 1"
    and u: "uint u \<le> 999"
  shows "sane_ts (s * 1000 + u)"
proof -
  let ?t = "tv_sec (gettimeofday r)"
  have t: "1514764800000 \<le> uint ?t * 1000" "(uint ?t + 2) * 1000 \<le> 1514764800000 + 2 ^ 41"
    using assms(1) by (simp_all add: sane_read_def)
  then have "uint (?t + 1) = uint ?t + 1" by (subst uint_plus_small) simp_all
  then have us: "uint ?t \<le> uint s" "uint s \<le> uint ?t + 1" using s by auto
  then have m: "uint (s * 1000) = uint s * 1000"
    using t by (subst uint_mult_small) simp_all
  then have "uint (s * 1000 + u) = uint s * 1000 + uint u"
    using t u us by (subst uint_plus_small) simp_all
  then show ?thesis
    using t us u by (auto simp: sane_ts_def intro!: add_increasing2)
qed

lemma timeGen_sane [intro]:
  assumes "sane_read r"
  shows "sane_ts (timeGen l r)"
proof -
  let ?u = "tv_usec (gettimeofday r)"
  have u: "uint ?u < 1000000" using assms by (simp add: sane_read_def)
  then have "uint (?u div 1000) \<le> 999" by (simp add: uint_div)
  moreover have "sint ?u = uint ?u" using u by (intro sint_eq_uint_small) simp
  moreover have "0 \<le> uint ?u div 1000" "uint ?u div 1000 \<le> 999"
    using u by (simp_all add: pos_imp_zdiv_nonneg_iff)
  ultimately have "uint (?u div 1000) \<le> 999" "uint (c_sdiv ?u 1000) \<le> 999"
    by (simp_all add: c_sdiv_def signed_divide_int_eq_divide_int uint_word_of_int)
  then show ?thesis
    using assms
    by (auto simp: timeGen_def Let_def simp del: distrib_right_numeral intro: sane_read_millis)
qed

lemma tilNextMillis_sane:
  "tilNextMillis l clk = Some (ts, clk') \<Longrightarrow> list_all sane_read clk \<Longrightarrow> sane_ts ts \<and> l <s ts"
  by (induction clk) (auto simp: Let_def not_le signed.not_le split: if_splits)

section \<open>The value of an identifier\<close>

lemma compose_base_uint:
  assumes "sf_inv w" and "sane_ts ts"
  shows "uint (compose_base w ts) = ((uint ts - 1514764800000) * 2 ^ 10 + sf_node w) * 2 ^ 12"
proof -
  let ?d = "uint ts - 1514764800000"
  have d: "0 \<le> ?d" "?d < 2 ^ 41" using assms(2) by (simp_all add: sane_ts_def)
  have "uint (ts - twepoch) = ?d" using d by (subst uint_minus_small) simp_all
  then have hi: "uint (push_bit 22 (ts - twepoch)) = ?d * 2 ^ 22"
    using d by (subst uint_push_bit_small) simp_all
  show ?thesis
  proof (cases "datacenterId w <s 0")
    case True
    with assms have w: "uint (workerId w) \<le> 1023" by (simp add: sf_inv_def)
    then have "uint (ucast (push_bit 12 (workerId w)) :: i64) = uint (workerId w) * 2 ^ 12"
      by (simp add: uint_ucast_up uint_push_bit_small)
    with uint_or_field [OF hi, of "ucast (push_bit 12 (workerId w))"] w True show ?thesis
      by (simp add: compose_base_def sf_node_def)
  next
    case False
    with assms have w: "uint (workerId w) \<le> 31" and c: "uint (datacenterId w) \<le> 31"
      by (simp_all add: sf_inv_def)
    let ?p = "push_bit 17 (datacenterId w)"
    have p: "uint ?p = uint (datacenterId w) * 2 ^ 17"
      using c by (simp add: uint_push_bit_small)
    then have "sint ?p = uint ?p" using c by (intro sint_eq_uint_small) simp
    then have "uint (scast ?p :: i64) = uint ?p mod 2 ^ 64"
      by (simp only: scast_eq uint_word_of_int) simp
    then have "uint (scast ?p :: i64) = uint (datacenterId w) * 2 ^ 17"
      using p c by simp
    then have 1: "uint (push_bit 22 (ts - twepoch) OR scast ?p) =
        (?d * 2 ^ 5 + uint (datacenterId w)) * 2 ^ 17"
      using uint_or_field [OF hi, of "scast ?p"] c by simp
    have "uint (ucast (push_bit 12 (workerId w)) :: i64) = uint (workerId w) * 2 ^ 12"
      using w by (simp add: uint_ucast_up uint_push_bit_small)
    then show ?thesis
      using uint_or_field [OF 1, of "ucast (push_bit 12 (workerId w))"] w False
      by (simp add: compose_base_def sf_node_def or.assoc)
  qed
qed

lemma sf_node_bounds: "sf_inv w \<Longrightarrow> 0 \<le> sf_node w \<and> sf_node w < 1024"
  by (auto simp: sf_inv_def sf_node_def split: if_splits)

lemma compose_id_value:
  assumes "sf_inv w" and "sane_ts ts" and "uint s \<le> 4095"
  shows "sint (compose_base w ts OR ucast (s :: u32)) =
    (uint ts - 1514764800000) * 2 ^ 22 + sf_node w * 2 ^ 12 + uint s"
proof -
  have "uint (compose_base w ts OR ucast s) =
      ((uint ts - 1514764800000) * 2 ^ 10 + sf_node w) * 2 ^ 12 + uint (ucast s :: i64)"
    using compose_base_uint [OF assms(1,2)] assms(3)
    by (intro uint_or_field) (simp_all add: uint_ucast_up)
  moreover from this have "sint (compose_base w ts OR ucast s) = uint (compose_base w ts OR ucast s)"
    using assms sf_node_bounds [OF assms(1)]
    by (intro sint_eq_uint_small) (simp add: uint_ucast_up sane_ts_def)
  ultimately show ?thesis by (simp add: uint_ucast_up)
qed

section \<open>One call\<close>

text \<open>A worker moved to a sane timestamp and a counter in range keeps its shape.\<close>

lemma sf_inv_update:
  "sf_inv w \<Longrightarrow> sane_ts ts \<Longrightarrow> uint s \<le> 4095 \<Longrightarrow> sf_inv (w\<lparr>sequence := s, lastTimestamp := ts\<rparr>)"
  by (simp add: sf_inv_def)

lemma sf_node_update [simp]: "sf_node (w\<lparr>sequence := s, lastTimestamp := ts\<rparr>) = sf_node w"
  by (simp add: sf_node_def)

lemma sf_pos_update:
  "sf_pos (w\<lparr>sequence := s, lastTimestamp := ts\<rparr>) =
     (uint ts - 1514764800000) * 2 ^ 22 + sf_node w * 2 ^ 12 + uint s"
  by (simp add: sf_pos_def)

lemma compose_range_value:
  assumes "sf_inv w" "sane_ts ts" "uint a \<le> 4095" "uint b \<le> 4095"
  shows "sint (sr_min (compose_range w ts a b)) =
      (uint ts - 1514764800000) * 2 ^ 22 + sf_node w * 2 ^ 12 + uint a"
    and "sint (sr_max (compose_range w ts a b)) =
      (uint ts - 1514764800000) * 2 ^ 22 + sf_node w * 2 ^ 12 + uint b"
  using assms by (simp_all add: compose_range_def compose_id_value)

text \<open>A later millisecond is a larger position, whatever the counters are.\<close>

lemma later_millis_pos:
  fixes t t' n a b :: int
  assumes "t < t'" "0 \<le> a" "a \<le> 4095" "0 \<le> b"
  shows "(t - 1514764800000) * 2 ^ 22 + n * 2 ^ 12 + a
    < (t' - 1514764800000) * 2 ^ 22 + n * 2 ^ 12 + b"
  using assms by simp

text \<open>
  The three ways a call succeeds: the same millisecond has room, the clock moved on (or the
  counter was already used up and the call waited), or the call takes the rest of the old
  millisecond and leaves the worker at the start of the next one.
\<close>

lemma sf_getAndIncrement_cases:
  assumes "sf_getAndIncrement w step clk = Some (Inr r, w', clk')"
    and "sf_inv w" "list_all sane_read clk" "step \<noteq> 0"
  obtains (room) "uint (sequence w) + uint step \<le> 4095" "sane_ts (lastTimestamp w)"
      "r = compose_range w (lastTimestamp w) (sequence w + 1) (sequence w + step)"
      "w' = w\<lparr>sequence := sequence w + step, lastTimestamp := lastTimestamp w\<rparr>"
  | (fresh) ts where "sane_ts ts" "uint (lastTimestamp w) < uint ts"
      "r = compose_range w ts 0 (step - 1)"
      "w' = w\<lparr>sequence := step - 1, lastTimestamp := ts\<rparr>"
  | (rest) ts where "sane_ts ts" "sane_ts (lastTimestamp w)" "uint (lastTimestamp w) < uint ts"
      "uint (sequence w) < 4095" "4095 < uint (sequence w) + uint step"
      "r = compose_range w (lastTimestamp w) (sequence w + 1) 4095"
      "w' = w\<lparr>sequence := 0, lastTimestamp := ts\<rparr>"
proof -
  let ?l = "lastTimestamp w" and ?s = "sequence w"
  from assms(1) obtain x clk1 where clk: "clk = x # clk1" and st: "uint step \<le> 4095"
    by (auto simp: sf_getAndIncrement_def word_less_def split: if_splits list.splits)
  let ?t = "timeGen ?l x"
  have t: "sane_ts ?t" using assms(3) clk by auto
  have s: "uint ?s \<le> 4095" and l: "?l = 0 \<or> sane_ts ?l" using assms(2) by (auto simp: sf_inv_def)
  have lu: "sint ?l = uint ?l" using l by (auto simp: sane_ts_sint)
  have add: "uint (?s + step) = uint ?s + uint step" "uint (?s + 1) = uint ?s + 1"
    using s st by (auto intro!: trans [OF uint_plus_small])
  have later: "uint ?l < uint ts" if "sane_ts ts" "?l <s ts" for ts
    using that lu by (simp add: word_sless_alt sane_ts_sint)
  note un = assms(1) [unfolded sf_getAndIncrement_def clk]
  have nb: "\<not> ?t <s ?l" using un st by (auto simp: word_less_def Let_def split: if_splits)
  show thesis
  proof (cases "?l = ?t")
    case same: True
    show thesis
    proof (cases "uint ?s + uint step \<le> 4095")
      case True
      with un same nb st add t show thesis by (intro room) (auto simp: word_less_def Let_def)
    next
      case False
      with un same nb st add obtain ts clk2 where til: "tilNextMillis ?l clk1 = Some (ts, clk2)"
        by (auto simp: word_less_def Let_def split: option.splits)
      with assms(3) clk tilNextMillis_sane have ts: "sane_ts ts" "?l <s ts" by auto
      show thesis
      proof (cases "uint ?s + 1 \<le> 4095")
        case True
        with un same nb st add til False t ts later show thesis
          by (intro rest [of ts]) (auto simp: word_less_def Let_def)
      next
        case False': False
        with un same nb st add til False ts later show thesis
          by (intro fresh [of ts]) (auto simp: word_less_def Let_def)
      qed
    qed
  next
    case False
    with nb t lu have "uint ?l < uint ?t"
      by (metis sane_ts_sint signed.not_less_iff_gr_or_eq word_sless_alt)
    with un False nb st t show thesis by (intro fresh [of ?t]) (auto simp: word_less_def Let_def)
  qed
qed

text \<open>What every successful call gives: the contract of a source of ranges.\<close>

lemma sf_success:
  assumes call: "sf_getAndIncrement w step clk = Some (Inr r, w', clk')"
    and inv: "sf_inv w" and clk: "list_all sane_read clk" and step: "step \<noteq> 0"
  shows "sf_inv w'" and "sf_node w' = sf_node w"
    and "sf_pos w < sint (sr_min r)" and "sint (sr_min r) \<le> sint (sr_max r)"
    and "sint (sr_max r) \<le> sf_pos w'"
proof -
  have st: "uint step \<le> 4095"
    using call by (auto simp: sf_getAndIncrement_def word_less_def split: if_splits)
  have st1: "1 \<le> uint step" using step uint_ge_0 [of step] by (auto simp: order_le_less uint_0_iff)
  have dec: "uint (step - 1) = uint step - 1" using st1 by (subst uint_minus_small) simp_all
  have s: "uint (sequence w) \<le> 4095" using inv by (simp add: sf_inv_def)
  note val = compose_range_value [OF inv]
  have "sf_inv w' \<and> sf_node w' = sf_node w \<and> sf_pos w < sint (sr_min r)
    \<and> sint (sr_min r) \<le> sint (sr_max r) \<and> sint (sr_max r) \<le> sf_pos w'" (is ?goal)
    using call inv clk step
  proof (cases rule: sf_getAndIncrement_cases)
    case room
    have add: "uint (sequence w + step) = uint (sequence w) + uint step"
      "uint (sequence w + 1) = uint (sequence w) + 1"
      using room(1) s by (auto intro!: trans [OF uint_plus_small])
    with room st1 inv show ?goal
      using sf_inv_update [OF inv, of "lastTimestamp w" "sequence w + step"]
      by (simp add: sf_pos_def val sf_node_def)
  next
    case (fresh ts)
    have "sf_pos w < (uint ts - 1514764800000) * 2 ^ 22 + sf_node w * 2 ^ 12 + 0"
      unfolding sf_pos_def using fresh(2) s by (intro later_millis_pos) simp_all
    with fresh dec st1 st inv show ?goal
      by (simp add: val sf_pos_update sf_inv_update)
  next
    case (rest ts)
    have add: "uint (sequence w + 1) = uint (sequence w) + 1"
      using rest(4) by (intro trans [OF uint_plus_small]) simp_all
    have "(uint (lastTimestamp w) - 1514764800000) * 2 ^ 22 + sf_node w * 2 ^ 12 + 4095
      < (uint ts - 1514764800000) * 2 ^ 22 + sf_node w * 2 ^ 12 + 0"
      using rest(3) by (intro later_millis_pos) simp_all
    with rest add inv show ?goal
      by (simp add: val sf_pos_def sf_inv_update)
  qed
  then show "sf_inv w'" "sf_node w' = sf_node w" "sf_pos w < sint (sr_min r)"
    "sint (sr_min r) \<le> sint (sr_max r)" "sint (sr_max r) \<le> sf_pos w'" by simp_all
qed

text \<open>An exception leaves the worker as it was.\<close>

lemma sf_failure_unchanged:
  "sf_getAndIncrement w step clk = Some (Inl e, w', clk') \<Longrightarrow> w' = w"
  by (auto simp: sf_getAndIncrement_def Let_def split: if_splits list.splits option.splits)

text \<open>One call with its own step and clock answers, as a source of ranges.\<close>

definition sf_call :: "snowflake \<Rightarrow> i32 \<times> clock_read list \<Rightarrow> snowflake \<times> SequenceRange option" where
  "sf_call w i = (case sf_getAndIncrement w (fst i) (snd i) of
       None \<Rightarrow> (w, None)
     | Some (Inl e, w', _) \<Rightarrow> (w', None)
     | Some (Inr r, w', _) \<Rightarrow> (w', Some r))"

definition sf_ok :: "i32 \<times> clock_read list \<Rightarrow> bool" where
  "sf_ok i \<longleftrightarrow> fst i \<noteq> 0 \<and> list_all sane_read (snd i)"

lemma sf_call_Some:
  "sf_call w i = (w', Some r) \<longleftrightarrow>
     (\<exists>clk'. sf_getAndIncrement w (fst i) (snd i) = Some (Inr r, w', clk'))"
  by (auto simp: sf_call_def split: option.splits sum.splits)

lemma sf_call_None:
  "sf_call w i = (w', None) \<Longrightarrow> w' = w"
  by (auto simp: sf_call_def dest: sf_failure_unchanged split: option.splits sum.splits)

lemma sf_call_step:
  assumes "sf_inv w" and "sf_ok i"
  shows "sf_inv (fst (sf_call w i)) \<and> sf_node (fst (sf_call w i)) = sf_node w
    \<and> sf_pos w \<le> sf_pos (fst (sf_call w i))"
proof (cases "sf_call w i")
  case c: (Pair w' x)
  show ?thesis
  proof (cases x)
    case None
    with c sf_call_None [of w i w'] assms show ?thesis by simp
  next
    case (Some r)
    with c obtain clk' where "sf_getAndIncrement w (fst i) (snd i) = Some (Inr r, w', clk')"
      by (auto simp: sf_call_Some)
    from sf_success [OF this] assms c show ?thesis by (auto simp: sf_ok_def)
  qed
qed

interpretation sf: range_source sf_call "\<lambda>w. sf_inv w \<and> sf_node w = n" sf_ok sf_pos
  "\<lambda>r. sint (sr_min r)" "\<lambda>r. sint (sr_max r)" for n
  by unfold_locales
    (auto simp: sf_call_step sf_call_Some sf_ok_def dest: sf_success(3,4,5))

section \<open>Properties\<close>

text \<open>The millisecond and the counter values a successful call uses.\<close>

lemma sf_success_shape:
  assumes "sf_getAndIncrement w step clk = Some (Inr r, w', clk')"
    and "sf_inv w" "list_all sane_read clk" "step \<noteq> 0"
  obtains ts a b where "sane_ts ts" "ts = lastTimestamp w \<or> ts = lastTimestamp w'"
    "r = compose_range w ts a b" "uint a \<le> uint b" "uint b \<le> 4095"
    "uint b - uint a + 1 \<le> uint step"
    "uint b - uint a + 1 = uint step \<or> uint b = 4095"
proof -
  have st: "uint step \<le> 4095"
    using assms(1) by (auto simp: sf_getAndIncrement_def word_less_def split: if_splits)
  have st1: "1 \<le> uint step" using assms(4) uint_ge_0 [of step] by (auto simp: order_le_less uint_0_iff)
  have s: "uint (sequence w) \<le> 4095" using assms(2) by (simp add: sf_inv_def)
  have inc: "uint (sequence w + 1) = uint (sequence w) + 1"
    using s by (intro trans [OF uint_plus_small]) simp_all
  from assms show thesis
  proof (cases rule: sf_getAndIncrement_cases)
    case room
    have "uint (sequence w + step) = uint (sequence w) + uint step"
      using room(1) by (intro uint_plus_small) simp
    with room st1 inc show thesis
      by (intro that [of "lastTimestamp w" "sequence w + 1" "sequence w + step"]) simp_all
  next
    case (fresh ts)
    have "uint (step - 1) = uint step - 1" using st1 by (subst uint_minus_small) simp_all
    with fresh st st1 show thesis by (intro that [of ts 0 "step - 1"]) simp_all
  next
    case (rest ts)
    with inc show thesis
      by (intro that [of "lastTimestamp w" "sequence w + 1" 4095]) simp_all
  qed
qed

lemma tilNextMillis_eq_dropWhile:
  "tilNextMillis l clk = (case dropWhile (\<lambda>r. timeGen l r \<le>s l) clk of
      [] \<Rightarrow> None | r # rs \<Rightarrow> Some (timeGen l r, rs))"
  by (induction clk) (auto simp: Let_def)

lemma new_worker_inv:
  assumes "SnowflakeIdWorker name wid dcid maxW = (Inr w, m)"
    and "maxW = maxWorkerId_init \<or> dcid <s 0"
  shows "sf_inv w"
proof -
  have "uint wid \<le> (if dcid <s 0 then 1023 else 31)" "\<not> dcid <s 0 \<Longrightarrow> uint dcid \<le> 31"
    using assms by (auto simp: SnowflakeIdWorker_def Let_def word_less_def mask_eq_exp_minus_1
        split: if_splits)
  moreover have "w = \<lparr>sf_name = name, workerId = wid, datacenterId = dcid, sequence = 0,
      lastTimestamp = 0\<rparr>"
    using assms(1) by (auto simp: SnowflakeIdWorker_def Let_def split: if_splits)
  ultimately show ?thesis by (auto simp: sf_inv_def)
qed

lemma sf_success_min_nonneg:
  assumes "sf_getAndIncrement w step clk = Some (Inr r, w', clk')"
    and "sf_inv w" "list_all sane_read clk" "step \<noteq> 0"
  shows "0 \<le> sint (sr_min r)"
proof -
  from assms obtain ts a b where "sane_ts ts" "r = compose_range w ts a b"
    "uint a \<le> uint b" "uint b \<le> 4095" by (rule sf_success_shape)
  then show ?thesis
    using assms(2) sf_node_bounds [OF assms(2)] by (simp add: compose_range_value sane_ts_def)
qed


definition demo_read :: "i64 \<Rightarrow> i64 \<Rightarrow> clock_read" where
  "demo_read s u = \<lparr>gettimeofday = \<lparr>tv_sec = s, tv_usec = u\<rparr>, time_now = s\<rparr>"

definition demo_worker :: snowflake where
  "demo_worker = \<lparr>sf_name = ''orders'', workerId = 7, datacenterId = -1, sequence = 0,
     lastTimestamp = 0\<rparr>"

lemma demo_worker_new: "SnowflakeIdWorker ''orders'' 7 (-1) maxWorkerId_init = (Inr demo_worker, 1023)"
  by (simp add: SnowflakeIdWorker_def demo_worker_def mask_eq_exp_minus_1)

definition demo_calls :: "(i32 \<times> clock_read list) list" where
  "demo_calls = [(4000, [demo_read 1600000000 5000]), (200, [demo_read 1600000000 5400,
     demo_read 1600000000 6000]), (1, [demo_read 1600000000 6100]), (5, [demo_read 1599999990 0])]"

lemma demo_calls_ok: "list_all sf_ok demo_calls"
  by (simp add: demo_calls_def demo_read_def sf_ok_def sane_read_def)

lemmas demo_eval = sf_getAndIncrement_def timeGen_def demo_worker_def demo_read_def
  word_sless_alt word_sle_eq compose_range_def compose_base_def sf_call_def demo_calls_def
  c_sdiv_def c_smod_def

lemma demo_run_length: "length (run_calls sf_call demo_worker demo_calls) = 3"
  by (simp add: demo_eval)


lemma id_fields:
  fixes t n c :: int
  assumes "0 \<le> n" "n < 1024" "0 \<le> c" "c \<le> 4095"
  shows "(t * 2 ^ 22 + n * 2 ^ 12 + c) div 2 ^ 22 = t"
    and "(t * 2 ^ 22 + n * 2 ^ 12 + c) div 2 ^ 12 mod 2 ^ 10 = n"
    and "(t * 2 ^ 22 + n * 2 ^ 12 + c) mod 2 ^ 12 = c"
proof -
  show "(t * 2 ^ 22 + n * 2 ^ 12 + c) div 2 ^ 22 = t"
    using assms by (intro int_div_pos_eq [where r = "n * 2 ^ 12 + c"]) simp_all
  have "(t * 2 ^ 22 + n * 2 ^ 12 + c) div 2 ^ 12 = t * 2 ^ 10 + n"
    using assms by (intro int_div_pos_eq [where r = c]) simp_all
  then show "(t * 2 ^ 22 + n * 2 ^ 12 + c) div 2 ^ 12 mod 2 ^ 10 = n" using assms by simp
  show "(t * 2 ^ 22 + n * 2 ^ 12 + c) mod 2 ^ 12 = c"
    using assms by (intro int_mod_pos_eq [where q = "t * 2 ^ 10 + n"]) simp_all
qed

lemma range_ids_node:
  assumes "sf_inv w" "sane_ts ts" "uint a \<le> uint b" "uint b \<le> 4095"
    and "x \<in> range_ids (compose_range w ts a b)"
  shows "(x div 2 ^ 12) mod 2 ^ 10 = sf_node w"
proof -
  let ?h = "(uint ts - 1514764800000) * 2 ^ 22 + sf_node w * 2 ^ 12"
  have "?h + uint a \<le> x" "x \<le> ?h + uint b"
    using assms by (simp_all add: range_ids_def compose_range_value)
  then have "0 \<le> x - ?h" "x - ?h \<le> 4095" "x = ?h + (x - ?h)"
    using assms(4) uint_ge_0 [of a] by linarith+
  then show ?thesis using sf_node_bounds [OF assms(1)] id_fields(2) by metis
qed

lemma run_ids_node:
  assumes "sf_inv w" and "list_all sf_ok calls" and "r \<in> set (run_calls sf_call w calls)"
    and "x \<in> range_ids r"
  shows "(x div 2 ^ 12) mod 2 ^ 10 = sf_node w"
proof -
  have "\<forall>r \<in> set (run_calls sf_call w calls). \<forall>x \<in> range_ids r. (x div 2 ^ 12) mod 2 ^ 10 = sf_node w"
  proof (rule sf.run_all [where n = "sf_node w"])
    fix v i v' q
    assume v: "sf_inv v \<and> sf_node v = sf_node w" and i: "sf_ok i" and c: "sf_call v i = (v', Some q)"
    then obtain clk' where "sf_getAndIncrement v (fst i) (snd i) = Some (Inr q, v', clk')"
      by (auto simp: sf_call_Some)
    then show "\<forall>x \<in> range_ids q. (x div 2 ^ 12) mod 2 ^ 10 = sf_node w"
      using v i by (elim sf_success_shape) (auto simp: sf_ok_def dest: range_ids_node)
  qed (use assms in simp_all)
  with assms show ?thesis by blast
qed


definition demo_worker2 :: snowflake where
  "demo_worker2 = \<lparr>sf_name = ''orders'', workerId = 3, datacenterId = 2, sequence = 0,
     lastTimestamp = 0\<rparr>"

lemma demo_worker2_new: "SnowflakeIdWorker ''orders'' 3 2 maxWorkerId_init = (Inr demo_worker2, 31)"
  by (simp add: SnowflakeIdWorker_def demo_worker2_def word_sless_alt)

lemma demo_nodes: "sf_node demo_worker = 7" "sf_node demo_worker2 = 67"
  by (simp_all add: sf_node_def demo_worker_def demo_worker2_def word_sless_alt)

lemma demo_hd:
  "hd (run_calls sf_call demo_worker demo_calls) \<in> set (run_calls sf_call demo_worker demo_calls)"
  "hd (run_calls sf_call demo_worker2 demo_calls) \<in> set (run_calls sf_call demo_worker2 demo_calls)"
  by (intro hd_in_set; simp add: demo_eval demo_worker2_def)+



lemma demo_inv: "sf_inv demo_worker" "list_all sane_read [demo_read 1600000000 5000]"
  by (simp_all add: sf_inv_def demo_worker_def demo_read_def sane_read_def)

lemma demo_first_call:
  "sf_getAndIncrement demo_worker 4000 [demo_read 1600000000 5000] =
     Some (Inr \<lparr>sr_min = 357502340321800192, sr_max = 357502340321804191\<rparr>,
           demo_worker\<lparr>sequence := 3999, lastTimestamp := 1600000000005\<rparr>, [])"
  by (simp add: demo_eval)


text \<open>
  A successful call returns at least one and at most \<open>step\<close> identifiers. It returns fewer
  than \<open>step\<close> only when it reaches the last counter value of a millisecond: the returned range
  then ends with the counter 4095.
\<close>

theorem snowflake_range_size:
  assumes "sf_getAndIncrement w step clk = Some (Inr r, w', clk')"
    and "sf_inv w" and "list_all sane_read clk" and "step \<noteq> 0"
  shows "1 \<le> sint (sr_max r) - sint (sr_min r) + 1
    \<and> sint (sr_max r) - sint (sr_min r) + 1 \<le> uint step
    \<and> (sint (sr_max r) - sint (sr_min r) + 1 < uint step \<longrightarrow> sint (sr_max r) mod 2 ^ 12 = 4095)"
proof -
  from assms obtain ts a b where ts: "sane_ts ts" and r: "r = compose_range w ts a b"
    and ab: "uint a \<le> uint b" "uint b \<le> 4095" "uint b - uint a + 1 \<le> uint step"
    "uint b - uint a + 1 = uint step \<or> uint b = 4095"
    by (rule sf_success_shape)
  have a: "uint a \<le> 4095" using ab by simp
  have "sint (sr_max r) mod 2 ^ 12 = uint b"
    unfolding r compose_range_value(2) [OF assms(2) ts a ab(2)]
    using sf_node_bounds [OF assms(2)] ab(2) by (intro id_fields(3)) simp_all
  moreover have "sint (sr_max r) - sint (sr_min r) = uint b - uint a"
    using a ab(2) by (simp add: r compose_range_value [OF assms(2) ts])
  ultimately show ?thesis using ab by auto
qed

theorem snowflake_range_size_witness:
  "sint (357502340321804191 :: i64) - sint (357502340321800192 :: i64) + 1 \<le> uint (4000 :: i32)"
  using snowflake_range_size [OF demo_first_call demo_inv] by simp

text \<open>
  Waiting for the next millisecond ends exactly when the clock gives an answer after the
  last timestamp, and returns the first such answer, leaving the later ones unread.
\<close>

theorem tilNextMillis_first_later:
  "tilNextMillis lastTs clk =
     (case dropWhile (\<lambda>r. timeGen lastTs r \<le>s lastTs) clk of
        [] \<Rightarrow> None
      | r # rs \<Rightarrow> Some (timeGen lastTs r, rs))"
  by (rule tilNextMillis_eq_dropWhile)

text \<open>
  C39: a call always returns once the clock moves on. If the clock gives one answer and, later,
  one that is after the worker's timestamp, the call has an outcome (a range or an exception);
  it cannot wait forever.
\<close>

theorem snowflake_call_returns:
  assumes "clk = r # rs" and "\<exists>x \<in> set rs. lastTimestamp w <s timeGen (lastTimestamp w) x"
  shows "\<exists>res w' clk'. sf_getAndIncrement w step clk = Some (res, w', clk')"
proof -
  have "dropWhile (\<lambda>x. timeGen (lastTimestamp w) x \<le>s lastTimestamp w) rs \<noteq> []"
    using assms(2) by (auto simp: signed.not_le [symmetric])
  then have "tilNextMillis (lastTimestamp w) rs \<noteq> None"
    by (simp add: tilNextMillis_eq_dropWhile split: list.splits)
  then obtain ts clk2 where "tilNextMillis (lastTimestamp w) rs = Some (ts, clk2)" by auto
  then show ?thesis using assms(1) by (auto simp: sf_getAndIncrement_def Let_def)
qed

theorem snowflake_call_returns_witness:
  "\<exists>res w' clk'. sf_getAndIncrement (demo_worker\<lparr>sequence := 4095, lastTimestamp := 1600000000005\<rparr>) 7
     [demo_read 1600000000 5000, demo_read 1600000000 5999, demo_read 1600000000 6000]
     = Some (res, w', clk')"
proof (rule snowflake_call_returns)
  show "\<exists>x \<in> set [demo_read 1600000000 5999, demo_read 1600000000 6000].
      lastTimestamp (demo_worker\<lparr>sequence := 4095, lastTimestamp := 1600000000005\<rparr>)
      <s timeGen (lastTimestamp (demo_worker\<lparr>sequence := 4095, lastTimestamp := 1600000000005\<rparr>)) x"
    by (simp add: demo_eval)
qed simp

text \<open>
  A call that throws has either been asked for more than 4095 identifiers or seen a clock
  answer before the worker's timestamp, and it leaves the worker as it was. A negative step
  counts as too large.
\<close>

theorem snowflake_exceptions:
  assumes "sf_getAndIncrement w step clk = Some (Inl e, w', clk')"
  shows "w' = w \<and> (e = StepTooLarge step \<and> 4095 < uint step
    \<or> (\<exists>ts. e = ClockMovedBackwards ts (lastTimestamp w) \<and> ts <s lastTimestamp w))"
  using assms by (auto simp: sf_getAndIncrement_def Let_def word_less_def
      split: if_splits list.splits option.splits)

theorem snowflake_exceptions_witness:
  "sf_getAndIncrement demo_worker (-1) [] = Some (Inl (StepTooLarge (-1)), demo_worker, [])
   \<and> 4095 < uint (-1 :: i32)"
proof -
  have h: "sf_getAndIncrement demo_worker (-1) [] = Some (Inl (StepTooLarge (-1)), demo_worker, [])"
    by (simp add: sf_getAndIncrement_def)
  show ?thesis using h snowflake_exceptions [OF h] by simp
qed

text \<open>
  A step of 0 is accepted and breaks the identifier. In a new millisecond the last counter
  value is 0 minus 1, which is or-ed over the worker's identity: whatever the worker, the ten
  identity bits of the returned maximum read 1023, and the counter leaves its twelve bits.
\<close>

theorem snowflake_step_zero_corrupts:
  assumes "sf_inv w" and "sane_read r" and "lastTimestamp w <s timeGen (lastTimestamp w) r"
  shows "\<exists>q w'. sf_getAndIncrement w 0 [r] = Some (Inr q, w', [])
    \<and> sequence w' = 0xFFFFFFFF
    \<and> drop_bit 12 (sr_max q) AND 1023 = 1023"
proof -
  let ?ts = "timeGen (lastTimestamp w) r"
  have ne: "\<not> ?ts <s lastTimestamp w" "lastTimestamp w \<noteq> ?ts"
    using assms(3) by (auto simp: signed.not_less)
  have "drop_bit 12 (x OR mask 32) AND mask 10 = (mask 10 :: i64)" for x
    by (rule bit_word_eqI) (auto simp: bit_simps)
  then have m: "drop_bit 12 (x OR (0xFFFFFFFF :: i64)) AND 1023 = 1023" for x
    by (simp add: mask_eq_exp_minus_1)
  have "(ucast (-1 :: u32) :: i64) = 0xFFFFFFFF" by code_simp
  then show ?thesis using ne m
    by (auto simp: sf_getAndIncrement_def Let_def compose_range_def)
qed

theorem snowflake_step_zero_corrupts_witness:
  "\<exists>q w'. sf_getAndIncrement demo_worker 0 [demo_read 1600000000 5000] = Some (Inr q, w', [])
    \<and> sequence w' = 0xFFFFFFFF \<and> drop_bit 12 (sr_max q) AND 1023 = 1023"
proof (rule snowflake_step_zero_corrupts)
  show "lastTimestamp demo_worker <s timeGen (lastTimestamp demo_worker) (demo_read 1600000000 5000)"
    by (simp add: demo_eval)
qed (use demo_inv in simp_all)

text \<open>
  The limit on worker ids is a variable of the whole program, and building a worker without
  a data center raises it to 1023 for every worker built later. A worker with id 32 is then
  accepted in data center \<open>d\<close>, and its identifiers are exactly those of worker 0 in data
  center \<open>d OR 1\<close> (for an even \<open>d\<close> the next data center).
\<close>

theorem snowflake_worker_limit_leaks:
  assumes "dc1 <s 0" and "uint d \<le> 31"
  shows "snd (SnowflakeIdWorker n1 wid1 dc1 maxW) = 1023
    \<and> (\<exists>w0 w32. SnowflakeIdWorker n2 0 (d OR 1) 1023 = (Inr w0, 1023)
         \<and> SnowflakeIdWorker n2 32 d 1023 = (Inr w32, 1023)
         \<and> (\<forall>ts a b. compose_range w32 ts a b = compose_range w0 ts a b))"
proof -
  have small: "\<not> x <s 0 \<and> \<not> 31 < x" if "uint x \<le> 31" for x :: i32
    using that by (auto simp: word_sless_alt word_less_def sint_eq_uint_small)
  have "take_bit 5 (uint d) = uint d" using assms(2) by (simp add: take_bit_int_eq_self)
  then have "take_bit 5 (uint (d OR 1)) = uint (d OR 1)" by (simp add: unsigned_or_eq)
  with take_bit_int_less_exp [of 5 "uint (d OR 1)"] have "uint (d OR 1) \<le> 31" by simp
  with small assms(2) have d: "\<not> d <s 0" "\<not> 31 < d" "\<not> (d OR 1) <s 0" "\<not> 31 < (d OR 1)" by auto
  have "(scast (push_bit 17 (1 :: i32)) :: i64) = 131072" by code_simp
  then have "(scast (push_bit 17 (d OR 1)) :: i64) = scast (push_bit 17 d) OR 131072"
    by (simp only: push_bit_or signed_or_eq)
  moreover have "(ucast (push_bit 12 (32 :: u32)) :: i64) = 131072" by code_simp
  ultimately show ?thesis
    using assms(1) d by (auto simp: SnowflakeIdWorker_def Let_def compose_range_def compose_base_def
        mask_eq_exp_minus_1 or.assoc)
qed

theorem snowflake_worker_limit_leaks_witness:
  "snd (SnowflakeIdWorker ''a'' 7 (-1) maxWorkerId_init) = 1023
   \<and> (\<exists>w0 w32. SnowflakeIdWorker ''b'' 0 (4 OR 1) 1023 = (Inr w0, 1023)
         \<and> SnowflakeIdWorker ''b'' 32 4 1023 = (Inr w32, 1023)
         \<and> (\<forall>ts a b. compose_range w32 ts a b = compose_range w0 ts a b))"
  by (rule snowflake_worker_limit_leaks) simp_all

end
