(* ===== verification/SequenceService.thy ===== *)
theory SequenceService
  imports Snowflake DefaultWorker
begin

text \<open>
  The Ice servant (SequenceServiceI.cpp): it keeps one worker per sequence name, creates a worker
  on first use with the algorithm configured in the database, and retries a worker that did not
  answer. The lookup under the read lock and the second lookup under the write lock see the same
  map in a sequential run; two threads that both miss are serialised by the write lock, and the
  second finds the worker of the first.
\<close>

section \<open>State\<close>

definition INCREMENT :: int where "INCREMENT = 0"
definition INCREMENT32 :: int where "INCREMENT32 = 1"
definition INCREMENT64 :: int where "INCREMENT64 = 2"
definition SNOW_FLAKE :: int where "SNOW_FLAKE = 3"
definition retryTimes :: nat where "retryTimes = 5"

datatype SequenceWorker = Default DefaultSequenceWorker | Snow snowflake

record SequenceServiceI =
  rangeMap :: "string \<Rightarrow> SequenceWorker option"
  svc_workerId :: u32
  svc_datacenterId :: i32

definition new_SequenceServiceI :: "u32 \<Rightarrow> i32 \<Rightarrow> SequenceServiceI" where
  "new_SequenceServiceI wid dc = \<lparr>rangeMap = Map.empty, svc_workerId = wid, svc_datacenterId = dc\<rparr>"

text \<open>
  What the servant shares with the rest of the process: the pool, the database behind the
  driver, the file-level \<open>maxWorkerId\<close> of SnowflakeIdWorker.cpp, and the clock answers to come.
\<close>

record 'd world =
  w_pool :: MySQLDBPool
  w_db :: 'd
  w_maxWorkerId :: u32
  w_clock :: "clock_read list"

definition set_db :: "MySQLDBPool \<Rightarrow> 'd \<Rightarrow> 'd world \<Rightarrow> 'd world" where
  "set_db P d W = W\<lparr>w_pool := P, w_db := d\<rparr>"

section \<open>The configured algorithm\<close>

definition getAlgorithmCfg ::
  "'d driver \<Rightarrow> int \<times> int \<Rightarrow> string \<Rightarrow> MySQLDBPool \<Rightarrow> 'd \<Rightarrow> int exec \<times> MySQLDBPool \<times> 'd" where
  "getAlgorithmCfg drv now name P d =
     (case GetConnection drv (fst now) 0 P d of
        (Throw, P1, d1) \<Rightarrow> (Thrown SQLExceptionEscapes, P1, d1)
      | (Undef, P1, d1) \<Rightarrow> (OutOfBounds, P1, d1)
      | (Ret None, P1, d1) \<Rightarrow> (Thrown CantGetConnection, P1, d1)
      | (Ret (Some con), P1, d1) \<Rightarrow>
          (case drv_query drv (conn_id con) sql_algorithm [name] d1 of
             (SqlException, d2) \<Rightarrow>
               (case FreeConnection drv (snd now) (Some (con\<lparr>isErr := True\<rparr>)) P1 d2 of
                  (P3, d3) \<Rightarrow> (Thrown SystemError, P3, d3))
           | (NoRow, d2) \<Rightarrow>
               (case FreeConnection drv (snd now) (Some con) P1 d2 of
                  (P3, d3) \<Rightarrow> (Thrown (SequenceNotExists name), P3, d3))
           | (Row s, d2) \<Rightarrow>
               (case FreeConnection drv (snd now) (Some con) P1 d2 of
                  (P3, d3) \<Rightarrow> (Returned (atoi s), P3, d3))))"

section \<open>Creating and calling a worker\<close>

definition new_default ::
  "'d driver \<Rightarrow> int \<times> int \<Rightarrow> SequenceServiceI \<Rightarrow> string \<Rightarrow> int \<Rightarrow> 'd world \<Rightarrow> SequenceWorker exec \<times> 'd world" where
  "new_default drv now svc name bits W =
     (case new_DefaultSequenceWorker drv now name (svc_datacenterId svc) bits (w_pool W) (w_db W) of
        (Returned w, P, d) \<Rightarrow> (Returned (Default w), set_db P d W)
      | (Thrown e, P, d) \<Rightarrow> (Thrown e, set_db P d W)
      | (Aborted, P, d) \<Rightarrow> (Aborted, set_db P d W)
      | (OutOfBounds, P, d) \<Rightarrow> (OutOfBounds, set_db P d W))"

definition create_worker ::
  "'d driver \<Rightarrow> (nat \<Rightarrow> int \<times> int) \<Rightarrow> SequenceServiceI \<Rightarrow> string \<Rightarrow> 'd world \<Rightarrow> SequenceWorker exec \<times> 'd world" where
  "create_worker drv now svc name W =
     (case getAlgorithmCfg drv (now 0) name (w_pool W) (w_db W) of
        (Thrown SQLExceptionEscapes, P, d) \<Rightarrow> (Thrown UnknownError, set_db P d W)
      | (Thrown e, P, d) \<Rightarrow> (Thrown e, set_db P d W)
      | (Aborted, P, d) \<Rightarrow> (Aborted, set_db P d W)
      | (OutOfBounds, P, d) \<Rightarrow> (OutOfBounds, set_db P d W)
      | (Returned algorithm, P, d) \<Rightarrow>
          let W1 = set_db P d W in
          if algorithm = INCREMENT then new_default drv (now 1) svc name 0 W1
          else if algorithm = INCREMENT64 then new_default drv (now 1) svc name 64 W1
          else if algorithm = INCREMENT32 then new_default drv (now 1) svc name 32 W1
          else if algorithm = SNOW_FLAKE
          then (case SnowflakeIdWorker name (svc_workerId svc) (- 1) (w_maxWorkerId W1) of
                  (Inl e, m) \<Rightarrow> (Thrown e, W1\<lparr>w_maxWorkerId := m\<rparr>)
                | (Inr s, m) \<Rightarrow> (Returned (Snow s), W1\<lparr>w_maxWorkerId := m\<rparr>))
          else (Thrown (UnknownAlgorithm algorithm), W1))"

text \<open>
  The virtual \<open>getAndIncrement\<close>. The result None says that the call still waits for the clock.
\<close>

definition worker_getAndIncrement ::
  "'d driver \<Rightarrow> int \<times> int \<Rightarrow> i32 \<Rightarrow> SequenceWorker \<Rightarrow> 'd world \<Rightarrow>
     (SequenceRange option exec \<times> SequenceWorker \<times> 'd world) option" where
  "worker_getAndIncrement drv now step wk W =
     (case wk of
        Default w \<Rightarrow>
          (case dw_getAndIncrement drv now step w (w_pool W) (w_db W) of
             (e, w', P, d) \<Rightarrow> Some (e, Default w', set_db P d W))
      | Snow s \<Rightarrow>
          (case sf_getAndIncrement s step (w_clock W) of
             None \<Rightarrow> None
           | Some (Inl e, s', clk) \<Rightarrow> Some (Thrown e, Snow s', W\<lparr>w_clock := clk\<rparr>)
           | Some (Inr r, s', clk) \<Rightarrow> Some (Returned (Some r), Snow s', W\<lparr>w_clock := clk\<rparr>)))"

fun attempts ::
  "'d driver \<Rightarrow> (nat \<Rightarrow> int \<times> int) \<Rightarrow> i32 \<Rightarrow> nat \<Rightarrow> SequenceWorker \<Rightarrow> 'd world \<Rightarrow>
     (SequenceRange exec \<times> SequenceWorker \<times> 'd world) option" where
  "attempts drv now step 0 wk W = Some (Thrown RetriedTooManyTimes, wk, W)"
| "attempts drv now step (Suc i) wk W =
     (case worker_getAndIncrement drv (now (Suc (Suc i))) step wk W of
        None \<Rightarrow> None
      | Some (Returned (Some r), wk', W') \<Rightarrow> Some (Returned r, wk', W')
      | Some (Returned None, wk', W') \<Rightarrow> attempts drv now step i wk' W'
      | Some (Thrown e, wk', W') \<Rightarrow> Some (Thrown e, wk', W')
      | Some (Aborted, wk', W') \<Rightarrow> Some (Aborted, wk', W')
      | Some (OutOfBounds, wk', W') \<Rightarrow> Some (OutOfBounds, wk', W'))"

text \<open>
  \<open>nextValue\<close>. The loop counts \<open>i\<close> down from \<open>retryTimes\<close> to 0, so it makes one attempt more.
\<close>

definition nextValue ::
  "'d driver \<Rightarrow> (nat \<Rightarrow> int \<times> int) \<Rightarrow> string \<Rightarrow> i32 \<Rightarrow> SequenceServiceI \<Rightarrow> 'd world \<Rightarrow>
     (SequenceRange exec \<times> SequenceServiceI \<times> 'd world) option" where
  "nextValue drv now name step svc W =
     (case (case rangeMap svc name of
              Some wk \<Rightarrow> (Returned wk, svc, W)
            | None \<Rightarrow>
                (case create_worker drv now svc name W of
                   (Returned wk, W1) \<Rightarrow> (Returned wk, svc\<lparr>rangeMap := (rangeMap svc)(name \<mapsto> wk)\<rparr>, W1)
                 | (e, W1) \<Rightarrow> (e, svc, W1))) of
        (Returned wk, svc1, W1) \<Rightarrow>
          (case attempts drv now step (Suc retryTimes) wk W1 of
             None \<Rightarrow> None
           | Some (r, wk', W2) \<Rightarrow> Some (r, svc1\<lparr>rangeMap := (rangeMap svc1)(name \<mapsto> wk')\<rparr>, W2))
      | (Thrown e, svc1, W1) \<Rightarrow> Some (Thrown e, svc1, W1)
      | (Aborted, svc1, W1) \<Rightarrow> Some (Aborted, svc1, W1)
      | (OutOfBounds, svc1, W1) \<Rightarrow> Some (OutOfBounds, svc1, W1))"

section \<open>One call on an incrementing worker\<close>

lemma set_db_simps [simp]: "w_pool (set_db P d W) = P" "w_db (set_db P d W) = d"
  "w_maxWorkerId (set_db P d W) = w_maxWorkerId W" "w_clock (set_db P d W) = w_clock W"
  by (simp_all add: set_db_def)

definition progress :: "int \<Rightarrow> SequenceRange exec \<Rightarrow> int \<Rightarrow> bool" where
  "progress p e p' \<longleftrightarrow> p \<le> p' \<and> (case exec_val e of None \<Rightarrow> True
     | Some r \<Rightarrow> p < sint (sr_min r) \<and> sint (sr_min r) \<le> sint (sr_max r) \<and> sint (sr_max r) \<le> p')"

lemma progress_trans: "p \<le> q \<Longrightarrow> progress q e r \<Longrightarrow> progress p e r"
  by (auto simp: progress_def split: option.splits)

lemma attempts_default:
  assumes "dw_inv others S name (w, w_pool W, w_db W)" "0 < sint step" "sint step \<le> 50000000"
    and "attempts (mysql_driver others) now step n (Default w) W = Some (e, wk, W')"
  shows "\<exists>w'. wk = Default w' \<and> dw_inv others S name (w', w_pool W', w_db W') \<and>
    progress (dw_pos (w, w_pool W, w_db W)) e (dw_pos (w', w_pool W', w_db W'))"
  using assms(1,4)
proof (induction n arbitrary: w W)
  case 0
  then show ?case by (auto simp: progress_def exec_val_def)
next
  case (Suc n)
  let ?now = "now (Suc (Suc n))"
  obtain g w1 P1 d1 where g: "dw_getAndIncrement (mysql_driver others) ?now step w (w_pool W) (w_db W) = (g, w1, P1, d1)"
    by (metis prod.collapse)
  have c: "dw_call others (w, w_pool W, w_db W) (?now, step) = ((w1, P1, d1), case exec_val g of None \<Rightarrow> None | Some r \<Rightarrow> r)"
    by (simp add: dw_call_def g)
  have cs: "client_step (?now, step)" using assms(2,3) by (simp add: client_step_def)
  note pr = dw_call_progress [OF Suc.prems(1) cs c]
  show ?case
  proof (cases "g = Returned None")
    case True
    have "\<exists>w'. wk = Default w' \<and> dw_inv others S name (w', w_pool W', w_db W') \<and>
      progress (dw_pos (w1, P1, d1)) e (dw_pos (w', w_pool W', w_db W'))"
      using Suc.IH [of w1 "set_db P1 d1 W"] pr Suc.prems(2) g True by (simp add: worker_getAndIncrement_def)
    then show ?thesis using pr progress_trans by blast
  next
    case False
    have "wk = Default w1 \<and> w_pool W' = P1 \<and> w_db W' = d1 \<and> exec_val e = (case exec_val g of None \<Rightarrow> None | Some r \<Rightarrow> r)"
      using Suc.prems(2) g False
      by (auto simp: worker_getAndIncrement_def exec_val_def split: exec.splits option.splits)
    with pr show ?thesis by (auto simp: progress_def split: option.splits)
  qed
qed

section \<open>The first call for a name\<close>

lemma getAlgorithmCfg_mysql:
  assumes "getAlgorithmCfg (mysql_driver others) now name P d = (e, P', d')"
    and "my_tbl d name = Some r" "row_algorithm r = INCREMENT"
  shows "my_tbl d' = my_tbl d \<and> (e = Returned INCREMENT \<or> (\<forall>a. e \<noteq> Returned a))"
proof -
  obtain x P1 d1 where g: "GetConnection (mysql_driver others) (fst now) 0 P d = (x, P1, d1)" by (metis prod.collapse)
  have t: "my_tbl d1 = my_tbl d" by (rule mysql_GetConnection_tbl [OF g])
  show ?thesis
  proof (cases "\<exists>c. x = Ret (Some c)")
    case True
    then obtain c where c: "x = Ret (Some c)" by blast
    have "drv_query (mysql_driver others) (conn_id c) sql_algorithm [name] d1 = (Row (show_int 0), d1)"
      using assms(2,3) t by (simp add: mysql_driver_def mysql_query_def sql_nextval_def sql_algorithm_def INCREMENT_def)
    moreover have "atoi (show_int 0) = 0" by (rule atoi_show_int) simp_all
    moreover obtain P3 where "FreeConnection (mysql_driver others) (snd now) (Some c) P1 d1 = (P3, d1)"
      using mysql_FreeConnection_db by (metis prod.collapse)
    ultimately show ?thesis using assms(1) g c t by (simp add: getAlgorithmCfg_def INCREMENT_def)
  next
    case False
    with assms(1) g t show ?thesis
      by (auto simp: getAlgorithmCfg_def split: outcome.splits option.splits)
  qed
qed

lemma new_default_mysql:
  assumes "fair_others others" "0 < S" "S \<le> 50000000" "row_ok S name (w_db W)"
    and "new_default (mysql_driver others) now svc name 0 W = (e, W')"
  shows "advances (my_tbl (w_db W)) (my_tbl (w_db W')) \<and> ((\<forall>wk. e \<noteq> Returned wk) \<or>
    (\<exists>w. e = Returned (Default w) \<and> dw_inv others S name (w, w_pool W', w_db W') \<and>
       row_value (the (my_tbl (w_db W) name)) \<le> dw_pos (w, w_pool W', w_db W')))"
proof -
  let ?w = "\<lparr>dw_name = name, dw_value = 0, dw_max = 0, dw_step = 0, datacenterIdMask64 = 0,
    datacenterIdMask32 = 0, maxDatacenterId = 0, seqBits = 0\<rparr>"
  obtain g w1 P1 d1 where g: "nextRange (mysql_driver others) now name ?w (w_pool W) (w_db W) = (g, w1, P1, d1)"
    by (metis prod.collapse)
  note nr = nextRange_mysql [OF assms(1-4) g]
  have W': "w_db W' = d1 \<and> w_pool W' = P1 \<and> (e = Returned (Default w1) \<and> g = Returned () \<or> g \<noteq> Returned () \<and> (\<forall>wk. e \<noteq> Returned wk))"
    using assms(5) g by (auto simp: new_default_def new_DefaultSequenceWorker_def split: exec.splits)
  show ?thesis
  proof (cases "g = Returned ()")
    case False
    with nr W' show ?thesis by simp
  next
    case True
    with nr obtain r v where v: "row_value (the (my_tbl (w_db W) name)) \<le> v" "row_value (the (my_tbl d1 name)) = v + S"
      "0 < v" "v < 2 ^ 63 - 1 - 100000000"
      "w1 = ?w\<lparr>dw_value := word_of_int v, dw_max := word_of_int (v + S), dw_step := word_of_int S\<rparr>" by fastforce
    have s: "sint (dw_value w1) = v" "sint (dw_max w1) = v + S" "dw_name w1 = name" "seqBits w1 = 0"
      using v assms(2,3) by (simp_all add: sint_word_of_int_small del: of_int_add)
    have "row_ok S name d1" using nr by (auto intro: row_ok_advances [OF assms(4)])
    then have "dw_inv others S name (w1, P1, d1)" "row_value (the (my_tbl (w_db W) name)) \<le> dw_pos (w1, P1, d1)"
      using assms(1-3) s v by (simp_all add: dw_inv_def dw_pos_def)
    with nr W' True show ?thesis by simp
  qed
qed

section \<open>Runs of the servant\<close>

definition svc_inv ::
  "(nat \<Rightarrow> seq_table \<Rightarrow> seq_table) \<Rightarrow> int \<Rightarrow> string \<Rightarrow> SequenceServiceI \<times> mysql world \<Rightarrow> bool" where
  "svc_inv others S name x \<longleftrightarrow> (case x of (svc, W) \<Rightarrow> fair_others others \<and> 0 < S \<and> S \<le> 50000000 \<and>
     (case rangeMap svc name of
        None \<Rightarrow> row_ok S name (w_db W) \<and> row_algorithm (the (my_tbl (w_db W) name)) = INCREMENT
      | Some (Default w) \<Rightarrow> dw_inv others S name (w, w_pool W, w_db W)
      | Some (Snow s) \<Rightarrow> False))"

definition svc_pos :: "string \<Rightarrow> SequenceServiceI \<times> mysql world \<Rightarrow> int" where
  "svc_pos name x = (case x of (svc, W) \<Rightarrow>
     (case rangeMap svc name of
        Some (Default w) \<Rightarrow> dw_pos (w, w_pool W, w_db W)
      | _ \<Rightarrow> row_value (the (my_tbl (w_db W) name))))"

definition svc_call ::
  "(nat \<Rightarrow> seq_table \<Rightarrow> seq_table) \<Rightarrow> string \<Rightarrow> SequenceServiceI \<times> mysql world \<Rightarrow>
     (nat \<Rightarrow> int \<times> int) \<times> i32 \<Rightarrow> (SequenceServiceI \<times> mysql world) \<times> SequenceRange option" where
  "svc_call others name x i =
     (case nextValue (mysql_driver others) (fst i) name (snd i) (fst x) (snd x) of
        None \<Rightarrow> (x, None)
      | Some (e, svc', W') \<Rightarrow> ((svc', W'), exec_val e))"

definition svc_client :: "(nat \<Rightarrow> int \<times> int) \<times> i32 \<Rightarrow> bool" where
  "svc_client i \<longleftrightarrow> 0 < sint (snd i) \<and> sint (snd i) \<le> 50000000"

lemma create_worker_mysql:
  assumes inv: "svc_inv others S name (svc, W)" "rangeMap svc name = None"
    and c: "create_worker (mysql_driver others) now svc name W = (e, W')"
  shows "advances (my_tbl (w_db W)) (my_tbl (w_db W')) \<and> ((\<forall>wk. e \<noteq> Returned wk) \<or>
    (\<exists>w. e = Returned (Default w) \<and> dw_inv others S name (w, w_pool W', w_db W') \<and>
       row_value (the (my_tbl (w_db W) name)) \<le> dw_pos (w, w_pool W', w_db W')))"
proof -
  have o: "fair_others others" "0 < S" "S \<le> 50000000" "row_ok S name (w_db W)"
    "row_algorithm (the (my_tbl (w_db W) name)) = INCREMENT" using inv by (simp_all add: svc_inv_def)
  then obtain r where r: "my_tbl (w_db W) name = Some r" "row_algorithm r = INCREMENT"
    by (auto simp: row_ok_def split: option.splits)
  obtain a P d where a: "getAlgorithmCfg (mysql_driver others) (now 0) name (w_pool W) (w_db W) = (a, P, d)"
    by (metis prod.collapse)
  note al = getAlgorithmCfg_mysql [OF a r]
  show ?thesis
  proof (cases "a = Returned INCREMENT")
    case True
    have "new_default (mysql_driver others) (now 1) svc name 0 (set_db P d W) = (e, W')"
      using c a True by (simp add: create_worker_def)
    moreover have "row_ok S name (w_db (set_db P d W))" using al o(4) by (simp add: row_ok_def)
    ultimately show ?thesis using new_default_mysql [OF o(1-3), of name "set_db P d W"] al by fastforce
  next
    case False
    then have "w_db W' = d \<and> (\<forall>wk. e \<noteq> Returned wk)"
      using c a al by (auto simp: create_worker_def split: exec.splits seq_error.splits)
    with al show ?thesis by (simp add: advances_refl)
  qed
qed

definition store_worker ::
  "string \<Rightarrow> SequenceServiceI \<Rightarrow> SequenceRange exec \<times> SequenceWorker \<times> 'd world \<Rightarrow>
     SequenceRange exec \<times> SequenceServiceI \<times> 'd world" where
  "store_worker name svc y = (case y of (r, wk, W) \<Rightarrow> (r, svc\<lparr>rangeMap := (rangeMap svc)(name \<mapsto> wk)\<rparr>, W))"

lemma nextValue_cached:
  "rangeMap svc name = Some wk \<Longrightarrow> nextValue drv now name step svc W =
     map_option (store_worker name svc) (attempts drv now step (Suc retryTimes) wk W)"
  by (simp add: nextValue_def store_worker_def del: attempts.simps split: option.split)

lemma nextValue_created:
  "rangeMap svc name = None \<Longrightarrow> create_worker drv now svc name W = (Returned wk, W1) \<Longrightarrow>
   nextValue drv now name step svc W =
     map_option (store_worker name svc) (attempts drv now step (Suc retryTimes) wk W1)"
  by (simp add: nextValue_def store_worker_def del: attempts.simps split: option.split)

lemma nextValue_not_created:
  "rangeMap svc name = None \<Longrightarrow> create_worker drv now svc name W = (c, W1) \<Longrightarrow> \<forall>wk. c \<noteq> Returned wk \<Longrightarrow>
   \<exists>e. nextValue drv now name step svc W = Some (e, svc, W1) \<and> exec_val e = None"
  by (cases c) (simp_all add: nextValue_def exec_val_def)

lemma nextValue_progress:
  assumes inv: "svc_inv others S name (svc, W)" and st: "0 < sint step" "sint step \<le> 50000000"
    and n: "nextValue (mysql_driver others) now name step svc W = Some (e, svc', W')"
  shows "svc_inv others S name (svc', W') \<and> progress (svc_pos name (svc, W)) e (svc_pos name (svc', W'))"
proof (cases "rangeMap svc name")
  case (Some wk)
  then obtain w where w: "wk = Default w" "dw_inv others S name (w, w_pool W, w_db W)"
    using inv by (cases wk) (simp_all add: svc_inv_def)
  obtain wk' where a: "attempts (mysql_driver others) now step (Suc retryTimes) (Default w) W = Some (e, wk', W')"
    "svc' = svc\<lparr>rangeMap := (rangeMap svc)(name \<mapsto> wk')\<rparr>"
    using n Some w by (auto simp: nextValue_cached store_worker_def simp del: attempts.simps)
  from attempts_default [OF w(2) st a(1)] a(2) w Some inv show ?thesis
    by (auto simp: svc_inv_def svc_pos_def)
next
  case None
  obtain c W1 where c: "create_worker (mysql_driver others) now svc name W = (c, W1)" by (metis prod.collapse)
  have ro: "row_ok S name (w_db W)" "row_algorithm (the (my_tbl (w_db W) name)) = INCREMENT"
    using inv None by (simp_all add: svc_inv_def)
  note cw = create_worker_mysql [OF inv None c]
  show ?thesis
  proof (cases "\<exists>wk. c = Returned wk")
    case False
    then have "svc' = svc" "W' = W1" "exec_val e = None" using nextValue_not_created [OF None c, of step] n by auto
    moreover have adv: "advances (my_tbl (w_db W)) (my_tbl (w_db W1))" using cw by blast
    obtain q q' where "my_tbl (w_db W) name = Some q" "my_tbl (w_db W1) name = Some q'" "row_value q \<le> row_value q'"
      "row_ok S name (w_db W1)" "row_algorithm q' = row_algorithm q" by (rule row_ok_advances [OF ro(1) adv])
    ultimately show ?thesis using inv None ro(2) by (simp add: svc_inv_def svc_pos_def progress_def)
  next
    case True
    with cw obtain w where w: "c = Returned (Default w)" "dw_inv others S name (w, w_pool W1, w_db W1)"
      "row_value (the (my_tbl (w_db W) name)) \<le> dw_pos (w, w_pool W1, w_db W1)" by blast
    obtain wk' where a: "attempts (mysql_driver others) now step (Suc retryTimes) (Default w) W1 = Some (e, wk', W')"
      "svc' = svc\<lparr>rangeMap := (rangeMap svc)(name \<mapsto> wk')\<rparr>"
      using n c w by (auto simp: nextValue_created [OF None] store_worker_def simp del: attempts.simps)
    from attempts_default [OF w(2) st a(1)] a(2) w None inv show ?thesis
      by (auto simp: svc_inv_def svc_pos_def intro: progress_trans)
  qed
qed

interpretation svc: range_source "svc_call others name" "svc_inv others S name" svc_client "svc_pos name"
  "\<lambda>r. sint (sr_min r)" "\<lambda>r. sint (sr_max r)" for others name S
proof
  fix x :: "SequenceServiceI \<times> mysql world" and i
  assume inv: "svc_inv others S name x" and ok: "svc_client i"
  have p: "svc_inv others S name x' \<and> svc_pos name x \<le> svc_pos name x' \<and> (\<forall>r. q = Some r \<longrightarrow>
      svc_pos name x < sint (sr_min r) \<and> sint (sr_min r) \<le> sint (sr_max r) \<and> sint (sr_max r) \<le> svc_pos name x')"
    if "svc_call others name x i = (x', q)" for x' q
  proof (cases "nextValue (mysql_driver others) (fst i) name (snd i) (fst x) (snd x)")
    case None
    with that inv show ?thesis by (simp add: svc_call_def)
  next
    case (Some y)
    obtain e svc' W' where y: "y = (e, svc', W')" by (cases y)
    show ?thesis
      using nextValue_progress [of others S name "fst x" "snd x" "snd i" "fst i" e svc' W'] inv ok Some y that
      by (auto simp: svc_call_def svc_client_def progress_def)
  qed
  show "svc_inv others S name (fst (svc_call others name x i))" "svc_pos name x \<le> svc_pos name (fst (svc_call others name x i))"
    using p by (metis prod.collapse)+
  show "svc_pos name x < sint (sr_min r) \<and> sint (sr_min r) \<le> sint (sr_max r) \<and> sint (sr_max r) \<le> svc_pos name x'"
    if "svc_call others name x i = (x', Some r)" for x' r
    using p [OF that] by blast
qed


section \<open>What the servant promises\<close>


definition ex_world :: "mysql world" where
  "ex_world = \<lparr>w_pool = ex_pool, w_db = ex_db, w_maxWorkerId = 31, w_clock = []\<rparr>"

definition ex_service :: SequenceServiceI where
  "ex_service = new_SequenceServiceI 7 0"

lemma ex_service_run:
  "run_calls (svc_call (\<lambda>k t. t) ''s'') (ex_service, ex_world) [(\<lambda>n. (0, 0), 4), (\<lambda>n. (0, 0), 7), (\<lambda>n. (0, 0), 3)]
    = [\<lparr>sr_min = 11, sr_max = 14\<rparr>, \<lparr>sr_min = 15, sr_max = 20\<rparr>, \<lparr>sr_min = 21, sr_max = 23\<rparr>]"
  by code_simp


section \<open>Snowflake sequences\<close>

definition svc_snow_ok :: "SequenceServiceI \<Rightarrow> bool" where
  "svc_snow_ok svc \<longleftrightarrow> (\<forall>n s. rangeMap svc n = Some (Snow s) \<longrightarrow> sf_inv s \<and> sf_node s = uint (svc_workerId svc))"

lemma attempts_snow:
  assumes "attempts drv now step (Suc n) (Snow s) W = Some (Returned r, wk, W')"
  shows "\<exists>s' clk. wk = Snow s' \<and> sf_getAndIncrement s step (w_clock W) = Some (Inr r, s', clk)"
  using assms by (auto simp: worker_getAndIncrement_def split: option.splits sum.splits)

lemma attempts_keeps_kind:
  "attempts drv now step n wk W = Some (e, wk', W') \<Longrightarrow> (\<exists>w. wk = Default w) = (\<exists>w'. wk' = Default w')"
proof (induction n arbitrary: wk W)
  case 0
  then show ?case by simp
next
  case (Suc n)
  obtain g where g: "worker_getAndIncrement drv (now (Suc (Suc n))) step wk W = Some g" using Suc.prems by (auto split: option.splits)
  obtain x wk1 W1 where g': "g = (x, wk1, W1)" by (cases g)
  have k: "(\<exists>w. wk = Default w) = (\<exists>w'. wk1 = Default w')" using g g'
    by (auto simp: worker_getAndIncrement_def split: SequenceWorker.splits option.splits prod.splits sum.splits)
  show ?case
  proof (cases "x = Returned None")
    case True
    then show ?thesis using Suc.prems Suc.IH [of wk1 W1] g g' k by simp
  next
    case False
    then have "wk' = wk1" using Suc.prems g g' by (auto split: exec.splits option.splits)
    with k show ?thesis by simp
  qed
qed

lemma create_worker_snow:
  assumes "create_worker drv now svc name W = (Returned (Snow s), W1)"
  shows "sf_inv s \<and> sf_node s = uint (svc_workerId svc) \<and> w_clock W1 = w_clock W"
proof -
  obtain a P d where a: "getAlgorithmCfg drv (now 0) name (w_pool W) (w_db W) = (a, P, d)" by (metis prod.collapse)
  have "\<exists>m m'. SnowflakeIdWorker name (svc_workerId svc) (- 1) m = (Inr s, m') \<and> w_clock W1 = w_clock W"
    using assms a by (auto simp: create_worker_def new_default_def Let_def
        split: exec.splits if_splits prod.splits sum.splits seq_error.splits)
  then obtain m m' where m: "SnowflakeIdWorker name (svc_workerId svc) (- 1) m = (Inr s, m')" "w_clock W1 = w_clock W" by blast
  have "sf_inv s" by (rule new_worker_inv [OF m(1)]) (simp add: word_sless_alt)
  moreover have "workerId s = svc_workerId svc" "datacenterId s = - 1"
    using m(1) by (auto simp: SnowflakeIdWorker_def Let_def split: if_splits)
  ultimately show ?thesis using m(2) by (simp add: sf_node_def word_sless_alt)
qed

text \<open>The worker a call runs on, whether it was cached or has just been created.\<close>

lemma nextValue_SomeD:
  assumes "nextValue drv now name step svc W = Some (Returned r, svc', W')"
  obtains wk W1 wk' where "rangeMap svc name = Some wk \<and> W1 = W \<or>
      rangeMap svc name = None \<and> create_worker drv now svc name W = (Returned wk, W1)"
    "attempts drv now step (Suc retryTimes) wk W1 = Some (Returned r, wk', W')"
    "svc' = svc\<lparr>rangeMap := (rangeMap svc)(name \<mapsto> wk')\<rparr>"
proof (cases "rangeMap svc name")
  case (Some wk)
  with assms that show ?thesis by (auto simp: nextValue_cached store_worker_def simp del: attempts.simps)
next
  case None
  obtain c W1 where c: "create_worker drv now svc name W = (c, W1)" by (metis prod.collapse)
  show ?thesis
  proof (cases "\<exists>wk. c = Returned wk")
    case True
    with None c assms that show ?thesis
      by (auto simp: nextValue_created [OF None] store_worker_def simp del: attempts.simps)
  next
    case False
    with nextValue_not_created [OF None c, of step] assms show ?thesis by (auto simp: exec_val_def)
  qed
qed


definition ex_snow_db :: mysql where
  "ex_snow_db = \<lparr>my_next = 1, my_tick = 0,
     my_tbl = [''o'' \<mapsto> \<lparr>row_value = 10, row_step = 10, row_algorithm = 3\<rparr>]\<rparr>"

definition ex_snow_world :: "mysql world" where
  "ex_snow_world = \<lparr>w_pool = ex_pool, w_db = ex_snow_db, w_maxWorkerId = 31, w_clock = [demo_read 1600000000 5000]\<rparr>"

lemma ex_snow_call:
  "\<exists>r svc' W' s. nextValue (mysql_driver (\<lambda>k t. t)) (\<lambda>n. (0, 0)) ''o'' 3 ex_service ex_snow_world = Some (Returned r, svc', W')
     \<and> rangeMap svc' ''o'' = Some (Snow s)"
proof -
  have "map_option (\<lambda>(r, svc', W'). exec_val r \<noteq> None \<and> (case rangeMap svc' ''o'' of Some (Snow s) \<Rightarrow> True | _ \<Rightarrow> False))
    (nextValue (mysql_driver (\<lambda>k t. t)) (\<lambda>n. (0, 0)) ''o'' 3 ex_service ex_snow_world) = Some True" by code_simp
  then obtain e svc' W' where n: "nextValue (mysql_driver (\<lambda>k t. t)) (\<lambda>n. (0, 0)) ''o'' 3 ex_service ex_snow_world = Some (e, svc', W')"
    "exec_val e \<noteq> None" "case rangeMap svc' ''o'' of Some (Snow s) \<Rightarrow> True | _ \<Rightarrow> False" by auto
  then obtain r s where "e = Returned r" "rangeMap svc' ''o'' = Some (Snow s)"
    by (cases e; cases "rangeMap svc' ''o''") (auto simp: exec_val_def split: SequenceWorker.splits)
  with n show ?thesis by blast
qed


section \<open>Failures and other sequences\<close>

text \<open>
  A call for one sequence leaves the workers of all others and the servant's identity alone;
  and when the sequence does not exist, the call throws and caches nothing, so a later call asks
  the database again.
\<close>

theorem nextValue_frame:
  assumes "nextValue drv now name step svc W = Some (e, svc', W')"
  shows "(\<forall>n. n \<noteq> name \<longrightarrow> rangeMap svc' n = rangeMap svc n) \<and> svc_workerId svc' = svc_workerId svc
    \<and> svc_datacenterId svc' = svc_datacenterId svc
    \<and> (rangeMap svc name = None \<and> fst (create_worker drv now svc name W) = Thrown (SequenceNotExists name)
        \<longrightarrow> e = Thrown (SequenceNotExists name) \<and> svc' = svc)"
proof (cases "rangeMap svc name")
  case (Some wk)
  with assms show ?thesis by (auto simp: nextValue_cached store_worker_def simp del: attempts.simps)
next
  case None
  obtain c W1 where c: "create_worker drv now svc name W = (c, W1)" by (metis prod.collapse)
  show ?thesis
  proof (cases "\<exists>wk. c = Returned wk")
    case True
    with None c assms show ?thesis
      by (auto simp: nextValue_created [OF None] store_worker_def simp del: attempts.simps)
  next
    case False
    then have "svc' = svc" using nextValue_not_created [OF None c, of step] assms by auto
    moreover have "e = Thrown (SequenceNotExists name)" if "c = Thrown (SequenceNotExists name)"
      using that None c assms by (simp add: nextValue_def)
    ultimately show ?thesis using None c by simp
  qed
qed

theorem nextValue_frame_witness:
  "\<exists>e svc' W'. nextValue (mysql_driver (\<lambda>k t. t)) (\<lambda>n. (0, 0)) ''zz'' 3 ex_service ex_world = Some (e, svc', W')
    \<and> e = Thrown (SequenceNotExists ''zz'') \<and> svc' = ex_service"
proof -
  have c: "fst (create_worker (mysql_driver (\<lambda>k t. t)) (\<lambda>n. (0, 0)) ex_service ''zz'' ex_world) = Thrown (SequenceNotExists ''zz'')"
    by code_simp
  have n: "rangeMap ex_service ''zz'' = None" by (simp add: ex_service_def new_SequenceServiceI_def)
  obtain e W' where e: "nextValue (mysql_driver (\<lambda>k t. t)) (\<lambda>n. (0, 0)) ''zz'' 3 ex_service ex_world = Some (e, ex_service, W')"
    using nextValue_not_created [OF n prod.collapse [symmetric]] c by force
  from nextValue_frame [OF e] n c e show ?thesis by auto
qed

end
