(* ===== verification/ZkHelper.thy ===== *)
theory ZkHelper
  imports CString "HOL-Library.Char_ord" "HOL-Library.List_Lexorder"
begin

text \<open>
  The ZooKeeper client helper (zookeeper_helper.cpp, zookeeper_helper.h, the singly-linked lists
  of queue.h). The ZooKeeper C client is not part of the repository: its calls are the functions
  of a \<open>zkapi\<close> record over a server state, with the return codes of its documentation. A value
  \<open>Crash\<close> marks a write outside a fixed-size buffer or through a null pointer. Every operation
  holds the helper's recursive mutex, so it is one step.
\<close>

section \<open>The client library\<close>

definition ZOK :: int where "ZOK = 0"
definition ZNONODE :: int where "ZNONODE = - 101"
definition ZOO_EPHEMERAL :: int where "ZOO_EPHEMERAL = 1"
definition ZOO_SEQUENCE :: int where "ZOO_SEQUENCE = 2"

text \<open>
  \<open>zk_get\<close> is given the capacity that its caller stores in \<open>*buffer_len\<close> and answers with the
  data, None when the node has no data (\<open>*buffer_len\<close> is then -1). \<open>zk_create\<close> answers with the
  path of the new node, which differs from the path asked for when \<open>ZOO_SEQUENCE\<close> is set.
\<close>

record 'z zkapi =
  zk_exists :: "string \<Rightarrow> bool \<Rightarrow> 'z \<Rightarrow> int \<times> 'z"
  zk_create :: "string \<Rightarrow> string \<Rightarrow> int \<Rightarrow> 'z \<Rightarrow> int \<times> string \<times> 'z"
  zk_delete :: "string \<Rightarrow> int \<Rightarrow> 'z \<Rightarrow> int \<times> 'z"
  zk_get :: "string \<Rightarrow> int \<Rightarrow> 'z \<Rightarrow> int \<times> string option \<times> 'z"
  zk_set :: "string \<Rightarrow> string \<Rightarrow> int \<Rightarrow> 'z \<Rightarrow> int \<times> 'z"
  zk_children :: "string \<Rightarrow> bool \<Rightarrow> 'z \<Rightarrow> int \<times> string list \<times> 'z"
  zk_init :: "string \<Rightarrow> 'z \<Rightarrow> bool \<times> 'z"
  zk_connected :: "nat \<Rightarrow> 'z \<Rightarrow> bool"
  zk_local :: "'z \<Rightarrow> (string \<times> int) option"
  zk_close :: "'z \<Rightarrow> 'z"

datatype 'a zres = Done 'a | Crash

section \<open>State\<close>

definition CREATED_EVENT :: int where "CREATED_EVENT = 2"
definition DELETED_EVENT :: int where "DELETED_EVENT = 4"
definition CHANGED_EVENT :: int where "CHANGED_EVENT = 8"
definition CHILD_EVENT :: int where "CHILD_EVENT = 16"

text \<open>
  The function pointers of an event: which of them are set. Calling one is a parameter of the
  operations that do so.
\<close>

record ZkEvent =
  eventmask :: int
  has_connected :: bool
  has_changed :: bool
  has_child :: bool
  has_created :: bool
  has_deleted :: bool

datatype cb_kind = ConnectedCb | ChangedCb | ChildCb | CreatedCb | DeletedCb

text \<open>
  A pair of the path list, with the bytes of its value buffer (the string and its NUL); a pair
  of the event list holds the event.
\<close>

record ZkHelperPair =
  zp_key :: string
  zp_value :: "char list"
  zp_flag :: int

datatype E_MODE = E_CONNECTION_M | E_REGISTER_M | E_DESTORY_M

record ZookeeperHelper =
  host :: string
  recv_timeout :: int
  zhandle :: bool
  local_addr :: string
  local_port :: int
  zoo_path_list :: "ZkHelperPair list"
  zoo_event_list :: "(string \<times> ZkEvent) list"
  mode :: E_MODE
  reconnection_flag :: bool
  election_node :: string
  election_uuid :: string

section \<open>Identity of a process\<close>

definition chars :: string where
  "chars = ''abcdefghijklmnopqrstuvwxyz0123456789ABCDEFGHIJKLMNOPQRSTUVWXYZ''"

text \<open>Ten characters from one half of the random bytes; None is an index outside \<open>chars\<close>.\<close>

fun uuid_half :: "nat \<Rightarrow> u64 \<Rightarrow> string option" where
  "uuid_half 0 v = Some []"
| "uuid_half (Suc n) v =
     (let idx = unat (0x3D AND v) in
      if idx < length chars
      then map_option (\<lambda>s. chars ! idx # s) (uuid_half n (drop_bit 6 v)) else None)"

definition uuid :: "u64 \<Rightarrow> u64 \<Rightarrow> nat \<Rightarrow> string option" where
  "uuid v0 v1 len =
     (case (uuid_half 10 v0, uuid_half 10 v1) of
        (Some a, Some b) \<Rightarrow> Some (take (min len 24) (a @ b @ replicate 4 (CHR 0x00)))
      | _ \<Rightarrow> None)"

definition create_zookeeper_helper :: "u64 \<Rightarrow> u64 \<Rightarrow> ZookeeperHelper zres" where
  "create_zookeeper_helper v0 v1 =
     (case uuid v0 v1 20 of
        None \<Rightarrow> Crash
      | Some u \<Rightarrow> Done \<lparr>host = [], recv_timeout = 0, zhandle = False, local_addr = [], local_port = 0,
          zoo_path_list = [], zoo_event_list = [], mode = E_CONNECTION_M, reconnection_flag = False,
          election_node = [], election_uuid = u\<rparr>)"

definition destory_zookeeper_helper :: "'z zkapi \<Rightarrow> ZookeeperHelper \<Rightarrow> 'z \<Rightarrow> ZookeeperHelper \<times> 'z" where
  "destory_zookeeper_helper api h z =
     (h\<lparr>mode := E_DESTORY_M, zoo_event_list := [], zoo_path_list := []\<rparr>,
      if zhandle h then zk_close api z else z)"

section \<open>Connecting\<close>

text \<open>Poll the state once a millisecond, until connected or \<open>recv_timeout\<close> polls have failed.\<close>

function wait_connected :: "'z zkapi \<Rightarrow> int \<Rightarrow> nat \<Rightarrow> 'z \<Rightarrow> bool" where
  "wait_connected api limit timeout z =
     (if zk_connected api timeout z then True
      else if limit \<le> int timeout then False
      else wait_connected api limit (Suc timeout) z)"
  by pat_completeness auto
termination
  by (relation "measure (\<lambda>(api, limit, timeout, z). nat (limit - int timeout))") auto

declare wait_connected.simps [simp del]

definition get_local_addr :: "'z zkapi \<Rightarrow> ZookeeperHelper \<Rightarrow> 'z \<Rightarrow> int \<times> ZookeeperHelper" where
  "get_local_addr api h z =
     (case zk_local api z of
        None \<Rightarrow> (- 1, h)
      | Some (a, p) \<Rightarrow> (0, h\<lparr>local_addr := a, local_port := p\<rparr>))"

definition register_to_zookeeper ::
  "'z zkapi \<Rightarrow> string \<Rightarrow> int \<Rightarrow> ZookeeperHelper \<Rightarrow> 'z \<Rightarrow> int \<times> ZookeeperHelper \<times> 'z" where
  "register_to_zookeeper api hst timeout h z =
     (let h1 = h\<lparr>host := take 1024 hst, recv_timeout := timeout, mode := E_CONNECTION_M\<rparr>;
          (ok, z1) = zk_init api (host h1) z;
          h2 = h1\<lparr>zhandle := ok\<rparr>
      in if \<not> ok then (- 1, h2, z1)
         else if \<not> wait_connected api timeout 0 z1 then (- 1, h2, z1)
         else let (r, h3) = get_local_addr api h2 z1 in
              if r = - 1 then (- 1, h3, z1) else (0, h3, z1))"

definition re_connect :: "'z zkapi \<Rightarrow> ZookeeperHelper \<Rightarrow> 'z \<Rightarrow> ZookeeperHelper \<times> 'z" where
  "re_connect api h z =
     (let z1 = (if zhandle h then zk_close api z else z);
          (ok, z2) = zk_init api (host h) z1
      in (h\<lparr>zhandle := ok, reconnection_flag := True\<rparr>, z2))"

section \<open>Plain operations\<close>

definition zoo_helper_get_children ::
  "'z zkapi \<Rightarrow> string \<Rightarrow> ZookeeperHelper \<Rightarrow> 'z \<Rightarrow> int \<times> string list \<times> 'z" where
  "zoo_helper_get_children api path h z =
     (if mode h = E_DESTORY_M then (- 1, [], z)
      else case zk_children api path False z of
        (res, nodes, z') \<Rightarrow> if res \<noteq> ZOK then (- 1, [], z') else (0, nodes, z'))"

text \<open>
  \<open>zoo_helper_get\<close> on a buffer of \<open>bufsize\<close> bytes; \<open>cap\<close> is what the caller has in \<open>*buf_len\<close>. The
  NUL is written behind the data, at index -1 when there is no data.
\<close>

definition zoo_helper_get ::
  "'z zkapi \<Rightarrow> nat \<Rightarrow> string \<Rightarrow> int \<Rightarrow> ZookeeperHelper \<Rightarrow> 'z \<Rightarrow> (int \<times> string) zres \<times> 'z" where
  "zoo_helper_get api bufsize path cap h z =
     (if mode h = E_DESTORY_M then (Done (- 1, []), z)
      else case zk_get api path cap z of
        (res, data, z') \<Rightarrow>
          if res \<noteq> ZOK then (Done (- 1, []), z')
          else (case data of
                  None \<Rightarrow> (Crash, z')
                | Some buf \<Rightarrow> if bufsize \<le> length buf then (Crash, z') else (Done (0, buf), z')))"

definition zoo_helper_exists :: "'z zkapi \<Rightarrow> string \<Rightarrow> ZookeeperHelper \<Rightarrow> 'z \<Rightarrow> int \<times> 'z" where
  "zoo_helper_exists api path h z =
     (if mode h = E_DESTORY_M then (- 1, z)
      else case zk_exists api path False z of
        (res, z') \<Rightarrow> (if res = ZOK then 1 else if res = ZNONODE then 0 else - 1, z'))"

definition zoo_helper_set ::
  "'z zkapi \<Rightarrow> string \<Rightarrow> string \<Rightarrow> int \<Rightarrow> ZookeeperHelper \<Rightarrow> 'z \<Rightarrow> int \<times> 'z" where
  "zoo_helper_set api path buffer version h z =
     (if mode h = E_DESTORY_M then (- 1, z)
      else case zk_set api path buffer version z of (res, z') \<Rightarrow> (if res = ZOK then 0 else - 1, z'))"

definition zoo_helper_delete ::
  "'z zkapi \<Rightarrow> string \<Rightarrow> int \<Rightarrow> ZookeeperHelper \<Rightarrow> 'z \<Rightarrow> int \<times> 'z" where
  "zoo_helper_delete api path version h z =
     (if mode h = E_DESTORY_M then (- 1, z)
      else case zk_delete api path version z of (res, z') \<Rightarrow> (if res = ZOK then 0 else - 1, z'))"

definition zoo_helper_create ::
  "'z zkapi \<Rightarrow> string \<Rightarrow> string \<Rightarrow> int \<Rightarrow> ZookeeperHelper \<Rightarrow> 'z \<Rightarrow> int \<times> 'z" where
  "zoo_helper_create api path value flags h z =
     (if mode h = E_DESTORY_M then (- 1, z)
      else case zk_create api path value flags z of (res, _, z') \<Rightarrow> (if res = ZOK then 0 else - 1, z'))"

section \<open>Creating nodes\<close>

text \<open>The part of a path after its last slash, and the part before it.\<close>

definition last_part :: "string \<Rightarrow> string" where
  "last_part p = rev (takeWhile (\<lambda>c. c \<noteq> CHR ''/'') (rev p))"

definition parent_path :: "string \<Rightarrow> string" where
  "parent_path p = rev (tl (dropWhile (\<lambda>c. c \<noteq> CHR ''/'') (rev p)))"

text \<open>\<open>fetch_node\<close> copies the last part into the 50 bytes of \<open>election_node\<close>.\<close>

definition fetch_node :: "string \<Rightarrow> ZookeeperHelper \<Rightarrow> ZookeeperHelper zres" where
  "fetch_node buf h =
     (if 50 \<le> length (last_part buf) then Crash else Done (h\<lparr>election_node := last_part buf\<rparr>))"

text \<open>
  The search for a child that carries this process's uuid. The buffer \<open>p\<close> for the child's path
  has 50 bytes, the one for its data 512, and the length handed to \<open>zoo_get\<close> is an uninitialised
  variable, the argument \<open>cap\<close>.
\<close>

fun find_uuid ::
  "'z zkapi \<Rightarrow> int \<Rightarrow> string \<Rightarrow> string list \<Rightarrow> ZookeeperHelper \<Rightarrow> 'z \<Rightarrow> string option zres \<times> 'z" where
  "find_uuid api cap path [] h z = (Done None, z)"
| "find_uuid api cap path (n # ns) h z =
     (if 50 \<le> length (path @ ''/'' @ n) then (Crash, z)
      else case zoo_helper_get api 512 (path @ ''/'' @ n) cap h z of
        (Crash, z') \<Rightarrow> (Crash, z')
      | (Done (rc, buf), z') \<Rightarrow>
          if rc = 0 \<and> buf = election_uuid h then (Done (Some buf), z')
          else find_uuid api cap path ns h z')"

text \<open>The entry of the path list that a successful creation leaves.\<close>

fun put_path :: "string \<Rightarrow> string \<Rightarrow> int \<Rightarrow> ZkHelperPair list \<Rightarrow> ZkHelperPair list option" where
  "put_path path value flag [] = None"
| "put_path path value flag (p # ps) =
     (if zp_key p = path
      then Some (p\<lparr>zp_value := value @ CHR 0x00 # drop (length value + 1) (zp_value p), zp_flag := flag\<rparr> # ps)
      else map_option (\<lambda>qs. p # qs) (put_path path value flag ps))"

definition record_path :: "string \<Rightarrow> string \<Rightarrow> int \<Rightarrow> ZookeeperHelper \<Rightarrow> ZookeeperHelper" where
  "record_path path value flag h =
     (case put_path path value flag (zoo_path_list h) of
        Some ps \<Rightarrow> h\<lparr>zoo_path_list := ps\<rparr>
      | None \<Rightarrow> h\<lparr>zoo_path_list := \<lparr>zp_key = path, zp_value = value @ [CHR 0x00], zp_flag = flag\<rparr> # zoo_path_list h\<rparr>)"

definition finish_create :: "int \<Rightarrow> string \<Rightarrow> string \<Rightarrow> int \<Rightarrow> ZookeeperHelper \<Rightarrow> 'z \<Rightarrow> int zres \<times> ZookeeperHelper \<times> 'z" where
  "finish_create res path value flag h z =
     (if res \<noteq> ZOK then (Done (- 1), h, z)
      else if flag = 0 then (Done 0, h, z)
      else (Done 0, record_path path value flag h, z))"

definition is_election :: "int \<Rightarrow> bool" where
  "is_election flag \<longleftrightarrow> flag AND ZOO_EPHEMERAL \<noteq> 0 \<and> flag AND ZOO_SEQUENCE \<noteq> 0"

text \<open>
  The branch of \<open>create_node\<close> for election nodes, with \<open>buf\<close> telling whether \<open>path_buffer\<close> is not
  null. The test of an existing node and the search by uuid leave through \<open>breaklab\<close> with the
  outer \<open>res\<close>, which is still \<open>ZNONODE\<close>: the inner \<open>int res\<close> shadows it.
\<close>

definition create_election_node ::
  "'z zkapi \<Rightarrow> int \<Rightarrow> string \<Rightarrow> string \<Rightarrow> int \<Rightarrow> bool \<Rightarrow> ZookeeperHelper \<Rightarrow> 'z \<Rightarrow> int zres \<times> ZookeeperHelper \<times> 'z" where
  "create_election_node api cap path value flag buf h z =
     (let dir = parent_path path;
          (there, z1) = (if election_node h \<noteq> []
                         then case zk_exists api (take 255 (dir @ ''/'' @ election_node h)) False z of
                                (r, z') \<Rightarrow> (r = ZOK, z')
                         else (False, z))
      in if there
         then if buf then finish_create ZNONODE path value flag h z1 else (Crash, h, z1)
         else case zoo_helper_get_children api dir h z1 of
           (rc, nodes, z2) \<Rightarrow>
             (case find_uuid api cap dir (sort nodes) h z2 of
                (Crash, z3) \<Rightarrow> (Crash, h, z3)
              | (Done (Some u), z3) \<Rightarrow>
                  finish_create ZNONODE path value flag
                    (h\<lparr>election_node := u @ drop (length u) (election_node h)\<rparr>) z3
              | (Done None, z3) \<Rightarrow>
                  (case zk_create api path (election_uuid h) flag z3 of
                     (res, created, z4) \<Rightarrow>
                       if res = ZOK
                       then if buf
                            then (case fetch_node created h of
                                    Crash \<Rightarrow> (Crash, h, z4)
                                  | Done h' \<Rightarrow> finish_create res path value flag h' z4)
                            else (Crash, h, z4)
                       else finish_create res path value flag h z4)))"

definition create_node ::
  "'z zkapi \<Rightarrow> int \<Rightarrow> string \<Rightarrow> string \<Rightarrow> int \<Rightarrow> bool \<Rightarrow> ZookeeperHelper \<Rightarrow> 'z \<Rightarrow> int zres \<times> ZookeeperHelper \<times> 'z" where
  "create_node api cap path value flag buf h z =
     (case zk_exists api path False z of
        (res, z1) \<Rightarrow>
          if res = ZOK
          then (case zk_delete api path (- 1) z1 of
                  (res2, z2) \<Rightarrow>
                    if res2 \<noteq> ZOK then (Done (- 1), h, z2)
                    else (case zk_create api path value flag z2 of
                            (res3, _, z3) \<Rightarrow> finish_create res3 path value flag h z3))
          else if res = ZNONODE
          then if is_election flag then create_election_node api cap path value flag buf h z1
               else (case zk_create api path value flag z1 of
                       (res2, _, z2) \<Rightarrow> finish_create res2 path value flag h z2)
          else (Done (- 1), h, z1))"

text \<open>The proper prefixes of a path that end before a slash, without the empty one.\<close>

fun slash_prefixes :: "string \<Rightarrow> string \<Rightarrow> string list" where
  "slash_prefixes pre [] = []"
| "slash_prefixes pre (c # cs) =
     (if c = CHR ''/'' \<and> pre \<noteq> [] then [pre] else []) @ slash_prefixes (pre @ [c]) cs"

text \<open>The parents are created when missing; errors are only logged.\<close>

fun create_parents :: "'z zkapi \<Rightarrow> string list \<Rightarrow> 'z \<Rightarrow> 'z" where
  "create_parents api [] z = z"
| "create_parents api (p # ps) z =
     (case zk_exists api p False z of
        (res, z1) \<Rightarrow>
          if res = ZNONODE
          then (case zk_create api p '' '' 0 z1 of (_, _, z2) \<Rightarrow> create_parents api ps z2)
          else create_parents api ps z1)"

definition recursive_create_node ::
  "'z zkapi \<Rightarrow> int \<Rightarrow> string \<Rightarrow> string \<Rightarrow> int \<Rightarrow> bool \<Rightarrow> ZookeeperHelper \<Rightarrow> 'z \<Rightarrow> int zres \<times> ZookeeperHelper \<times> 'z" where
  "recursive_create_node api cap path value flag buf h z =
     (if path = [] \<or> hd path \<noteq> CHR ''/'' then (Done (- 1), h, z)
      else let strPath = take 255 path
           in create_node api cap strPath value flag buf h (create_parents api (slash_prefixes [] strPath) z))"

definition add_tmp_node ::
  "'z zkapi \<Rightarrow> int \<Rightarrow> string \<Rightarrow> string \<Rightarrow> int \<Rightarrow> bool \<Rightarrow> ZookeeperHelper \<Rightarrow> 'z \<Rightarrow> int zres \<times> ZookeeperHelper \<times> 'z" where
  "add_tmp_node api cap path value flag buf h z =
     (if mode h = E_DESTORY_M then (Done (- 1), h, z)
      else recursive_create_node api cap path value flag buf (h\<lparr>mode := E_REGISTER_M\<rparr>) z)"

definition add_persistent_node ::
  "'z zkapi \<Rightarrow> int \<Rightarrow> string \<Rightarrow> string \<Rightarrow> ZookeeperHelper \<Rightarrow> 'z \<Rightarrow> int zres \<times> ZookeeperHelper \<times> 'z" where
  "add_persistent_node api cap path value h z =
     (if mode h = E_DESTORY_M then (Done (- 1), h, z)
      else recursive_create_node api cap path value 0 False (h\<lparr>mode := E_REGISTER_M\<rparr>) z)"

section \<open>Events\<close>

text \<open>The four bytes of an \<open>int\<close>, least significant first.\<close>

definition int_bytes :: "int \<Rightarrow> char list" where
  "int_bytes n = map (\<lambda>k. char_of (nat ((n div 256 ^ k) mod 256))) [0, 1, 2, 3]"

text \<open>
  The loop of \<open>add_zookeeper_event\<close> runs over the path list, although events are kept in the
  event list: on a match it writes the mask over the first four bytes of the path's value. The
  result None says that no key matched.
\<close>

fun overwrite_mask :: "string \<Rightarrow> int \<Rightarrow> ZkHelperPair list \<Rightarrow> ZkHelperPair list zres option" where
  "overwrite_mask path m [] = None"
| "overwrite_mask path m (p # ps) =
     (if zp_key p = path
      then Some (if length (zp_value p) < 4 then Crash
                 else Done (p\<lparr>zp_value := int_bytes m @ drop 4 (zp_value p)\<rparr> # ps))
      else map_option (\<lambda>r. case r of Crash \<Rightarrow> Crash | Done qs \<Rightarrow> Done (p # qs)) (overwrite_mask path m ps))"

text \<open>
  The second half of \<open>add_zookeeper_event\<close>: set a watch, and create the node when it is missing.
  \<open>wants\<close> says whether a watch of this kind is asked for, \<open>watch\<close> sets it.
\<close>

definition set_watch ::
  "'z zkapi \<Rightarrow> int \<Rightarrow> bool \<Rightarrow> ('z \<Rightarrow> int \<times> 'z) \<Rightarrow> string \<Rightarrow> ZookeeperHelper \<Rightarrow> 'z \<Rightarrow> bool zres \<times> ZookeeperHelper \<times> 'z" where
  "set_watch api cap wants watch path h z =
     (if \<not> wants then (Done True, h, z)
      else case watch z of
        (ret, z1) \<Rightarrow>
          if ret = ZOK then (Done True, h, z1)
          else if ret = ZNONODE
          then (case add_tmp_node api cap path ''1'' ZOO_EPHEMERAL False h z1 of
                  (Crash, h2, z2) \<Rightarrow> (Crash, h2, z2)
                | (Done r, h2, z2) \<Rightarrow> (Done (r = ZOK), h2, z2))
          else (Done False, h, z1))"

definition exists_mask :: "int \<Rightarrow> bool" where
  "exists_mask e \<longleftrightarrow> e AND CREATED_EVENT \<noteq> 0 \<or> e AND DELETED_EVENT \<noteq> 0 \<or> e AND CHANGED_EVENT \<noteq> 0"

definition set_watches ::
  "'z zkapi \<Rightarrow> int \<Rightarrow> int \<Rightarrow> string \<Rightarrow> ZookeeperHelper \<Rightarrow> 'z \<Rightarrow> bool zres \<times> ZookeeperHelper \<times> 'z" where
  "set_watches api cap event path h z =
     (case set_watch api cap (exists_mask event) (zk_exists api path True) path h z of
        (Done True, h1, z1) \<Rightarrow>
          set_watch api cap (event AND CHILD_EVENT \<noteq> 0)
            (\<lambda>s. case zk_children api path True s of (r, _, s') \<Rightarrow> (r, s')) path h1 z1
      | r \<Rightarrow> r)"

definition add_zookeeper_event ::
  "'z zkapi \<Rightarrow> int \<Rightarrow> int \<Rightarrow> string \<Rightarrow> ZkEvent \<Rightarrow> ZookeeperHelper \<Rightarrow> 'z \<Rightarrow> int zres \<times> ZkEvent \<times> ZookeeperHelper \<times> 'z" where
  "add_zookeeper_event api cap event path handle h z =
     (if mode h = E_DESTORY_M then (Done (- 1), handle, h, z)
      else let handle' = handle\<lparr>eventmask := eventmask handle OR event\<rparr>;
               registered = (case overwrite_mask path (eventmask handle') (zoo_path_list h) of
                   None \<Rightarrow> Done (h\<lparr>zoo_event_list := (path, handle') # zoo_event_list h\<rparr>)
                 | Some Crash \<Rightarrow> Crash
                 | Some (Done ps) \<Rightarrow> Done (h\<lparr>zoo_path_list := ps\<rparr>))
           in case registered of
                Crash \<Rightarrow> (Crash, handle', h, z)
              | Done h1 \<Rightarrow>
                  (case set_watches api cap event path h1 z of
                     (Crash, h2, z2) \<Rightarrow> (Crash, handle', h2, z2)
                   | (Done ok, h2, z2) \<Rightarrow> (Done (if ok then 0 else - 1), handle', h2, z2)))"

text \<open>
  \<open>SLIST_REMOVE_AFTER\<close> on the pair whose key matches: the pair behind it goes, and a match at
  the end of the list follows a null pointer.
\<close>

fun remove_after :: "string \<Rightarrow> ZkHelperPair list \<Rightarrow> ZkHelperPair list zres" where
  "remove_after path [] = Done []"
| "remove_after path (p # ps) =
     (if zp_key p = path then (case ps of [] \<Rightarrow> Crash | q # qs \<Rightarrow> Done (p # qs))
      else case remove_after path ps of Crash \<Rightarrow> Crash | Done qs \<Rightarrow> Done (p # qs))"

definition remove_zookeeper_event :: "string \<Rightarrow> ZookeeperHelper \<Rightarrow> int zres \<times> ZookeeperHelper" where
  "remove_zookeeper_event path h =
     (if mode h = E_DESTORY_M then (Done (- 1), h)
      else case remove_after path (zoo_path_list h) of
        Crash \<Rightarrow> (Crash, h)
      | Done ps \<Rightarrow> (Done 0, h\<lparr>zoo_path_list := ps\<rparr>))"

section \<open>Callbacks from ZooKeeper\<close>

text \<open>
  \<open>invoke e k path\<close> is the call of the function pointer of kind \<open>k\<close> of event \<open>e\<close>.
\<close>

type_synonym 'z invoke = "ZkEvent \<Rightarrow> cb_kind \<Rightarrow> string \<Rightarrow> ZookeeperHelper \<Rightarrow> 'z \<Rightarrow> unit zres \<times> ZookeeperHelper \<times> 'z"

fun re_set_event ::
  "'z zkapi \<Rightarrow> 'z invoke \<Rightarrow> int \<Rightarrow> (string \<times> ZkEvent) list \<Rightarrow> ZookeeperHelper \<Rightarrow> 'z \<Rightarrow> unit zres \<times> ZookeeperHelper \<times> 'z" where
  "re_set_event api invoke cap [] h z = (Done (), h, z)"
| "re_set_event api invoke cap ((path, e) # es) h z =
     (case set_watches api cap (eventmask e) path h z of
        (Crash, h1, z1) \<Rightarrow> (Crash, h1, z1)
      | (Done False, h1, z1) \<Rightarrow> re_set_event api invoke cap es h1 z1
      | (Done True, h1, z1) \<Rightarrow>
          if \<not> has_connected e then (Crash, h1, z1)
          else (case invoke e ConnectedCb path h1 z1 of
                  (Crash, h2, z2) \<Rightarrow> (Crash, h2, z2)
                | (Done _, h2, z2) \<Rightarrow> re_set_event api invoke cap es h2 z2))"

datatype zk_type = CreatedT | ChangedT | ChildT | DeletedT | SessionT | NotWatchingT

text \<open>Renew the watch, then call the function for this type of event when it is set.\<close>

definition dispatch ::
  "'z invoke \<Rightarrow> ZkEvent \<Rightarrow> bool \<Rightarrow> cb_kind \<Rightarrow> string \<Rightarrow> ZookeeperHelper \<Rightarrow> 'z \<Rightarrow> unit zres \<times> ZookeeperHelper \<times> 'z" where
  "dispatch invoke e isset k path h z = (if \<not> isset then (Done (), h, z) else invoke e k path h z)"

definition handle_event ::
  "'z zkapi \<Rightarrow> 'z invoke \<Rightarrow> ZkEvent \<Rightarrow> zk_type \<Rightarrow> string \<Rightarrow> ZookeeperHelper \<Rightarrow> 'z \<Rightarrow> unit zres \<times> ZookeeperHelper \<times> 'z" where
  "handle_event api invoke e type path h z =
     (if type = CreatedT \<and> eventmask e AND CREATED_EVENT \<noteq> 0
      then dispatch invoke e (has_created e) CreatedCb path h (snd (zk_exists api path True z))
      else if type = ChangedT \<and> eventmask e AND CHANGED_EVENT \<noteq> 0
      then dispatch invoke e (has_changed e) ChangedCb path h (snd (zk_exists api path True z))
      else if type = ChildT \<and> eventmask e AND CHILD_EVENT \<noteq> 0
      then dispatch invoke e (has_child e) ChildCb path h (snd (snd (zk_children api path True z)))
      else if type = DeletedT \<and> eventmask e AND DELETED_EVENT \<noteq> 0
      then dispatch invoke e (has_deleted e) DeletedCb path h (snd (zk_exists api path True z))
      else (Done (), h, z))"

text \<open>After a lost session the recorded nodes are created again, with a null \<open>path_buffer\<close>.\<close>

fun recreate_paths ::
  "'z zkapi \<Rightarrow> int \<Rightarrow> ZkHelperPair list \<Rightarrow> ZookeeperHelper \<Rightarrow> 'z \<Rightarrow> unit zres \<times> ZookeeperHelper \<times> 'z" where
  "recreate_paths api cap [] h z = (Done (), h, z)"
| "recreate_paths api cap (p # ps) h z =
     (case create_node api cap (zp_key p) (takeWhile (\<lambda>c. c \<noteq> CHR 0x00) (zp_value p)) (zp_flag p) False h z of
        (Crash, h1, z1) \<Rightarrow> (Crash, h1, z1)
      | (Done _, h1, z1) \<Rightarrow> recreate_paths api cap ps h1 z1)"

datatype zk_state = ConnectedS | AuthFailedS | ExpiredS | OtherS

definition watcher ::
  "'z zkapi \<Rightarrow> 'z invoke \<Rightarrow> int \<Rightarrow> zk_type \<Rightarrow> zk_state \<Rightarrow> string \<Rightarrow> ZookeeperHelper \<Rightarrow> 'z \<Rightarrow>
     unit zres \<times> ZookeeperHelper \<times> 'z" where
  "watcher api invoke cap type state path h z =
     (if type = SessionT
      then case state of
          ConnectedS \<Rightarrow>
            (case (if mode h = E_REGISTER_M \<and> reconnection_flag h
                   then case recreate_paths api cap (zoo_path_list h) h z of
                          (Crash, h1, z1) \<Rightarrow> (Crash, h1, z1)
                        | (Done _, h1, z1) \<Rightarrow> (Done (), h1\<lparr>reconnection_flag := False\<rparr>, z1)
                   else (Done (), h, z)) of
               (Crash, h1, z1) \<Rightarrow> (Crash, h1, z1)
             | (Done _, h1, z1) \<Rightarrow> re_set_event api invoke cap (zoo_event_list h1) h1 z1)
        | AuthFailedS \<Rightarrow> (Done (), h, zk_close api z)
        | ExpiredS \<Rightarrow> (case re_connect api h z of (h1, z1) \<Rightarrow> (Done (), h1, z1))
        | OtherS \<Rightarrow> (Done (), h, z)
      else case map_of (zoo_event_list h) path of
          None \<Rightarrow> (Done (), h, z)
        | Some e \<Rightarrow> handle_event api invoke e type path h z)"

section \<open>Further operations\<close>

text \<open>\<open>clean_node\<close>: delete the other children that carry this process's uuid.\<close>

fun clean_node ::
  "'z zkapi \<Rightarrow> int \<Rightarrow> string \<Rightarrow> string list \<Rightarrow> ZookeeperHelper \<Rightarrow> 'z \<Rightarrow> unit zres \<times> 'z" where
  "clean_node api cap path [] h z = (Done (), z)"
| "clean_node api cap path (n # ns) h z =
     (if n = election_node h then clean_node api cap path ns h z
      else if 50 \<le> length (path @ ''/'' @ n) then (Crash, z)
      else case zoo_helper_get api 512 (path @ ''/'' @ n) cap h z of
        (Crash, z') \<Rightarrow> (Crash, z')
      | (Done (rc, buf), z') \<Rightarrow>
          if rc = 0 \<and> length buf = 20 \<and> buf = take 20 (election_uuid h)
          then clean_node api cap path ns h (snd (zoo_helper_delete api (path @ ''/'' @ n) 0 h z'))
          else clean_node api cap path ns h z')"

text \<open>
  \<open>zoo_helper_election_test\<close> passes the length of the parent path as the size of the buffer, so
  the path it tests is cut; and it creates a new node also when the old one exists.
\<close>

definition zoo_helper_election_test ::
  "'z zkapi \<Rightarrow> int \<Rightarrow> string \<Rightarrow> ZookeeperHelper \<Rightarrow> 'z \<Rightarrow> int zres \<times> ZookeeperHelper \<times> 'z" where
  "zoo_helper_election_test api cap path h z =
     (if election_node h = [] then (Done 0, h, z)
      else let dir = parent_path path;
               again = (\<lambda>z3. case zk_create api path (election_uuid h) 3 z3 of
                   (res, created, z4) \<Rightarrow>
                     if res = ZOK
                     then (case fetch_node created h of Crash \<Rightarrow> (Crash, h, z4) | Done h' \<Rightarrow> (Done 0, h', z4))
                     else (Done 0, h, z4))
           in case zk_exists api (take (length dir - 1) (dir @ ''/'' @ election_node h)) False z of
                (res, z1) \<Rightarrow>
                  if res \<noteq> ZOK
                  then (case zoo_helper_get_children api dir h z1 of
                          (rc, nodes, z2) \<Rightarrow>
                            (case find_uuid api cap dir nodes h z2 of
                               (Crash, z3) \<Rightarrow> (Crash, h, z3)
                             | (Done (Some u), z3) \<Rightarrow> (Done 0, h\<lparr>election_node := u @ drop (length u) (election_node h)\<rparr>, z3)
                             | (Done None, z3) \<Rightarrow> again z3))
                  else again z1)"

section \<open>The process's uuid\<close>

lemma uuid_half_ok: "\<exists>s. uuid_half n v = Some s \<and> length s = n \<and> set s \<subseteq> set chars"
proof (induction n arbitrary: v)
  case 0
  then show ?case by simp
next
  case (Suc n)
  have "0x3D AND v \<le> (0x3D :: u64)" by (rule word_and_le2)
  then have "unat (0x3D AND v) \<le> 61" by (simp add: word_le_nat_alt)
  moreover have "length chars = 62" by (simp add: chars_def)
  ultimately have i: "unat (0x3D AND v) < length chars" by simp
  then have "chars ! unat (0x3D AND v) \<in> set chars" by simp
  moreover obtain s where "uuid_half n (drop_bit 6 v) = Some s" "length s = n" "set s \<subseteq> set chars"
    using Suc.IH by blast
  ultimately show ?case using i by simp
qed

text \<open>
  The process's uuid is built without reading outside the table of characters: for all
  random bytes it has 20 characters, all of them letters or digits.
\<close>

theorem create_zookeeper_helper_uuid:
  "\<exists>h. create_zookeeper_helper v0 v1 = Done h \<and> length (election_uuid h) = 20 \<and>
    set (election_uuid h) \<subseteq> set chars"
proof -
  obtain a b where "uuid_half 10 v0 = Some a" "uuid_half 10 v1 = Some b" "length a = 10" "length b = 10"
    "set a \<subseteq> set chars" "set b \<subseteq> set chars" using uuid_half_ok [of 10 v0] uuid_half_ok [of 10 v1] by blast
  then show ?thesis by (simp add: create_zookeeper_helper_def uuid_def del: uuid_half.simps)
qed

section \<open>Waiting for the connection\<close>

lemma wait_connected_from:
  "wait_connected api limit t z \<longleftrightarrow> (\<exists>k \<ge> t. (k = t \<or> int k \<le> limit) \<and> zk_connected api k z)"
proof (induction api limit t z rule: wait_connected.induct)
  case (1 api limit t z)
  show ?case
  proof (cases "zk_connected api t z \<or> limit \<le> int t")
    case True
    have eq: "k = t" if "limit \<le> int t" "t \<le> k" "int k \<le> limit" for k using that by linarith
    from True show ?thesis by (subst wait_connected.simps) (auto dest: eq)
  next
    case False
    then have "wait_connected api limit t z = wait_connected api limit (Suc t) z"
      by (subst wait_connected.simps) simp
    also have "\<dots> \<longleftrightarrow> (\<exists>k \<ge> Suc t. (k = Suc t \<or> int k \<le> limit) \<and> zk_connected api k z)"
      using 1 False by simp
    also have "\<dots> \<longleftrightarrow> (\<exists>k \<ge> t. (k = t \<or> int k \<le> limit) \<and> zk_connected api k z)"
    proof
      assume "\<exists>k \<ge> Suc t. (k = Suc t \<or> int k \<le> limit) \<and> zk_connected api k z"
      then obtain k where k: "Suc t \<le> k" "k = Suc t \<or> int k \<le> limit" "zk_connected api k z" by blast
      then have "int k \<le> limit" using False by auto
      with k show "\<exists>k \<ge> t. (k = t \<or> int k \<le> limit) \<and> zk_connected api k z" by (intro exI [of _ k]) simp
    next
      assume "\<exists>k \<ge> t. (k = t \<or> int k \<le> limit) \<and> zk_connected api k z"
      then obtain k where k: "t \<le> k" "k = t \<or> int k \<le> limit" "zk_connected api k z" by blast
      then have "k \<noteq> t" using False by auto
      with k show "\<exists>k \<ge> Suc t. (k = Suc t \<or> int k \<le> limit) \<and> zk_connected api k z" by (intro exI [of _ k]) simp
    qed
    finally show ?thesis .
  qed
qed

section \<open>A ZooKeeper server\<close>

text \<open>
  What the helper relies on in a server whose nodes are \<open>nodes\<close>: \<open>zoo_exists\<close> tells which nodes
  there are and changes none, and \<open>zoo_create\<close> of a well-formed path under an existing parent
  adds it with its value.
\<close>

definition valid_path :: "string \<Rightarrow> bool" where
  "valid_path p \<longleftrightarrow> p \<noteq> [] \<and> hd p = CHR ''/'' \<and> last p \<noteq> CHR ''/'' \<and>
     successively (\<lambda>a b. \<not> (a = CHR ''/'' \<and> b = CHR ''/'')) p"

locale zk_server =
  fixes api :: "'z zkapi" and nodes :: "'z \<Rightarrow> string \<Rightarrow> string option"
  assumes exists_res: "fst (zk_exists api p w z) = (if nodes z p = None then ZNONODE else ZOK)"
    and exists_nodes: "nodes (snd (zk_exists api p w z)) = nodes z"
    and create_ok: "valid_path p \<Longrightarrow> nodes z p = None \<Longrightarrow> parent_path p = [] \<or> nodes z (parent_path p) \<noteq> None \<Longrightarrow>
      flag AND ZOO_SEQUENCE = 0 \<Longrightarrow> \<exists>z'. zk_create api p v flag z = (ZOK, p, z') \<and> nodes z' = (nodes z)(p \<mapsto> v)"

lemma parent_last: "CHR ''/'' \<in> set p \<Longrightarrow> p = parent_path p @ CHR ''/'' # last_part p"
proof -
  assume "CHR ''/'' \<in> set p"
  then have ne: "dropWhile (\<lambda>c. c \<noteq> CHR ''/'') (rev p) \<noteq> []" by (auto simp: dropWhile_eq_Nil_conv)
  then have "hd (dropWhile (\<lambda>c. c \<noteq> CHR ''/'') (rev p)) = CHR ''/''" using hd_dropWhile by blast
  then have "rev p = takeWhile (\<lambda>c. c \<noteq> CHR ''/'') (rev p) @ CHR ''/'' # tl (dropWhile (\<lambda>c. c \<noteq> CHR ''/'') (rev p))"
    using ne by (metis list.collapse takeWhile_dropWhile_id)
  then have "rev (rev p) = rev (takeWhile (\<lambda>c. c \<noteq> CHR ''/'') (rev p) @ CHR ''/'' # tl (dropWhile (\<lambda>c. c \<noteq> CHR ''/'') (rev p)))"
    by (rule arg_cong)
  then show ?thesis by (simp add: parent_path_def last_part_def)
qed

lemma valid_prefix:
  assumes "valid_path (pre @ CHR ''/'' # rest)" "pre \<noteq> []"
  shows "valid_path pre"
  using assms by (auto simp: valid_path_def successively_append_iff)

definition prefixes_exist :: "(string \<Rightarrow> string option) \<Rightarrow> string \<Rightarrow> bool" where
  "prefixes_exist m p \<longleftrightarrow> (\<forall>q s. p = q @ CHR ''/'' # s \<longrightarrow> q = [] \<or> m q \<noteq> None)"

lemma prefixes_exist_parent:
  assumes "prefixes_exist m p" "valid_path p"
  shows "parent_path p = [] \<or> m (parent_path p) \<noteq> None"
proof -
  have "CHR ''/'' \<in> set p" using assms(2) by (metis valid_path_def list.set_sel(1))
  from parent_last [OF this] assms(1) show ?thesis unfolding prefixes_exist_def by blast
qed

lemma prefixes_exist_snoc:
  assumes "prefixes_exist m pre" "c = CHR ''/'' \<Longrightarrow> pre = [] \<or> m pre \<noteq> None"
  shows "prefixes_exist m (pre @ [c])"
  unfolding prefixes_exist_def
proof (intro allI impI)
  fix q s
  assume eq: "pre @ [c] = q @ CHR ''/'' # s"
  show "q = [] \<or> m q \<noteq> None"
  proof (cases s rule: rev_cases)
    case Nil
    with eq assms(2) show ?thesis by auto
  next
    case (snoc s' x)
    with eq have "pre = q @ CHR ''/'' # s'" by simp
    with assms(1) show ?thesis unfolding prefixes_exist_def by blast
  qed
qed

lemma prefixes_exist_mono: "prefixes_exist m p \<Longrightarrow> m \<subseteq>\<^sub>m m' \<Longrightarrow> prefixes_exist m' p"
  unfolding prefixes_exist_def by (metis map_le_def domIff)

context zk_server begin

lemma create_parents_ok:
  assumes "valid_path (pre @ rest)" "prefixes_exist (nodes z) pre"
  shows "let z' = create_parents api (slash_prefixes pre rest) z in
    prefixes_exist (nodes z') (pre @ rest) \<and> nodes z \<subseteq>\<^sub>m nodes z'
    \<and> (\<forall>q. length (pre @ rest) \<le> length q \<longrightarrow> nodes z' q = nodes z q)"
  using assms
proof (induction rest arbitrary: pre z)
  case Nil
  then show ?case by simp
next
  case (Cons c rest)
  have v: "valid_path ((pre @ [c]) @ rest)" using Cons.prems(1) by simp
  show ?case
  proof (cases "c = CHR ''/'' \<and> pre \<noteq> []")
    case False
    then have "prefixes_exist (nodes z) (pre @ [c])" using Cons.prems(2) by (auto intro: prefixes_exist_snoc)
    from Cons.IH [OF v this] False show ?thesis by (auto simp: Let_def)
  next
    case True
    have pv: "valid_path pre" using valid_prefix [of pre rest] Cons.prems(1) True by simp
    obtain r z1 where e: "zk_exists api pre False z = (r, z1)" by (metis prod.collapse)
    have z1: "nodes z1 = nodes z" "r = (if nodes z pre = None then ZNONODE else ZOK)"
      using exists_res [of pre False z] exists_nodes [of pre False z] e by simp_all
    obtain z2 where z2: "create_parents api (slash_prefixes pre (c # rest)) z = create_parents api (slash_prefixes (pre @ [c]) rest) z2"
      "nodes z \<subseteq>\<^sub>m nodes z2" "nodes z2 pre \<noteq> None" "\<forall>q. q \<noteq> pre \<longrightarrow> nodes z2 q = nodes z q"
    proof (cases "nodes z pre = None")
      case n: True
      obtain z' where c: "zk_create api pre '' '' 0 z1 = (ZOK, pre, z')" "nodes z' = (nodes z1)(pre \<mapsto> '' '')"
        using create_ok [OF pv, of z1 0 "'' ''"] z1 n prefixes_exist_parent [OF Cons.prems(2) pv] by auto
      show ?thesis
        by (rule that [of z']) (use e z1 n True c in \<open>auto simp: map_le_def\<close>)
    next
      case False
      show ?thesis by (rule that [of z1]) (use e z1 False True in \<open>auto simp: ZOK_def ZNONODE_def\<close>)
    qed
    have "prefixes_exist (nodes z2) (pre @ [c])"
      using prefixes_exist_snoc [OF prefixes_exist_mono [OF Cons.prems(2) z2(2)]] z2(3) by blast
    note ih = Cons.IH [OF v this, unfolded Let_def]
    have "nodes z \<subseteq>\<^sub>m nodes (create_parents api (slash_prefixes (pre @ [c]) rest) z2)"
      using ih z2(2) map_le_trans by blast
    moreover have "nodes (create_parents api (slash_prefixes (pre @ [c]) rest) z2) q = nodes z q"
      if "length (pre @ c # rest) \<le> length q" for q
    proof -
      have "q \<noteq> pre" using that by auto
      with ih that z2(4) show ?thesis by simp
    qed
    ultimately show ?thesis unfolding Let_def z2(1) using ih by simp
  qed
qed

text \<open>Creating a missing node, its parents included.\<close>

lemma recursive_create_ok:
  assumes "valid_path path" "length path \<le> 255" "nodes z path = None"
    and "\<not> is_election flag" "flag AND ZOO_SEQUENCE = 0"
  shows "\<exists>z'. recursive_create_node api cap path value flag buf h z =
      (Done 0, if flag = 0 then h else record_path path value flag h, z')
    \<and> nodes z' path = Some value \<and> prefixes_exist (nodes z') path \<and> nodes z \<subseteq>\<^sub>m nodes z'"
proof -
  let ?z = "create_parents api (slash_prefixes [] path) z"
  have "prefixes_exist (nodes z) []" by (simp add: prefixes_exist_def)
  then have p: "prefixes_exist (nodes ?z) path" "nodes z \<subseteq>\<^sub>m nodes ?z" "nodes ?z path = None"
    using create_parents_ok [of "[]" path z] assms(1,3) by (simp_all add: Let_def)
  obtain r z1 where e: "zk_exists api path False ?z = (r, z1)" by (metis prod.collapse)
  have z1: "nodes z1 = nodes ?z" "r = ZNONODE"
    using exists_res [of path False ?z] exists_nodes [of path False ?z] e p(3) by simp_all
  obtain z2 where c: "zk_create api path value flag z1 = (ZOK, path, z2)" "nodes z2 = (nodes ?z)(path \<mapsto> value)"
    using create_ok [OF assms(1), of z1 flag "value"] z1 p(1,3) assms(5) prefixes_exist_parent [OF p(1) assms(1)] by auto
  have le: "nodes ?z \<subseteq>\<^sub>m nodes z2" using c(2) p(3) by (auto simp: map_le_def)
  have "path \<noteq> []" "hd path = CHR ''/''" using assms(1) by (simp_all add: valid_path_def)
  then have "recursive_create_node api cap path value flag buf h z =
      (Done 0, if flag = 0 then h else record_path path value flag h, z2)"
    using assms(2,4) e z1(2) c(1)
    by (simp add: recursive_create_node_def create_node_def finish_create_def ZOK_def ZNONODE_def)
  moreover have "prefixes_exist (nodes z2) path" by (rule prefixes_exist_mono [OF p(1) le])
  moreover have "nodes z \<subseteq>\<^sub>m nodes z2" using p(2) le map_le_trans by blast
  ultimately show ?thesis using c(2) by (metis fun_upd_same)
qed

end

text \<open>
  Adding a persistent node with a well-formed path of at most 255 characters that is not
  there yet succeeds on every server with the laws above: afterwards the node has the value,
  all its parents exist, and no other node was lost.
\<close>

theorem add_persistent_node_ok:
  assumes "zk_server api nodes" "mode h \<noteq> E_DESTORY_M"
    and "valid_path path" "length path \<le> 255" "nodes z path = None"
  shows "\<exists>z'. add_persistent_node api cap path value h z = (Done 0, h\<lparr>mode := E_REGISTER_M\<rparr>, z')
    \<and> nodes z' path = Some value \<and> prefixes_exist (nodes z') path \<and> nodes z \<subseteq>\<^sub>m nodes z'"
  using zk_server.recursive_create_ok [OF assms(1,3,4,5), of 0 cap "value" False "h\<lparr>mode := E_REGISTER_M\<rparr>"] assms(2)
  by (simp add: add_persistent_node_def is_election_def)

section \<open>A server to evaluate on\<close>

record zktree =
  zt_nodes :: "(string \<times> string) list"
  zt_seq :: nat

definition pad10 :: "nat \<Rightarrow> string" where
  "pad10 n = (let d = show_nat n in replicate (10 - length d) (CHR ''0'') @ d)"

definition tree_create :: "string \<Rightarrow> string \<Rightarrow> int \<Rightarrow> zktree \<Rightarrow> int \<times> string \<times> zktree" where
  "tree_create p v flag z =
     (let q = (if flag AND ZOO_SEQUENCE \<noteq> 0 then p @ pad10 (zt_seq z) else p) in
      if map_of (zt_nodes z) q \<noteq> None then (- 110, [], z)
      else if \<not> valid_path q then (- 8, [], z)
      else if parent_path q \<noteq> [] \<and> map_of (zt_nodes z) (parent_path q) = None then (ZNONODE, [], z)
      else (ZOK, q, \<lparr>zt_nodes = (q, v) # zt_nodes z, zt_seq = Suc (zt_seq z)\<rparr>))"

definition tree_children :: "string \<Rightarrow> zktree \<Rightarrow> string list" where
  "tree_children p z = map last_part (filter (\<lambda>q. parent_path q = p) (map fst (zt_nodes z)))"

definition tree_api :: "zktree zkapi" where
  "tree_api = \<lparr>zk_exists = (\<lambda>p w z. (if map_of (zt_nodes z) p = None then ZNONODE else ZOK, z)),
     zk_create = tree_create,
     zk_delete = (\<lambda>p ver z. if map_of (zt_nodes z) p = None then (ZNONODE, z)
        else (ZOK, z\<lparr>zt_nodes := filter (\<lambda>(q, v). q \<noteq> p) (zt_nodes z)\<rparr>)),
     zk_get = (\<lambda>p cap z. case map_of (zt_nodes z) p of None \<Rightarrow> (ZNONODE, None, z) | Some v \<Rightarrow> (ZOK, Some (take (nat cap) v), z)),
     zk_set = (\<lambda>p v ver z. if map_of (zt_nodes z) p = None then (ZNONODE, z)
        else (ZOK, z\<lparr>zt_nodes := (p, v) # filter (\<lambda>(q, v). q \<noteq> p) (zt_nodes z)\<rparr>)),
     zk_children = (\<lambda>p w z. if map_of (zt_nodes z) p = None then (ZNONODE, [], z) else (ZOK, tree_children p z, z)),
     zk_init = (\<lambda>hs z. (True, z)), zk_connected = (\<lambda>n z. True), zk_local = (\<lambda>z. Some (''127.0.0.1'', 4000)),
     zk_close = (\<lambda>z. z)\<rparr>"

interpretation tree: zk_server tree_api "\<lambda>z. map_of (zt_nodes z)"
  by unfold_locales (auto simp: tree_api_def tree_create_def Let_def)

definition ex_helper :: ZookeeperHelper where
  "ex_helper = \<lparr>host = ''h'', recv_timeout = 30, zhandle = True, local_addr = [], local_port = 0,
     zoo_path_list = [], zoo_event_list = [], mode = E_CONNECTION_M, reconnection_flag = False,
     election_node = [], election_uuid = ''abcdefghijabcdefghij''\<rparr>"

theorem add_persistent_node_ok_witness:
  "\<exists>z'. add_persistent_node tree_api 512 ''/a/b/c'' ''v'' ex_helper \<lparr>zt_nodes = [], zt_seq = 0\<rparr> = (Done 0, ex_helper\<lparr>mode := E_REGISTER_M\<rparr>, z')
    \<and> map_of (zt_nodes z') ''/a/b/c'' = Some ''v'' \<and> prefixes_exist (map_of (zt_nodes z')) ''/a/b/c''
    \<and> map_of (zt_nodes \<lparr>zt_nodes = [], zt_seq = 0\<rparr>) \<subseteq>\<^sub>m map_of (zt_nodes z')"
  by (rule add_persistent_node_ok [OF tree.zk_server_axioms]) (simp_all add: ex_helper_def valid_path_def)

section \<open>The list of created paths\<close>

definition paths_distinct :: "ZookeeperHelper \<Rightarrow> bool" where
  "paths_distinct h \<longleftrightarrow> distinct (map zp_key (zoo_path_list h))"

lemma put_path_keys: "put_path path v flag ps = Some qs \<Longrightarrow> map zp_key qs = map zp_key ps"
  by (induction ps arbitrary: qs) (auto split: if_splits)

lemma put_path_None: "put_path path v flag ps = None \<Longrightarrow> path \<notin> set (map zp_key ps)"
  by (induction ps) (auto split: if_splits)

lemma record_path_distinct: "paths_distinct h \<Longrightarrow> paths_distinct (record_path path v flag h)"
  using put_path_None [of path v flag "zoo_path_list h"]
  by (auto simp: record_path_def paths_distinct_def put_path_keys split: option.splits)

lemma finish_create_distinct:
  "paths_distinct h \<Longrightarrow> finish_create res path v flag h z = (r, h', z') \<Longrightarrow> paths_distinct h'"
  by (auto simp: finish_create_def record_path_distinct split: if_splits)

lemma paths_distinct_update [simp]:
  "paths_distinct (h\<lparr>election_node := e\<rparr>) = paths_distinct h" "paths_distinct (h\<lparr>mode := m\<rparr>) = paths_distinct h"
  "paths_distinct (h\<lparr>zoo_event_list := es\<rparr>) = paths_distinct h"
  by (simp_all add: paths_distinct_def)

lemma fetch_node_distinct: "fetch_node b h = Done h' \<Longrightarrow> paths_distinct h' = paths_distinct h"
  by (auto simp: fetch_node_def split: if_splits)

lemma create_election_node_distinct:
  assumes "paths_distinct h" "create_election_node api cap path v flag buf h z = (r, h', z')"
  shows "paths_distinct h'"
  using assms
  by (auto simp: create_election_node_def Let_def fetch_node_distinct
      split: if_splits prod.splits zres.splits option.splits
      intro: finish_create_distinct [rotated] elim: finish_create_distinct [rotated])

lemma create_node_distinct:
  assumes "paths_distinct h" "create_node api cap path v flag buf h z = (r, h', z')"
  shows "paths_distinct h'"
  using assms
  by (auto simp: create_node_def split: if_splits prod.splits
      intro: finish_create_distinct [rotated] create_election_node_distinct [rotated])

lemma recursive_create_node_distinct:
  "paths_distinct h \<Longrightarrow> recursive_create_node api cap path v flag buf h z = (r, h', z') \<Longrightarrow> paths_distinct h'"
  by (auto simp: recursive_create_node_def Let_def split: if_splits intro: create_node_distinct [rotated])

lemma add_tmp_node_distinct:
  "paths_distinct h \<Longrightarrow> add_tmp_node api cap path v flag buf h z = (r, h', z') \<Longrightarrow> paths_distinct h'"
  by (auto simp: add_tmp_node_def split: if_splits intro: recursive_create_node_distinct [rotated])

lemma set_watch_distinct:
  "paths_distinct h \<Longrightarrow> set_watch api cap wants watch path h z = (r, h', z') \<Longrightarrow> paths_distinct h'"
  by (auto simp: set_watch_def split: if_splits prod.splits zres.splits intro: add_tmp_node_distinct [rotated])

lemma set_watches_distinct:
  assumes "paths_distinct h" "set_watches api cap event path h z = (r, h', z')"
  shows "paths_distinct h'"
proof -
  obtain r1 h1 z1 where w: "set_watch api cap (exists_mask event) (zk_exists api path True) path h z = (r1, h1, z1)"
    by (metis prod.collapse)
  have "paths_distinct h1" by (rule set_watch_distinct [OF assms(1) w])
  then show ?thesis using assms(2) w set_watch_distinct
    by (auto simp: set_watches_def split: zres.splits bool.splits)
qed

lemma overwrite_mask_keys: "overwrite_mask path m ps = Some (Done qs) \<Longrightarrow> map zp_key qs = map zp_key ps"
proof (induction ps arbitrary: qs)
  case Nil
  then show ?case by simp
next
  case (Cons p ps)
  show ?case
  proof (cases "zp_key p = path")
    case True
    then show ?thesis using Cons.prems by (auto split: if_splits)
  next
    case False
    then obtain x where x: "overwrite_mask path m ps = Some x"
      "Done qs = (case x of Crash \<Rightarrow> Crash | Done rs \<Rightarrow> Done (p # rs))" using Cons.prems by auto
    then show ?thesis using Cons.IH by (cases x) auto
  qed
qed

lemma add_zookeeper_event_distinct:
  assumes "paths_distinct h" "add_zookeeper_event api cap event path e h z = (r, e', h', z')"
  shows "paths_distinct h'"
proof -
  have "paths_distinct h1" if "h1 = h\<lparr>zoo_event_list := es\<rparr> \<or> (overwrite_mask path m (zoo_path_list h) = Some (Done ps) \<and> h1 = h\<lparr>zoo_path_list := ps\<rparr>)"
    for h1 es m ps using that assms(1) overwrite_mask_keys by (auto simp: paths_distinct_def)
  note d = this
  show ?thesis using assms
    by (auto simp: add_zookeeper_event_def Let_def split: if_splits option.splits zres.splits prod.splits
        intro: set_watches_distinct [rotated] d)
qed

lemma remove_after_subseq: "remove_after path ps = Done qs \<Longrightarrow> distinct (map zp_key ps) \<Longrightarrow> distinct (map zp_key qs) \<and> set qs \<subseteq> set ps"
proof (induction ps arbitrary: qs)
  case Nil
  then show ?case by simp
next
  case (Cons p ps)
  show ?case
  proof (cases "zp_key p = path")
    case True
    then show ?thesis using Cons.prems by (cases ps) auto
  next
    case False
    then obtain qs' where "remove_after path ps = Done qs'" "qs = p # qs'" using Cons.prems by (auto split: zres.splits)
    with Cons.IH [of qs'] Cons.prems show ?thesis by auto
  qed
qed

text \<open>
  The operations clients call, in any order and on any server.
\<close>

inductive helper_step :: "'z zkapi \<Rightarrow> ZookeeperHelper \<times> 'z \<Rightarrow> ZookeeperHelper \<times> 'z \<Rightarrow> bool" for api where
  register: "register_to_zookeeper api hst timeout h z = (r, h', z') \<Longrightarrow> helper_step api (h, z) (h', z')"
| tmp: "add_tmp_node api cap path v flag buf h z = (Done r, h', z') \<Longrightarrow> helper_step api (h, z) (h', z')"
| persistent: "add_persistent_node api cap path v h z = (Done r, h', z') \<Longrightarrow> helper_step api (h, z) (h', z')"
| event: "add_zookeeper_event api cap ev path e h z = (Done r, e', h', z') \<Longrightarrow> helper_step api (h, z) (h', z')"
| unevent: "remove_zookeeper_event path h = (Done r, h') \<Longrightarrow> helper_step api (h, z) (h', z)"
| reconnect: "re_connect api h z = (h', z') \<Longrightarrow> helper_step api (h, z) (h', z')"
| destroy: "destory_zookeeper_helper api h z = (h', z') \<Longrightarrow> helper_step api (h, z) (h', z')"

inductive_cases helper_stepE: "helper_step api (h, z) (h', z')"

lemma register_distinct:
  "register_to_zookeeper api hst timeout h z = (r, h', z') \<Longrightarrow> paths_distinct h \<Longrightarrow> paths_distinct h'"
  by (auto simp: register_to_zookeeper_def get_local_addr_def Let_def paths_distinct_def split: prod.splits if_splits option.splits)

lemma add_persistent_node_distinct:
  "add_persistent_node api cap path v h z = (r, h', z') \<Longrightarrow> paths_distinct h \<Longrightarrow> paths_distinct h'"
  by (auto simp: add_persistent_node_def split: if_splits intro: recursive_create_node_distinct [rotated])

lemma remove_event_distinct: "remove_zookeeper_event path h = (r, h') \<Longrightarrow> paths_distinct h \<Longrightarrow> paths_distinct h'"
  using remove_after_subseq
  by (auto simp: remove_zookeeper_event_def paths_distinct_def split: if_splits zres.splits)

lemma re_connect_distinct: "re_connect api h z = (h', z') \<Longrightarrow> paths_distinct h \<Longrightarrow> paths_distinct h'"
  by (auto simp: re_connect_def Let_def paths_distinct_def split: prod.splits)

lemma destory_distinct: "destory_zookeeper_helper api h z = (h', z') \<Longrightarrow> paths_distinct h'"
  by (auto simp: destory_zookeeper_helper_def paths_distinct_def)

lemmas op_distinct = register_distinct add_tmp_node_distinct [rotated] add_persistent_node_distinct
  add_zookeeper_event_distinct [rotated] remove_event_distinct re_connect_distinct destory_distinct

lemma helper_step_distinct: "helper_step api (h, z) (h', z') \<Longrightarrow> paths_distinct h \<Longrightarrow> paths_distinct h'"
  by (erule helper_stepE) (erule op_distinct, assumption?)+

text \<open>
  Whatever operations a process performs on a new helper, and whatever the server answers,
  the list of nodes it has created never holds two entries for one path.
\<close>

theorem helper_paths_distinct:
  assumes "create_zookeeper_helper v0 v1 = Done h0" "(helper_step api)\<^sup>*\<^sup>* (h0, z0) (h, z)"
  shows "distinct (map zp_key (zoo_path_list h))"
proof -
  have "paths_distinct h0" using assms(1)
    by (auto simp: create_zookeeper_helper_def paths_distinct_def split: option.splits)
  with assms(2) have "paths_distinct h"
    by (induction rule: rtranclp_induct2) (auto intro: helper_step_distinct)
  then show ?thesis by (simp add: paths_distinct_def)
qed

definition ex_tree :: zktree where
  "ex_tree = \<lparr>zt_nodes = [(''/e'', '' '')], zt_seq = 0\<rparr>"

theorem helper_paths_distinct_witness:
  "\<exists>h0 h z. create_zookeeper_helper 0 0 = Done h0 \<and> (helper_step tree_api)\<^sup>*\<^sup>* (h0, ex_tree) (h, z)
    \<and> zoo_path_list h \<noteq> [] \<and> distinct (map zp_key (zoo_path_list h))"
proof -
  obtain h0 where h0: "create_zookeeper_helper 0 0 = Done h0" using create_zookeeper_helper_uuid by blast
  have "mode h0 = E_CONNECTION_M" using h0 by (auto simp: create_zookeeper_helper_def split: option.splits)
  then obtain z' where a: "add_tmp_node tree_api 0 ''/a'' ''v'' 1 False h0 ex_tree =
      (Done 0, record_path ''/a'' ''v'' 1 (h0\<lparr>mode := E_REGISTER_M\<rparr>), z')"
    using tree.recursive_create_ok [of "''/a''" ex_tree 1 0 "''v''" False "h0\<lparr>mode := E_REGISTER_M\<rparr>"]
    by (auto simp: add_tmp_node_def valid_path_def ex_tree_def is_election_def ZOO_SEQUENCE_def)
  then have st: "(helper_step tree_api)\<^sup>*\<^sup>* (h0, ex_tree) (record_path ''/a'' ''v'' 1 (h0\<lparr>mode := E_REGISTER_M\<rparr>), z')"
    by (intro r_into_rtranclp helper_step.tmp)
  have "zoo_path_list (record_path ''/a'' ''v'' 1 (h0\<lparr>mode := E_REGISTER_M\<rparr>)) \<noteq> []"
    using put_path_keys [of "''/a''" "''v''" 1 "zoo_path_list h0"]
    by (cases "zoo_path_list h0") (auto simp: record_path_def split: option.splits)
  with helper_paths_distinct [OF h0 st] h0 st show ?thesis by blast
qed

section \<open>Defects of the election nodes and events\<close>

text \<open>
  Asking again for an election node that still exists fails. With a buffer for the path the
  call returns -1 although the node is there; with a null buffer, as after a lost session, it
  writes through the null pointer. The same holds for a child found by its uuid: the call
  returns -1, and the uuid itself replaces the name of the election node.
\<close>

theorem election_node_reuse_fails:
  assumes "zk_exists api path False z = (ZNONODE, z1)" "is_election flag" "election_node h \<noteq> []"
    and "zk_exists api (take 255 (parent_path path @ ''/'' @ election_node h)) False z1 = (res, z2)"
    and "if res = ZOK then z3 = z2 else
      (\<exists>nodes rc z'. zoo_helper_get_children api (parent_path path) h z2 = (rc, nodes, z')
         \<and> find_uuid api cap (parent_path path) (sort nodes) h z' = (Done (Some (election_uuid h)), z3))"
  shows "create_node api cap path value flag buf h z =
    (if res = ZOK then (if buf then (Done (- 1), h, z3) else (Crash, h, z3))
     else (Done (- 1), h\<lparr>election_node := election_uuid h @ drop (length (election_uuid h)) (election_node h)\<rparr>, z3))"
  using assms
  by (auto simp: create_node_def create_election_node_def finish_create_def ZOK_def ZNONODE_def Let_def)

definition ex_elected :: ZookeeperHelper where
  "ex_elected = ex_helper\<lparr>mode := E_REGISTER_M, election_node := ''10000000000'', reconnection_flag := True,
     zoo_path_list := [\<lparr>zp_key = ''/e/1'', zp_value = ''x'' @ [CHR 0x00], zp_flag = 3\<rparr>]\<rparr>"

definition ex_elected_tree :: zktree where
  "ex_elected_tree = \<lparr>zt_nodes = [(''/e/10000000000'', ''abcdefghijabcdefghij''), (''/e'', '' '')], zt_seq = 1\<rparr>"

lemma ex_parent: "parent_path ''/e/1'' = ''/e''"
  by (simp add: parent_path_def)

theorem election_node_reuse_fails_witness:
  "create_node tree_api 512 ''/e/1'' ''x'' 3 True ex_elected ex_elected_tree = (Done (- 1), ex_elected, ex_elected_tree)"
  using election_node_reuse_fails [of tree_api "''/e/1''" ex_elected_tree ex_elected_tree 3 ex_elected ZOK
      ex_elected_tree ex_elected_tree 512 "''x''" True]
  by (simp add: tree_api_def ex_elected_tree_def is_election_def ZOO_EPHEMERAL_def ZOO_SEQUENCE_def
      ex_elected_def ex_helper_def ex_parent)

text \<open>
  After a lost session, the watcher crashes a process whose election node is still there:
  it recreates the recorded nodes with a null \<open>path_buffer\<close>, and \<open>create_node\<close> copies the name of
  the node into it.
\<close>

theorem reconnect_election_crashes:
  assumes "zk_server api nodes" "mode h = E_REGISTER_M" "reconnection_flag h"
    and "zoo_path_list h = p # ps" "is_election (zp_flag p)" "nodes z (zp_key p) = None"
    and "election_node h \<noteq> []" "nodes z (take 255 (parent_path (zp_key p) @ ''/'' @ election_node h)) \<noteq> None"
  shows "\<exists>h' z'. watcher api invoke cap SessionT ConnectedS path h z = (Crash, h', z')"
proof -
  let ?q = "take 255 (parent_path (zp_key p) @ ''/'' @ election_node h)"
  obtain r1 z1 where 1: "zk_exists api (zp_key p) False z = (r1, z1)" by (metis prod.collapse)
  have n1: "r1 = ZNONODE" "nodes z1 = nodes z"
    using zk_server.exists_res [OF assms(1), of "zp_key p" False z] zk_server.exists_nodes [OF assms(1), of "zp_key p" False z]
      1 assms(6) by simp_all
  obtain r2 z2 where 2: "zk_exists api ?q False z1 = (r2, z2)" by (metis prod.collapse)
  have "r2 = ZOK" using zk_server.exists_res [OF assms(1), of ?q False z1] 2 n1(2) assms(8) by auto
  then have "create_node api cap (zp_key p) v (zp_flag p) False h z = (Crash, h, z2)" for v
    using 1 2 n1(1) assms(5,7) by (simp add: create_node_def create_election_node_def ZOK_def ZNONODE_def)
  then show ?thesis using assms(2-4) by (simp add: watcher_def)
qed

theorem reconnect_election_crashes_witness:
  "\<exists>h' z'. watcher tree_api (\<lambda>e k p h z. (Done (), h, z)) 512 SessionT ConnectedS [] ex_elected ex_elected_tree = (Crash, h', z')"
  by (rule reconnect_election_crashes [OF tree.zk_server_axioms, where ps = "[]" and p = "\<lparr>zp_key = ''/e/1'', zp_value = ''x'' @ [CHR 0x00], zp_flag = 3\<rparr>"])
    (simp_all add: ex_elected_def ex_helper_def ex_elected_tree_def is_election_def ZOO_EPHEMERAL_def ZOO_SEQUENCE_def ex_parent)

lemma remove_after_wrong: "path \<notin> set (map zp_key ps) \<Longrightarrow> zp_key p = path \<Longrightarrow>
  remove_after path (ps @ p # q # qs) = Done (ps @ p # qs) \<and> remove_after path (ps @ [p]) = Crash"
  by (induction ps) auto

text \<open>
  \<open>remove_zookeeper_event\<close> removes no event: the events are what they were. When a created
  node has the path, the entry of the node behind it in the list of paths is lost instead, and
  if it is the last one, a null pointer is followed.
\<close>

theorem remove_event_removes_wrong:
  assumes "mode h \<noteq> E_DESTORY_M" "path \<notin> set (map zp_key ps)" "zp_key p = path"
    and "zoo_path_list h = ps @ p # rest"
  shows "zoo_event_list (snd (remove_zookeeper_event path h)) = zoo_event_list h
    \<and> remove_zookeeper_event path h = (case rest of [] \<Rightarrow> (Crash, h)
        | q # qs \<Rightarrow> (Done 0, h\<lparr>zoo_path_list := ps @ p # qs\<rparr>))"
  using assms remove_after_wrong [OF assms(2,3)]
  by (cases rest) (simp_all add: remove_zookeeper_event_def)

definition ex_event :: ZkEvent where
  "ex_event = \<lparr>eventmask = 16, has_connected = True, has_changed = False, has_child = True,
     has_created = False, has_deleted = False\<rparr>"

theorem remove_event_removes_wrong_witness:
  "fst (remove_zookeeper_event ''/e/1'' (ex_elected\<lparr>zoo_event_list := [(''/e/1'', ex_event)]\<rparr>)) = Crash"
  using remove_event_removes_wrong [of "ex_elected\<lparr>zoo_event_list := [(''/e/1'', ex_event)]\<rparr>" "''/e/1''" "[]"
      "\<lparr>zp_key = ''/e/1'', zp_value = ''x'' @ [CHR 0x00], zp_flag = 3\<rparr>" "[]"]
  by (simp add: ex_elected_def)

end
