(* ===== verification/OrderAdapter.thy ===== *)
theory OrderAdapter
  imports ZkHelper
begin

text \<open>
  The ordered sequence service (OrderSequenceAdapter.cpp): every process creates a numbered node
  under one ZooKeeper node, and the process with the smallest number activates its Ice adapter.
  The file-level variables are the fields of \<open>election\<close>; \<open>exited\<close> records \<open>exit(0)\<close>, after which the
  process does nothing more.
\<close>

section \<open>State\<close>

record election =
  el_helper :: ZookeeperHelper
  isregister :: bool
  adapter_active :: bool
  exited :: bool

definition register_to_registry :: "election \<Rightarrow> election" where
  "register_to_registry s = (if isregister s then s else s\<lparr>adapter_active := True, isregister := True\<rparr>)"

definition unregister_4_registry :: "election \<Rightarrow> election" where
  "unregister_4_registry s =
     (if isregister s then s\<lparr>adapter_active := False, isregister := False, exited := True\<rparr> else s)"

definition election_flag :: int where "election_flag = ZOO_EPHEMERAL OR ZOO_SEQUENCE"
definition election_events :: int where "election_events = CHILD_EVENT OR CREATED_EVENT OR DELETED_EVENT"

section \<open>The place among the candidates\<close>

fun index_of :: "string \<Rightarrow> string list \<Rightarrow> int" where
  "index_of x [] = - 1"
| "index_of x (y # ys) = (if x = y then 0 else let i = index_of x ys in if i = - 1 then - 1 else i + 1)"

definition node_indexof :: "string \<Rightarrow> string list \<Rightarrow> int" where
  "node_indexof myid strings = (if strings = [] then - 1 else index_of myid (sort strings))"

section \<open>Reactions\<close>

definition add_candidate ::
  "'z zkapi \<Rightarrow> int \<Rightarrow> string \<Rightarrow> election \<Rightarrow> 'z \<Rightarrow> unit zres \<times> election \<times> 'z" where
  "add_candidate api cap child s z =
     (case add_tmp_node api cap child (election_uuid (el_helper s)) election_flag True (el_helper s) z of
        (Crash, h, z') \<Rightarrow> (Crash, s\<lparr>el_helper := h\<rparr>, z')
      | (Done _, h, z') \<Rightarrow> (Done (), s\<lparr>el_helper := h\<rparr>, z'))"

definition child_event ::
  "'z zkapi \<Rightarrow> int \<Rightarrow> string \<Rightarrow> string \<Rightarrow> election \<Rightarrow> 'z \<Rightarrow> unit zres \<times> election \<times> 'z" where
  "child_event api cap watch child s z =
     (case zoo_helper_get_children api watch (el_helper s) z of
        (rc, nodes, z1) \<Rightarrow>
          let i = node_indexof (election_node (el_helper s)) nodes in
          if i = 0 then (Done (), register_to_registry s, z1)
          else if i = - 1
          then if isregister s then add_candidate api cap child s z1
               else (Done (), unregister_4_registry s, z1)
          else (Done (), unregister_4_registry s, z1))"

definition connected_event ::
  "'z zkapi \<Rightarrow> int \<Rightarrow> string \<Rightarrow> string \<Rightarrow> election \<Rightarrow> 'z \<Rightarrow> unit zres \<times> election \<times> 'z" where
  "connected_event api cap watch child s z = child_event api cap watch child s z"

definition test_event ::
  "'z zkapi \<Rightarrow> int \<Rightarrow> string \<Rightarrow> string \<Rightarrow> election \<Rightarrow> 'z \<Rightarrow> unit zres \<times> election \<times> 'z" where
  "test_event api cap watch child s z =
     (case zoo_helper_get_children api watch (el_helper s) z of
        (rc, nodes, z1) \<Rightarrow>
          if rc \<noteq> 0 then (Done (), s, z1)
          else let i = node_indexof (election_node (el_helper s)) nodes in
          if i = 0 then (Done (), register_to_registry s, z1)
          else if i = - 1
          then let s1 = unregister_4_registry s in
               if exited s1 then (Done (), s1, z1) else add_candidate api cap child s1 z1
          else (Done (), unregister_4_registry s, z1))"

section \<open>Starting\<close>

text \<open>
  The loop of \<open>start_leader_election\<close> that connects, creates the candidate and sets the watch,
  from the beginning again after every failure. \<open>None\<close> says that \<open>n\<close> rounds were not enough.
\<close>

fun election_setup ::
  "'z zkapi \<Rightarrow> int \<Rightarrow> string \<Rightarrow> string \<Rightarrow> string \<Rightarrow> ZkEvent \<Rightarrow> nat \<Rightarrow> ZookeeperHelper \<Rightarrow> 'z \<Rightarrow>
     (unit zres \<times> ZookeeperHelper \<times> 'z) option" where
  "election_setup api cap hosts watch child e 0 h z = None"
| "election_setup api cap hosts watch child e (Suc n) h z =
     (case register_to_zookeeper api hosts 30000 h z of
        (r, h1, z1) \<Rightarrow>
          if r < 0 then election_setup api cap hosts watch child e n h1 z1
          else (case add_tmp_node api cap child (election_uuid h1) election_flag True h1 z1 of
                  (Crash, h2, z2) \<Rightarrow> Some (Crash, h2, z2)
                | (Done r2, h2, z2) \<Rightarrow>
                    if r2 \<noteq> 0 then election_setup api cap hosts watch child e n h2 z2
                    else (case add_zookeeper_event api cap election_events watch e h2 z2 of
                            (Crash, e', h3, z3) \<Rightarrow> Some (Crash, h3, z3)
                          | (Done r3, e', h3, z3) \<Rightarrow>
                              if r3 \<noteq> 0 then election_setup api cap hosts watch child e' n h3 z3
                              else Some (Done (), h3, z3))))"

definition start_leader_election ::
  "'z zkapi \<Rightarrow> int \<Rightarrow> string \<Rightarrow> string \<Rightarrow> u64 \<times> u64 \<Rightarrow> nat \<Rightarrow> 'z \<Rightarrow> (unit zres \<times> ZookeeperHelper \<times> 'z) option" where
  "start_leader_election api cap hosts watch seed n z =
     (case create_zookeeper_helper (fst seed) (snd seed) of
        Crash \<Rightarrow> None
      | Done h \<Rightarrow>
          if 256 \<le> length (watch @ ''/1'') then Some (Crash, h, z)
          else election_setup api cap hosts watch (watch @ ''/1'')
                 \<lparr>eventmask = 0, has_connected = True, has_changed = False, has_child = True,
                  has_created = False, has_deleted = False\<rparr> n h z)"

text \<open>
  The rest of the thread: one round of \<open>test_event\<close> after another until \<open>if_exit\<close> is set, or the
  process has left in a round. The list holds the values of \<open>if_exit\<close> the loop finds.
\<close>

fun watch_loop ::
  "'z zkapi \<Rightarrow> int \<Rightarrow> string \<Rightarrow> string \<Rightarrow> bool list \<Rightarrow> election \<Rightarrow> 'z \<Rightarrow> unit zres \<times> election \<times> 'z" where
  "watch_loop api cap watch child [] s z = (Done (), s, z)"
| "watch_loop api cap watch child (if_exit # fs) s z =
     (if if_exit then (Done (), s, z)
      else case test_event api cap watch child s z of
        (Crash, s', z') \<Rightarrow> (Crash, s', z')
      | (Done _, s', z') \<Rightarrow> if exited s' then (Done (), s', z') else watch_loop api cap watch child fs s' z')"

text \<open>The thread from its start; it returns at once when fewer than five characters of hosts are configured.\<close>

definition election_thread ::
  "'z zkapi \<Rightarrow> int \<Rightarrow> string \<Rightarrow> string \<Rightarrow> u64 \<times> u64 \<Rightarrow> nat \<Rightarrow> bool list \<Rightarrow> election \<Rightarrow> 'z \<Rightarrow>
     (unit zres \<times> election \<times> 'z) option" where
  "election_thread api cap hosts watch seed n fs s z =
     (if length hosts < 5 then Some (Done (), s, z)
      else case start_leader_election api cap hosts watch seed n z of
        None \<Rightarrow> None
      | Some (Crash, h, z') \<Rightarrow> Some (Crash, s\<lparr>el_helper := h\<rparr>, z')
      | Some (Done _, h, z') \<Rightarrow> Some (watch_loop api cap watch (watch @ ''/1'') fs (s\<lparr>el_helper := h\<rparr>) z'))"

text \<open>
  \<open>stopOrderSequence\<close> when there is a helper: it is destroyed, and a registered process leaves.
\<close>

definition stopOrderSequence :: "'z zkapi \<Rightarrow> election \<Rightarrow> 'z \<Rightarrow> election \<times> 'z" where
  "stopOrderSequence api s z =
     (case destory_zookeeper_helper api (el_helper s) z of
        (h, z') \<Rightarrow> (unregister_4_registry (s\<lparr>el_helper := h, adapter_active := False\<rparr>), z'))"

section \<open>Who becomes the leader\<close>

lemma index_of_bounds: "- 1 \<le> index_of x ys" and index_of_absent: "index_of x ys = - 1 \<longleftrightarrow> x \<notin> set ys"
  by (induction ys) (auto simp: Let_def split: if_splits)

lemma node_indexof_zero: "node_indexof x ns = 0 \<longleftrightarrow> x \<in> set ns \<and> (\<forall>n \<in> set ns. x \<le> n)"
proof (cases "sort ns")
  case Nil
  then have "ns = []" by (metis length_0_conv length_sort)
  then show ?thesis by (simp add: node_indexof_def)
next
  case (Cons y ys)
  have ne: "ns \<noteq> []" using Cons by auto
  have "index_of x (y # ys) = 0 \<longleftrightarrow> x = y" using index_of_bounds [of x ys] by (auto simp: Let_def)
  then have i: "node_indexof x ns = 0 \<longleftrightarrow> x = y" using Cons ne by (simp add: node_indexof_def)
  have st: "set ns = set (y # ys)" by (metis Cons set_sort)
  have "sorted (y # ys)" by (metis Cons sorted_sort)
  then have "\<forall>n \<in> set (y # ys). y \<le> n" by simp
  with st i show ?thesis by (metis antisym list.set_intros(1))
qed

lemma node_indexof_absent: "node_indexof x ns = - 1 \<longleftrightarrow> x \<notin> set ns"
  using index_of_absent [of x "sort ns"] by (simp add: node_indexof_def)

definition leads :: "election \<Rightarrow> bool" where
  "leads s \<longleftrightarrow> isregister s \<and> \<not> exited s"

lemma add_candidate_keeps: "add_candidate api cap child s z = (r, s', z') \<Longrightarrow>
    isregister s' = isregister s \<and> exited s' = exited s \<and> adapter_active s' = adapter_active s"
  by (auto simp: add_candidate_def split: zres.splits prod.splits)

text \<open>
  C30: after each round of the election thread that could read the candidates, a process leads
  (is registered and has not left) exactly when its own node is the smallest of them. A process
  that is not the leader any more leaves, so it is never a silent second leader.
\<close>

theorem leader_iff_smallest:
  assumes "zoo_helper_get_children api watch (el_helper s) z = (0, nodes, z1)" "\<not> exited s"
    and "test_event api cap watch child s z = (r, s', z')"
  shows "leads s' \<longleftrightarrow> election_node (el_helper s) \<in> set nodes \<and> (\<forall>n \<in> set nodes. election_node (el_helper s) \<le> n)"
  using assms node_indexof_zero [of "election_node (el_helper s)" nodes]
    node_indexof_absent [of "election_node (el_helper s)" nodes]
  by (auto simp: test_event_def leads_def register_to_registry_def unregister_4_registry_def Let_def
      dest!: add_candidate_keeps split: if_splits)

definition ex_el :: "string \<Rightarrow> bool \<Rightarrow> election" where
  "ex_el n reg = \<lparr>el_helper = ex_helper\<lparr>election_node := n\<rparr>, isregister = reg, adapter_active = reg, exited = False\<rparr>"

definition ex_pair_tree :: zktree where
  "ex_pair_tree = \<lparr>zt_nodes = [(''/e/12'', ''u''), (''/e/11'', ''v''), (''/e'', '' '')], zt_seq = 3\<rparr>"

lemma ex_pair_children:
  "zoo_helper_get_children tree_api ''/e'' (el_helper (ex_el n reg)) ex_pair_tree = (0, [''12'', ''11''], ex_pair_tree)"
  by (simp add: zoo_helper_get_children_def ex_el_def ex_helper_def tree_api_def ex_pair_tree_def tree_children_def
      parent_path_def last_part_def)

lemma ex_test_event:
  "test_event tree_api 512 ''/e'' ''/e/1'' (ex_el ''11'' False) ex_pair_tree = (Done (), register_to_registry (ex_el ''11'' False), ex_pair_tree)"
  "test_event tree_api 512 ''/e'' ''/e/1'' (ex_el ''12'' True) ex_pair_tree = (Done (), unregister_4_registry (ex_el ''12'' True), ex_pair_tree)"
  by (simp_all add: test_event_def ex_pair_children node_indexof_def) (simp_all add: ex_el_def)

theorem leader_iff_smallest_witness:
  "leads (register_to_registry (ex_el ''11'' False))"
  using leader_iff_smallest [OF ex_pair_children _ ex_test_event(1)]
  by (simp add: ex_el_def)



text \<open>
  The reaction to a change of the candidates is weaker: a leader whose own node has vanished
  stays registered and active, while another process that is now the smallest becomes leader too.
\<close>

theorem vanished_leader_stays:
  assumes "zoo_helper_get_children api watch (el_helper s) z = (0, nodes, z1)" "leads s"
    and "election_node (el_helper s) \<notin> set nodes" "child_event api cap watch child s z = (r, s', z')"
    and "zoo_helper_get_children api watch (el_helper t) y = (0, nodes, y1)" "\<not> exited t"
    and "election_node (el_helper t) \<in> set nodes" "\<forall>n \<in> set nodes. election_node (el_helper t) \<le> n"
    and "child_event api cap watch child t y = (q, t', y')"
  shows "leads s' \<and> leads t'"
proof -
  have "node_indexof (election_node (el_helper s)) nodes = - 1" "node_indexof (election_node (el_helper t)) nodes = 0"
    using node_indexof_absent node_indexof_zero assms(3,7,8) by blast+
  with assms show ?thesis
    by (auto simp: child_event_def leads_def register_to_registry_def Let_def dest!: add_candidate_keeps split: if_splits)
qed

lemma ex_child_event:
  "\<exists>r s' z'. child_event tree_api 512 ''/e'' ''/e/1'' (ex_el ''10'' True) ex_pair_tree = (r, s', z')"
  "child_event tree_api 512 ''/e'' ''/e/1'' (ex_el ''11'' False) ex_pair_tree = (Done (), register_to_registry (ex_el ''11'' False), ex_pair_tree)"
  by (metis prod.collapse) (simp add: child_event_def ex_pair_children node_indexof_def, simp add: ex_el_def)

theorem vanished_leader_stays_witness:
  "\<exists>r s' z'. child_event tree_api 512 ''/e'' ''/e/1'' (ex_el ''10'' True) ex_pair_tree = (r, s', z')
    \<and> leads s' \<and> leads (register_to_registry (ex_el ''11'' False))"
proof -
  obtain r s' z' where c: "child_event tree_api 512 ''/e'' ''/e/1'' (ex_el ''10'' True) ex_pair_tree = (r, s', z')"
    using ex_child_event(1) by blast
  have "leads s' \<and> leads (register_to_registry (ex_el ''11'' False))"
    by (rule vanished_leader_stays [OF ex_pair_children _ _ c ex_pair_children _ _ _ ex_child_event(2)])
      (simp_all add: ex_el_def leads_def)
  with c show ?thesis by blast
qed

section \<open>A start that never ends\<close>

lemma slash_prefixes_prefix: "q \<in> set (slash_prefixes pre rest) \<Longrightarrow> q \<noteq> [] \<and> (\<exists>s. pre @ rest = q @ CHR ''/'' # s)"
  by (induction rest arbitrary: pre) (fastforce split: if_splits)+

context zk_server begin

lemma create_parents_existing:
  "\<forall>p \<in> set ps. nodes z p \<noteq> None \<Longrightarrow> nodes (create_parents api ps z) = nodes z"
proof (induction ps arbitrary: z)
  case Nil
  then show ?case by simp
next
  case (Cons p ps)
  obtain r z1 where e: "zk_exists api p False z = (r, z1)" by (metis prod.collapse)
  have "nodes z1 = nodes z" "r = ZOK"
    using exists_res [of p False z] exists_nodes [of p False z] e Cons.prems by auto
  with Cons e show ?case by (simp add: ZOK_def ZNONODE_def)
qed

lemma readd_election_fails:
  assumes "valid_path child" "length child \<le> 255" "prefixes_exist (nodes z) child" "nodes z child = None"
    and "mode h \<noteq> E_DESTORY_M" "election_node h \<noteq> []" "is_election flag"
    and "nodes z (take 255 (parent_path child @ ''/'' @ election_node h)) \<noteq> None"
  shows "\<exists>z'. add_tmp_node api cap child v flag True h z = (Done (- 1), h\<lparr>mode := E_REGISTER_M\<rparr>, z') \<and> nodes z' = nodes z"
proof -
  let ?z = "create_parents api (slash_prefixes [] child) z" and ?h = "h\<lparr>mode := E_REGISTER_M\<rparr>"
  let ?q = "take 255 (parent_path child @ ''/'' @ election_node h)"
  have "\<forall>p \<in> set (slash_prefixes [] child). nodes z p \<noteq> None"
    using slash_prefixes_prefix [of _ "[]" child] assms(3) unfolding prefixes_exist_def by fastforce
  then have z: "nodes ?z = nodes z" by (rule create_parents_existing)
  obtain r1 z1 where 1: "zk_exists api child False ?z = (r1, z1)" by (metis prod.collapse)
  have n1: "r1 = ZNONODE" "nodes z1 = nodes z"
    using exists_res [of child False ?z] exists_nodes [of child False ?z] 1 assms(4) z by simp_all
  obtain r2 z2 where 2: "zk_exists api ?q False z1 = (r2, z2)" by (metis prod.collapse)
  have n2: "r2 = ZOK" "nodes z2 = nodes z"
    using exists_res [of ?q False z1] exists_nodes [of ?q False z1] 2 n1(2) assms(8) by auto
  have "create_node api cap child v flag True ?h ?z = (Done (- 1), ?h, z2)"
    using 1 2 n1(1) n2(1) assms(6,7)
    by (simp add: create_node_def create_election_node_def finish_create_def ZOK_def ZNONODE_def)
  moreover have "child \<noteq> []" "hd child = CHR ''/''" using assms(1) by (simp_all add: valid_path_def)
  ultimately show ?thesis using assms(2,5) n2(2) by (simp add: add_tmp_node_def recursive_create_node_def)
qed

end

lemma register_keeps:
  assumes "register_to_zookeeper api hosts t h z = (r, h', z')"
  shows "election_node h' = election_node h \<and> mode h' = E_CONNECTION_M \<and> z' = snd (zk_init api (take 1024 hosts) z)"
  using assms by (auto simp: register_to_zookeeper_def get_local_addr_def Let_def split: prod.splits if_splits option.splits)

text \<open>
  Once a process has its election node but could not set the watch, its start never succeeds:
  every further round finds the node, returns -1 from \<open>create_node\<close>, and begins again, for any
  number of rounds.
\<close>

theorem election_setup_stuck:
  assumes "zk_server api nodes" "\<And>hs z. nodes (snd (zk_init api hs z)) = nodes z"
    and "valid_path child" "length child \<le> 255" "prefixes_exist (nodes z) child" "nodes z child = None"
    and "election_node h \<noteq> []" "nodes z (take 255 (parent_path child @ ''/'' @ election_node h)) \<noteq> None"
  shows "election_setup api cap hosts watch child e n h z = None"
  using assms(5-8)
proof (induction n arbitrary: h z)
  case 0
  then show ?case by simp
next
  case (Suc n)
  obtain r h1 z1 where r: "register_to_zookeeper api hosts 30000 h z = (r, h1, z1)" by (metis prod.collapse)
  have k: "election_node h1 = election_node h" "mode h1 = E_CONNECTION_M" "nodes z1 = nodes z"
    using register_keeps [OF r] assms(2) by simp_all
  have fl: "is_election election_flag"
    by (simp add: is_election_def election_flag_def ZOO_EPHEMERAL_def ZOO_SEQUENCE_def)
  obtain z2 where a: "add_tmp_node api cap child (election_uuid h1) election_flag True h1 z1 =
      (Done (- 1), h1\<lparr>mode := E_REGISTER_M\<rparr>, z2)" "nodes z2 = nodes z1"
    using zk_server.readd_election_fails [OF assms(1,3,4), of z1 h1 election_flag cap "election_uuid h1"] Suc.prems k fl
    by auto
  have "election_setup api cap hosts watch child e n h1 z1 = None" by (rule Suc.IH) (use Suc.prems k in simp_all)
  moreover have "election_setup api cap hosts watch child e n (h1\<lparr>mode := E_REGISTER_M\<rparr>) z2 = None"
    by (rule Suc.IH) (use Suc.prems k a in simp_all)
  ultimately show ?case using r a(1) by simp
qed

theorem election_setup_stuck_witness:
  "election_setup tree_api 512 ''zk1:2181'' ''/e'' ''/e/1'' ex_event 1000 ex_elected ex_elected_tree = None"
proof (rule election_setup_stuck [OF tree.zk_server_axioms])
  show "map_of (zt_nodes (snd (zk_init tree_api hs z))) = map_of (zt_nodes z)" for hs z by (simp add: tree_api_def)
  have "q = [] \<or> q = ''/e''" if "''/e/1'' = q @ CHR ''/'' # s" for q s
    using that by (auto simp: Cons_eq_append_conv)
  then show "prefixes_exist (map_of (zt_nodes ex_elected_tree)) ''/e/1''"
    unfolding prefixes_exist_def by (auto simp: ex_elected_tree_def)
qed (simp_all add: valid_path_def ex_elected_tree_def ex_elected_def ex_parent)

section \<open>The adapter follows the election\<close>

definition election_inv :: "election \<Rightarrow> bool" where
  "election_inv s \<longleftrightarrow> adapter_active s = isregister s \<and> (exited s \<longrightarrow> \<not> isregister s)"

lemma register_inv: "election_inv s \<Longrightarrow> \<not> exited s \<Longrightarrow> election_inv (register_to_registry s)"
  and unregister_inv: "election_inv s \<Longrightarrow> election_inv (unregister_4_registry s)"
  by (auto simp: election_inv_def register_to_registry_def unregister_4_registry_def)

lemma add_candidate_inv: "add_candidate api cap child s z = (r, s', z') \<Longrightarrow> election_inv s \<Longrightarrow> election_inv s'"
  by (auto simp: election_inv_def dest: add_candidate_keeps)

lemmas election_inv_intros = register_inv unregister_inv add_candidate_inv

lemma test_event_inv:
  assumes "test_event api cap watch child s z = (r, s', z')" "election_inv s" "\<not> exited s"
  shows "election_inv s'"
  using assms by (auto simp: test_event_def Let_def intro: election_inv_intros split: prod.splits if_splits)

lemma child_event_inv:
  assumes "child_event api cap watch child s z = (r, s', z')" "election_inv s" "\<not> exited s"
  shows "election_inv s'"
  using assms by (auto simp: child_event_def Let_def intro: election_inv_intros split: prod.splits if_splits)

lemma watch_loop_inv:
  "watch_loop api cap watch child fs s z = (r, s', z') \<Longrightarrow> election_inv s \<Longrightarrow> \<not> exited s \<Longrightarrow> election_inv s'"
proof (induction fs arbitrary: s z)
  case (Cons f fs)
  obtain q t y where t: "test_event api cap watch child s z = (q, t, y)" by (metis prod.collapse)
  then have "election_inv t" by (rule test_event_inv [OF _ Cons.prems(2,3)])
  then show ?case using Cons t by (auto split: if_splits zres.splits)
qed simp


text \<open>The thread of a single process: it creates the only candidate and becomes the leader.\<close>

definition ex_thread :: "(unit zres \<times> election \<times> zktree) option" where
  "ex_thread = election_thread tree_api 512 ''zk1:2181'' ''/e'' (0, 0) 3 [False] (ex_el [] False) ex_tree"

lemma ex_thread_leads:
  "(case ex_thread of None \<Rightarrow> False | Some (r, s', z') \<Rightarrow> adapter_active s' \<and> isregister s')"
  by code_simp


end
