(* ===== verification/IceClient.thy ===== *)
theory IceClient
  imports CString
begin

text \<open>
  The client side of the service, \<open>IceExtClientUtil.cpp\<close> and \<open>IceExtClientUtil.h\<close>: reading which
  locators and Glacier2 routers a configuration names, one communicator object for each, the choice
  of the communicator for a service, the session of a router and its pings. The Ice run time is a
  parameter: the properties it read (\<open>ice_props\<close>), whether a communicator could be created, what a
  communicator answers for a name. Objects are numbers in the order of their creation, so that a
  second \<open>delete\<close> of one is seen.
\<close>

section \<open>The regular expressions\<close>

text \<open>
  Each expression is matched at the first position where it matches. The name in the middle consists of
  word characters, which are never the character behind it, so the longest match takes the whole
  run of them.
\<close>

definition is_word :: "char \<Rightarrow> bool" where
  "is_word c = (is_digit c \<or> (65 \<le> (of_char c :: nat) \<and> (of_char c :: nat) \<le> 90) \<or>
     (97 \<le> (of_char c :: nat) \<and> (of_char c :: nat) \<le> 122) \<or> c = CHR ''_'')"

definition strip_prefix :: "string \<Rightarrow> string \<Rightarrow> string option" where
  "strip_prefix p s = (if take (length p) s = p then Some (drop (length p) s) else None)"

fun search_re :: "(string \<Rightarrow> 'a option) \<Rightarrow> string \<Rightarrow> (string \<times> 'a) option" where
  "search_re m [] = map_option (Pair []) (m [])"
| "search_re m (c # cs) = (case m (c # cs) of
       Some r \<Rightarrow> Some ([], r)
     | None \<Rightarrow> map_option (\<lambda>(pre, r). (c # pre, r)) (search_re m cs))"

text \<open>\<open>Ice\.\w+\.Locator=\<close> and \<open>Ice\.\w+\.Router=\<close>.\<close>

definition match_ice :: "string \<Rightarrow> string \<Rightarrow> (string \<times> string) option" where
  "match_ice tail s = (case strip_prefix ''Ice.'' s of
       None \<Rightarrow> None
     | Some r \<Rightarrow> let w = takeWhile is_word r in
         if w = [] then None
         else map_option (\<lambda>rest. (''Ice.'' @ w @ tail, rest)) (strip_prefix tail (dropWhile is_word r)))"

definition ice_locator_reg :: "string \<Rightarrow> bool" where
  "ice_locator_reg s = (search_re (match_ice ''.Locator='') s \<noteq> None)"

definition ice_router_reg :: "string \<Rightarrow> bool" where
  "ice_router_reg s = (search_re (match_ice ''.Router='') s \<noteq> None)"

text \<open>\<open>(\|\w+)/(\w+)\<close>: what stands before the match, the user and the password.\<close>

definition match_pwd :: "string \<Rightarrow> (string \<times> string) option" where
  "match_pwd s = (case s of
       [] \<Rightarrow> None
     | c # r \<Rightarrow> let u = takeWhile is_word r in
         if c \<noteq> CHR ''|'' \<or> u = [] then None
         else (case dropWhile is_word r of
             [] \<Rightarrow> None
           | d # r2 \<Rightarrow> let pw = takeWhile is_word r2 in
               if d \<noteq> CHR ''/'' \<or> pw = [] then None else Some (u, pw)))"

definition ice_router_pwd_reg :: "string \<Rightarrow> (string \<times> string \<times> string) option" where
  "ice_router_pwd_reg s = search_re match_pwd s"

text \<open>
  \<open>(Ice\.\w+\.Router)/([\.0-9A-Za-z_\-]+)\<close>. Inside brackets a backslash stands for itself, so it is one of
  the characters of the second group.
\<close>

definition is_svc_char :: "char \<Rightarrow> bool" where
  "is_svc_char c = (is_word c \<or> c = CHR ''.'' \<or> c = CHR ''-'' \<or> c = CHR 0x5C)"

definition match_val :: "string \<Rightarrow> (string \<times> string) option" where
  "match_val s = (case match_ice ''.Router'' s of
       None \<Rightarrow> None
     | Some (key, rest) \<Rightarrow> (case rest of
           [] \<Rightarrow> None
         | d # r2 \<Rightarrow> let svc = takeWhile is_svc_char r2 in
             if d \<noteq> CHR ''/'' \<or> svc = [] then None else Some (key, svc)))"

definition ice_router_val_reg :: "string \<Rightarrow> (string \<times> string \<times> string) option" where
  "ice_router_val_reg s = search_re match_val s"

section \<open>Communicators\<close>

record ice_props =
  get_prop :: "string \<Rightarrow> string option"
  all_props :: "(string \<times> string) list"

definition getPropertyWithDefault :: "ice_props \<Rightarrow> string \<Rightarrow> string \<Rightarrow> string" where
  "getPropertyWithDefault p k d = (case get_prop p k of None \<Rightarrow> d | Some v \<Rightarrow> v)"

record glacier2 =
  g_router :: string
  g_user :: string
  g_passwd :: string
  g_svcId :: string
  g_ssl :: bool

datatype comm = Locator string | Glacier2 glacier2

datatype ice_error = EndpointParse string | InitFailed string

text \<open>
  The constructors. \<open>ice_init\<close> tells whether \<open>Ice::initialize\<close> returns for a default locator or router;
  otherwise its exception leaves the constructor.
\<close>

definition new_LocatorCommunicator :: "(string \<Rightarrow> bool) \<Rightarrow> string \<Rightarrow> (ice_error, comm) result" where
  "new_LocatorCommunicator ice_init locator =
     (if ice_init locator then Inr (Locator locator) else Inl (InitFailed locator))"

definition new_Glacier2Communicator ::
    "(string \<Rightarrow> bool) \<Rightarrow> string \<Rightarrow> string \<Rightarrow> bool \<Rightarrow> (ice_error, comm) result" where
  "new_Glacier2Communicator ice_init router svcId ssl = (case ice_router_pwd_reg router of
       None \<Rightarrow> Inl (EndpointParse router)
     | Some (pre, u, pw) \<Rightarrow>
         let usr = dropWhile (\<lambda>c. c = CHR '' '') u in
         if ice_init pre then Inr (Glacier2 \<lparr>g_router = pre, g_user = usr, g_passwd = pw, g_svcId = svcId, g_ssl = ssl\<rparr>)
         else Inl (InitFailed pre))"

section \<open>IceClientUtil\<close>

record IceClientUtil =
  ic_prop :: ice_props
  objs :: "comm list"
  threads :: "nat list"
  cmap :: "(string \<times> nat) list"
  default_comm :: "nat option"

text \<open>The constructor sets the name and the properties; \<open>_communicator\<close> gets no value.\<close>

definition new_IceClientUtil :: "ice_props \<Rightarrow> IceClientUtil" where
  "new_IceClientUtil p = \<lparr>ic_prop = p, objs = [], threads = [], cmap = [], default_comm = None\<rparr>"

definition is_ssl :: "string \<Rightarrow> bool" where
  "is_ssl router = (search_re (strip_prefix ''/router:ssl '') router \<noteq> None)"

text \<open>\<open>new\<close> and \<open>cmap.insert\<close>, which keeps the entry a key already has; \<open>start\<close> for a router's thread.\<close>

definition add_comm :: "string \<Rightarrow> comm \<Rightarrow> bool \<Rightarrow> IceClientUtil \<Rightarrow> IceClientUtil" where
  "add_comm key c run u = u\<lparr>objs := objs u @ [c],
     threads := (if run then threads u @ [length (objs u)] else threads u),
     cmap := (if map_of (cmap u) key = None then cmap u @ [(key, length (objs u))] else cmap u)\<rparr>"

text \<open>One turn of the loop of \<open>initialize\<close>: it goes on, returns -1 or throws.\<close>

datatype init_end = Returns int | Throws ice_error

definition init_prop ::
    "(string \<Rightarrow> bool) \<Rightarrow> string \<times> string \<Rightarrow> IceClientUtil \<Rightarrow> init_end option \<times> IceClientUtil" where
  "init_prop ice_init kv u = (let key = fst kv; key1 = key @ ''='' in
     if ice_locator_reg key1 then
       (case new_LocatorCommunicator ice_init (getPropertyWithDefault (ic_prop u) key []) of
          Inl e \<Rightarrow> (Some (Throws e), u) | Inr c \<Rightarrow> (None, add_comm key c False u))
     else if ice_router_reg key1 then
       (let router = getPropertyWithDefault (ic_prop u) key [] in
        case new_Glacier2Communicator ice_init router [] (is_ssl router) of
          Inl e \<Rightarrow> (Some (Throws e), u) | Inr c \<Rightarrow> (None, add_comm key c True u))
     else (case ice_router_val_reg (snd kv) of
          None \<Rightarrow> (None, u)
        | Some (pre, rk, svcId) \<Rightarrow>
            let rKey = pre @ rk; router = getPropertyWithDefault (ic_prop u) rKey [] in
            if router = [] then (Some (Returns (- 1)), u)
            else (case new_Glacier2Communicator ice_init router svcId (is_ssl router) of
              Inl e \<Rightarrow> (Some (Throws e), u) | Inr c \<Rightarrow> (None, add_comm (snd kv) c True u))))"

fun init_loop ::
    "(string \<Rightarrow> bool) \<Rightarrow> (string \<times> string) list \<Rightarrow> IceClientUtil \<Rightarrow> init_end option \<times> IceClientUtil" where
  "init_loop ice_init [] u = (None, u)"
| "init_loop ice_init (kv # kvs) u = (case init_prop ice_init kv u of
       (Some e, u') \<Rightarrow> (Some e, u')
     | (None, u') \<Rightarrow> init_loop ice_init kvs u')"

definition initialize :: "(string \<Rightarrow> bool) \<Rightarrow> IceClientUtil \<Rightarrow> init_end \<times> IceClientUtil" where
  "initialize ice_init u = (case init_loop ice_init (all_props (ic_prop u)) u of
       (Some e, u') \<Rightarrow> (e, u')
     | (None, u') \<Rightarrow>
         (case map_of (cmap u') ''Ice.Default.Locator'' of
            Some c \<Rightarrow> (Returns 0, u'\<lparr>default_comm := Some c\<rparr>)
          | None \<Rightarrow> (case map_of (cmap u') ''Ice.Default.Router'' of
              Some c \<Rightarrow> (Returns 0, u'\<lparr>default_comm := Some c\<rparr>)
            | None \<Rightarrow> (Returns (- 1), u'))))"

text \<open>
  \<open>destroy\<close> on the set of objects that are alive. The order in which the map is traversed makes no
  difference.
\<close>

datatype destroy_error = DeletedTwice nat | UnsetMember

fun delete_all :: "nat list \<Rightarrow> nat set \<Rightarrow> (destroy_error, nat set) result" where
  "delete_all [] alive = Inr alive"
| "delete_all (c # cs) alive = (if c \<in> alive then delete_all cs (alive - {c}) else Inl (DeletedTwice c))"

definition destroy :: "IceClientUtil \<Rightarrow> (destroy_error, nat set) result" where
  "destroy u = (case delete_all (map snd (cmap u)) {0..<length (objs u)} of
       Inl e \<Rightarrow> Inl e
     | Inr alive \<Rightarrow> (case default_comm u of
           None \<Rightarrow> Inl UnsetMember
         | Some c \<Rightarrow> delete_all [c] alive))"

text \<open>
  \<open>stringToProxy\<close> of the communicators. A router's one uses its own service name when it has one; it
  needs a session, for which it waits once (\<open>ready\<close> and \<open>ready_later\<close> are the values of \<open>_initialized\<close>
  before and after the wait).
\<close>

definition comm_stringToProxy ::
    "(comm \<Rightarrow> string \<Rightarrow> 'p option) \<Rightarrow> bool \<Rightarrow> bool \<Rightarrow> comm \<Rightarrow> string \<Rightarrow> 'p option" where
  "comm_stringToProxy resolve ready ready_later c ident = (case c of
       Locator l \<Rightarrow> resolve c ident
     | Glacier2 g \<Rightarrow> let nm = (if g_svcId g = [] then ident else g_svcId g) in
         if ready then resolve c nm else if ready_later then resolve c nm else None)"

text \<open>
  The template \<open>stringToProxy\<close>: the communicator and the name it uses, then the proxy. \<open>UnsetDefault\<close>
  is the use of \<open>_communicator\<close> before it has a value.
\<close>

datatype 'p proxy_end = NullProxy | Proxy 'p | UnsetDefault

definition route :: "IceClientUtil \<Rightarrow> string \<Rightarrow> nat option \<times> string" where
  "route u ident = (let s = getPropertyWithDefault (ic_prop u) ident [] in
     if length s > 5 then
       (case map_of (cmap u) s of Some c \<Rightarrow> (Some c, ident) | None \<Rightarrow> (default_comm u, s))
     else (default_comm u, ident))"

definition stringToProxy ::
    "(comm \<Rightarrow> string \<Rightarrow> 'p option) \<Rightarrow> ('p \<Rightarrow> 'q option) \<Rightarrow> (nat \<Rightarrow> bool \<times> bool) \<Rightarrow> string \<Rightarrow> IceClientUtil \<Rightarrow> 'q proxy_end" where
  "stringToProxy resolve checkedCast ready ident u = (case route u ident of
       (None, nm) \<Rightarrow> UnsetDefault
     | (Some c, nm) \<Rightarrow> (case comm_stringToProxy resolve (fst (ready c)) (snd (ready c)) (objs u ! c) nm of
           None \<Rightarrow> NullProxy
         | Some obj \<Rightarrow> (case checkedCast obj of None \<Rightarrow> NullProxy | Some r \<Rightarrow> Proxy r)))"

section \<open>Configured routers\<close>

text \<open>
  The texts of a configuration: the name of a router with the service behind it, and the endpoint of a
  router with a user and a password.
\<close>

definition is_name :: "string \<Rightarrow> bool" where
  "is_name w \<longleftrightarrow> w \<noteq> [] \<and> list_all is_word w"

definition is_svc :: "string \<Rightarrow> bool" where
  "is_svc w \<longleftrightarrow> w \<noteq> [] \<and> list_all is_svc_char w"

lemma strip_prefix_append [simp]: "strip_prefix p (p @ s) = Some s"
  by (simp add: strip_prefix_def)

lemma takeWhile_word:
  assumes "list_all P w" "r = [] \<or> \<not> P (hd r)"
  shows "takeWhile P (w @ r) = w" "dropWhile P (w @ r) = r"
proof -
  have "\<And>x. x \<in> set w \<Longrightarrow> P x" using assms(1) by (simp add: list_all_iff)
  then show "takeWhile P (w @ r) = w" "dropWhile P (w @ r) = r"
    using assms(2) by (cases r; simp add: takeWhile_append2 dropWhile_append2)+
qed

lemma not_word [simp]: "\<not> is_word (CHR ''.'')" "\<not> is_word (CHR ''/'')" "\<not> is_word (CHR ''|'')"
  by (simp_all add: is_word_def is_digit_def)

lemma match_ice_name:
  assumes "is_name n"
  shows "match_ice (CHR ''.'' # tail) (''Ice.'' @ n @ (CHR ''.'' # tail) @ rest) = Some (''Ice.'' @ n @ (CHR ''.'' # tail), rest)"
proof -
  let ?r = "n @ (CHR ''.'' # tail) @ rest"
  have "takeWhile is_word ?r = n" "dropWhile is_word ?r = (CHR ''.'' # tail) @ rest"
    using assms by (intro takeWhile_word; simp add: is_name_def)+
  moreover have "strip_prefix (CHR ''.'' # tail) ((CHR ''.'' # tail) @ rest) = Some rest" by (rule strip_prefix_append)
  moreover have "strip_prefix ''Ice.'' (''Ice.'' @ ?r) = Some ?r" by (rule strip_prefix_append)
  ultimately show ?thesis using assms by (simp add: match_ice_def Let_def is_name_def)
qed

lemma search_re_here: "m s = Some r \<Longrightarrow> search_re m s = Some ([], r)"
  by (cases s) simp_all

lemma ice_router_val_reg_name:
  assumes "is_name n" "is_svc svc"
  shows "ice_router_val_reg (''Ice.'' @ n @ ''.Router/'' @ svc) = Some ([], ''Ice.'' @ n @ ''.Router'', svc)"
proof -
  have "takeWhile is_svc_char svc = svc"
    using assms(2) by (simp add: is_svc_def list_all_iff)
  then have "match_val (''Ice.'' @ n @ ''.Router/'' @ svc) = Some (''Ice.'' @ n @ ''.Router'', svc)"
    using match_ice_name [OF assms(1), of "''Router''" "CHR ''/'' # svc"] assms(2)
    by (simp add: match_val_def Let_def is_svc_def del: takeWhile_eq_all_conv)
  from search_re_here [of match_val, OF this] show ?thesis by (simp add: ice_router_val_reg_def)
qed

lemma search_re_skip:
  "(\<And>c s. c \<in> set pre \<Longrightarrow> m (c # s) = None) \<Longrightarrow> m s = Some r \<Longrightarrow> search_re m (pre @ s) = Some (pre, r)"
  by (induction pre) (simp_all add: search_re_here)

lemma ice_router_pwd_reg_text:
  assumes "CHR ''|'' \<notin> set ep" "is_name usr" "is_name pw"
  shows "ice_router_pwd_reg (ep @ ''|'' @ usr @ ''/'' @ pw) = Some (ep, usr, pw)"
proof -
  have "takeWhile is_word (usr @ ''/'' @ pw) = usr" "dropWhile is_word (usr @ ''/'' @ pw) = ''/'' @ pw"
    using assms(2) by (intro takeWhile_word; simp add: is_name_def)+
  moreover have "takeWhile is_word pw = pw" using assms(3) by (simp add: is_name_def list_all_iff)
  ultimately have "match_pwd (''|'' @ usr @ ''/'' @ pw) = Some (usr, pw)"
    using assms(2,3) by (simp add: match_pwd_def Let_def is_name_def del: takeWhile_eq_all_conv)
  moreover have "match_pwd (c # s) = None" if "c \<in> set ep" for c s
    using assms(1) that by (auto simp: match_pwd_def Let_def)
  ultimately show ?thesis unfolding ice_router_pwd_reg_def by (intro search_re_skip)
qed

lemma new_Glacier2Communicator_text:
  assumes "CHR ''|'' \<notin> set ep" "is_name usr" "is_name pw"
    and "new_Glacier2Communicator ice_init (ep @ ''|'' @ usr @ ''/'' @ pw) svc ssl = Inr c"
  shows "c = Glacier2 \<lparr>g_router = ep, g_user = usr, g_passwd = pw, g_svcId = svc, g_ssl = ssl\<rparr>"
proof -
  have "\<not> is_word (CHR '' '')" by (simp add: is_word_def is_digit_def)
  then have "dropWhile (\<lambda>c. c = CHR '' '') usr = usr"
    using assms(2) by (cases usr) (auto simp: is_name_def)
  then show ?thesis
    using assms(4) ice_router_pwd_reg_text [OF assms(1-3)]
    by (simp add: new_Glacier2Communicator_def Let_def split: if_splits)
qed

section \<open>The map of communicators\<close>

text \<open>Every entry of the map is an object of its own; nothing is recorded as default yet.\<close>

definition cmap_inv :: "IceClientUtil \<Rightarrow> bool" where
  "cmap_inv u \<longleftrightarrow> distinct (map fst (cmap u)) \<and> distinct (map snd (cmap u)) \<and>
     (\<forall>c \<in> set (map snd (cmap u)). c < length (objs u)) \<and> default_comm u = None"

lemma add_comm_inv: "cmap_inv u \<Longrightarrow> cmap_inv (add_comm k c run u)"
  by (auto simp: cmap_inv_def add_comm_def map_of_eq_None_iff less_Suc_eq image_iff)

text \<open>What one property can do.\<close>

lemma init_prop_cases:
  assumes "init_prop ice_init kv u = (e, u')"
  obtains "u' = u"
  | k c run where "e = None" "u' = add_comm k c run u" "k = fst kv"
  | c pre rk svc where "e = None" "u' = add_comm (snd kv) c True u" "ice_router_val_reg (snd kv) = Some (pre, rk, svc)"
      "new_Glacier2Communicator ice_init (getPropertyWithDefault (ic_prop u) (pre @ rk) []) svc
         (is_ssl (getPropertyWithDefault (ic_prop u) (pre @ rk) [])) = Inr c"
  using assms unfolding init_prop_def Let_def
  by (auto split: if_splits sum.splits option.splits prod.splits)

lemma init_prop_inv:
  assumes "init_prop ice_init kv u = (e, u')" "cmap_inv u"
  shows "cmap_inv u'" "ic_prop u' = ic_prop u"
  using assms by (auto elim!: init_prop_cases intro: add_comm_inv simp: add_comm_def)

lemma init_prop_not_zero: "init_prop ice_init kv u = (e, u') \<Longrightarrow> e \<noteq> Some (Returns 0)"
  unfolding init_prop_def Let_def by (auto split: if_splits sum.splits option.splits prod.splits)

lemma init_loop_inv:
  "init_loop ice_init kvs u = (e, u') \<Longrightarrow> cmap_inv u \<Longrightarrow>
    cmap_inv u' \<and> ic_prop u' = ic_prop u \<and> e \<noteq> Some (Returns 0)"
proof (induction kvs arbitrary: u)
  case (Cons kv kvs)
  obtain e1 u1 where p: "init_prop ice_init kv u = (e1, u1)" by fastforce
  then show ?case using Cons init_prop_inv [OF p] init_prop_not_zero [OF p] by (cases e1) auto
qed simp

lemma new_inv: "cmap_inv (new_IceClientUtil p)"
  by (simp add: cmap_inv_def new_IceClientUtil_def)

lemma delete_all_distinct:
  "distinct cs \<Longrightarrow> set cs \<subseteq> alive \<Longrightarrow> delete_all cs alive = Inr (alive - set cs)"
proof (induction cs arbitrary: alive)
  case (Cons c cs)
  then have "delete_all cs (alive - {c}) = Inr (alive - {c} - set cs)" by (intro Cons.IH) auto
  moreover have "alive - {c} - set cs = alive - set (c # cs)" by auto
  ultimately show ?case using Cons.prems by simp
qed simp

text \<open>
  \<open>destroy\<close> never ends well. When \<open>initialize\<close> returned 0, the default communicator is one of the
  map, which has been deleted with the map; after any other end of \<open>initialize\<close> the member
  \<open>_communicator\<close> was never set.
\<close>

theorem destroy_never_clean:
  assumes "initialize ice_init (new_IceClientUtil p) = (r, u)"
  shows "(r = Returns 0 \<longrightarrow> (\<exists>c. default_comm u = Some c \<and> destroy u = Inl (DeletedTwice c))) \<and>
    (r \<noteq> Returns 0 \<longrightarrow> destroy u = Inl UnsetMember)"
proof -
  obtain e v where l: "init_loop ice_init (all_props p) (new_IceClientUtil p) = (e, v)" by fastforce
  then have v: "cmap_inv v" "e \<noteq> Some (Returns 0)" using init_loop_inv new_inv by blast+
  then have d: "delete_all (map snd (cmap v)) {0..<length (objs v)} = Inr ({0..<length (objs v)} - snd ` set (cmap v))"
    by (subst delete_all_distinct) (auto simp: cmap_inv_def)
  have u: "(r \<noteq> Returns 0 \<and> u = v) \<or>
      (\<exists>k c. r = Returns 0 \<and> map_of (cmap v) k = Some c \<and> u = v\<lparr>default_comm := Some c\<rparr>)"
    using assms l v
    by (auto simp: initialize_def new_IceClientUtil_def split: option.splits)
  show ?thesis
  proof (cases "r = Returns 0")
    case True
    then obtain k c where "map_of (cmap v) k = Some c" "u = v\<lparr>default_comm := Some c\<rparr>" using u by blast
    moreover from this have "c \<in> snd ` set (cmap v)" by (force dest: map_of_SomeD)
    ultimately show ?thesis using True d by (simp add: destroy_def)
  next
    case False
    then show ?thesis using u d v by (simp add: destroy_def cmap_inv_def)
  qed
qed

section \<open>The way of a request\<close>

text \<open>What the Ice run time promises of properties: the list shows what a lookup answers.\<close>

definition props_ok :: "ice_props \<Rightarrow> bool" where
  "props_ok p \<longleftrightarrow> (\<forall>k. get_prop p k = map_of (all_props p) k)"

text \<open>Entries for \<open>v\<close> are only made for the value \<open>v\<close>, with the object \<open>g\<close>.\<close>

definition entry_is :: "string \<Rightarrow> comm \<Rightarrow> IceClientUtil \<Rightarrow> bool" where
  "entry_is v g u \<longleftrightarrow> (\<forall>c. map_of (cmap u) v = Some c \<longrightarrow> c < length (objs u) \<and> objs u ! c = g)"

text \<open>The only object that a property with the value \<open>v\<close> can lead to.\<close>

definition value_comm :: "(string \<Rightarrow> bool) \<Rightarrow> ice_props \<Rightarrow> string \<Rightarrow> comm \<Rightarrow> bool" where
  "value_comm ice_init p v g \<longleftrightarrow> (\<forall>pre rk svc c. ice_router_val_reg v = Some (pre, rk, svc) \<longrightarrow>
     new_Glacier2Communicator ice_init (getPropertyWithDefault p (pre @ rk) []) svc
       (is_ssl (getPropertyWithDefault p (pre @ rk) [])) = Inr c \<longrightarrow> c = g)"

lemma map_of_snoc: "map_of (xs @ [(k, x)]) v = (case map_of xs v of None \<Rightarrow> if v = k then Some x else None | Some y \<Rightarrow> Some y)"
  by (auto simp: map_add_def split: option.split)

lemma entry_is_add: "entry_is v g u \<Longrightarrow> k \<noteq> v \<or> c = g \<Longrightarrow> entry_is v g (add_comm k c run u)"
  by (auto simp: entry_is_def add_comm_def map_of_snoc nth_append split: option.splits if_splits)

lemma add_comm_keeps: "map_of (cmap u) v \<noteq> None \<Longrightarrow> map_of (cmap (add_comm k c run u)) v \<noteq> None"
  by (auto simp: add_comm_def map_of_snoc split: option.splits)

lemma add_comm_adds: "map_of (cmap (add_comm k c run u)) k \<noteq> None"
  by (auto simp: add_comm_def map_of_eq_None_iff)

lemma init_loop_entry:
  assumes "init_loop ice_init kvs u = (None, u')" "ic_prop u = p" "v \<notin> fst ` set kvs" "entry_is v g u"
    and "value_comm ice_init p v g"
  shows "entry_is v g u' \<and> (map_of (cmap u) v \<noteq> None \<longrightarrow> map_of (cmap u') v \<noteq> None)"
  using assms(1-4)
proof (induction kvs arbitrary: u)
  case (Cons kv kvs)
  obtain e1 u1 where p: "init_prop ice_init kv u = (e1, u1)" by fastforce
  then have e: "e1 = None" "init_loop ice_init kvs u1 = (None, u')" using Cons.prems(1) by (cases e1; simp)+
  have u1: "ic_prop u1 = ic_prop u \<and> entry_is v g u1 \<and> (map_of (cmap u) v \<noteq> None \<longrightarrow> map_of (cmap u1) v \<noteq> None)"
    using p
  proof (cases rule: init_prop_cases)
    case (2 k c run)
    then have "k \<noteq> v" using Cons.prems(3) by auto
    then show ?thesis using 2 Cons.prems(4) add_comm_keeps [of u v k c run]
      by (simp add: entry_is_add, simp add: add_comm_def)
  next
    case (3 c pre rk svc)
    then have "snd kv \<noteq> v \<or> c = g" using assms(5) Cons.prems(2) unfolding value_comm_def by metis
    then show ?thesis using 3(2) Cons.prems(4) add_comm_keeps [of u v "snd kv" c True]
      by (simp add: entry_is_add, simp add: add_comm_def)
  qed (use Cons.prems in simp)
  then show ?case using Cons.IH [of u1] e Cons.prems(2,3) by simp
qed simp

text \<open>The property that names the router makes an entry for its value.\<close>

lemma init_loop_adds:
  assumes "init_loop ice_init kvs u = (None, u')" "(ident, v) \<in> set kvs" "v \<notin> fst ` set kvs" "ic_prop u = p"
    and "\<not> ice_locator_reg (ident @ ''='')" "\<not> ice_router_reg (ident @ ''='')"
    and "ice_router_val_reg v \<noteq> None" "entry_is v g u"
    and "value_comm ice_init p v g"
  shows "\<exists>c. map_of (cmap u') v = Some c \<and> c < length (objs u') \<and> objs u' ! c = g"
proof -
  obtain as bs where kvs: "kvs = as @ (ident, v) # bs" using assms(2) by (auto simp: in_set_conv_decomp)
  have split: "init_loop ice_init (xs @ ys) w = (case init_loop ice_init xs w of
      (Some e, w') \<Rightarrow> (Some e, w') | (None, w') \<Rightarrow> init_loop ice_init ys w')" for xs ys w
    by (induction xs arbitrary: w) (auto split: prod.split option.split)
  obtain u1 where u1: "init_loop ice_init as u = (None, u1)" "init_loop ice_init ((ident, v) # bs) u1 = (None, u')"
    using assms(1) unfolding kvs split by (auto split: prod.splits option.splits)
  obtain u2 where u2: "init_prop ice_init (ident, v) u1 = (None, u2)" "init_loop ice_init bs u2 = (None, u')"
    using u1(2) by (auto split: prod.splits option.splits)
  have p1: "ic_prop w' = ic_prop w" if "init_loop ice_init xs w = (e, w')" for xs w w' e
    using that
  proof (induction xs arbitrary: w)
    case (Cons x xs)
    obtain e1 w1 where i: "init_prop ice_init x w = (e1, w1)" by fastforce
    then have "ic_prop w1 = ic_prop w" by (auto elim!: init_prop_cases simp: add_comm_def)
    then show ?case using Cons i by (cases e1) auto
  qed simp
  have e1: "entry_is v g u1"
    using init_loop_entry [OF u1(1) assms(4) _ assms(8,9)] assms(3) by (auto simp: kvs)
  have "map_of (cmap u2) v \<noteq> None"
    using u2(1) assms(5-7) unfolding init_prop_def Let_def
    by (auto simp: add_comm_adds [simplified] split: sum.splits option.splits if_splits prod.splits)
  moreover have "entry_is v g u2 \<and> ic_prop u2 = p"
    using init_loop_entry [of ice_init "[(ident, v)]" u1 u2 p v g] u2(1) e1 p1 [OF u1(1)] p1 [of "[(ident, v)]" u1 None u2]
      assms(3,4,9) by (auto simp: kvs)
  ultimately have "entry_is v g u' \<and> map_of (cmap u') v \<noteq> None"
    using init_loop_entry [OF u2(2) _ _ _ assms(9)] assms(3) by (auto simp: kvs)
  then show ?thesis by (auto simp: entry_is_def)
qed

text \<open>
  C17: a service whose property names a router and a service behind it is asked for at that router, under
  that name, with the user and the password of the router's property.
\<close>

theorem stringToProxy_routed:
  assumes "props_ok p" "is_name n" "is_svc svc" "CHR ''|'' \<notin> set ep" "is_name usr" "is_name pw"
    and "get_prop p ident = Some (''Ice.'' @ n @ ''.Router/'' @ svc)"
    and "get_prop p (''Ice.'' @ n @ ''.Router'') = Some (ep @ ''|'' @ usr @ ''/'' @ pw)"
    and "get_prop p (''Ice.'' @ n @ ''.Router/'' @ svc) = None"
    and "\<not> ice_locator_reg (ident @ ''='')" "\<not> ice_router_reg (ident @ ''='')"
    and "initialize ice_init (new_IceClientUtil p) = (Returns 0, u)"
  shows "\<exists>c ssl. let g = Glacier2 \<lparr>g_router = ep, g_user = usr, g_passwd = pw, g_svcId = svc, g_ssl = ssl\<rparr> in
    route u ident = (Some c, ident) \<and> objs u ! c = g \<and>
    stringToProxy resolve checkedCast ready ident u =
      (if fst (ready c) \<or> snd (ready c)
       then case resolve g svc of None \<Rightarrow> NullProxy
         | Some obj \<Rightarrow> (case checkedCast obj of None \<Rightarrow> NullProxy | Some r \<Rightarrow> Proxy r)
       else NullProxy)"
proof -
  let ?v = "''Ice.'' @ n @ ''.Router/'' @ svc" and ?router = "ep @ ''|'' @ usr @ ''/'' @ pw"
  define g where "g = Glacier2 \<lparr>g_router = ep, g_user = usr, g_passwd = pw, g_svcId = svc, g_ssl = is_ssl ?router\<rparr>"
  obtain w where w: "init_loop ice_init (all_props p) (new_IceClientUtil p) = (None, w)"
      "cmap u = cmap w" "objs u = objs w"
    using assms(12) init_loop_inv [OF _ new_inv]
    by (fastforce simp: initialize_def new_IceClientUtil_def split: prod.splits option.splits)
  have pu: "ic_prop u = p"
    using assms(12) init_loop_inv [OF w(1) new_inv] w(1)
    by (auto simp: initialize_def new_IceClientUtil_def split: option.splits)
  have "c = g" if "ice_router_val_reg ?v = Some (pre, rk, sv)"
    "new_Glacier2Communicator ice_init (getPropertyWithDefault p (pre @ rk) []) sv
      (is_ssl (getPropertyWithDefault p (pre @ rk) [])) = Inr c" for pre rk sv c
  proof -
    have "pre = []" "rk = ''Ice.'' @ n @ ''.Router''" "sv = svc"
      using that(1) ice_router_val_reg_name [OF assms(2,3)] by simp_all
    then have "getPropertyWithDefault p (pre @ rk) [] = ?router"
      using assms(8) by (simp add: getPropertyWithDefault_def)
    then show ?thesis using that(2) new_Glacier2Communicator_text [OF assms(4-6)] \<open>sv = svc\<close> unfolding g_def by metis
  qed
  then have "value_comm ice_init p ?v g" unfolding value_comm_def by blast
  moreover have "(ident, ?v) \<in> set (all_props p)" "?v \<notin> fst ` set (all_props p)"
    using assms(1,7,9) by (auto simp: props_ok_def map_of_eq_None_iff dest: map_of_SomeD)
  moreover have "ice_router_val_reg ?v \<noteq> None" using ice_router_val_reg_name [OF assms(2,3)] by simp
  ultimately obtain c where c: "map_of (cmap w) ?v = Some c" "objs w ! c = g"
    using init_loop_adds [OF w(1), of ident ?v p g] assms(10,11)
    by (auto simp: new_IceClientUtil_def entry_is_def)
  have "getPropertyWithDefault (ic_prop u) ident [] = ?v" using assms(7) pu by (simp add: getPropertyWithDefault_def)
  then have "route u ident = (Some c, ident)" using c(1) w(2) by (simp add: route_def Let_def)
  moreover have "svc \<noteq> []" using assms(3) by (simp add: is_svc_def)
  ultimately show ?thesis using c(2) w(3)
    by (intro exI [of _ c] exI [of _ "is_ssl ?router"])
      (simp add: Let_def g_def stringToProxy_def comm_stringToProxy_def split: option.split)
qed

definition ex_props :: ice_props where
  "ex_props = (let kvs = [(''Ice.Default.Locator'', ''l''), (''Ice.R.Router'', ''g|u/p''), (''svc'', ''Ice.R.Router/s'')]
     in \<lparr>get_prop = map_of kvs, all_props = kvs\<rparr>)"

definition ex_client :: IceClientUtil where
  "ex_client = snd (initialize (\<lambda>_. True) (new_IceClientUtil ex_props))"

lemma ex_client_init: "initialize (\<lambda>_. True) (new_IceClientUtil ex_props) = (Returns 0, ex_client)"
proof -
  have "fst (initialize (\<lambda>_. True) (new_IceClientUtil ex_props)) = Returns 0" by code_simp
  then show ?thesis by (metis ex_client_def prod.collapse)
qed

theorem destroy_never_clean_witness: "\<exists>c. destroy ex_client = Inl (DeletedTwice c)"
  using destroy_never_clean [OF ex_client_init] by blast

theorem stringToProxy_routed_witness:
  "\<exists>c ssl. let g = Glacier2 \<lparr>g_router = ''g'', g_user = ''u'', g_passwd = ''p'', g_svcId = ''s'', g_ssl = ssl\<rparr> in
    route ex_client ''svc'' = (Some c, ''svc'') \<and> objs ex_client ! c = g \<and>
    stringToProxy (\<lambda>c nm. Some nm) Some (\<lambda>_. (True, True)) ''svc'' ex_client =
      (if fst (True, True) \<or> snd (True, True)
       then case Some ''s'' of None \<Rightarrow> NullProxy
         | Some obj \<Rightarrow> (case Some obj of None \<Rightarrow> NullProxy | Some r \<Rightarrow> Proxy r)
       else NullProxy)"
proof (rule stringToProxy_routed [where n = "''R''" and p = ex_props])
  show "props_ok ex_props" by (simp add: props_ok_def ex_props_def Let_def)
  show "initialize (\<lambda>_. True) (new_IceClientUtil ex_props) = (Returns 0, ex_client)" by (rule ex_client_init)
  show "get_prop ex_props (''Ice.'' @ ''R'' @ ''.Router/'' @ ''s'') = None" by code_simp
qed code_simp+

section \<open>The session of a router\<close>

text \<open>
  The thread \<open>Glacier2Communicator::run\<close> as a step relation. \<open>GTop\<close> is the head of the outer loop,
  \<open>GCreate\<close> that of the loop in \<open>createSession\<close> and \<open>GCreating\<close> the remote call in it, \<open>GInner\<close> the head of
  the inner loop and \<open>GPing\<close> the ping in it (\<open>True\<close> for the first one of a session), \<open>GPause\<close> and
  \<open>GRetry\<close> are the sleeps of 60 and of 10 seconds. Requests and the destructor come from other threads
  between any two steps. Sessions are numbered; \<open>answered\<close> collects those that have answered a ping
  and \<open>lost\<close> those of which a ping failed (they are not part of the program's state).
\<close>

datatype g2_loc = GTop | GCreate | GCreating | GInner | GPing bool | GPause | GRetry | GEnd

record g2_session =
  gloc :: g2_loc
  runing :: bool
  initialized :: bool
  session :: "nat option"
  last_time :: u64
  answered :: "nat set"
  lost :: "nat set"

text \<open>
  \<open>currentTime - last_time > 60\<close>: the difference of a signed and an unsigned 64-bit number is unsigned.
\<close>

definition ping_due :: "i64 \<Rightarrow> g2_session \<Rightarrow> bool" where
  "ping_due currentTime s = (currentTime - last_time s > 60)"

definition ping_answered :: "bool \<Rightarrow> g2_session \<Rightarrow> g2_session" where
  "ping_answered first s = s\<lparr>gloc := GPause, initialized := (first \<or> initialized s),
     answered := answered s \<union> set_option (session s)\<rparr>"

definition ping_failed :: "g2_session \<Rightarrow> g2_session" where
  "ping_failed s = s\<lparr>gloc := GRetry, lost := lost s \<union> set_option (session s)\<rparr>"

inductive g2_step :: "g2_session \<Rightarrow> g2_session \<Rightarrow> bool" where
  Stop: "gloc s = GTop \<Longrightarrow> \<not> runing s \<Longrightarrow> g2_step s (s\<lparr>gloc := GEnd\<rparr>)"
| Connect: "gloc s = GTop \<Longrightarrow> runing s \<Longrightarrow>
    g2_step s (s\<lparr>gloc := GCreate, initialized := False, session := None\<rparr>)"
| ConnectFails: "gloc s = GTop \<Longrightarrow> runing s \<Longrightarrow>
    g2_step s (s\<lparr>gloc := GRetry, initialized := False, session := None\<rparr>)"
| Create: "gloc s = GCreate \<Longrightarrow> runing s \<Longrightarrow> g2_step s (s\<lparr>gloc := GCreating\<rparr>)"
| CreateStopped: "gloc s = GCreate \<Longrightarrow> \<not> runing s \<Longrightarrow> g2_step s (s\<lparr>gloc := GInner\<rparr>)"
| Created: "gloc s = GCreating \<Longrightarrow> n \<notin> answered s \<union> lost s \<Longrightarrow>
    g2_step s (s\<lparr>gloc := GInner, session := Some n\<rparr>)"
| Denied: "gloc s = GCreating \<Longrightarrow> g2_step s (s\<lparr>gloc := GCreate\<rparr>)"
| CreateFails: "gloc s = GCreating \<Longrightarrow> g2_step s (s\<lparr>gloc := GRetry\<rparr>)"
| InnerStopped: "gloc s = GInner \<Longrightarrow> \<not> runing s \<Longrightarrow> g2_step s (s\<lparr>gloc := GRetry\<rparr>)"
| FirstPing: "gloc s = GInner \<Longrightarrow> runing s \<Longrightarrow> \<not> initialized s \<Longrightarrow> g2_step s (s\<lparr>gloc := GPing True\<rparr>)"
| Ping: "gloc s = GInner \<Longrightarrow> runing s \<Longrightarrow> initialized s \<Longrightarrow> ping_due now s \<Longrightarrow> g2_step s (s\<lparr>gloc := GPing False\<rparr>)"
| NoPing: "gloc s = GInner \<Longrightarrow> runing s \<Longrightarrow> initialized s \<Longrightarrow> \<not> ping_due now s \<Longrightarrow> g2_step s (s\<lparr>gloc := GPause\<rparr>)"
| Answered: "gloc s = GPing first \<Longrightarrow> g2_step s (ping_answered first s)"
| PingFails: "gloc s = GPing first \<Longrightarrow> g2_step s (ping_failed s)"
| Awake: "gloc s = GPause \<Longrightarrow> g2_step s (s\<lparr>gloc := GInner\<rparr>)"
| Retry: "gloc s = GRetry \<Longrightarrow> g2_step s (s\<lparr>gloc := GTop\<rparr>)"
| Request: "g2_step s (s\<lparr>last_time := now\<rparr>)"
| Destructor: "g2_step s (s\<lparr>runing := False, initialized := False\<rparr>)"

text \<open>The thread begins with \<open>runing\<close> set; \<open>last_time\<close> is whatever the memory held.\<close>

definition g2_start :: "u64 \<Rightarrow> g2_session" where
  "g2_start lt = \<lparr>gloc = GTop, runing = True, initialized = False, session = None, last_time = lt,
     answered = {}, lost = {}\<rparr>"

definition g2_inv :: "g2_session \<Rightarrow> bool" where
  "g2_inv s \<longleftrightarrow> (initialized s \<longrightarrow> (\<exists>n. session s = Some n \<and> n \<in> answered s)) \<and>
     (gloc s \<in> {GCreate, GCreating} \<longrightarrow> session s = None) \<and>
     (gloc s = GInner \<longrightarrow> session s = None \<longrightarrow> \<not> runing s) \<and>
     ((gloc s = GPause \<or> (\<exists>b. gloc s = GPing b)) \<longrightarrow> session s \<noteq> None) \<and>
     ((gloc s \<in> {GInner, GPause} \<or> (\<exists>b. gloc s = GPing b)) \<longrightarrow> (\<forall>n. session s = Some n \<longrightarrow> n \<notin> lost s))"

lemma g2_step_inv: "g2_step s t \<Longrightarrow> g2_inv s \<Longrightarrow> g2_inv t"
proof (induction rule: g2_step.induct)
  case (Answered s first)
  then obtain n where "session s = Some n" by (auto simp: g2_inv_def)
  with Answered show ?case by (simp add: g2_inv_def ping_answered_def)
qed (auto simp: g2_inv_def ping_failed_def)

lemma g2_reach_inv: "g2_step\<^sup>*\<^sup>* (g2_start lt) s \<Longrightarrow> g2_inv s"
proof (induction rule: rtranclp_induct)
  case base
  show ?case by (simp add: g2_inv_def g2_start_def)
qed (rule g2_step_inv)

text \<open>
  C32: a router communicator hands out proxies only on a session that was created and has answered a
  ping; and while its thread works on the session, or sleeps between two pings, the session has not
  failed a ping either.
\<close>

theorem router_session_alive:
  assumes "g2_step\<^sup>*\<^sup>* (g2_start lt) s" "initialized s"
  shows "\<exists>n. session s = Some n \<and> n \<in> answered s \<and> (gloc s \<in> {GInner, GPause} \<longrightarrow> n \<notin> lost s)"
  using g2_reach_inv [OF assms(1)] assms(2) by (auto simp: g2_inv_def)

text \<open>One session, up to the first pause.\<close>

definition ex_session :: g2_session where
  "ex_session = \<lparr>gloc = GPause, runing = True, initialized = True, session = Some 1, last_time = 0,
     answered = {1}, lost = {}\<rparr>"

lemma ex_session_reached: "g2_step\<^sup>*\<^sup>* (g2_start 0) ex_session"
proof -
  let ?c = "(g2_start 0)\<lparr>gloc := GCreate, initialized := False, session := None\<rparr>"
  have 1: "g2_step (g2_start 0) ?c" by (rule Connect) (simp_all add: g2_start_def)
  have 2: "g2_step ?c (?c\<lparr>gloc := GCreating\<rparr>)" by (rule Create) (simp_all add: g2_start_def)
  have 3: "g2_step (?c\<lparr>gloc := GCreating\<rparr>) (?c\<lparr>gloc := GInner, session := Some 1\<rparr>)"
    using Created [of "?c\<lparr>gloc := GCreating\<rparr>" 1] by (simp add: g2_start_def)
  have 4: "g2_step (?c\<lparr>gloc := GInner, session := Some 1\<rparr>) (?c\<lparr>gloc := GPing True, session := Some 1\<rparr>)"
    using FirstPing [of "?c\<lparr>gloc := GInner, session := Some 1\<rparr>"] by (simp add: g2_start_def)
  have 5: "g2_step (?c\<lparr>gloc := GPing True, session := Some 1\<rparr>) ex_session"
    using Answered [of "?c\<lparr>gloc := GPing True, session := Some 1\<rparr>" True]
    by (simp add: g2_start_def ping_answered_def ex_session_def)
  show ?thesis
    by (rule converse_rtranclp_into_rtranclp [of g2_step, OF 1], rule converse_rtranclp_into_rtranclp [of g2_step, OF 2],
        rule converse_rtranclp_into_rtranclp [of g2_step, OF 3], rule converse_rtranclp_into_rtranclp [of g2_step, OF 4], rule r_into_rtranclp [of g2_step, OF 5])
qed

theorem router_session_alive_witness:
  "\<exists>n. session ex_session = Some n \<and> n \<in> answered ex_session \<and>
    (gloc ex_session \<in> {GInner, GPause} \<longrightarrow> n \<notin> lost ex_session)"
  by (rule router_session_alive [OF ex_session_reached]) (simp add: ex_session_def)

text \<open>
  A ping that fails does not withdraw the session: for the ten seconds of the pause before the next
  attempt \<open>_initialized\<close> stays set, and \<open>stringToProxy\<close> hands out proxies on the lost session.
\<close>

theorem lost_session_still_used:
  assumes "g2_step\<^sup>*\<^sup>* (g2_start lt) s" "gloc s = GPing False" "initialized s"
  shows "\<exists>t n. g2_step s t \<and> gloc t = GRetry \<and> initialized t \<and> session t = Some n \<and> n \<in> lost t \<and>
    comm_stringToProxy resolve (initialized t) False (Glacier2 g) ident =
      resolve (Glacier2 g) (if g_svcId g = [] then ident else g_svcId g)"
proof -
  obtain n where "session s = Some n" using g2_reach_inv [OF assms(1)] assms(3) by (auto simp: g2_inv_def)
  then show ?thesis using PingFails [OF assms(2)] assms(3)
    by (intro exI [of _ "ping_failed s"] exI [of _ n]) (simp add: ping_failed_def comm_stringToProxy_def Let_def)
qed

end
