(* ===== verification/Icebox.thy ===== *)
theory Icebox
  imports SequenceService OrderAdapter IceClient
begin

text \<open>
  How the parts of the service are put together: the clock of \<open>Toolkits.cpp\<close>, \<open>startOrderSequence\<close>
  and \<open>stopOrderSequence\<close> of \<open>OrderSequenceAdapter.cpp\<close>, and the IceBox service
  \<open>SequenceServiceIcebox.cpp\<close> that starts the clock, the pool, the ordered service and the servant.
  The Ice run time and the operating system answer through \<open>boot_env\<close>; the properties are those after
  the configuration file has been loaded, without which \<open>start\<close> throws before it changes anything.
  Logging has no effect on the state and is left out.
\<close>

section \<open>The cached clock (Toolkits.cpp)\<close>

record toolkits =
  tk_runing :: bool
  clock_threads :: nat
  currentTime :: i64

definition getCurrentTime :: "toolkits \<Rightarrow> i64" where
  "getCurrentTime tk = currentTime tk"

definition startTookits :: "bool \<Rightarrow> toolkits \<Rightarrow> bool \<times> toolkits" where
  "startTookits thread_ok tk = (if tk_runing tk then (True, tk)
     else let tk1 = tk\<lparr>tk_runing := True\<rparr> in
       if \<not> thread_ok then (False, tk1) else (True, tk1\<lparr>clock_threads := clock_threads tk + 1\<rparr>))"

definition stopTookits :: "toolkits \<Rightarrow> toolkits" where
  "stopTookits tk = tk\<lparr>tk_runing := False\<rparr>"

text \<open>One turn of the loop of a clock thread, which reads \<open>sec\<close>; it ends when \<open>runing\<close> is cleared.\<close>

definition updateTime :: "i64 \<Rightarrow> toolkits \<Rightarrow> toolkits" where
  "updateTime sec tk = (if tk_runing tk then tk\<lparr>currentTime := sec\<rparr> else tk\<lparr>clock_threads := clock_threads tk - 1\<rparr>)"

definition tk_zero :: toolkits where
  "tk_zero = \<lparr>tk_runing = False, clock_threads = 0, currentTime = 0\<rparr>"

inductive clock_step :: "toolkits \<Rightarrow> toolkits \<Rightarrow> bool" where
  Tick: "0 < clock_threads tk \<Longrightarrow> clock_step tk (updateTime sec tk)"
| Start: "clock_step tk (snd (startTookits ok tk))"

section \<open>Starting and stopping the ordered service\<close>

record adapter =
  ad_name :: string
  ad_servants :: "(string \<times> SequenceServiceI) list"
  ad_active :: bool

record order_app =
  oa_adapter :: "adapter option"
  oa_thread :: bool
  oa_election :: "election option"

text \<open>
  \<open>adapter_ok\<close> tells for which names the run time creates an object adapter and accepts a servant
  (it throws for the others), \<open>prop_int\<close> is \<open>getPropertyAsInt\<close>, the rest are results of system calls.
\<close>

record boot_env =
  clock_ok :: bool
  pool_thread_ok :: bool
  mutex_ok :: bool
  election_ok :: bool
  adapter_ok :: "string \<Rightarrow> bool"
  prop_int :: "string \<Rightarrow> int"

datatype boot = BootOk | BootStopped | BootExit int | BootThrows | BootUndef

definition ADAPTER_NAME :: string where "ADAPTER_NAME = ''tddl.sequences.OrderSequenceService''"

definition configured_servant :: "boot_env \<Rightarrow> SequenceServiceI" where
  "configured_servant env =
     new_SequenceServiceI (word_of_int (prop_int env ''seq.workerId'')) (word_of_int (prop_int env ''seq.datacenterId''))"

definition startOrderSequence :: "boot_env \<Rightarrow> ice_props \<Rightarrow> string \<Rightarrow> order_app \<Rightarrow> boot \<times> order_app" where
  "startOrderSequence env p version oa = (let oa1 = oa\<lparr>oa_election := None\<rparr>;
       hosts = getPropertyWithDefault p ''seq.zookeeper.hosts'' []
     in if length hosts < 5 then (BootOk, oa1)
     else if \<not> mutex_ok env then (BootExit 1, oa1)
     else let adapterName = ADAPTER_NAME @ version in
       if \<not> adapter_ok env adapterName then (BootThrows, oa1)
       else (BootOk, oa1\<lparr>oa_adapter := Some \<lparr>ad_name = adapterName,
               ad_servants = [(adapterName, configured_servant env)], ad_active = False\<rparr>,
             oa_thread := election_ok env\<rparr>))"

text \<open>
  \<open>stopOrderSequence\<close> of the file: the adapter is destroyed; the rest happens when the election
  thread has created its helper. The result tells whether the process has ended in it.
\<close>

definition stop_order :: "'z zkapi \<Rightarrow> order_app \<Rightarrow> 'z \<Rightarrow> bool \<times> order_app \<times> 'z" where
  "stop_order api oa z = (let oa1 = oa\<lparr>oa_adapter := map_option (\<lambda>a. a\<lparr>ad_active := False\<rparr>) (oa_adapter oa)\<rparr> in
     case oa_election oa of
       None \<Rightarrow> (False, oa1, z)
     | Some e \<Rightarrow> (case stopOrderSequence api e z of (e', z') \<Rightarrow> (exited e', oa1\<lparr>oa_election := None\<rparr>, z')))"

section \<open>The IceBox service\<close>

record icebox =
  ib_toolkits :: toolkits
  ib_host :: "string option"
  ib_version :: string
  ib_pool :: MySQLDBPool
  ib_adapter :: "adapter option"
  ib_order :: order_app

definition icebox_zero :: icebox where
  "icebox_zero = \<lparr>ib_toolkits = tk_zero, ib_host = None, ib_version = [],
     ib_pool = \<lparr>poolMap = [], m_runing = False\<rparr>, ib_adapter = None,
     ib_order = \<lparr>oa_adapter = None, oa_thread = False, oa_election = None\<rparr>\<rparr>"

text \<open>The last part of \<open>start\<close>, once the pool runs.\<close>

definition start_adapters :: "boot_env \<Rightarrow> ice_props \<Rightarrow> string \<Rightarrow> icebox \<Rightarrow> boot \<times> icebox" where
  "start_adapters env p svc_name s = (let nm = svc_name @ ib_version s in
     if \<not> adapter_ok env nm then (BootThrows, s)
     else let s1 = s\<lparr>ib_adapter := Some \<lparr>ad_name = nm, ad_servants = [], ad_active = False\<rparr>\<rparr> in
       (case startOrderSequence env p (ib_version s) (ib_order s1) of
          (BootOk, oa) \<Rightarrow> (BootOk, s1\<lparr>ib_order := oa, ib_adapter := Some \<lparr>ad_name = nm,
            ad_servants = [(nm, configured_servant env)], ad_active = True\<rparr>\<rparr>)
        | (b, oa) \<Rightarrow> (b, s1\<lparr>ib_order := oa\<rparr>)))"

text \<open>The middle part: the database is registered and its pool started.\<close>

definition start_pool :: "boot_env \<Rightarrow> 'd driver \<Rightarrow> ice_props \<Rightarrow> icebox \<Rightarrow> 'd \<Rightarrow> boot \<times> icebox \<times> 'd" where
  "start_pool env drv p s d =
     (case RegistDataBase 0 (getPropertyWithDefault p ''seq.database.driver.url'' ''root/1@127.0.0.1:3306/test'')
         (prop_int env ''seq.database.driver.minPoolSize'') (prop_int env ''seq.database.driver.maxPoolSize'') (ib_pool s) of
        (Throw, P) \<Rightarrow> (BootThrows, s\<lparr>ib_pool := P\<rparr>, d)
      | (Undef, P) \<Rightarrow> (BootUndef, s\<lparr>ib_pool := P\<rparr>, d)
      | (Ret False, P) \<Rightarrow> (BootStopped, s\<lparr>ib_pool := P\<rparr>, d)
      | (Ret True, P) \<Rightarrow> (case Startup drv (pool_thread_ok env) P d of
          (Throw, P', d') \<Rightarrow> (BootThrows, s\<lparr>ib_pool := P'\<rparr>, d')
        | (Undef, P', d') \<Rightarrow> (BootUndef, s\<lparr>ib_pool := P'\<rparr>, d')
        | (Ret False, P', d') \<Rightarrow> (BootStopped, s\<lparr>ib_pool := P'\<rparr>, d')
        | (Ret True, P', d') \<Rightarrow> (BootOk, s\<lparr>ib_pool := P'\<rparr>, d')))"

text \<open>The first part: the host, the clock and the version, which \<open>strcpy\<close> puts into 50 bytes.\<close>

definition start_base :: "boot_env \<Rightarrow> ice_props \<Rightarrow> icebox \<Rightarrow> boot \<times> icebox" where
  "start_base env p s = (let host = getPropertyWithDefault p ''Ice.Default.Host'' [];
       s0 = (if 5 < length host then s\<lparr>ib_host := Some host\<rparr> else s);
       ver = getPropertyWithDefault p ''app.ver'' []
     in case startTookits (clock_ok env) (ib_toolkits s0) of
       (False, tk) \<Rightarrow> (BootStopped, s0\<lparr>ib_toolkits := tk\<rparr>)
     | (True, tk) \<Rightarrow> if 50 \<le> length ver then (BootUndef, s0\<lparr>ib_toolkits := tk\<rparr>)
         else (BootOk, s0\<lparr>ib_toolkits := tk, ib_version := ver\<rparr>))"

definition start :: "boot_env \<Rightarrow> 'd driver \<Rightarrow> ice_props \<Rightarrow> string \<Rightarrow> icebox \<Rightarrow> 'd \<Rightarrow> boot \<times> icebox \<times> 'd" where
  "start env drv p svc_name s d = (case start_base env p s of
       (BootOk, s1) \<Rightarrow> (case start_pool env drv p s1 d of
           (BootOk, s2, d') \<Rightarrow> (case start_adapters env p svc_name s2 of (b, s3) \<Rightarrow> (b, s3, d'))
         | (b, s2, d') \<Rightarrow> (b, s2, d'))
     | (b, s1) \<Rightarrow> (b, s1, d))"

text \<open>
  \<open>stop\<close>. Without an adapter \<open>_adapter->getName()\<close> throws (a null handle), so the pool is not released;
  the clock is never stopped.
\<close>

definition stop :: "'z zkapi \<Rightarrow> 'd driver \<Rightarrow> icebox \<Rightarrow> 'z \<Rightarrow> 'd \<Rightarrow> boot \<times> icebox \<times> 'z \<times> 'd" where
  "stop api drv s z d = (case stop_order api (ib_order s) z of
       (True, oa, z') \<Rightarrow> (BootExit 0, s\<lparr>ib_order := oa\<rparr>, z', d)
     | (False, oa, z') \<Rightarrow> (case ib_adapter s of
         None \<Rightarrow> (BootThrows, s\<lparr>ib_order := oa\<rparr>, z', d)
       | Some a \<Rightarrow> (case ReleaseAll drv (ib_pool s) d of
           (P, d') \<Rightarrow> (BootOk, s\<lparr>ib_order := oa, ib_adapter := Some (a\<lparr>ad_active := False\<rparr>), ib_pool := P\<rparr>, z', d'))))"

section \<open>A clock that was never started\<close>

text \<open>
  When the thread of the clock cannot be created, \<open>runing\<close> stays set: every later call of
  \<open>startTookits\<close> reports success, no thread is ever created and the cached time never moves.
\<close>

theorem clock_never_starts:
  assumes "startTookits False tk_zero = (b, tk)" "clock_step\<^sup>*\<^sup>* tk tk'"
  shows "b = False \<and> getCurrentTime tk' = 0 \<and> clock_threads tk' = 0 \<and> fst (startTookits ok tk') = True"
proof -
  have "tk_runing tk \<and> clock_threads tk = 0 \<and> currentTime tk = 0" and b: "b = False"
    using assms(1) by (auto simp: startTookits_def tk_zero_def Let_def)
  with assms(2) have "tk_runing tk' \<and> clock_threads tk' = 0 \<and> currentTime tk' = 0"
  proof (induction rule: rtranclp_induct)
    case (step y z)
    from step.hyps(2) step.IH step.prems show ?case by cases (simp_all add: startTookits_def)
  qed simp
  with b show ?thesis by (simp add: getCurrentTime_def startTookits_def)
qed

definition tk_failed :: toolkits where
  "tk_failed = \<lparr>tk_runing = True, clock_threads = 0, currentTime = 0\<rparr>"

theorem clock_never_starts_witness:
  "False = False \<and> getCurrentTime tk_failed = 0 \<and> clock_threads tk_failed = 0 \<and>
    fst (startTookits True tk_failed) = True"
proof (rule clock_never_starts)
  show "startTookits False tk_zero = (False, tk_failed)"
    by (simp add: startTookits_def tk_zero_def tk_failed_def Let_def)
qed simp

section \<open>What a started service offers\<close>

lemma put_pool_lookup: "map_of (put_pool k p m) k = Some p"
  by (induction k p m rule: put_pool.induct) auto

lemma RegistDataBase_fresh:
  assumes "RegistDataBase 0 url mn mx \<lparr>poolMap = [], m_runing = r\<rparr> = (Ret True, P)"
  obtains sp where "new_MySQLSingleDBPool url mn mx 0 = Ret sp" "P = \<lparr>poolMap = [(0, sp)], m_runing = r\<rparr>"
  using assms by (auto simp: RegistDataBase_def split: outcome.splits)

lemma Startup_single:
  assumes "Startup drv ok \<lparr>poolMap = [(0, sp)], m_runing = False\<rparr> d = (Ret True, P, d')"
  obtains sp' where "InitPool drv sp d = (Ret True, sp', d')" "P = \<lparr>poolMap = [(0, sp')], m_runing = True\<rparr>"
  using assms by (auto simp: Startup_def split: prod.splits outcome.splits bool.splits)

lemma start_pool_ok:
  assumes "start_pool env drv p s d = (BootOk, t, d')" "ib_pool s = \<lparr>poolMap = [], m_runing = False\<rparr>"
  obtains sp sp' where
    "new_MySQLSingleDBPool (getPropertyWithDefault p ''seq.database.driver.url'' ''root/1@127.0.0.1:3306/test'')
       (prop_int env ''seq.database.driver.minPoolSize'') (prop_int env ''seq.database.driver.maxPoolSize'') 0 = Ret sp"
    "InitPool drv sp d = (Ret True, sp', d')" "t = s\<lparr>ib_pool := \<lparr>poolMap = [(0, sp')], m_runing = True\<rparr>\<rparr>"
proof -
  obtain P P' where P: "RegistDataBase 0 (getPropertyWithDefault p ''seq.database.driver.url'' ''root/1@127.0.0.1:3306/test'')
      (prop_int env ''seq.database.driver.minPoolSize'') (prop_int env ''seq.database.driver.maxPoolSize'')
      \<lparr>poolMap = [], m_runing = False\<rparr> = (Ret True, P)"
    "Startup drv (pool_thread_ok env) P d = (Ret True, P', d')" "t = s\<lparr>ib_pool := P'\<rparr>"
    using assms by (auto simp: start_pool_def split: prod.splits bool.splits outcome.splits)
  from P(1) show thesis
  proof (rule RegistDataBase_fresh)
    fix sp assume sp: "P = \<lparr>poolMap = [(0, sp)], m_runing = False\<rparr>"
      "new_MySQLSingleDBPool (getPropertyWithDefault p ''seq.database.driver.url'' ''root/1@127.0.0.1:3306/test'')
        (prop_int env ''seq.database.driver.minPoolSize'') (prop_int env ''seq.database.driver.maxPoolSize'') 0 = Ret sp"
    from P(2) [unfolded sp(1)] show thesis by (rule Startup_single) (rule that [OF sp(2)], simp_all add: P(3))
  qed
qed

lemma start_base_ok:
  assumes "start_base env p icebox_zero = (BootOk, t)"
  shows "ib_pool t = \<lparr>poolMap = [], m_runing = False\<rparr>" "ib_version t = getPropertyWithDefault p ''app.ver'' []"
    "length (ib_version t) < 50" "clock_threads (ib_toolkits t) = 1" "tk_runing (ib_toolkits t)"
  using assms by (auto simp: start_base_def startTookits_def icebox_zero_def tk_zero_def Let_def split: if_splits)

lemma start_adapters_ok:
  assumes "start_adapters env p svc_name s = (BootOk, t)"
  shows "ib_pool t = ib_pool s" "ib_version t = ib_version s" "ib_toolkits t = ib_toolkits s"
    "ib_adapter t = Some \<lparr>ad_name = svc_name @ ib_version s,
       ad_servants = [(svc_name @ ib_version s, configured_servant env)], ad_active = True\<rparr>"
  using assms by (auto simp: start_adapters_def Let_def split: if_splits prod.splits boot.splits)

text \<open>The states a first \<open>start\<close> goes through when it succeeds.\<close>

lemma start_ok_parts:
  assumes "start env drv p svc_name icebox_zero d = (BootOk, s, d')"
  obtains s1 s2 where "start_base env p icebox_zero = (BootOk, s1)" "start_pool env drv p s1 d = (BootOk, s2, d')"
    "start_adapters env p svc_name s2 = (BootOk, s)"
  using assms by (auto simp: start_def split: prod.splits boot.splits)

text \<open>
  After a first start that returns normally the adapter is active under the configured name, serves
  the servant with the configured identity, and everything the servant relies on is there: the clock
  runs in one thread, the pool of database 0 is running, every connection of it is idle, and it has
  as many as its configured minimum.
\<close>

theorem start_makes_ready:
  assumes "sql_driver drv next_id" "start env drv p svc_name icebox_zero d = (BootOk, s, d')"
  shows "\<exists>sp. ib_pool s = \<lparr>poolMap = [(0, sp)], m_runing = True\<rparr> \<and> pool_inv next_id (sp, [], d') \<and>
    MySQLSingleDBPool.runing sp \<and> int (length (freeQueue sp)) = co_min (connOpt sp) \<and> 1 \<le> co_min (connOpt sp) \<and>
    clock_threads (ib_toolkits s) = 1 \<and> tk_runing (ib_toolkits s) \<and>
    ib_adapter s = Some \<lparr>ad_name = svc_name @ getPropertyWithDefault p ''app.ver'' [],
      ad_servants = [(svc_name @ getPropertyWithDefault p ''app.ver'' [], configured_servant env)], ad_active = True\<rparr>"
proof -
  obtain s1 s2 where s: "start_base env p icebox_zero = (BootOk, s1)" "start_pool env drv p s1 d = (BootOk, s2, d')"
    "start_adapters env p svc_name s2 = (BootOk, s)" using start_ok_parts [OF assms(2)] .
  note b = start_base_ok [OF s(1)] and a = start_adapters_ok [OF s(3)]
  from s(2) b(1) show ?thesis
  proof (rule start_pool_ok)
    fix sp sp' assume p: "new_MySQLSingleDBPool (getPropertyWithDefault p ''seq.database.driver.url'' ''root/1@127.0.0.1:3306/test'')
        (prop_int env ''seq.database.driver.minPoolSize'') (prop_int env ''seq.database.driver.maxPoolSize'') 0 = Ret sp"
      "InitPool drv sp d = (Ret True, sp', d')" "s2 = s1\<lparr>ib_pool := \<lparr>poolMap = [(0, sp')], m_runing = True\<rparr>\<rparr>"
    have "freeQueue sp = []" "usedConns sp = 0"
      using p(1) by (auto simp: new_MySQLSingleDBPool_def split: if_splits)
    from sql_driver.init_inv [OF assms(1) p(2) this] show ?thesis
      using a b p(3) by (intro exI [of _ sp']) simp
  qed
qed

section \<open>From the configuration to the identifiers\<close>

lemma open_min_table:
  "open_min (mysql_driver others) opt n q d = (r, q', d') \<Longrightarrow> my_tbl d' = my_tbl d"
  by (induction n arbitrary: q d) (auto simp: mysql_driver_def)

lemma InitPool_table:
  assumes "InitPool (mysql_driver others) sp d = (Ret True, sp', d')"
  shows "my_tbl d' = my_tbl d"
  using assms open_min_table
  by (fastforce simp: InitPool_def Let_def split: if_splits split_result.splits prod.splits outcome.splits bool.splits)


text \<open>An example: a database with one sequence, a configuration that fits it, and one start.\<close>

definition ex_boot_props :: ice_props where
  "ex_boot_props = \<lparr>get_prop = Map.empty, all_props = []\<rparr>"

definition ex_boot_env :: boot_env where
  "ex_boot_env = \<lparr>clock_ok = True, pool_thread_ok = True, mutex_ok = True, election_ok = True,
     adapter_ok = (\<lambda>_. True), prop_int = (\<lambda>k. if k = ''seq.database.driver.maxPoolSize'' then 2 else 1)\<rparr>"

definition ex_booted :: "icebox \<times> mysql" where
  "ex_booted = snd (start ex_boot_env (mysql_driver (\<lambda>k t. t)) ex_boot_props ''seq'' icebox_zero ex_db)"

lemma ex_boot:
  "start ex_boot_env (mysql_driver (\<lambda>k t. t)) ex_boot_props ''seq'' icebox_zero ex_db = (BootOk, fst ex_booted, snd ex_booted)"
proof -
  have "fst (start ex_boot_env (mysql_driver (\<lambda>k t. t)) ex_boot_props ''seq'' icebox_zero ex_db) = BootOk"
    by code_simp
  then show ?thesis unfolding ex_booted_def by (metis prod.collapse)
qed

theorem start_makes_ready_witness:
  "\<exists>sp. ib_pool (fst ex_booted) = \<lparr>poolMap = [(0, sp)], m_runing = True\<rparr>"
  using start_makes_ready [OF mysql.sql_driver_axioms ex_boot] by blast


section \<open>Stopping\<close>

lemma start_adapters_not_stopped: "start_adapters env p svc_name s \<noteq> (BootStopped, t)"
  by (auto simp: start_adapters_def startOrderSequence_def Let_def split: if_splits prod.splits boot.splits)

lemma start_base_frame:
  assumes "start_base env p s = (b, t)"
  shows "ib_adapter t = ib_adapter s" "ib_order t = ib_order s"
  using assms by (auto simp: start_base_def Let_def split: prod.splits bool.splits if_splits)

lemma start_pool_frame:
  assumes "start_pool env drv p s d = (b, t, d')"
  shows "ib_adapter t = ib_adapter s" "ib_order t = ib_order s"
  using assms by (auto simp: start_pool_def split: prod.splits bool.splits outcome.splits)

text \<open>
  A start that gave up before the adapter was created, because the clock or the pool did not start,
  leaves a service whose \<open>stop\<close> throws on the null adapter: what the pool holds is never released.
\<close>

theorem failed_start_never_released:
  assumes "start env drv p svc_name icebox_zero d = (BootStopped, s, d')"
  shows "\<exists>t. stop api drv s z d' = (BootThrows, t, z, d') \<and> ib_pool t = ib_pool s"
proof -
  have "ib_adapter s = None \<and> ib_order s = ib_order icebox_zero"
  proof (cases "start_base env p icebox_zero")
    case (Pair b s1)
    note f = start_base_frame [OF Pair]
    show ?thesis
    proof (cases "b = BootOk")
      case True
      obtain b2 s2 d2 where p: "start_pool env drv p s1 d = (b2, s2, d2)" by (cases "start_pool env drv p s1 d") auto
      have "s2 = s"
        using assms Pair p True start_adapters_not_stopped [of env p svc_name s2]
        by (auto simp: start_def split: prod.splits boot.splits)
      then show ?thesis using f start_pool_frame [OF p] by (simp add: icebox_zero_def)
    next
      case False
      then have "s1 = s" using assms Pair by (auto simp: start_def split: boot.splits)
      then show ?thesis using f by (simp add: icebox_zero_def)
    qed
  qed
  then show ?thesis by (simp add: stop_def stop_order_def icebox_zero_def)
qed

definition ex_broken_env :: boot_env where
  "ex_broken_env = ex_boot_env\<lparr>pool_thread_ok := False\<rparr>"

theorem failed_start_never_released_witness:
  "\<exists>s d' t. start ex_broken_env (mysql_driver (\<lambda>k t. t)) ex_boot_props ''seq'' icebox_zero ex_db = (BootStopped, s, d') \<and>
    stop tree_api (mysql_driver (\<lambda>k t. t)) s ex_tree d' = (BootThrows, t, ex_tree, d') \<and> ib_pool t = ib_pool s"
proof -
  obtain b s d' where e: "start ex_broken_env (mysql_driver (\<lambda>k t. t)) ex_boot_props ''seq'' icebox_zero ex_db = (b, s, d')"
    by (cases "start ex_broken_env (mysql_driver (\<lambda>k t. t)) ex_boot_props ''seq'' icebox_zero ex_db") auto
  moreover have "fst (start ex_broken_env (mysql_driver (\<lambda>k t. t)) ex_boot_props ''seq'' icebox_zero ex_db) = BootStopped"
    by code_simp
  ultimately have "b = BootStopped" by simp
  note e' = e [unfolded this]
  from failed_start_never_released [OF e', of tree_api ex_tree] e' show ?thesis by blast
qed

text \<open>
  The regular end of a service without the ordered part: the adapter is inactive, no pool is left and
  the maintenance thread is told to end; the clock thread runs on.
\<close>

theorem start_stop_releases:
  assumes "start env drv p svc_name icebox_zero d = (BootOk, s, d')"
    and "length (getPropertyWithDefault p ''seq.zookeeper.hosts'' []) < 5"
  shows "\<exists>t d''. stop api drv s z d' = (BootOk, t, z, d'') \<and> poolMap (ib_pool t) = [] \<and> \<not> m_runing (ib_pool t) \<and>
    (\<exists>a. ib_adapter t = Some a \<and> \<not> ad_active a) \<and> tk_runing (ib_toolkits t) \<and> clock_threads (ib_toolkits t) = 1"
proof -
  obtain s1 s2 where s: "start_base env p icebox_zero = (BootOk, s1)" "start_pool env drv p s1 d = (BootOk, s2, d')"
    "start_adapters env p svc_name s2 = (BootOk, s)" using start_ok_parts [OF assms(1)] .
  have "ib_toolkits s2 = ib_toolkits s1"
    using s(2) by (auto simp: start_pool_def split: prod.splits bool.splits outcome.splits)
  moreover have "oa_election (ib_order s) = None"
    using s(3) assms(2) by (auto simp: start_adapters_def startOrderSequence_def Let_def split: if_splits)
  ultimately show ?thesis
    using start_base_ok(4,5) [OF s(1)] start_adapters_ok(3,4) [OF s(3)]
    by (simp add: stop_def stop_order_def ReleaseAll_def)
qed

theorem start_stop_releases_witness:
  "\<exists>t d''. stop tree_api (mysql_driver (\<lambda>k t. t)) (fst ex_booted) ex_tree (snd ex_booted) = (BootOk, t, ex_tree, d'') \<and>
    poolMap (ib_pool t) = [] \<and> \<not> m_runing (ib_pool t) \<and>
    (\<exists>a. ib_adapter t = Some a \<and> \<not> ad_active a) \<and> tk_runing (ib_toolkits t) \<and> clock_threads (ib_toolkits t) = 1"
  by (rule start_stop_releases [OF ex_boot]) (simp add: ex_boot_props_def getPropertyWithDefault_def)

end
