(* ===== verification/Plugins.thy ===== *)
theory Plugins
  imports IceClient
begin

text \<open>
  Two small services around Ice: the replica group filter of \<open>RegistryPlugin.cpp\<close>, which the registry
  asks which adapters a client may use, and the permissions verifier and the session manager of the
  session server (\<open>glacier2test/Classes/SessionServerI.cpp\<close>), which a Glacier2 router asks whether a
  client may have a session. The registry's properties, the web request and the parsed JSON reply are
  parameters.
\<close>

section \<open>The replica group filter\<close>

text \<open>\<open>string::find\<close>.\<close>

definition contains_text :: "string \<Rightarrow> string \<Rightarrow> bool" where
  "contains_text t s = (search_re (strip_prefix t) s \<noteq> None)"

text \<open>The loop keeps the first adapter whose servers have the currency, and stops there.\<close>

fun filter_loop :: "(string \<Rightarrow> string) \<Rightarrow> string \<Rightarrow> string list \<Rightarrow> string list" where
  "filter_loop currencies currency [] = []"
| "filter_loop currencies currency (q # qs) =
     (if contains_text currency (currencies q) then [q] else filter_loop currencies currency qs)"

definition filter_adapters :: "(string \<Rightarrow> string) \<Rightarrow> (string \<Rightarrow> string option) \<Rightarrow> string list \<Rightarrow> string list" where
  "filter_adapters currencies ctx adapters = (case ctx ''currency'' of
       None \<Rightarrow> adapters
     | Some currency \<Rightarrow> filter_loop currencies currency adapters)"

lemma contains_text_iff: "contains_text t s \<longleftrightarrow> (\<exists>a b. s = a @ t @ b)"
proof (induction s)
  case Nil
  then show ?case by (auto simp: contains_text_def strip_prefix_def)
next
  case (Cons c s)
  have "contains_text t (c # s) \<longleftrightarrow> take (length t) (c # s) = t \<or> contains_text t s"
    by (auto simp: contains_text_def strip_prefix_def split: option.splits)
  also have "take (length t) (c # s) = t \<longleftrightarrow> (\<exists>b. c # s = t @ b)"
    by (metis append_eq_conv_conj append_take_drop_id)
  also have "(\<exists>b. c # s = t @ b) \<or> contains_text t s \<longleftrightarrow> (\<exists>a b. c # s = a @ t @ b)"
    using Cons.IH by (metis Cons_eq_append_conv append_Cons self_append_conv2)
  finally show ?case .
qed

lemma filter_loop_eq: "filter_loop currencies currency qs = take 1 (filter (\<lambda>q. contains_text currency (currencies q)) qs)"
  by (induction qs) auto

text \<open>
  A client without a currency may use every adapter. A client with one gets the first of the adapters
  that its comment promises (all those whose servers are configured with the currency), and no other,
  so the group's other replicas are never used.
\<close>

theorem filter_keeps_one:
  "filter_adapters currencies ctx adapters = (case ctx ''currency'' of
     None \<Rightarrow> adapters
   | Some currency \<Rightarrow> take 1 (filter (\<lambda>q. \<exists>a b. currencies q = a @ currency @ b) adapters))"
  by (simp add: filter_adapters_def filter_loop_eq contains_text_iff split: option.split)

section \<open>Permissions\<close>

text \<open>
  The reply of the check: the request failed, or a JSON document of which the code looks at the members
  \<open>access_token\<close> and \<open>uid\<close>; \<open>NotObject\<close> is a text that is no JSON object. The parser's accessors
  assert their preconditions.
\<close>

datatype uid_member = NoUid | UidInt int | UidOther
datatype json_reply = NotObject | Members bool uid_member
datatype 'a checked = Checked 'a | JsonAssert

definition check_url :: "string \<Rightarrow> string \<Rightarrow> string" where
  "check_url auth2_check_url password =
     auth2_check_url @ (if contains_text ''?'' auth2_check_url then [] else ''?'') @
     ''&access_token='' @ password @ ''&src='' @ ''1''"

definition checkPermissions ::
    "(string \<Rightarrow> json_reply option) \<Rightarrow> string \<Rightarrow> string \<Rightarrow> string \<Rightarrow> bool checked" where
  "checkPermissions http auth2_check_url userId password =
     (case http (check_url auth2_check_url password) of
        None \<Rightarrow> Checked False
      | Some NotObject \<Rightarrow> JsonAssert
      | Some (Members token uid) \<Rightarrow>
          if token then (case uid of UidInt _ \<Rightarrow> Checked True | _ \<Rightarrow> JsonAssert) else Checked False)"

record router_session =
  rs_shutdown :: bool
  rs_ssl :: bool

definition session_create :: "string \<Rightarrow> router_session" where
  "session_create userId = \<lparr>rs_shutdown = False, rs_ssl = (userId = ''test'')\<rparr>"

text \<open>\<open>destroy\<close> and \<open>shutdown\<close> of a session: is it removed from the adapter, is the communicator shut down?\<close>

definition session_destroy :: "router_session \<Rightarrow> bool \<times> bool" where
  "session_destroy s = (True, rs_shutdown s)"

definition session_shutdown :: "router_session \<Rightarrow> bool \<times> bool" where
  "session_shutdown s = (False, True)"

text \<open>
  The verifier lets a client in exactly when the service it asks knows the password as a token and
  says whose it is; that it is the token of the user who logs in is not tested, so one valid token
  opens a session under every name.
\<close>

theorem permission_ignores_user:
  "(checkPermissions http url userId password = Checked True \<longleftrightarrow>
      (\<exists>uid. http (check_url url password) = Some (Members True (UidInt uid)))) \<and>
   checkPermissions http url userId password = checkPermissions http url otherId password"
  by (auto simp: checkPermissions_def split: option.split json_reply.split uid_member.split)

text \<open>
  The token goes into the address as it is: with an \<open>&\<close> in it, a client adds parameters of its own to
  the request.
\<close>

lemma check_url_not_escaped: "check_url url (tok @ ''&'' @ extra) =
    url @ (if contains_text ''?'' url then [] else ''?'') @ ''&access_token='' @ tok @ ''&'' @ extra @ ''&src=1''"
  by (simp add: check_url_def)

text \<open>Sessions of this server never shut the communicator down when they end.\<close>

lemma session_end: "session_destroy (session_create userId) = (True, False)"
  by (simp add: session_destroy_def session_create_def)

end
