(* ===== verification/DaemonConf.thy ===== *)
theory DaemonConf
  imports CString "HOL-Library.Sublist"
begin

text \<open>
  The configuration reader of the JVM supervisor (\<open>app/daemon/src/main/c/daemon.cpp\<close>,
  \<open>del_tail\<close> and \<open>parse_properties\<close>). The reader works on raw memory, and so does the model: the
  2048 bytes of the line buffer and the position \<open>line\<close> at which the next line is read (it moves
  past the equals sign of every setting and is never moved back), the heap blocks that hold the
  values with their terminating zero or without one, the four argument arrays with the length
  the first pass counted for them. What C leaves undefined ends the run with \<open>Undef\<close>; \<open>exit\<close> ends
  it with \<open>Exited\<close>. The fresh allocation of \<open>wrapper_conf_t\<close> and the initial \<open>tag\<close> are
  uninitialised in the source and arguments of the model.
\<close>

section \<open>Memory\<close>

datatype undef = LineOverflow | UninitRead | BeforeStart | PastEnd | BadSize | WildWrite | NullRead

datatype stop = Exited int | Undef undef

abbreviation TAB :: char where "TAB \<equiv> CHR 0x09"

type_synonym block = "char option list"
type_synonym lbuf = "nat \<Rightarrow> char option"

definition try_bind :: "stop + 'a \<Rightarrow> ('a \<Rightarrow> stop + 'b) \<Rightarrow> stop + 'b" where
  "try_bind r f = (case r of Inl e \<Rightarrow> Inl e | Inr x \<Rightarrow> f x)"

lemma try_bind_simps [simp]: "try_bind (Inl e) f = Inl e" "try_bind (Inr x) f = f x"
  by (simp_all add: try_bind_def)

definition blank :: "char \<Rightarrow> bool" where
  "blank c \<longleftrightarrow> c = CHR '' '' \<or> c = TAB \<or> c = NL"

text \<open>\<open>del_tail\<close> walks back from the last of \<open>len\<close> bytes and has no test for the start of the block.\<close>

fun del_tail :: "block \<Rightarrow> nat \<Rightarrow> stop + block" where
  "del_tail b 0 = Inl (Undef BeforeStart)"
| "del_tail b (Suc k) =
     (if length b \<le> k then Inl (Undef PastEnd)
      else case b ! k of
             None \<Rightarrow> Inl (Undef UninitRead)
           | Some c \<Rightarrow> if blank c then del_tail (b[k := Some NUL]) k else Inr b)"

text \<open>What a C string function sees in a block.\<close>

fun c_str :: "block \<Rightarrow> stop + string" where
  "c_str [] = Inl (Undef PastEnd)"
| "c_str (None # b) = Inl (Undef UninitRead)"
| "c_str (Some c # b) = (if c = NUL then Inr [] else try_bind (c_str b) (\<lambda>s. Inr (c # s)))"

fun span_block :: "(char \<Rightarrow> bool) \<Rightarrow> block \<Rightarrow> stop + (string \<times> char \<times> block)" where
  "span_block P [] = Inl (Undef PastEnd)"
| "span_block P (None # b) = Inl (Undef UninitRead)"
| "span_block P (Some c # b) =
     (if P c then try_bind (span_block P b) (\<lambda>(s, d, r). Inr (c # s, d, r)) else Inr ([], c, b))"

text \<open>\<open>atoi\<close> on a block: white space, a sign, digits, and the byte that ends them are read.\<close>

definition atoi_block :: "block \<Rightarrow> stop + int" where
  "atoi_block b =
     try_bind (span_block is_space b) (\<lambda>(_, c, r).
       if c = CHR ''-'' \<or> c = CHR ''+'' then
         try_bind (span_block is_digit r) (\<lambda>(ds, _, _). Inr (atoi (c # ds)))
       else try_bind (span_block is_digit (Some c # r)) (\<lambda>(ds, _, _). Inr (atoi ds)))"

text \<open>\<open>strncmp(lit, p, strlen(lit))\<close> on the line buffer, byte by byte.\<close>

fun strncmp_at :: "lbuf \<Rightarrow> nat \<Rightarrow> string \<Rightarrow> stop + bool" where
  "strncmp_at m p [] = Inr True"
| "strncmp_at m p (c # cs) =
     (if 2048 \<le> p then Inl (Undef PastEnd)
      else case m p of
             None \<Rightarrow> Inl (Undef UninitRead)
           | Some d \<Rightarrow> if d = c then strncmp_at m (Suc p) cs else Inr False)"

text \<open>\<open>fgets\<close>: up to \<open>n\<close> bytes or through the first newline.\<close>

fun fgets_chunk :: "nat \<Rightarrow> string \<Rightarrow> string \<times> string" where
  "fgets_chunk 0 s = ([], s)"
| "fgets_chunk (Suc n) [] = ([], [])"
| "fgets_chunk (Suc n) (c # cs) =
     (if c = NL then ([c], cs) else (case fgets_chunk n cs of (a, r) \<Rightarrow> (c # a, r)))"

lemma fgets_chunk_append: "fgets_chunk n s = (a, r) \<Longrightarrow> s = a @ r"
  by (induction n s arbitrary: a rule: fgets_chunk.induct) (auto split: if_splits prod.splits)

lemma fgets_chunk_nonempty: "fgets_chunk (Suc n) (c # cs) = (a, r) \<Longrightarrow> a \<noteq> []"
  by (auto split: if_splits prod.splits)

lemma fgets_chunk_shorter: "fgets_chunk 2047 (c # cs) = (a, r) \<Longrightarrow> length r < length (c # cs)"
  using fgets_chunk_append [of 2047 "c # cs" a r] fgets_chunk_nonempty [of 2046 c cs a r]
    arg_cong [of "c # cs" "a @ r" length]
  by (simp del: fgets_chunk.simps)

function fgets_chunks :: "string \<Rightarrow> string list" where
  "fgets_chunks [] = []"
| "fgets_chunks (c # cs) = (case fgets_chunk 2047 (c # cs) of (a, r) \<Rightarrow> a # fgets_chunks r)"
  by pat_completeness auto
termination
  by (relation "measure length") (auto simp del: fgets_chunk.simps dest!: fgets_chunk_shorter [OF sym])

definition write_line :: "nat \<Rightarrow> string \<Rightarrow> lbuf \<Rightarrow> lbuf" where
  "write_line p s m = (\<lambda>k. if p \<le> k \<and> k < p + length s then Some (s ! (k - p)) else m k)"

section \<open>The configuration\<close>

text \<open>An array of string pointers: \<open>None\<close> where the pointer was never set.\<close>

type_synonym arr = "block option list option"

record wrapper_ext_conf_t =
  ext_mainClass :: "block option"
  ext_args :: arr
  ext_argsLen :: int
  ext_jvmOptions :: arr
  ext_jvmOptsLen :: int

record wrapper_conf_t =
  name :: "block option"
  mainClass :: "block option"
  mainArgs :: arr
  mainArgsLen :: int
  jvmOptions :: arr
  jvmOptsLen :: int
  logfile :: "block option"
  stdout :: bool
  daemon_flag :: bool
  workdir :: "block option"
  checks_cmd :: "block option"
  checks_keyword :: "block option"
  checks_interval :: int
  checks_retryTimes :: int
  ext_conf :: wrapper_ext_conf_t

record wrapper_vars =
  conf :: wrapper_conf_t
  wrapperPid :: block
  debug :: bool
  jvmExitTimeout :: int

datatype conf_tag_status = TAG_INIT | MAIN_CLASS | MAIN_ARGS | EXT_MAIN_ARGS | JVM_OPTION | EXT_JVM_OPTION

datatype setting =
    K_VM_STDOUT | K_VM_DAEMON | K_VM_WORKDIR | K_LOGFILE | K_NAME | K_PID | K_DEBUG
  | K_VM_EXIT_TIMEOUT | K_VM_CHECKS_CMD | K_VM_CHECKS_KEYWORD | K_VM_CHECKS_INTERVAL
  | K_VM_CHECKS_RETRYTIMES | K_MAIN_CLASS | K_EXT_MAIN_CLASS

datatype line_kind = Setting setting | Section conf_tag_status | Open | Close | Comment | Other

fun key_name :: "setting \<Rightarrow> string" where
  "key_name K_VM_STDOUT = ''wrapper.work.stdout''"
| "key_name K_VM_DAEMON = ''wrapper.work.daemon''"
| "key_name K_VM_WORKDIR = ''wrapper.workdir''"
| "key_name K_LOGFILE = ''wrapper.logfile''"
| "key_name K_NAME = ''wrapper.name''"
| "key_name K_PID = ''wrapper.pid''"
| "key_name K_DEBUG = ''wrapper.debug''"
| "key_name K_VM_EXIT_TIMEOUT = ''wrapper.jvm_exit.timeout''"
| "key_name K_VM_CHECKS_CMD = ''wrapper.checks.cmd''"
| "key_name K_VM_CHECKS_KEYWORD = ''wrapper.checks.keyword''"
| "key_name K_VM_CHECKS_INTERVAL = ''wrapper.checks.interval''"
| "key_name K_VM_CHECKS_RETRYTIMES = ''wrapper.checks.retryTimes''"
| "key_name K_MAIN_CLASS = ''wrapper.work.main.class''"
| "key_name K_EXT_MAIN_CLASS = ''wrapper.master.main.class''"

fun section_name :: "conf_tag_status \<Rightarrow> string" where
  "section_name MAIN_ARGS = ''wrapper.work.main.args''"
| "section_name EXT_MAIN_ARGS = ''wrapper.master.main.args''"
| "section_name JVM_OPTION = ''wrapper.work.vm.options''"
| "section_name EXT_JVM_OPTION = ''wrapper.master.vm.options''"
| "section_name _ = []"

text \<open>The comparisons of the two chains of conditions, in their order.\<close>

definition section_keys :: "(string \<times> line_kind) list" where
  "section_keys =
     map (\<lambda>t. (section_name t, Section t)) [MAIN_ARGS, EXT_MAIN_ARGS, JVM_OPTION, EXT_JVM_OPTION]
     @ [(''['', Open), ('']'', Close), (''#'', Comment)]"

definition first_keys :: "(string \<times> line_kind) list" where
  "first_keys =
     map (\<lambda>k. (key_name k, Setting k))
       [K_VM_STDOUT, K_VM_DAEMON, K_VM_WORKDIR, K_LOGFILE, K_NAME, K_PID, K_DEBUG, K_VM_EXIT_TIMEOUT,
        K_VM_CHECKS_CMD, K_VM_CHECKS_KEYWORD, K_VM_CHECKS_INTERVAL, K_VM_CHECKS_RETRYTIMES,
        K_MAIN_CLASS, K_EXT_MAIN_CLASS]
     @ section_keys"

fun classify :: "(string \<times> line_kind) list \<Rightarrow> string \<Rightarrow> line_kind" where
  "classify [] s = Other"
| "classify ((k, kind) # ks) s = (if prefix k s then kind else classify ks s)"

section \<open>Settings\<close>

datatype value_kind = BoolValue | BlockValue | IntValue

fun kind_of_value :: "setting \<Rightarrow> value_kind" where
  "kind_of_value K_VM_STDOUT = BoolValue"
| "kind_of_value K_VM_DAEMON = BoolValue"
| "kind_of_value K_DEBUG = BoolValue"
| "kind_of_value K_VM_EXIT_TIMEOUT = IntValue"
| "kind_of_value K_VM_CHECKS_INTERVAL = IntValue"
| "kind_of_value K_VM_CHECKS_RETRYTIMES = IntValue"
| "kind_of_value _ = BlockValue"

fun set_bool :: "setting \<Rightarrow> bool \<Rightarrow> wrapper_vars \<Rightarrow> wrapper_vars" where
  "set_bool K_VM_STDOUT b v = v\<lparr>conf := (conf v)\<lparr>stdout := b\<rparr>\<rparr>"
| "set_bool K_VM_DAEMON b v = v\<lparr>conf := (conf v)\<lparr>daemon_flag := b\<rparr>\<rparr>"
| "set_bool K_DEBUG b v = v\<lparr>debug := b\<rparr>"
| "set_bool _ b v = v"

fun set_int :: "setting \<Rightarrow> int \<Rightarrow> wrapper_vars \<Rightarrow> wrapper_vars" where
  "set_int K_VM_EXIT_TIMEOUT n v = v\<lparr>jvmExitTimeout := n\<rparr>"
| "set_int K_VM_CHECKS_INTERVAL n v = v\<lparr>conf := (conf v)\<lparr>checks_interval := n\<rparr>\<rparr>"
| "set_int K_VM_CHECKS_RETRYTIMES n v = v\<lparr>conf := (conf v)\<lparr>checks_retryTimes := n\<rparr>\<rparr>"
| "set_int _ n v = v"

fun set_block :: "setting \<Rightarrow> block \<Rightarrow> wrapper_vars \<Rightarrow> wrapper_vars" where
  "set_block K_VM_WORKDIR b v = v\<lparr>conf := (conf v)\<lparr>workdir := Some b\<rparr>\<rparr>"
| "set_block K_LOGFILE b v = v\<lparr>conf := (conf v)\<lparr>logfile := Some b\<rparr>\<rparr>"
| "set_block K_NAME b v = v\<lparr>conf := (conf v)\<lparr>name := Some b\<rparr>\<rparr>"
| "set_block K_PID b v = v\<lparr>wrapperPid := b\<rparr>"
| "set_block K_VM_CHECKS_CMD b v = v\<lparr>conf := (conf v)\<lparr>checks_cmd := Some b\<rparr>\<rparr>"
| "set_block K_VM_CHECKS_KEYWORD b v = v\<lparr>conf := (conf v)\<lparr>checks_keyword := Some b\<rparr>\<rparr>"
| "set_block K_MAIN_CLASS b v = v\<lparr>conf := (conf v)\<lparr>mainClass := Some b\<rparr>\<rparr>"
| "set_block K_EXT_MAIN_CLASS b v =
     v\<lparr>conf := (conf v)\<lparr>ext_conf := (ext_conf (conf v))\<lparr>ext_mainClass := Some b\<rparr>\<rparr>\<rparr>"
| "set_block _ b v = v"

text \<open>The four argument arrays and their lengths, by tag.\<close>

fun is_args :: "conf_tag_status \<Rightarrow> bool" where
  "is_args TAG_INIT = False"
| "is_args MAIN_CLASS = False"
| "is_args _ = True"

fun arg_len :: "conf_tag_status \<Rightarrow> wrapper_conf_t \<Rightarrow> int" where
  "arg_len MAIN_ARGS c = mainArgsLen c"
| "arg_len EXT_MAIN_ARGS c = ext_argsLen (ext_conf c)"
| "arg_len JVM_OPTION c = jvmOptsLen c"
| "arg_len EXT_JVM_OPTION c = ext_jvmOptsLen (ext_conf c)"
| "arg_len _ c = 0"

fun set_len :: "conf_tag_status \<Rightarrow> int \<Rightarrow> wrapper_conf_t \<Rightarrow> wrapper_conf_t" where
  "set_len MAIN_ARGS n c = c\<lparr>mainArgsLen := n\<rparr>"
| "set_len EXT_MAIN_ARGS n c = c\<lparr>ext_conf := (ext_conf c)\<lparr>ext_argsLen := n\<rparr>\<rparr>"
| "set_len JVM_OPTION n c = c\<lparr>jvmOptsLen := n\<rparr>"
| "set_len EXT_JVM_OPTION n c = c\<lparr>ext_conf := (ext_conf c)\<lparr>ext_jvmOptsLen := n\<rparr>\<rparr>"
| "set_len _ n c = c"

fun arg_arr :: "conf_tag_status \<Rightarrow> wrapper_conf_t \<Rightarrow> arr" where
  "arg_arr MAIN_ARGS c = mainArgs c"
| "arg_arr EXT_MAIN_ARGS c = ext_args (ext_conf c)"
| "arg_arr JVM_OPTION c = jvmOptions c"
| "arg_arr EXT_JVM_OPTION c = ext_jvmOptions (ext_conf c)"
| "arg_arr _ c = None"

fun set_arr :: "conf_tag_status \<Rightarrow> arr \<Rightarrow> wrapper_conf_t \<Rightarrow> wrapper_conf_t" where
  "set_arr MAIN_ARGS a c = c\<lparr>mainArgs := a\<rparr>"
| "set_arr EXT_MAIN_ARGS a c = c\<lparr>ext_conf := (ext_conf c)\<lparr>ext_args := a\<rparr>\<rparr>"
| "set_arr JVM_OPTION a c = c\<lparr>jvmOptions := a\<rparr>"
| "set_arr EXT_JVM_OPTION a c = c\<lparr>ext_conf := (ext_conf c)\<lparr>ext_jvmOptions := a\<rparr>\<rparr>"
| "set_arr _ a c = c"

section \<open>First pass\<close>

record pstate =
  vars :: wrapper_vars
  lbuf :: lbuf
  lpos :: nat
  tag :: conf_tag_status
  cnt :: int
  offset :: int
  ignored :: int

text \<open>The loop that moves \<open>begin\<close> and \<open>equal\<close> to the equals sign or to the end of the line.\<close>

fun find_equal :: "string \<Rightarrow> nat \<Rightarrow> nat" where
  "find_equal [] e = e"
| "find_equal (c # cs) e = (if c = CHR ''='' then e else find_equal cs (Suc e))"

text \<open>
  One branch per setting. Character arrays on the stack start uninitialised, so \<open>tmp\<close> holds the
  copied bytes and nothing after them; a heap value has exactly \<open>length - equal\<close> bytes.
\<close>

definition read_setting :: "setting \<Rightarrow> string \<Rightarrow> pstate \<Rightarrow> stop + pstate" where
  "read_setting k s st0 = (
     let st1 = (if k = K_MAIN_CLASS then st0\<lparr>tag := MAIN_CLASS\<rparr> else st0);
         eq = find_equal s 1;
         n = int (length s) - int eq;
         st = st1\<lparr>lpos := lpos st1 + eq\<rparr>
     in case kind_of_value k of
          BoolValue \<Rightarrow>
            try_bind (strncmp_at (lbuf st) (lpos st) ''false'') (\<lambda>is_false.
              if is_false then Inr (st\<lparr>vars := set_bool k False (vars st)\<rparr>)
              else try_bind (strncmp_at (lbuf st) (lpos st) ''true'') (\<lambda>is_true.
                if is_true then Inr (st\<lparr>vars := set_bool k True (vars st)\<rparr>)
                else Inl (Exited (- 1))))
        | BlockValue \<Rightarrow>
            (if n < 0 then Inl (Undef BadSize)
             else try_bind (del_tail (map Some (drop eq s)) (nat n)) (\<lambda>b.
               Inr (st\<lparr>vars := set_block k b (vars st)\<rparr>)))
        | IntValue \<Rightarrow>
            (if n < 0 then Inl (Undef BadSize)
             else
               let v = take 128 (drop eq s);
                   tmp = map Some v @ replicate (128 - length v) None
               in try_bind (del_tail tmp (nat n)) (\<lambda>b.
                    try_bind (atoi_block b) (\<lambda>x. Inr (st\<lparr>vars := set_int k x (vars st)\<rparr>)))))"

definition first_line :: "string \<Rightarrow> pstate \<Rightarrow> stop + pstate" where
  "first_line chunk st0 =
     (if 2048 < lpos st0 + length chunk + 1 then Inl (Undef LineOverflow)
      else
        let s = takeWhile (\<lambda>c. c \<noteq> NUL) chunk;
            st = st0\<lparr>lbuf := write_line (lpos st0) (chunk @ [NUL]) (lbuf st0)\<rparr>
        in try_bind
          (case classify first_keys s of
             Setting k \<Rightarrow> read_setting k s st
           | Section t \<Rightarrow> Inr (st\<lparr>tag := t\<rparr>)
           | Open \<Rightarrow> Inr (st\<lparr>offset := cnt st, ignored := 0\<rparr>)
           | Close \<Rightarrow>
               Inr (st\<lparr>vars := (vars st)\<lparr>conf := set_len (tag st) (cnt st - offset st - ignored st - 1) (conf (vars st))\<rparr>,
                       tag := TAG_INIT\<rparr>)
           | Comment \<Rightarrow> Inr (st\<lparr>ignored := ignored st + 1\<rparr>)
           | Other \<Rightarrow>
               (if is_args (tag st) \<or> dropWhile blank s = [] then Inr st else Inl (Exited (- 1))))
          (\<lambda>x. Inr (x\<lparr>cnt := cnt x + 1\<rparr>)))"

fun first_pass :: "string list \<Rightarrow> pstate \<Rightarrow> stop + pstate" where
  "first_pass [] st = Inr st"
| "first_pass (l # ls) st = try_bind (first_line l st) (first_pass ls)"

section \<open>Allocation and second pass\<close>

definition calloc :: "int \<Rightarrow> arr" where
  "calloc n = (if n < 0 then None else Some (replicate (nat n) None))"

definition alloc_arrays :: "wrapper_conf_t \<Rightarrow> stop + wrapper_conf_t" where
  "alloc_arrays c0 =
     (if jvmOptsLen c0 = 0 then Inl (Exited (- 1))
      else
        let c1 = (if 0 < mainArgsLen c0 then c0\<lparr>mainArgs := calloc (mainArgsLen c0)\<rparr> else c0);
            c2 = c1\<lparr>jvmOptions := calloc (jvmOptsLen c1)\<rparr>;
            c3 = (if 0 < ext_jvmOptsLen (ext_conf c2)
                  then c2\<lparr>ext_conf := (ext_conf c2)\<lparr>ext_jvmOptions := calloc (ext_jvmOptsLen (ext_conf c2))\<rparr>\<rparr>
                  else c2);
            c4 = (if 0 < ext_argsLen (ext_conf c3)
                  then c3\<lparr>ext_conf := (ext_conf c3)\<lparr>ext_args := calloc (ext_argsLen (ext_conf c3))\<rparr>\<rparr>
                  else c3)
        in Inr c4)"

text \<open>\<open>args[i] = malloc(length + 1)\<close>, the copy of the line without its zero, and \<open>del_tail\<close>.\<close>

definition store_arg :: "conf_tag_status \<Rightarrow> nat \<Rightarrow> string \<Rightarrow> wrapper_conf_t \<Rightarrow> stop + wrapper_conf_t" where
  "store_arg t i s c =
     (case arg_arr t c of
        None \<Rightarrow> Inl (Undef WildWrite)
      | Some xs \<Rightarrow>
          (if length xs \<le> i then Inl (Undef WildWrite)
           else try_bind (del_tail (map Some s @ [None]) (length s)) (\<lambda>b.
             Inr (set_arr t (Some (xs[i := Some b])) c))))"

definition second_line :: "string \<Rightarrow> pstate \<Rightarrow> stop + pstate" where
  "second_line chunk st0 =
     (if 2048 < lpos st0 + length chunk + 1 then Inl (Undef LineOverflow)
      else
        let s = takeWhile (\<lambda>c. c \<noteq> NUL) chunk;
            st = st0\<lparr>lbuf := write_line (lpos st0) (chunk @ [NUL]) (lbuf st0)\<rparr>
        in case classify section_keys s of
             Section t \<Rightarrow> Inr (st\<lparr>tag := t, cnt := 0\<rparr>)
           | Close \<Rightarrow> Inr (st\<lparr>tag := TAG_INIT\<rparr>)
           | Other \<Rightarrow>
               (if is_args (tag st) then
                  try_bind (store_arg (tag st) (nat (cnt st)) s (conf (vars st))) (\<lambda>c.
                    Inr (st\<lparr>vars := (vars st)\<lparr>conf := c\<rparr>, cnt := cnt st + 1\<rparr>))
                else Inr st)
           | _ \<Rightarrow> Inr st)"

fun second_pass :: "string list \<Rightarrow> pstate \<Rightarrow> stop + pstate" where
  "second_pass [] st = Inr st"
| "second_pass (l # ls) st = try_bind (second_line l st) (second_pass ls)"

section \<open>parse\_properties\<close>

text \<open>
  The fields the function sets before it reads. \<open>daemon\<close> and \<open>ext_conf.argsLen\<close> keep what the
  allocation held; the array pointers count as unset.
\<close>

definition init_conf :: "wrapper_conf_t \<Rightarrow> wrapper_conf_t" where
  "init_conf c = c\<lparr>stdout := True, workdir := None, logfile := None, mainClass := None, name := None,
     mainArgsLen := 0, jvmOptsLen := 0, checks_cmd := None, checks_keyword := None,
     checks_interval := 30, checks_retryTimes := 3, mainArgs := None, jvmOptions := None,
     ext_conf := (ext_conf c)\<lparr>ext_mainClass := None, ext_jvmOptsLen := 0, ext_args := None, ext_jvmOptions := None\<rparr>\<rparr>"

definition parse_properties ::
  "conf_tag_status \<Rightarrow> string option \<Rightarrow> wrapper_vars \<Rightarrow> stop + wrapper_vars" where
  "parse_properties tag0 file v =
     (case file of
        None \<Rightarrow> Inl (Exited 0)
      | Some content \<Rightarrow>
          let st0 = \<lparr>vars = v\<lparr>conf := init_conf (conf v)\<rparr>, lbuf = (\<lambda>_. None), lpos = 0, tag = tag0,
                     cnt = 0, offset = 0, ignored = 0\<rparr>
          in try_bind (first_pass (fgets_chunks content) st0) (\<lambda>st.
             try_bind (alloc_arrays (conf (vars st))) (\<lambda>c.
             try_bind (second_pass (fgets_chunks content)
                 (st\<lparr>vars := (vars st)\<lparr>conf := c\<rparr>, cnt := 0, offset := 0\<rparr>)) (\<lambda>st'.
             Inr (vars st')))))"

definition ex_conf0 :: wrapper_conf_t where
  "ex_conf0 = \<lparr>name = None, mainClass = None, mainArgs = None, mainArgsLen = 0, jvmOptions = None,
     jvmOptsLen = 0, logfile = None, stdout = False, daemon_flag = False, workdir = None,
     checks_cmd = None, checks_keyword = None, checks_interval = 0, checks_retryTimes = 0,
     ext_conf = \<lparr>ext_mainClass = None, ext_args = None, ext_argsLen = 0, ext_jvmOptions = None,
                 ext_jvmOptsLen = 0\<rparr>\<rparr>"

definition ex_vars0 :: wrapper_vars where
  "ex_vars0 = \<lparr>conf = ex_conf0, wrapperPid = map Some (''wrapper.pid'' @ [NUL]), debug = False, jvmExitTimeout = 60\<rparr>"

section \<open>Configuration files as their author sees them\<close>

text \<open>
  A file is a list of items: settings, argument sections with entries and comments, comments and
  empty lines. \<open>spec_item\<close> says what an item means for the configuration, without the memory
  the reader works on.
\<close>

datatype sec_line = Entry string | Note string

datatype item = ISet setting string | ISec conf_tag_status "sec_line list" | INote string | IBlank

fun sec_text :: "sec_line \<Rightarrow> string" where
  "sec_text (Entry e) = e"
| "sec_text (Note s) = CHR ''#'' # s"

fun entries :: "sec_line list \<Rightarrow> string list" where
  "entries [] = []"
| "entries (Entry e # ls) = e # entries ls"
| "entries (Note s # ls) = entries ls"

fun item_lines :: "item \<Rightarrow> string list" where
  "item_lines (ISet k v) = [key_name k @ CHR ''='' # v]"
| "item_lines (ISec t ls) = section_name t # ''['' # map sec_text ls @ ['']'']"
| "item_lines (INote s) = [CHR ''#'' # s]"
| "item_lines IBlank = [[]]"

definition nl :: "string \<Rightarrow> string" where "nl l = l @ [NL]"

definition file_lines :: "item list \<Rightarrow> string list" where
  "file_lines its = concat (map item_lines its)"

definition print_conf :: "item list \<Rightarrow> string" where
  "print_conf its = concat (map nl (file_lines its))"

definition plain :: "string \<Rightarrow> bool" where
  "plain s \<longleftrightarrow> NL \<notin> set s \<and> NUL \<notin> set s"

definition trimmed :: "string \<Rightarrow> bool" where
  "trimmed s \<longleftrightarrow> s \<noteq> [] \<and> \<not> blank (last s)"

fun wf_value :: "value_kind \<Rightarrow> string \<Rightarrow> bool" where
  "wf_value BoolValue v \<longleftrightarrow> v = ''true'' \<or> v = ''false''"
| "wf_value BlockValue v \<longleftrightarrow> trimmed v"
| "wf_value IntValue v \<longleftrightarrow> v \<noteq> [] \<and> list_all is_digit v \<and> length v < 128"

fun wf_sec_line :: "sec_line \<Rightarrow> bool" where
  "wf_sec_line (Entry e) \<longleftrightarrow> plain e \<and> trimmed e \<and> classify first_keys (nl e) = Other"
| "wf_sec_line (Note s) \<longleftrightarrow> plain s"

fun wf_item :: "item \<Rightarrow> bool" where
  "wf_item (ISet k v) \<longleftrightarrow> plain v \<and> wf_value (kind_of_value k) v"
| "wf_item (ISec t ls) \<longleftrightarrow> is_args t \<and> list_all wf_sec_line ls"
| "wf_item (INote s) \<longleftrightarrow> plain s"
| "wf_item IBlank \<longleftrightarrow> True"

fun item_drift :: "item \<Rightarrow> nat" where
  "item_drift (ISet k v) = length (key_name k) + 1"
| "item_drift _ = 0"

definition drift :: "item list \<Rightarrow> nat" where
  "drift its = sum_list (map item_drift its)"

definition value_block :: "string \<Rightarrow> block" where
  "value_block v = map Some v @ [Some NUL]"

definition spec_set :: "setting \<Rightarrow> string \<Rightarrow> wrapper_vars \<Rightarrow> wrapper_vars" where
  "spec_set k v = (case kind_of_value k of
       BoolValue \<Rightarrow> set_bool k (v = ''true'')
     | BlockValue \<Rightarrow> set_block k (value_block v)
     | IntValue \<Rightarrow> set_int k (atoi v))"

fun spec_item :: "item \<Rightarrow> wrapper_vars \<Rightarrow> wrapper_vars" where
  "spec_item (ISet k v) x = spec_set k v x"
| "spec_item (ISec t ls) x = x\<lparr>conf := set_len t (int (length (entries ls))) (conf x)\<rparr>"
| "spec_item _ x = x"

definition spec_conf :: "item list \<Rightarrow> wrapper_vars \<Rightarrow> wrapper_vars" where
  "spec_conf its x = fold spec_item its x"

fun section_tags :: "item list \<Rightarrow> conf_tag_status list" where
  "section_tags [] = []"
| "section_tags (ISec t ls # its) = t # section_tags its"
| "section_tags (_ # its) = section_tags its"

definition arg_strings :: "conf_tag_status \<Rightarrow> wrapper_conf_t \<Rightarrow> (stop + string) option list option" where
  "arg_strings t c = map_option (map (map_option c_str)) (arg_arr t c)"

section \<open>Lemmas on the memory operations\<close>

lemma find_equal_key: "CHR ''='' \<notin> set k \<Longrightarrow> find_equal (k @ CHR ''='' # v) e = e + length k"
  by (induction k arbitrary: e) auto

lemma key_name_no_equal: "CHR ''='' \<notin> set (key_name k)"
  by (cases k) simp_all

lemma del_tail_stop: "v \<noteq> [] \<Longrightarrow> \<not> blank (last v) \<Longrightarrow> del_tail (map Some v @ r) (length v) = Inr (map Some v @ r)"
  by (cases v rule: rev_cases) (simp_all add: nth_append)

lemma del_tail_newline:
  assumes "trimmed v"
  shows "del_tail (map Some v @ Some NL # r) (Suc (length v)) = Inr (map Some v @ Some NUL # r)"
  using assms del_tail_stop [of v "Some NUL # r"]
  by (simp add: trimmed_def nth_append list_update_append blank_def)

lemma c_str_map: "NUL \<notin> set v \<Longrightarrow> c_str (map Some v @ Some NUL # r) = Inr v"
  by (induction v) auto

lemma span_digits:
  "list_all P v \<Longrightarrow> \<not> P c \<Longrightarrow> span_block P (map Some v @ Some c # r) = Inr (v, c, r)"
  by (induction v) auto

lemma atoi_block_digits:
  assumes "v \<noteq> []" "list_all is_digit v"
  shows "atoi_block (map Some v @ Some NUL # r) = Inr (atoi v)"
proof -
  obtain d ds where v: "v = d # ds" using assms(1) by (cases v) auto
  then have d: "\<not> is_space d" "d \<noteq> CHR ''-''" "d \<noteq> CHR ''+''"
    using digit_not_special [of d] assms(2) by simp_all
  have "\<not> is_digit NUL" by (simp add: is_digit_def)
  from span_digits [of is_digit v NUL r, OF assms(2) this] d show ?thesis
    by (simp add: atoi_block_def v)
qed

lemma digits_not_blank: "is_digit c \<Longrightarrow> \<not> blank c"
  by (auto simp: is_digit_def blank_def)

lemma digits_trimmed: "v \<noteq> [] \<Longrightarrow> list_all is_digit v \<Longrightarrow> trimmed v"
  by (auto simp: trimmed_def list_all_iff dest: digits_not_blank last_in_set)

lemma write_line_read:
  "k < length s \<Longrightarrow> write_line p s m (p + k) = Some (s ! k)"
  by (simp add: write_line_def)

lemma strncmp_at_line:
  assumes "NUL \<notin> set lit" "k \<le> length s" "p + length s < 2048" "NUL \<notin> set s"
  shows "strncmp_at (write_line p (s @ [NUL]) m) (p + k) lit = Inr (prefix lit (drop k s))"
  using assms
proof (induction lit arbitrary: k)
  case Nil
  then show ?case by simp
next
  case (Cons c cs)
  have w: "write_line p (s @ [NUL]) m (p + k) = Some ((s @ [NUL]) ! k)"
    using Cons.prems by (simp add: write_line_read)
  show ?case
  proof (cases "k = length s")
    case True
    then show ?thesis using Cons.prems w by auto
  next
    case False
    then have k: "k < length s" using Cons.prems by simp
    then have "drop k s = s ! k # drop (Suc k) s" by (simp add: Cons_nth_drop_Suc)
    then show ?thesis using Cons.prems Cons.IH [of "Suc k"] w k by (auto simp: nth_append)
  qed
qed

lemma fgets_chunk_line: "NL \<notin> set l \<Longrightarrow> length l < n \<Longrightarrow> fgets_chunk n (l @ NL # r) = (l @ [NL], r)"
proof (induction l arbitrary: n)
  case Nil
  then show ?case by (cases n) simp_all
next
  case (Cons c l)
  then show ?case by (cases n) auto
qed

lemma fgets_chunks_Cons:
  assumes "NL \<notin> set l" "length l < 2047"
  shows "fgets_chunks (l @ NL # r) = (l @ [NL]) # fgets_chunks r"
proof -
  have *: "fgets_chunk 2047 (l @ NL # r) = (l @ [NL], r)"
    using assms by (rule fgets_chunk_line)
  then show ?thesis by (cases l) (simp_all del: fgets_chunk.simps)
qed

lemma fgets_chunks_lines:
  "list_all (\<lambda>l. NL \<notin> set l \<and> length l < 2047) ls \<Longrightarrow> fgets_chunks (concat (map nl ls)) = map nl ls"
  by (induction ls) (simp_all add: nl_def fgets_chunks_Cons del: fgets_chunks.simps(2))

lemma first_pass_append:
  "first_pass (a @ b) st = try_bind (first_pass a st) (first_pass b)"
  by (induction a arbitrary: st) (auto simp: try_bind_def split: sum.splits)

lemma second_pass_append:
  "second_pass (a @ b) st = try_bind (second_pass a st) (second_pass b)"
  by (induction a arbitrary: st) (auto simp: try_bind_def split: sum.splits)

section \<open>Classification of the printed lines\<close>

lemma classify_setting: "classify first_keys (key_name k @ CHR ''='' # v) = Setting k"
  by (cases k) (simp_all add: first_keys_def section_keys_def)

lemma classify_setting2: "classify section_keys (key_name k @ CHR ''='' # v) = Other"
  by (cases k) (simp_all add: section_keys_def)

lemma classify_section:
  assumes "is_args t"
  shows "classify first_keys (nl (section_name t)) = Section t" "classify section_keys (nl (section_name t)) = Section t"
  using assms by (cases t; simp add: first_keys_def section_keys_def nl_def)+

lemma classify_marks:
  "classify first_keys (CHR ''['' # s) = Open" "classify section_keys (CHR ''['' # s) = Open"
  "classify first_keys (CHR '']'' # s) = Close" "classify section_keys (CHR '']'' # s) = Close"
  "classify first_keys (CHR ''#'' # s) = Comment" "classify section_keys (CHR ''#'' # s) = Comment"
  "classify first_keys [NL] = Other" "classify section_keys [NL] = Other"
  by (simp_all add: first_keys_def section_keys_def)

lemma classify_append_Other: "classify (xs @ ys) s = Other \<Longrightarrow> (\<forall>(k, d) \<in> set xs. d \<noteq> Other) \<Longrightarrow> classify ys s = Other"
  by (induction xs) (auto split: if_splits)

lemma classify_entry2: "classify first_keys s = Other \<Longrightarrow> classify section_keys s = Other"
  unfolding first_keys_def by (erule classify_append_Other) auto

lemma plain_takeWhile: "NUL \<notin> set s \<Longrightarrow> takeWhile (\<lambda>c. c \<noteq> NUL) (nl s) = nl s"
  by (induction s) (auto simp: nl_def)

section \<open>First pass over printed items\<close>

lemma nl_setting: "nl (key_name k @ CHR ''='' # v) = key_name k @ CHR ''='' # nl v"
  by (simp add: nl_def)

lemma read_setting_printed:
  assumes v: "NUL \<notin> set v" "wf_value (kind_of_value k) v"
    and m: "lbuf st = write_line (lpos st) (s @ [NUL]) m" "lpos st + length s < 2048"
    and s: "s = key_name k @ CHR ''='' # nl v"
  shows "read_setting k s st = Inr (st\<lparr>tag := (if k = K_MAIN_CLASS then MAIN_CLASS else tag st),
           lpos := lpos st + Suc (length (key_name k)), vars := spec_set k v (vars st)\<rparr>)"
proof -
  have eq: "find_equal s 1 = Suc (length (key_name k))"
    using find_equal_key [OF key_name_no_equal, of k "nl v" 1] s by simp
  have len: "int (length s) - int (Suc (length (key_name k))) = int (Suc (length v))" using s by (simp add: nl_def)
  have drp: "drop (Suc (length (key_name k))) s = v @ [NL]" using s by (simp add: nl_def)
  have nul: "NUL \<notin> set s" using v s by (cases k) (simp_all add: nl_def)
  have cmp: "strncmp_at (lbuf st) (lpos st + Suc (length (key_name k))) lit = Inr (prefix lit (v @ [NL]))"
    if "NUL \<notin> set lit" for lit
    using strncmp_at_line [OF that, of "Suc (length (key_name k))" s "lpos st" m] m nul s drp by simp
  have mk: "k \<noteq> K_MAIN_CLASS" if "kind_of_value k \<noteq> BlockValue" using that by auto
  show ?thesis
  proof (cases "kind_of_value k")
    case BoolValue
    then show ?thesis
      using v cmp [of "''false''"] cmp [of "''true''"] mk
      unfolding read_setting_def Let_def eq
      by (auto simp del: strncmp_at.simps add_Suc_right simp add: spec_set_def)
  next
    case BlockValue
    then have "del_tail (map Some (v @ [NL])) (Suc (length v)) = Inr (value_block v)"
      using v del_tail_newline [of v "[]"] by (simp add: value_block_def)
    then show ?thesis
      using BlockValue unfolding read_setting_def Let_def eq len drp
      by (simp add: spec_set_def del: map_append del_tail.simps add_Suc_right of_nat_Suc)
  next
    case IntValue
    then have w: "v \<noteq> []" "list_all is_digit v" "length v < 128" using v by simp_all
    have t: "take 128 (v @ [NL]) = v @ [NL]" using w by simp
    have "del_tail (map Some v @ Some NL # replicate (127 - length v) None) (Suc (length v))
        = Inr (map Some v @ Some NUL # replicate (127 - length v) None)"
      using del_tail_newline [OF digits_trimmed] w by blast
    then show ?thesis
      using IntValue mk atoi_block_digits [OF w(1,2)] w
      unfolding read_setting_def Let_def eq len drp t
      by (simp add: spec_set_def del: del_tail.simps add_Suc_right of_nat_Suc)
  qed
qed

lemma first_line_simple:
  assumes "NUL \<notin> set l" "lpos st + length l + 2 \<le> 2048"
  shows "first_line (nl l) st =
     (let st = st\<lparr>lbuf := write_line (lpos st) (nl l @ [NUL]) (lbuf st)\<rparr>
      in try_bind
          (case classify first_keys (nl l) of
             Setting k \<Rightarrow> read_setting k (nl l) st
           | Section t \<Rightarrow> Inr (st\<lparr>tag := t\<rparr>)
           | Open \<Rightarrow> Inr (st\<lparr>offset := cnt st, ignored := 0\<rparr>)
           | Close \<Rightarrow>
               Inr (st\<lparr>vars := (vars st)\<lparr>conf := set_len (tag st) (cnt st - offset st - ignored st - 1) (conf (vars st))\<rparr>,
                       tag := TAG_INIT\<rparr>)
           | Comment \<Rightarrow> Inr (st\<lparr>ignored := ignored st + 1\<rparr>)
           | Other \<Rightarrow>
               (if is_args (tag st) \<or> dropWhile blank (nl l) = [] then Inr st else Inl (Exited (- 1))))
          (\<lambda>x. Inr (x\<lparr>cnt := cnt x + 1\<rparr>)))"
  using assms unfolding first_line_def plain_takeWhile [OF assms(1)] Let_def
  by (simp add: nl_def)

lemma first_line_setting:
  assumes "plain v" "wf_value (kind_of_value k) v"
    and "lpos st + length (key_name k @ CHR ''='' # v) + 2 \<le> 2048"
  shows "\<exists>st'. first_line (nl (key_name k @ CHR ''='' # v)) st = Inr st' \<and> vars st' = spec_set k v (vars st)
    \<and> lpos st' = lpos st + Suc (length (key_name k)) \<and> (tag st' = tag st \<or> tag st' = MAIN_CLASS)"
proof -
  let ?l = "key_name k @ CHR ''='' # v"
  let ?st = "st\<lparr>lbuf := write_line (lpos st) (nl ?l @ [NUL]) (lbuf st)\<rparr>"
  have nul: "NUL \<notin> set v" using assms(1) by (simp add: plain_def)
  then have l: "NUL \<notin> set ?l" by (cases k) simp_all
  have "read_setting k (nl ?l) ?st = Inr (?st\<lparr>tag := (if k = K_MAIN_CLASS then MAIN_CLASS else tag ?st),
           lpos := lpos ?st + Suc (length (key_name k)), vars := spec_set k v (vars ?st)\<rparr>)"
    by (rule read_setting_printed [OF nul assms(2) _ _ nl_setting]) (use assms(3) in \<open>simp_all add: nl_def\<close>)
  then show ?thesis
    unfolding first_line_simple [OF l assms(3)] Let_def
    by (simp add: classify_setting nl_setting [of k v] del: add_Suc_right)
qed

lemma first_pass_content:
  assumes "list_all wf_sec_line ls" "is_args (tag st)"
    and "list_all (\<lambda>l. lpos st + length (sec_text l) + 2 \<le> 2048) ls"
  shows "\<exists>st'. first_pass (map (nl \<circ> sec_text) ls) st = Inr st' \<and> vars st' = vars st \<and> lpos st' = lpos st
    \<and> tag st' = tag st \<and> offset st' = offset st
    \<and> cnt st' - ignored st' = cnt st - ignored st + int (length (entries ls))"
  using assms
proof (induction ls arbitrary: st)
  case Nil
  then show ?case by simp
next
  case (Cons l ls)
  have nul: "NUL \<notin> set (sec_text l)" using Cons.prems by (cases l) (auto simp: plain_def)
  have "\<exists>st'. first_line (nl (sec_text l)) st = Inr st' \<and> vars st' = vars st \<and> lpos st' = lpos st
    \<and> tag st' = tag st \<and> offset st' = offset st
    \<and> cnt st' - ignored st' = cnt st - ignored st + int (length (entries [l]))"
  proof (cases l)
    case (Entry e)
    then show ?thesis using Cons.prems nul by (simp add: first_line_simple Let_def)
  next
    case (Note s)
    have "classify first_keys (nl (CHR ''#'' # s)) = Comment" by (simp add: nl_def classify_marks)
    then show ?thesis using Note Cons.prems nul by (simp add: first_line_simple Let_def)
  qed
  then obtain st1 where st1: "first_line (nl (sec_text l)) st = Inr st1" "vars st1 = vars st" "lpos st1 = lpos st"
    "tag st1 = tag st" "offset st1 = offset st"
    "cnt st1 - ignored st1 = cnt st - ignored st + int (length (entries [l]))" by blast
  have "length (entries (l # ls)) = length (entries [l]) + length (entries ls)" by (cases l) simp_all
  then show ?case using Cons.IH [of st1] Cons.prems st1 by auto
qed

lemma section_name_plain: "NUL \<notin> set (section_name t)" "NL \<notin> set (section_name t)"
  by (cases t; simp)+

lemma first_pass_section:
  assumes "wf_item (ISec t ls)" "list_all (\<lambda>l. lpos st + length l + 2 \<le> 2048) (item_lines (ISec t ls))"
  shows "\<exists>st'. first_pass (map nl (item_lines (ISec t ls))) st = Inr st' \<and> vars st' = spec_item (ISec t ls) (vars st)
    \<and> lpos st' = lpos st \<and> tag st' = TAG_INIT"
proof -
  have t: "is_args t" and ls: "list_all wf_sec_line ls" using assms by simp_all
  obtain st1 where 1: "first_line (nl (section_name t)) st = Inr st1" "vars st1 = vars st" "lpos st1 = lpos st" "tag st1 = t"
    using t assms(2) by (simp add: first_line_simple section_name_plain classify_section Let_def)
  obtain st2 where 2: "first_line (nl ''['') st1 = Inr st2" "vars st2 = vars st" "lpos st2 = lpos st" "tag st2 = t"
    "offset st2 + 1 = cnt st2" "ignored st2 = 0"
    using assms(2) 1 by (simp add: first_line_simple Let_def) (simp add: nl_def classify_marks)
  have "list_all (\<lambda>l. lpos st2 + length (sec_text l) + 2 \<le> 2048) ls" using assms(2) 2(3) by (simp add: list_all_iff)
  then obtain st3 where 3: "first_pass (map (nl \<circ> sec_text) ls) st2 = Inr st3" "vars st3 = vars st" "lpos st3 = lpos st"
    "tag st3 = t" "offset st3 = offset st2" "cnt st3 - ignored st3 = cnt st2 - ignored st2 + int (length (entries ls))"
    using first_pass_content [OF ls, of st2] t 2 by auto
  have "cnt st3 - offset st3 - ignored st3 - 1 = int (length (entries ls))" using 2 3 by linarith
  then obtain st4 where "first_line (nl '']'') st3 = Inr st4" "vars st4 = spec_item (ISec t ls) (vars st)"
      "lpos st4 = lpos st" "tag st4 = TAG_INIT"
    using assms(2) 3 by (simp add: first_line_simple Let_def) (simp add: nl_def classify_marks)
  then show ?thesis using 1 2 3 by (simp add: first_pass_append)
qed

lemma first_pass_item:
  assumes "wf_item it" "list_all (\<lambda>l. lpos st + length l + 2 \<le> 2048) (item_lines it)"
  shows "\<exists>st'. first_pass (map nl (item_lines it)) st = Inr st' \<and> vars st' = spec_item it (vars st)
    \<and> lpos st' = lpos st + item_drift it \<and> (tag st' = tag st \<and> section_tags [it] = [] \<or> \<not> is_args (tag st'))"
proof (cases it)
  case (ISet k v)
  then show ?thesis using assms first_line_setting [of v k st] by fastforce
next
  case (ISec t ls)
  then show ?thesis using assms first_pass_section [of t ls st] by fastforce
next
  case (INote s)
  then show ?thesis using assms
    by (simp add: first_line_simple plain_def Let_def) (simp add: nl_def classify_marks)
next
  case IBlank
  then show ?thesis using assms
    by (simp add: first_line_simple Let_def) (simp add: nl_def classify_marks blank_def)
qed

lemma first_pass_items:
  assumes "list_all wf_item its" "list_all (\<lambda>l. lpos st + drift its + length l + 2 \<le> 2048) (file_lines its)"
  shows "\<exists>st'. first_pass (map nl (file_lines its)) st = Inr st' \<and> vars st' = spec_conf its (vars st)
    \<and> lpos st' = lpos st + drift its \<and> (tag st' = tag st \<and> section_tags its = [] \<or> \<not> is_args (tag st'))"
  using assms
proof (induction its arbitrary: st)
  case Nil
  then show ?case by (simp add: file_lines_def spec_conf_def drift_def)
next
  case (Cons it its)
  have d: "drift (it # its) = item_drift it + drift its" by (simp add: drift_def)
  have f: "file_lines (it # its) = item_lines it @ file_lines its" by (simp add: file_lines_def)
  have "list_all (\<lambda>l. lpos st + length l + 2 \<le> 2048) (item_lines it)"
    using Cons.prems(2) unfolding d f by (simp add: list_all_append) (auto elim: list.pred_mono_strong)
  then obtain st1 where st1: "first_pass (map nl (item_lines it)) st = Inr st1" "vars st1 = spec_item it (vars st)"
    "lpos st1 = lpos st + item_drift it" "tag st1 = tag st \<and> section_tags [it] = [] \<or> \<not> is_args (tag st1)"
    using first_pass_item [of it st] Cons.prems by auto
  have s: "section_tags (it # its) = section_tags [it] @ section_tags its" by (cases it) simp_all
  have "list_all (\<lambda>l. lpos st1 + drift its + length l + 2 \<le> 2048) (file_lines its)"
    using Cons.prems(2) st1(3) unfolding d f by (simp add: list_all_append) (auto elim: list.pred_mono_strong)
  then show ?case using Cons.IH [of st1] Cons.prems(1) st1
    by (auto simp: f d s first_pass_append spec_conf_def)
qed

section \<open>Second pass over printed items\<close>

definition arg_block :: "string \<Rightarrow> block" where
  "arg_block e = map Some e @ [Some NUL, None]"

definition filled :: "sec_line list \<Rightarrow> block option list" where
  "filled ls = map (Some \<circ> arg_block) (entries ls)"

fun spec_args :: "item \<Rightarrow> wrapper_conf_t \<Rightarrow> wrapper_conf_t" where
  "spec_args (ISec t ls) c = (if entries ls = [] then c else set_arr t (Some (filled ls)) c)"
| "spec_args _ c = c"

definition no_arrays :: "wrapper_conf_t \<Rightarrow> wrapper_conf_t" where
  "no_arrays c = c\<lparr>mainArgs := None, jvmOptions := None,
     ext_conf := (ext_conf c)\<lparr>ext_args := None, ext_jvmOptions := None\<rparr>\<rparr>"

lemma arr_laws:
  "is_args t \<Longrightarrow> arg_arr t (set_arr t a c) = a"
  "t \<noteq> t' \<Longrightarrow> arg_arr t' (set_arr t a c) = arg_arr t' c"
  "set_arr t a (set_arr t b c) = set_arr t a c"
  "no_arrays (set_arr t a c) = no_arrays c"
  by (cases t; simp add: no_arrays_def; cases t'; simp)+

lemma len_laws:
  "is_args t \<Longrightarrow> arg_len t (set_len t n c) = n"
  "t \<noteq> t' \<Longrightarrow> arg_len t' (set_len t n c) = arg_len t' c"
  by (cases t; simp; cases t'; simp)+

lemma arg_len_spec_set: "arg_len t (conf (spec_set k v x)) = arg_len t (conf x)"
  by (cases k; cases t; simp add: spec_set_def)

lemma second_line_simple:
  assumes "NUL \<notin> set l" "lpos st + length l + 2 \<le> 2048"
  shows "second_line (nl l) st =
     (let st = st\<lparr>lbuf := write_line (lpos st) (nl l @ [NUL]) (lbuf st)\<rparr>
      in case classify section_keys (nl l) of
             Section t \<Rightarrow> Inr (st\<lparr>tag := t, cnt := 0\<rparr>)
           | Close \<Rightarrow> Inr (st\<lparr>tag := TAG_INIT\<rparr>)
           | Other \<Rightarrow>
               (if is_args (tag st) then
                  try_bind (store_arg (tag st) (nat (cnt st)) (nl l) (conf (vars st))) (\<lambda>c.
                    Inr (st\<lparr>vars := (vars st)\<lparr>conf := c\<rparr>, cnt := cnt st + 1\<rparr>))
                else Inr st)
           | _ \<Rightarrow> Inr st)"
  using assms unfolding second_line_def plain_takeWhile [OF assms(1)] Let_def
  by (simp add: nl_def)

lemma store_arg_entry:
  assumes "arg_arr t c = Some xs" "i < length xs" "trimmed e"
  shows "store_arg t i (nl e) c = Inr (set_arr t (Some (xs[i := Some (arg_block e)])) c)"
proof -
  have "del_tail (map Some (nl e) @ [None]) (length (nl e)) = Inr (arg_block e)"
    using del_tail_newline [OF assms(3), of "[None]"]
    by (simp add: nl_def arg_block_def del: del_tail.simps)
  then show ?thesis using assms by (simp add: store_arg_def)
qed

lemma second_pass_content:
  assumes "list_all wf_sec_line ls" "is_args t" "tag st = t" "cnt st = int i"
    and "list_all (\<lambda>l. lpos st + length (sec_text l) + 2 \<le> 2048) ls"
    and "entries ls \<noteq> [] \<Longrightarrow> arg_arr t (conf (vars st)) = Some xs \<and> i + length (entries ls) \<le> length xs"
  shows "\<exists>st'. second_pass (map (nl \<circ> sec_text) ls) st = Inr st' \<and> lpos st' = lpos st \<and> tag st' = t
    \<and> vars st' = (vars st)\<lparr>conf := (if entries ls = [] then conf (vars st)
        else set_arr t (Some (take i xs @ filled ls @ drop (i + length (entries ls)) xs)) (conf (vars st)))\<rparr>"
  using assms
proof (induction ls arbitrary: st i xs)
  case Nil
  then show ?case by simp
next
  case (Cons l ls)
  show ?case
  proof (cases l)
    case (Note s)
    have "classify section_keys (nl (CHR ''#'' # s)) = Comment" by (simp add: nl_def classify_marks)
    then obtain st1 where "second_line (nl (sec_text l)) st = Inr st1" "vars st1 = vars st" "lpos st1 = lpos st"
        "tag st1 = t" "cnt st1 = int i"
      using Note Cons.prems by (simp add: second_line_simple plain_def Let_def)
    then show ?thesis using Cons.IH [of st1 i xs] Cons.prems Note by (auto simp: filled_def split: if_splits)
  next
    case (Entry e)
    let ?xs = "xs[i := Some (arg_block e)]"
    have xs: "arg_arr t (conf (vars st)) = Some xs" "i + Suc (length (entries ls)) \<le> length xs"
      using Cons.prems(6) Entry by simp_all
    have e: "NUL \<notin> set e" "trimmed e" "classify section_keys (nl e) = Other"
      using Cons.prems(1) Entry by (auto simp: plain_def classify_entry2)
    then obtain st1 where st1: "second_line (nl (sec_text l)) st = Inr st1" "lpos st1 = lpos st" "tag st1 = t"
        "cnt st1 = int (Suc i)" "vars st1 = (vars st)\<lparr>conf := set_arr t (Some ?xs) (conf (vars st))\<rparr>"
      using Entry Cons.prems xs store_arg_entry [OF xs(1), of i e]
      by (simp add: second_line_simple Let_def)
    have i: "i < length xs" using xs(2) by simp
    have split: "take (Suc i) ?xs = take i xs @ [Some (arg_block e)]" using i by (simp add: take_Suc_conv_app_nth)
    have ls': "list_all wf_sec_line ls" and fit: "list_all (\<lambda>l. lpos st1 + length (sec_text l) + 2 \<le> 2048) ls"
      using Cons.prems(1,5) st1(2) by simp_all
    have arr: "arg_arr t (conf (vars st1)) = Some ?xs \<and> Suc i + length (entries ls) \<le> length ?xs"
      using xs st1(5) Cons.prems(2) by (simp add: arr_laws)
    obtain st2 where st2: "second_pass (map (nl \<circ> sec_text) ls) st1 = Inr st2" "lpos st2 = lpos st1" "tag st2 = t"
       "vars st2 = (vars st1)\<lparr>conf := (if entries ls = [] then conf (vars st1)
        else set_arr t (Some (take (Suc i) ?xs @ filled ls @ drop (Suc i + length (entries ls)) ?xs)) (conf (vars st1)))\<rparr>"
      using Cons.IH [OF ls' Cons.prems(2) st1(3,4) fit arr] by blast
    have "?xs = take i xs @ Some (arg_block e) # drop (Suc i) xs"
      using i by (rule upd_conv_take_nth_drop)
    moreover have "drop (Suc i + length (entries ls)) ?xs = drop (Suc i + length (entries ls)) xs" by simp
    ultimately have "vars st2 = (vars st)\<lparr>conf := set_arr t
        (Some (take i xs @ filled (l # ls) @ drop (i + length (entries (l # ls))) xs)) (conf (vars st))\<rparr>"
      using st1(5) st2(4) split Entry by (cases "entries ls = []") (simp_all add: arr_laws filled_def)
    then show ?thesis using st1(1-4) st2(1-3) Entry by (auto simp: comp_def)
  qed
qed

lemma second_pass_section:
  assumes "wf_item (ISec t ls)" "list_all (\<lambda>l. lpos st + length l + 2 \<le> 2048) (item_lines (ISec t ls))"
    and "entries ls \<noteq> [] \<Longrightarrow> map_option length (arg_arr t (conf (vars st))) = Some (length (entries ls))"
  shows "\<exists>st'. second_pass (map nl (item_lines (ISec t ls))) st = Inr st' \<and> lpos st' = lpos st \<and> tag st' = TAG_INIT
    \<and> vars st' = (vars st)\<lparr>conf := spec_args (ISec t ls) (conf (vars st))\<rparr>"
proof -
  have t: "is_args t" and ls: "list_all wf_sec_line ls" using assms by simp_all
  obtain st1 where 1: "second_line (nl (section_name t)) st = Inr st1" "vars st1 = vars st" "lpos st1 = lpos st"
      "tag st1 = t" "cnt st1 = 0"
    using t assms(2) by (simp add: second_line_simple section_name_plain classify_section Let_def)
  obtain st2 where 2: "second_line (nl ''['') st1 = Inr st2" "vars st2 = vars st" "lpos st2 = lpos st" "tag st2 = t"
      "cnt st2 = 0"
    using assms(2) 1 by (simp add: second_line_simple Let_def) (simp add: nl_def classify_marks)
  obtain xs where xs: "entries ls \<noteq> [] \<Longrightarrow> arg_arr t (conf (vars st)) = Some xs \<and> length xs = length (entries ls)"
    using assms(3) by (cases "arg_arr t (conf (vars st))") auto
  have "list_all (\<lambda>l. lpos st2 + length (sec_text l) + 2 \<le> 2048) ls" using assms(2) 2(3) by (simp add: list_all_iff)
  then obtain st3 where 3: "second_pass (map (nl \<circ> sec_text) ls) st2 = Inr st3" "lpos st3 = lpos st"
      "vars st3 = (vars st)\<lparr>conf := spec_args (ISec t ls) (conf (vars st))\<rparr>"
    using second_pass_content [OF ls t, of st2 0 xs] 2 xs by (auto simp: filled_def split: if_splits)
  obtain st4 where "second_line (nl '']'') st3 = Inr st4" "vars st4 = vars st3" "lpos st4 = lpos st" "tag st4 = TAG_INIT"
    using assms(2) 3 by (simp add: second_line_simple Let_def) (simp add: nl_def classify_marks)
  then show ?thesis using 1 2 3 by (simp add: second_pass_append)
qed

lemma second_pass_item:
  assumes "wf_item it" "list_all (\<lambda>l. lpos st + length l + 2 \<le> 2048) (item_lines it)" "\<not> is_args (tag st)"
    and "\<And>t ls. it = ISec t ls \<Longrightarrow> entries ls \<noteq> [] \<Longrightarrow>
      map_option length (arg_arr t (conf (vars st))) = Some (length (entries ls))"
  shows "\<exists>st'. second_pass (map nl (item_lines it)) st = Inr st' \<and> lpos st' = lpos st \<and> \<not> is_args (tag st')
    \<and> vars st' = (vars st)\<lparr>conf := spec_args it (conf (vars st))\<rparr>"
proof (cases it)
  case (ISet k v)
  then have "NUL \<notin> set (key_name k @ CHR ''='' # v)" using assms(1) by (cases k) (simp_all add: plain_def)
  moreover have "classify section_keys (nl (key_name k @ CHR ''='' # v)) = Other"
    by (simp add: nl_setting classify_setting2)
  ultimately show ?thesis using assms ISet by (simp add: second_line_simple Let_def del: set_append)
next
  case (ISec t ls)
  then show ?thesis using assms second_pass_section [of t ls st] by auto
next
  case (INote s)
  then show ?thesis using assms
    by (simp add: second_line_simple plain_def Let_def) (simp add: nl_def classify_marks)
next
  case IBlank
  then show ?thesis using assms
    by (simp add: second_line_simple Let_def) (simp add: nl_def classify_marks)
qed

lemma spec_args_other: "t \<notin> set (section_tags [it]) \<Longrightarrow> arg_arr t (spec_args it c) = arg_arr t c"
  by (cases it) (auto simp: arr_laws)

lemma section_tags_Cons: "section_tags (it # its) = section_tags [it] @ section_tags its"
  by (cases it) simp_all

lemma section_tags_mem: "ISec t ls \<in> set its \<Longrightarrow> t \<in> set (section_tags its)"
  by (induction its rule: section_tags.induct) auto

lemma second_pass_items:
  assumes "list_all wf_item its" "list_all (\<lambda>l. lpos st + length l + 2 \<le> 2048) (file_lines its)"
    and "\<not> is_args (tag st)" "distinct (section_tags its)"
    and "\<And>t ls. ISec t ls \<in> set its \<Longrightarrow> entries ls \<noteq> [] \<Longrightarrow>
      map_option length (arg_arr t (conf (vars st))) = Some (length (entries ls))"
  shows "\<exists>st'. second_pass (map nl (file_lines its)) st = Inr st'
    \<and> vars st' = (vars st)\<lparr>conf := fold spec_args its (conf (vars st))\<rparr>"
  using assms
proof (induction its arbitrary: st)
  case Nil
  then show ?case by (simp add: file_lines_def)
next
  case (Cons it its)
  have f: "file_lines (it # its) = item_lines it @ file_lines its" by (simp add: file_lines_def)
  obtain st1 where st1: "second_pass (map nl (item_lines it)) st = Inr st1" "lpos st1 = lpos st" "\<not> is_args (tag st1)"
      "vars st1 = (vars st)\<lparr>conf := spec_args it (conf (vars st))\<rparr>"
    using second_pass_item [of it st] Cons.prems by (auto simp: f)
  have "map_option length (arg_arr t (conf (vars st1))) = Some (length (entries ls))"
    if "ISec t ls \<in> set its" "entries ls \<noteq> []" for t ls
  proof -
    have "t \<notin> set (section_tags [it])"
      using Cons.prems(4) section_tags_mem [OF that(1)] section_tags_Cons [of it its] by auto
    then show ?thesis using Cons.prems(5) [of t ls] that st1(4) by (simp add: spec_args_other)
  qed
  then show ?case
    using Cons.IH [of st1] Cons.prems st1 section_tags_Cons [of it its] by (auto simp: f second_pass_append)
qed

section \<open>The whole reader\<close>

lemma no_arrays_fold: "no_arrays (fold spec_args its c) = no_arrays c"
proof (induction its arbitrary: c)
  case (Cons it its)
  then show ?case by (cases it) (simp_all add: arr_laws)
qed simp

lemma arg_arr_fold:
  assumes "distinct (section_tags its)" "ISec t ls \<in> set its" "is_args t" "entries ls \<noteq> []"
  shows "arg_arr t (fold spec_args its c) = Some (filled ls)"
  using assms
proof (induction its arbitrary: c)
  case (Cons it its)
  have keep: "arg_arr t (fold spec_args js d) = arg_arr t d" if "t \<notin> set (section_tags js)" for js d
    using that
  proof (induction js arbitrary: d)
    case (Cons j js)
    then show ?case using section_tags_Cons [of j js] by (simp add: spec_args_other)
  qed simp
  show ?case
  proof (cases "it = ISec t ls")
    case True
    then show ?thesis using Cons.prems keep [of its] by (simp add: arr_laws)
  next
    case False
    then show ?thesis using Cons.IH Cons.prems section_tags_Cons [of it its] by auto
  qed
qed simp

lemma arg_len_spec:
  assumes "distinct (section_tags its)" "ISec t ls \<in> set its" "is_args t"
  shows "arg_len t (conf (spec_conf its x)) = int (length (entries ls))"
  using assms
proof (induction its arbitrary: x)
  case (Cons it its)
  have one: "arg_len t (conf (spec_item j d)) = arg_len t (conf d)" if "t \<notin> set (section_tags [j])" for j d
    using that by (cases j) (auto simp: arg_len_spec_set len_laws)
  have keep: "arg_len t (conf (fold spec_item js d)) = arg_len t (conf d)" if "t \<notin> set (section_tags js)" for js d
    using that
  proof (induction js arbitrary: d)
    case (Cons j js)
    then show ?case using one [of j d] section_tags_Cons [of j js] by simp
  qed simp
  show ?case
  proof (cases "it = ISec t ls")
    case True
    then show ?thesis using Cons.prems keep [of its] by (simp add: spec_conf_def len_laws)
  next
    case False
    then show ?thesis using Cons.IH Cons.prems section_tags_Cons [of it its] by (auto simp: spec_conf_def)
  qed
qed simp

lemma alloc_arrays_ok:
  assumes "jvmOptsLen c > 0"
  shows "\<exists>c'. alloc_arrays c = Inr c' \<and> no_arrays c' = no_arrays c
    \<and> (\<forall>t. is_args t \<longrightarrow> 0 < arg_len t c \<longrightarrow> arg_arr t c' = Some (replicate (nat (arg_len t c)) None))"
proof -
  obtain c' where c': "alloc_arrays c = Inr c'" using assms by (simp add: alloc_arrays_def Let_def)
  have "arg_arr t c' = Some (replicate (nat (arg_len t c)) None)" if "is_args t" "0 < arg_len t c" for t
    using c' that assms by (cases t) (auto simp: alloc_arrays_def calloc_def Let_def split: if_splits)
  moreover have "no_arrays c' = no_arrays c"
    using c' assms by (auto simp: alloc_arrays_def no_arrays_def Let_def split: if_splits)
  ultimately show ?thesis using c' by blast
qed

lemma no_arrays_iff:
  "no_arrays c = c \<longleftrightarrow> mainArgs c = None \<and> jvmOptions c = None \<and> ext_args (ext_conf c) = None
     \<and> ext_jvmOptions (ext_conf c) = None"
proof
  assume "no_arrays c = c"
  then have "mainArgs c = mainArgs (no_arrays c)" "jvmOptions c = jvmOptions (no_arrays c)"
    "ext_args (ext_conf c) = ext_args (ext_conf (no_arrays c))"
    "ext_jvmOptions (ext_conf c) = ext_jvmOptions (ext_conf (no_arrays c))" by simp_all
  then show "mainArgs c = None \<and> jvmOptions c = None \<and> ext_args (ext_conf c) = None \<and> ext_jvmOptions (ext_conf c) = None"
    by (simp add: no_arrays_def)
next
  assume "mainArgs c = None \<and> jvmOptions c = None \<and> ext_args (ext_conf c) = None \<and> ext_jvmOptions (ext_conf c) = None"
  then show "no_arrays c = c" by (cases c; cases "ext_conf c") (simp add: no_arrays_def)
qed

lemma no_arrays_spec_item: "no_arrays (conf x) = conf x \<Longrightarrow> no_arrays (conf (spec_item it x)) = conf (spec_item it x)"
proof (cases it)
  case (ISet k v)
  assume "no_arrays (conf x) = conf x"
  then show ?thesis using ISet by (cases k) (auto simp: spec_set_def no_arrays_iff)
next
  case (ISec t ls)
  assume "no_arrays (conf x) = conf x"
  then show ?thesis using ISec by (cases t) (auto simp: no_arrays_iff)
qed simp_all

lemma no_arrays_spec_conf: "no_arrays (conf x) = conf x \<Longrightarrow> no_arrays (conf (spec_conf its x)) = conf (spec_conf its x)"
  unfolding spec_conf_def by (induction its arbitrary: x) (simp_all add: no_arrays_spec_item)

lemma wf_item_lines: "wf_item it \<Longrightarrow> list_all (\<lambda>l. NL \<notin> set l) (item_lines it)"
proof (cases it)
  case (ISet k v)
  assume "wf_item it"
  then show ?thesis using ISet by (cases k) (simp_all add: plain_def)
next
  case (ISec t ls)
  assume "wf_item it"
  then have "list_all wf_sec_line ls" using ISec by simp
  then have "NL \<notin> set (sec_text l)" if "l \<in> set ls" for l
    using that by (cases l) (auto simp: plain_def list_all_iff)
  then show ?thesis using ISec section_name_plain by (auto simp: list_all_iff)
qed (simp_all add: plain_def)

lemma fgets_print_conf:
  assumes "list_all wf_item its" "list_all (\<lambda>l. drift its + length l + 2 \<le> 2048) (file_lines its)"
  shows "fgets_chunks (print_conf its) = map nl (file_lines its)"
proof -
  have "list_all (\<lambda>l. NL \<notin> set l) (file_lines its)"
    using assms(1) wf_item_lines by (fastforce simp: file_lines_def list_all_iff)
  then have "list_all (\<lambda>l. NL \<notin> set l \<and> length l < 2047) (file_lines its)"
    using assms(2) by (auto simp: list_all_iff)
  then show ?thesis unfolding print_conf_def by (rule fgets_chunks_lines)
qed

lemma no_arrays_init: "no_arrays (init_conf c) = init_conf c"
  by (simp add: no_arrays_iff init_conf_def)

lemma arg_strings_filled:
  assumes "arg_arr t c = Some (filled ls)" "list_all wf_sec_line ls"
  shows "arg_strings t c = Some (map (Some \<circ> Inr) (entries ls))"
proof -
  have "NUL \<notin> set e" if "e \<in> set (entries ls)" for e
    using assms(2) that by (induction ls rule: entries.induct) (auto simp: plain_def)
  then show ?thesis using assms(1) by (auto simp: arg_strings_def filled_def arg_block_def c_str_map)
qed

text \<open>The reader on a printed file, the two passes and the allocation between them together.\<close>

lemma parse_printed:
  assumes wf: "list_all wf_item its"
    and fit: "list_all (\<lambda>l. drift its + length l + 2 \<le> 2048) (file_lines its)"
    and dist: "distinct (section_tags its)"
    and jvm: "ISec JVM_OPTION opts \<in> set its" "entries opts \<noteq> []"
  shows "\<exists>v'. parse_properties tag0 (Some (print_conf its)) v = Inr v'
    \<and> v'\<lparr>conf := no_arrays (conf v')\<rparr> = spec_conf its (v\<lparr>conf := init_conf (conf v)\<rparr>)
    \<and> (\<forall>t ls. ISec t ls \<in> set its \<longrightarrow> entries ls \<noteq> [] \<longrightarrow>
         arg_strings t (conf v') = Some (map (Some \<circ> Inr) (entries ls)))"
proof -
  let ?v = "spec_conf its (v\<lparr>conf := init_conf (conf v)\<rparr>)"
  let ?st = "\<lparr>vars = v\<lparr>conf := init_conf (conf v)\<rparr>, lbuf = (\<lambda>_. None), lpos = 0, tag = tag0,
      cnt = 0, offset = 0, ignored = 0\<rparr> :: pstate"
  obtain st1 where st1: "first_pass (map nl (file_lines its)) ?st = Inr st1" "vars st1 = ?v" "lpos st1 = drift its"
      "\<not> is_args (tag st1)"
    using first_pass_items [OF wf, of ?st] fit section_tags_mem [OF jvm(1)] by fastforce
  have wf_sec: "is_args t \<and> list_all wf_sec_line ls" if "ISec t ls \<in> set its" for t ls
    using wf that by (fastforce simp: list_all_iff)
  have "0 < jvmOptsLen (conf ?v)"
    using arg_len_spec [OF dist jvm(1), of "v\<lparr>conf := init_conf (conf v)\<rparr>"] jvm(2) by simp
  then obtain c where c: "alloc_arrays (conf ?v) = Inr c" "no_arrays c = no_arrays (conf ?v)"
      and arr: "\<And>t. is_args t \<Longrightarrow> 0 < arg_len t (conf ?v) \<Longrightarrow> arg_arr t c = Some (replicate (nat (arg_len t (conf ?v))) None)"
    using alloc_arrays_ok [of "conf ?v"] by blast
  have len: "map_option length (arg_arr t c) = Some (length (entries ls))"
    if "ISec t ls \<in> set its" "entries ls \<noteq> []" for t ls
    using arr [of t] arg_len_spec [OF dist that(1), of "v\<lparr>conf := init_conf (conf v)\<rparr>"] wf_sec [OF that(1)] that(2)
    by simp
  let ?st2 = "st1\<lparr>vars := (vars st1)\<lparr>conf := c\<rparr>, cnt := 0, offset := 0\<rparr>"
  obtain st3 where st3: "second_pass (map nl (file_lines its)) ?st2 = Inr st3"
      "vars st3 = ?v\<lparr>conf := fold spec_args its c\<rparr>"
    using second_pass_items [OF wf, of ?st2] fit st1 dist len by auto
  have "parse_properties tag0 (Some (print_conf its)) v = Inr (vars st3)"
    using st1 c st3 by (simp add: parse_properties_def fgets_print_conf [OF wf fit] Let_def)
  moreover have "no_arrays (conf ?v) = conf ?v"
    by (rule no_arrays_spec_conf) (simp add: no_arrays_init)
  then have "(vars st3)\<lparr>conf := no_arrays (conf (vars st3))\<rparr> = ?v"
    using st3(2) c(2) by (simp add: no_arrays_fold)
  moreover have "arg_strings t (conf (vars st3)) = Some (map (Some \<circ> Inr) (entries ls))"
    if "ISec t ls \<in> set its" "entries ls \<noteq> []" for t ls
    using arg_arr_fold [OF dist that(1), of c] wf_sec [OF that(1)] that(2) st3(2)
    by (intro arg_strings_filled) simp_all
  ultimately show ?thesis by blast
qed

text \<open>
  C15: a configuration file whose settings and sections are well-formed, with each section at most
  once, entries for the JVM options, and lines that fit behind the drift of the line pointer, is
  read back completely: every setting and every length has the value the file gives it, and every
  argument array holds, terminated, exactly the entries of its section in order, without the
  comments between them. The initial content of the uninitialised variables plays no role.
\<close>

theorem parse_properties_roundtrip:
  assumes wf: "list_all wf_item its"
    and fit: "list_all (\<lambda>l. drift its + length l + 2 \<le> 2048) (file_lines its)"
    and dist: "distinct (section_tags its)"
    and jvm: "ISec JVM_OPTION opts \<in> set its" "entries opts \<noteq> []"
  shows "\<exists>v'. parse_properties tag0 (Some (print_conf its)) v = Inr v'
    \<and> v'\<lparr>conf := no_arrays (conf v')\<rparr> = spec_conf its (v\<lparr>conf := init_conf (conf v)\<rparr>)
    \<and> (\<forall>t ls. ISec t ls \<in> set its \<longrightarrow> entries ls \<noteq> [] \<longrightarrow>
         arg_strings t (conf v') = Some (map (Some \<circ> Inr) (entries ls)))"
  using parse_printed [OF assms] .

definition ex_items :: "item list" where
  "ex_items =
     [INote '' settings'', ISet K_NAME ''test daemon'', ISet K_VM_STDOUT ''true'', ISet K_VM_CHECKS_INTERVAL ''10'',
      IBlank, ISec MAIN_ARGS [Entry ''org.daemon.test.MainTest''],
      ISec JVM_OPTION [Entry ''-Xms10M'', Note ''heap'', Entry ''-Xmx64M'']]"

lemma parse_properties_roundtrip_witness:
  "list_all wf_item ex_items \<and> entries [Entry ''-Xms10M'', Note ''heap'', Entry ''-Xmx64M''] \<noteq> []
   \<and> (\<exists>v'. parse_properties TAG_INIT (Some (print_conf ex_items)) ex_vars0 = Inr v'
     \<and> arg_strings JVM_OPTION (conf v') = Some (map (Some \<circ> Inr) [''-Xms10M'', ''-Xmx64M'']))"
proof -
  have wf: "list_all wf_item ex_items" by code_simp
  have fit: "list_all (\<lambda>l. drift ex_items + length l + 2 \<le> 2048) (file_lines ex_items)" by code_simp
  have dist: "distinct (section_tags ex_items)" by code_simp
  have m: "ISec JVM_OPTION [Entry ''-Xms10M'', Note ''heap'', Entry ''-Xmx64M''] \<in> set ex_items"
    by (simp add: ex_items_def)
  have e: "entries [Entry ''-Xms10M'', Note ''heap'', Entry ''-Xmx64M''] = [''-Xms10M'', ''-Xmx64M'']" by simp
  then show ?thesis
    using parse_properties_roundtrip [OF wf fit dist m, of TAG_INIT ex_vars0] m wf by force
qed

section \<open>Where the reader leaves its memory\<close>

lemma first_pass_drift:
  "0 < n \<Longrightarrow> 2028 < lpos st + 14 * (n - 1) \<Longrightarrow>
   first_pass (replicate n (nl ''wrapper.debug=true'')) st = Inl (Undef LineOverflow)"
proof (induction n arbitrary: st)
  case (Suc n)
  show ?case
  proof (cases "2028 < lpos st")
    case True
    then show ?thesis by (simp add: first_line_def nl_def)
  next
    case False
    have k: "key_name K_DEBUG @ CHR ''='' # ''true'' = ''wrapper.debug=true''" by simp
    obtain st' where "first_line (nl ''wrapper.debug=true'') st = Inr st'" "lpos st' = lpos st + 14"
      using first_line_setting [of "''true''" K_DEBUG st] False by (auto simp: plain_def)
    moreover have "0 < n" using Suc.prems False by (cases n) simp_all
    ultimately show ?thesis using Suc.IH [of st'] Suc.prems by (cases n) simp_all
  qed
qed simp

text \<open>
  The line pointer is never moved back, so a file with 146 or more lines
  \<open>wrapper.debug=true\<close> of 18 characters makes \<open>fgets\<close> write behind the 2048 bytes of the line buffer.
\<close>

theorem parse_properties_drift_overflow:
  assumes "146 \<le> n"
  shows "parse_properties tag0 (Some (concat (replicate n (nl ''wrapper.debug=true'')))) v = Inl (Undef LineOverflow)"
proof -
  have "list_all (\<lambda>l. NL \<notin> set l \<and> length l < 2047) (replicate n ''wrapper.debug=true'')"
    by (auto simp: list_all_iff)
  from fgets_chunks_lines [OF this]
  have "fgets_chunks (concat (replicate n (nl ''wrapper.debug=true''))) = replicate n (nl ''wrapper.debug=true'')"
    by simp
  then show ?thesis
    using assms by (simp add: parse_properties_def first_pass_drift)
qed

lemma parse_properties_drift_overflow_witness:
  "(146 :: nat) \<le> 146 \<and>
   parse_properties TAG_INIT (Some (concat (replicate 146 (nl ''wrapper.debug=true'')))) ex_vars0 = Inl (Undef LineOverflow)"
  using parse_properties_drift_overflow [of 146 TAG_INIT ex_vars0] by simp

text \<open>A section with a stray line \<open>x\<close> before its bracket.\<close>

definition stray_lines :: "string \<Rightarrow> string list \<Rightarrow> string list" where
  "stray_lines x es = section_name JVM_OPTION # x # ''['' # es @ ['']'']"

definition short_entry :: "string \<Rightarrow> bool" where
  "short_entry e \<longleftrightarrow> wf_sec_line (Entry e) \<and> length e < 2000"

lemma entries_map: "map (nl \<circ> sec_text) (map Entry js) = map nl js" "entries (map Entry js) = js"
  by (induction js) simp_all

lemma short_entries:
  assumes "list_all short_entry js"
  shows "list_all wf_sec_line (map Entry js)" "list_all (\<lambda>l. length (sec_text l) + 2 \<le> 2048) (map Entry js)"
  using assms by (induction js) (simp_all add: short_entry_def)

lemma stray_first_pass:
  assumes x: "short_entry x" and es: "list_all short_entry es" and st: "lpos st = 0"
  shows "\<exists>st'. first_pass (map nl (stray_lines x es)) st = Inr st' \<and> lpos st' = 0
    \<and> vars st' = (vars st)\<lparr>conf := set_len JVM_OPTION (int (length es)) (conf (vars st))\<rparr>"
proof -
  obtain st1 where 1: "first_line (nl (section_name JVM_OPTION)) st = Inr st1" "vars st1 = vars st" "lpos st1 = 0"
      "tag st1 = JVM_OPTION"
    using st classify_section(1) [of JVM_OPTION] by (simp add: first_line_simple Let_def)
  obtain st2 where 2: "first_line (nl x) st1 = Inr st2" "vars st2 = vars st" "lpos st2 = 0" "tag st2 = JVM_OPTION"
    using x 1 by (simp add: first_line_simple short_entry_def plain_def Let_def)
  obtain st3 where 3: "first_line (nl ''['') st2 = Inr st3" "vars st3 = vars st" "lpos st3 = 0" "tag st3 = JVM_OPTION"
    "offset st3 + 1 = cnt st3" "ignored st3 = 0"
    using 2 by (simp add: first_line_simple Let_def) (simp add: nl_def classify_marks)
  obtain st4 where 4: "first_pass (map nl es) st3 = Inr st4" "vars st4 = vars st" "lpos st4 = 0" "tag st4 = JVM_OPTION"
    "offset st4 = offset st3" "cnt st4 - ignored st4 = cnt st3 - ignored st3 + int (length es)"
    using first_pass_content [OF short_entries(1) [OF es], of st3] short_entries(2) [OF es] 3
    unfolding entries_map by auto
  have "cnt st4 - offset st4 - ignored st4 - 1 = int (length es)" using 3 4 by linarith
  then obtain st5 where 5: "first_line (nl '']'') st4 = Inr st5" "lpos st5 = 0"
      "vars st5 = (vars st)\<lparr>conf := set_len JVM_OPTION (int (length es)) (conf (vars st))\<rparr>"
    using 4 by (simp add: first_line_simple Let_def) (simp add: nl_def classify_marks)
  then show ?thesis using 1 2 3 4 by (auto simp: first_pass_append stray_lines_def)
qed

lemma second_line_full:
  assumes "short_entry e" "lpos st = 0" "tag st = JVM_OPTION" "cnt st = int i"
    and "arg_arr JVM_OPTION (conf (vars st)) = Some xs" "length xs \<le> i"
  shows "second_line (nl e) st = Inl (Undef WildWrite)"
  using assms by (simp add: second_line_simple short_entry_def plain_def Let_def classify_entry2 store_arg_def)

text \<open>Storing an entry, then another, until the array is full.\<close>

lemma second_pass_full:
  assumes "list_all short_entry es" "lpos st = 0" "tag st = JVM_OPTION" "cnt st = int i"
    and "arg_arr JVM_OPTION (conf (vars st)) = Some xs" "i \<le> length xs" "length xs < i + length es"
  shows "second_pass (map nl es) st = Inl (Undef WildWrite)"
  using assms
proof (induction es arbitrary: st i xs)
  case (Cons e es)
  show ?case
  proof (cases "i = length xs")
    case True
    then have "second_line (nl e) st = Inl (Undef WildWrite)"
      using Cons.prems by (intro second_line_full [of e st i xs]) simp_all
    then show ?thesis by simp
  next
    case False
    then have i: "i < length xs" using Cons.prems by simp
    have e: "NUL \<notin> set e" "trimmed e" "classify section_keys (nl e) = Other" "length e < 2000"
      using Cons.prems(1) by (auto simp: short_entry_def plain_def classify_entry2)
    then obtain st1 where "second_line (nl e) st = Inr st1" "lpos st1 = 0" "tag st1 = JVM_OPTION"
        "cnt st1 = int (Suc i)" "arg_arr JVM_OPTION (conf (vars st1)) = Some (xs[i := Some (arg_block e)])"
      using Cons.prems store_arg_entry [of JVM_OPTION "conf (vars st)" xs i e, OF Cons.prems(5) i]
      by (simp add: second_line_simple Let_def)
    then show ?thesis
      using Cons.IH [of st1 "Suc i" "xs[i := Some (arg_block e)]"] Cons.prems i by simp
  qed
qed simp

lemma stray_second_pass:
  assumes x: "short_entry x" and es: "list_all short_entry es" "es \<noteq> []" and st: "lpos st = 0"
    and xs: "arg_arr JVM_OPTION (conf (vars st)) = Some xs" "length xs = length es"
  shows "second_pass (map nl (stray_lines x es)) st = Inl (Undef WildWrite)"
proof -
  have x': "NUL \<notin> set x" "trimmed x" "classify section_keys (nl x) = Other" "length x < 2000"
    using x by (auto simp: short_entry_def plain_def classify_entry2)
  have 0: "0 < length xs" using es xs by simp
  obtain st1 where 1: "second_line (nl (section_name JVM_OPTION)) st = Inr st1" "vars st1 = vars st" "lpos st1 = 0"
      "tag st1 = JVM_OPTION" "cnt st1 = 0"
    using st classify_section(2) [of JVM_OPTION] by (simp add: second_line_simple Let_def)
  obtain st2 where 2: "second_line (nl x) st1 = Inr st2" "lpos st2 = 0" "tag st2 = JVM_OPTION" "cnt st2 = 1"
      "arg_arr JVM_OPTION (conf (vars st2)) = Some (xs[0 := Some (arg_block x)])"
    using x' 1 xs store_arg_entry [of JVM_OPTION "conf (vars st)" xs 0 x, OF xs(1) 0]
    by (simp add: second_line_simple Let_def)
  obtain st3 where 3: "second_line (nl ''['') st2 = Inr st3" "lpos st3 = 0" "tag st3 = JVM_OPTION" "cnt st3 = 1"
      "vars st3 = vars st2"
    using 2 by (simp add: second_line_simple Let_def) (simp add: nl_def classify_marks)
  have "second_pass (map nl es) st3 = Inl (Undef WildWrite)"
    by (rule second_pass_full [of _ _ 1 "xs[0 := Some (arg_block x)]"]) (use es xs 2 3 0 in \<open>auto simp: Suc_le_eq\<close>)
  then show ?thesis using 1 2 3 by (simp add: stray_lines_def second_pass_append)
qed

text \<open>
  A line between the name of a section and its opening bracket is not counted by the first
  pass but stored by the second, so the last entry of the section is written behind the array.
\<close>

theorem parse_properties_stray_line:
  assumes x: "short_entry x" and es: "list_all short_entry es" "es \<noteq> []"
  shows "parse_properties tag0 (Some (concat (map nl (stray_lines x es)))) v = Inl (Undef WildWrite)"
proof -
  let ?st = "\<lparr>vars = v\<lparr>conf := init_conf (conf v)\<rparr>, lbuf = (\<lambda>_. None), lpos = 0, tag = tag0,
      cnt = 0, offset = 0, ignored = 0\<rparr> :: pstate"
  have "list_all (\<lambda>l. NL \<notin> set l \<and> length l < 2047) (stray_lines x es)"
    using x es by (auto simp: list_all_iff short_entry_def plain_def stray_lines_def)
  note fg = fgets_chunks_lines [OF this]
  obtain st1 where st1: "first_pass (map nl (stray_lines x es)) ?st = Inr st1" "lpos st1 = 0"
      "vars st1 = (vars ?st)\<lparr>conf := set_len JVM_OPTION (int (length es)) (conf (vars ?st))\<rparr>"
    using stray_first_pass [OF x es(1), of ?st] by auto
  then have "0 < jvmOptsLen (conf (vars st1))" "arg_len JVM_OPTION (conf (vars st1)) = int (length es)"
    using es(2) by simp_all
  then obtain c where "alloc_arrays (conf (vars st1)) = Inr c" "arg_arr JVM_OPTION c = Some (replicate (length es) None)"
    using alloc_arrays_ok [of "conf (vars st1)"] es(2) by (metis is_args.simps(5) length_greater_0_conv nat_int of_nat_0_less_iff)
  then obtain xs where c: "alloc_arrays (conf (vars st1)) = Inr c" "arg_arr JVM_OPTION c = Some xs" "length xs = length es"
    by simp
  have "second_pass (map nl (stray_lines x es)) (st1\<lparr>vars := (vars st1)\<lparr>conf := c\<rparr>, cnt := 0, offset := 0\<rparr>)
      = Inl (Undef WildWrite)"
    using st1(2) c by (intro stray_second_pass [OF x es]) simp_all
  then show ?thesis using st1(1) c(1) fg by (simp add: parse_properties_def Let_def)
qed

lemma parse_properties_stray_line_witness:
  "short_entry ''heap'' \<and> list_all short_entry [''-Xmx64M''] \<and>
   parse_properties TAG_INIT (Some (concat (map nl (stray_lines ''heap'' [''-Xmx64M''])))) ex_vars0
     = Inl (Undef WildWrite)"
proof -
  have "short_entry ''heap''" "list_all short_entry [''-Xmx64M'']" by code_simp+
  then show ?thesis using parse_properties_stray_line [of "''heap''" "[''-Xmx64M'']" TAG_INIT ex_vars0] by simp
qed

end
