(* ===== verification/DaemonSup.thy ===== *)
theory DaemonSup
  imports DaemonConf
begin

text \<open>
  The supervisor itself (\<open>app/daemon/src/main/c/daemon.cpp\<close>): the signal handlers, the check of the
  worker, the fork of the two JVM processes and the supervision loop of \<open>main\<close>, with the shared
  memory of \<open>daemon.h\<close> and the notification of \<open>org_daemon_wrapper_LibC.cpp\<close>.

  The kernel is modelled as far as the code uses it: the children that run and those that have
  terminated and were not waited for, each with the role it was forked for (the role is no part of
  the program's state), and the signals the program sent. A blocking \<open>waitpid\<close> returns when its
  child has terminated. The processes \<open>popen\<close> starts for a check are not among the children.
\<close>

section \<open>State\<close>

record wrapper_shm_pstat_t =
  pid :: int
  status :: int

record wrapper_shm_t =
  dp :: wrapper_shm_pstat_t
  mp :: wrapper_shm_pstat_t
  wp :: wrapper_shm_pstat_t

datatype role = Master | Worker

type_synonym child = "int \<times> role"

record sup =
  shutdown :: bool
  wpid :: int
  mpid :: int
  shm :: wrapper_shm_t
  exit_timeout :: int
  count_sigterm :: int
  sigterm_start_time :: int
  m_restart_times :: int
  w_restart_times :: int
  start :: int
  checks_tries :: int
  running :: "child list"
  zombies :: "child list"
  sent :: "(int \<times> int) list"
  dead :: bool

definition set_wp_pid :: "int \<Rightarrow> sup \<Rightarrow> sup" where
  "set_wp_pid p s = s\<lparr>shm := (shm s)\<lparr>wp := (wp (shm s))\<lparr>pid := p\<rparr>\<rparr>\<rparr>"

definition set_mp_pid :: "int \<Rightarrow> sup \<Rightarrow> sup" where
  "set_mp_pid p s = s\<lparr>shm := (shm s)\<lparr>mp := (mp (shm s))\<lparr>pid := p\<rparr>\<rparr>\<rparr>"

definition set_dp_status :: "int \<Rightarrow> sup \<Rightarrow> sup" where
  "set_dp_status x s = s\<lparr>shm := (shm s)\<lparr>dp := (dp (shm s))\<lparr>status := x\<rparr>\<rparr>\<rparr>"

definition wp_pid :: "sup \<Rightarrow> int" where "wp_pid s = pid (wp (shm s))"
definition mp_pid :: "sup \<Rightarrow> int" where "mp_pid s = pid (mp (shm s))"
definition dp_status :: "sup \<Rightarrow> int" where "dp_status s = status (dp (shm s))"

definition SIGHUP :: int where "SIGHUP = 1"
definition SIGKILL :: int where "SIGKILL = 9"
definition SIGTERM :: int where "SIGTERM = 15"

section \<open>Signals\<close>

definition send :: "int \<Rightarrow> int \<Rightarrow> sup \<Rightarrow> sup" where
  "send p sig s = s\<lparr>sent := sent s @ [(p, sig)]\<rparr>"

text \<open>\<open>kill(p, 9)\<close>; with 0 it reaches the whole process group, so the supervisor dies as well.\<close>

definition kill_hard :: "int \<Rightarrow> sup \<Rightarrow> sup" where
  "kill_hard p s = (if p = 0 then (send p SIGKILL s)\<lparr>dead := True\<rparr> else send p SIGKILL s)"

text \<open>
  \<open>timer\<close> is an \<open>unsigned long\<close>, and \<open>jvmExitTimeout\<close> is converted to one for the comparison.
  The second \<open>count_sigterm++\<close> stands in the condition, so it also happens when the branch is not
  taken. \<open>now\<close> is what \<open>gettimeofday\<close> answers, in microseconds.
\<close>

definition sigterm_handler :: "int \<Rightarrow> int \<Rightarrow> sup \<Rightarrow> sup" where
  "sigterm_handler signo now s0 =
     (if signo = SIGHUP \<or> signo = SIGTERM then
        let s1 = s0\<lparr>count_sigterm := count_sigterm s0 + 1\<rparr>;
            stop = (\<lambda>s. let s' = s\<lparr>shutdown := True\<rparr>
                        in if 0 < wp_pid s' then send (wp_pid s') SIGTERM s' else s')
        in if count_sigterm s1 = 1 then stop (s1\<lparr>sigterm_start_time := now\<rparr>)
           else
             let c = count_sigterm s1; s2 = s1\<lparr>count_sigterm := c + 1\<rparr>
             in if c mod 10000 = 0 then stop s2
                else if exit_timeout s2 mod 2 ^ 64 < (now - sigterm_start_time s2) mod 2 ^ 64 div 1000000
                then kill_hard (wp_pid s2) s2
                else stop s2
      else s0)"

text \<open>
  \<open>kill\<close>: a positive number names a process; 0 names every process of the caller's group, the
  caller included, which runs its handler for \<open>SIGTERM\<close> before \<open>kill\<close> returns.
\<close>

definition kill :: "int \<Rightarrow> int \<Rightarrow> int \<Rightarrow> sup \<Rightarrow> sup" where
  "kill now p sig s =
     (if p = 0 \<and> sig = SIGTERM then sigterm_handler SIGTERM now (send p sig s) else send p sig s)"

definition reap :: "int \<Rightarrow> sup \<Rightarrow> sup" where
  "reap p s = s\<lparr>running := filter (\<lambda>c. fst c \<noteq> p) (running s), zombies := filter (\<lambda>c. fst c \<noteq> p) (zombies s)\<rparr>"

definition children :: "sup \<Rightarrow> child list" where
  "children s = zombies s @ running s"

text \<open>\<open>waitpid(p, NULL, 0)\<close>: with 0, whichever child of the group terminates first.\<close>

definition waitpid_block :: "int \<Rightarrow> sup \<Rightarrow> int \<times> sup" where
  "waitpid_block p s =
     (if p = 0 then (case children s of [] \<Rightarrow> (- 1, s) | c # _ \<Rightarrow> (fst c, reap (fst c) s))
      else if p \<in> fst ` set (children s) then (p, reap p s) else (- 1, s))"

text \<open>
  One round of the loop in \<open>sigchld_handler\<close>, for the child \<open>p\<close> that \<open>waitpid(-1, NULL, WNOHANG)\<close>
  returned: the branch for the master process, which leaves in \<open>pid\<close> what its own \<open>waitpid\<close>
  returned, and the branch for the worker. The condition of the second branch compares \<open>pid\<close> and
  \<open>mpid\<close> as the first branch left them.
\<close>

definition master_gone :: "int \<Rightarrow> sup \<Rightarrow> int \<times> sup" where
  "master_gone now s =
     (case waitpid_block (mpid s) (kill now (mpid s) SIGTERM s) of
        (q, t) \<Rightarrow> (q, (set_mp_pid 0 t)\<lparr>mpid := - 1, m_restart_times := m_restart_times t + 1, start := now\<rparr>))"

definition worker_gone :: "int \<Rightarrow> sup \<Rightarrow> sup" where
  "worker_gone now s =
     (case waitpid_block (wpid s) (kill now (wpid s) SIGTERM s) of
        (q, t) \<Rightarrow> (set_wp_pid 0 t)\<lparr>wpid := - 1, w_restart_times := w_restart_times t + 1, start := now\<rparr>)"

definition child_gone :: "int \<Rightarrow> int \<Rightarrow> sup \<Rightarrow> sup" where
  "child_gone now p s0 =
     (case if p = mpid s0 then master_gone now s0 else (p, s0) of
        (p1, s1) \<Rightarrow>
          let s2 = s1\<lparr>wpid := wp_pid s1\<rparr>
          in if p1 = wpid s2 \<or> p1 = mpid s2 then worker_gone now s2 else s2)"

lemma sigterm_handler_children [simp]:
  "running (sigterm_handler g now s) = running s" "zombies (sigterm_handler g now s) = zombies s"
  by (simp_all add: sigterm_handler_def kill_hard_def send_def Let_def)

lemma kill_children [simp]: "running (kill now p g s) = running s" "zombies (kill now p g s) = zombies s"
  by (simp_all add: kill_def send_def)

lemma set_pid_children [simp]:
  "running (set_wp_pid p s) = running s" "zombies (set_wp_pid p s) = zombies s"
  "running (set_mp_pid p s) = running s" "zombies (set_mp_pid p s) = zombies s"
  by (simp_all add: set_wp_pid_def set_mp_pid_def)

lemma waitpid_block_children:
  assumes "waitpid_block p s = (q, t)"
  shows "set (running t) \<subseteq> set (running s)" "set (zombies t) \<subseteq> set (zombies s)"
    "length (zombies t) \<le> length (zombies s)" "p \<noteq> 0 \<Longrightarrow> p \<notin> fst ` set (children t)"
  using assms by (auto simp: waitpid_block_def reap_def children_def split: list.splits if_splits)

lemma master_gone_children:
  assumes "master_gone now s = (q, t)"
  shows "set (running t) \<subseteq> set (running s)" "set (zombies t) \<subseteq> set (zombies s)"
    "length (zombies t) \<le> length (zombies s)" "mpid s \<noteq> 0 \<Longrightarrow> mpid s \<notin> fst ` set (children t)"
proof -
  obtain u where "waitpid_block (mpid s) (kill now (mpid s) SIGTERM s) = (q, u)" "running t = running u" "zombies t = zombies u"
    using assms by (auto simp: master_gone_def split: prod.splits)
  with waitpid_block_children [OF this(1)]
  show "set (running t) \<subseteq> set (running s)" "set (zombies t) \<subseteq> set (zombies s)"
    "length (zombies t) \<le> length (zombies s)" "mpid s \<noteq> 0 \<Longrightarrow> mpid s \<notin> fst ` set (children t)"
    by (simp_all add: children_def)
qed

lemma worker_gone_children:
  "set (running (worker_gone now s)) \<subseteq> set (running s)" "set (zombies (worker_gone now s)) \<subseteq> set (zombies s)"
  "length (zombies (worker_gone now s)) \<le> length (zombies s)"
  "wpid s \<noteq> 0 \<Longrightarrow> wpid s \<notin> fst ` set (children (worker_gone now s))"
proof -
  obtain q u where u: "waitpid_block (wpid s) (kill now (wpid s) SIGTERM s) = (q, u)" by fastforce
  then have "running (worker_gone now s) = running u" "zombies (worker_gone now s) = zombies u"
    by (simp_all add: worker_gone_def)
  with waitpid_block_children [OF u]
  show "set (running (worker_gone now s)) \<subseteq> set (running s)" "set (zombies (worker_gone now s)) \<subseteq> set (zombies s)"
    "length (zombies (worker_gone now s)) \<le> length (zombies s)"
    "wpid s \<noteq> 0 \<Longrightarrow> wpid s \<notin> fst ` set (children (worker_gone now s))"
    by (simp_all add: children_def)
qed

lemma child_gone_children:
  "set (running (child_gone now p s)) \<subseteq> set (running s)" "set (zombies (child_gone now p s)) \<subseteq> set (zombies s)"
  "length (zombies (child_gone now p s)) \<le> length (zombies s)"
proof -
  obtain p1 s1 where s1: "(if p = mpid s then master_gone now s else (p, s)) = (p1, s1)" by fastforce
  then have m: "set (running s1) \<subseteq> set (running s)" "set (zombies s1) \<subseteq> set (zombies s)" "length (zombies s1) \<le> length (zombies s)"
    using master_gone_children [of now s p1 s1] by (auto split: if_splits)
  let ?s2 = "s1\<lparr>wpid := wp_pid s1\<rparr>"
  have w: "set (running (worker_gone now ?s2)) \<subseteq> set (running s)" "set (zombies (worker_gone now ?s2)) \<subseteq> set (zombies s)"
    "length (zombies (worker_gone now ?s2)) \<le> length (zombies s)"
    by (rule order_trans [OF worker_gone_children(1)], use m in simp,
        rule order_trans [OF worker_gone_children(2)], use m in simp,
        rule order_trans [OF worker_gone_children(3)], use m in simp)
  have "child_gone now p s = (if p1 = wp_pid s1 \<or> p1 = mpid s1 then worker_gone now ?s2 else ?s2)"
    by (simp add: child_gone_def s1)
  then have "child_gone now p s = worker_gone now ?s2 \<or> child_gone now p s = ?s2" by presburger
  then show "set (running (child_gone now p s)) \<subseteq> set (running s)" "set (zombies (child_gone now p s)) \<subseteq> set (zombies s)"
    "length (zombies (child_gone now p s)) \<le> length (zombies s)"
    using m w by (elim disjE; simp)+
qed

text \<open>
  The handler: \<open>waitpid(-1, NULL, WNOHANG)\<close> reaps a terminated child while there is one. Every round
  takes a terminated child away, so the loop ends.
\<close>

function sigchld_handler :: "int \<Rightarrow> sup \<Rightarrow> sup" where
  "sigchld_handler now s =
     (case zombies s of
        [] \<Rightarrow> s
      | c # cs \<Rightarrow> sigchld_handler now (child_gone now (fst c) (s\<lparr>zombies := cs\<rparr>)))"
  by pat_completeness auto
termination
proof (relation "measure (\<lambda>(now, s). length (zombies s))", simp)
  fix now and s :: sup and c and cs :: "child list"
  assume "zombies s = c # cs"
  then show "((now, child_gone now (fst c) (s\<lparr>zombies := cs\<rparr>)), (now, s)) \<in> measure (\<lambda>(now, s). length (zombies s))"
    using child_gone_children(3) [of now "fst c" "s\<lparr>zombies := cs\<rparr>"] by simp
qed

declare sigchld_handler.simps [simp del]

section \<open>The check of the worker\<close>

fun contains :: "string \<Rightarrow> string \<Rightarrow> bool" where
  "contains kw [] = (kw = [])"
| "contains kw (c # cs) = (prefix kw (c # cs) \<or> contains kw cs)"

text \<open>
  \<open>out\<close> is what the command prints, \<open>None\<close> when \<open>popen\<close> fails. The buffer holds 2048 bytes; a
  longer output leaves it without a terminating zero, and \<open>strstr\<close> reads on unless it finds the
  keyword before.
\<close>

definition checkJVM :: "wrapper_conf_t \<Rightarrow> string option \<Rightarrow> sup \<Rightarrow> stop + (int \<times> sup)" where
  "checkJVM c out s =
     (case (checks_cmd c, checks_keyword c) of
        (Some _, Some kwb) \<Rightarrow>
          (case out of
             None \<Rightarrow> Inr (- 1, s)
           | Some text_out \<Rightarrow>
               let bash_buffer = take 2048 text_out;
                   str = takeWhile (\<lambda>ch. ch \<noteq> NUL) bash_buffer
               in try_bind (c_str kwb) (\<lambda>kw.
                    if contains kw str then
                      let s1 = s\<lparr>checks_tries := checks_tries s + 1\<rparr>
                      in if checks_retryTimes c < checks_tries s1
                         then Inr (1, s1\<lparr>checks_tries := 0\<rparr>)
                         else Inr (0, s1)
                    else if length str = 2048 then Inl (Undef PastEnd)
                    else Inr (0, s\<lparr>checks_tries := 0\<rparr>)))
      | _ \<Rightarrow> Inr (0, s))"

section \<open>The supervision loop\<close>

text \<open>
  Where \<open>main\<close> is: at the head of the loop, between the \<open>fork\<close> of a process and the assignments
  that record its number, waiting for the master, before the choice of the worker, in the sleep
  before the check, in the loop after a failed check, at the loop's condition, behind the loop.
\<close>

datatype loc = Top | MForked int | MReturned int | WaitMaster | AfterWait | Pick | WForked int | WReturned int
  | Sleeping | Spin | LoopEnd | Leaving | Stopped | Failed | Crashed

definition final :: "loc \<Rightarrow> bool" where
  "final l \<longleftrightarrow> l = Stopped \<or> l = Failed \<or> l = Crashed"

definition fresh :: "int \<Rightarrow> sup \<Rightarrow> bool" where
  "fresh p s \<longleftrightarrow> 0 < p \<and> p \<notin> fst ` set (children s)"

definition add_child :: "int \<Rightarrow> role \<Rightarrow> sup \<Rightarrow> sup" where
  "add_child p r s = s\<lparr>running := (p, r) # running s\<rparr>"

text \<open>\<open>forkMaster\<close> and \<open>forkWork\<close> up to their \<open>fork\<close>.\<close>

definition forkMaster_begin :: "int \<Rightarrow> sup \<Rightarrow> sup" where
  "forkMaster_begin now s = set_mp_pid 0 (set_dp_status 1 (s\<lparr>start := now\<rparr>))"

definition forkWork_begin :: "int \<Rightarrow> sup \<Rightarrow> sup" where
  "forkWork_begin now s = set_wp_pid 0 (s\<lparr>start := now\<rparr>)"

inductive main_step :: "wrapper_conf_t \<Rightarrow> loc \<times> sup \<Rightarrow> loc \<times> sup \<Rightarrow> bool" for c where
  MasterKept: "0 < mpid s \<Longrightarrow> main_step c (Top, s) (WaitMaster, s)"
| NoMaster: "mpid s \<le> 0 \<Longrightarrow> ext_mainClass (ext_conf c) = None \<Longrightarrow>
    main_step c (Top, s) (WaitMaster, s\<lparr>start := now, mpid := 0\<rparr>)"
| ForkMaster: "mpid s \<le> 0 \<Longrightarrow> ext_mainClass (ext_conf c) \<noteq> None \<Longrightarrow> fresh p s \<Longrightarrow>
    main_step c (Top, s) (MForked p, add_child p Master (forkMaster_begin now s))"
| ForkMasterFails: "mpid s \<le> 0 \<Longrightarrow> ext_mainClass (ext_conf c) \<noteq> None \<Longrightarrow>
    main_step c (Top, s) (Failed, forkMaster_begin now s)"
| MasterStored: "main_step c (MForked p, s) (MReturned p, set_mp_pid p s)"
| MasterReturned: "main_step c (MReturned p, s) (WaitMaster, s\<lparr>mpid := p\<rparr>)"
| WaitMore: "dp_status s = 1 \<Longrightarrow> \<not> shutdown s \<Longrightarrow> main_step c (WaitMaster, s) (WaitMaster, s)"
| WaitDone: "dp_status s \<noteq> 1 \<or> shutdown s \<Longrightarrow> main_step c (WaitMaster, s) (AfterWait, s)"
| Go: "\<not> shutdown s \<Longrightarrow> main_step c (AfterWait, s) (Pick, s)"
| Break: "shutdown s \<Longrightarrow> main_step c (AfterWait, s) (Leaving, s)"
| WorkerKept: "0 < wp_pid s \<Longrightarrow> main_step c (Pick, s) (Sleeping, s\<lparr>wpid := wp_pid s\<rparr>)"
| ForkWorker: "wp_pid s \<le> 0 \<Longrightarrow> fresh p s \<Longrightarrow>
    main_step c (Pick, s) (WForked p, add_child p Worker (forkWork_begin now (s\<lparr>wpid := wp_pid s\<rparr>)))"
| ForkWorkerFails: "wp_pid s \<le> 0 \<Longrightarrow>
    main_step c (Pick, s) (Failed, forkWork_begin now (s\<lparr>wpid := wp_pid s\<rparr>))"
| WorkerStored: "main_step c (WForked p, s) (WReturned p, set_wp_pid p s)"
| WorkerReturned: "main_step c (WReturned p, s) (Sleeping, s\<lparr>wpid := p\<rparr>)"
| CheckOk: "checkJVM c out s = Inr (r, s') \<Longrightarrow> r \<noteq> 1 \<or> wpid s' \<le> 0 \<Longrightarrow>
    main_step c (Sleeping, s) (LoopEnd, s')"
| CheckFailed: "checkJVM c out s = Inr (1, s') \<Longrightarrow> 0 < wpid s' \<Longrightarrow>
    main_step c (Sleeping, s) (Spin, send (wpid s') SIGTERM s')"
| CheckUndefined: "checkJVM c out s = Inl e \<Longrightarrow> main_step c (Sleeping, s) (Crashed, s)"
| SpinMore: "wpid s = mp_pid s \<Longrightarrow> main_step c (Spin, s) (Spin, s)"
| SpinDone: "wpid s \<noteq> mp_pid s \<Longrightarrow> main_step c (Spin, s) (LoopEnd, s)"
| Again: "\<not> shutdown s \<Longrightarrow> main_step c (LoopEnd, s) (Top, s)"
| Done: "shutdown s \<Longrightarrow> main_step c (LoopEnd, s) (Leaving, s)"
| Leave: "main_step c (Leaving, s) (Stopped, if 0 < mp_pid s then send (mp_pid s) SIGKILL s else s)"

text \<open>
  What happens around \<open>main\<close>: its two signal handlers run between any two of its steps, a child
  terminates, a child notifies through the shared memory (\<open>LibC.notifydp\<close>, or the end of the
  branch of \<open>forkMaster\<close> that runs in the child).
\<close>

definition notifydp :: "sup \<Rightarrow> sup" where
  "notifydp s = set_dp_status 0 s"

inductive sup_step :: "wrapper_conf_t \<Rightarrow> loc \<times> sup \<Rightarrow> loc \<times> sup \<Rightarrow> bool" for c where
  Main: "\<not> dead s \<Longrightarrow> main_step c (l, s) x \<Longrightarrow> sup_step c (l, s) x"
| SigTerm: "\<not> dead s \<Longrightarrow> \<not> final l \<Longrightarrow> sup_step c (l, s) (l, sigterm_handler SIGTERM now s)"
| SigChld: "\<not> dead s \<Longrightarrow> \<not> final l \<Longrightarrow> sup_step c (l, s) (l, sigchld_handler now s)"
| Die: "running s = a @ k # b \<Longrightarrow> zombies s = d @ e \<Longrightarrow>
    sup_step c (l, s) (l, s\<lparr>running := a @ b, zombies := d @ k # e\<rparr>)"
| Notify: "running s \<noteq> [] \<Longrightarrow> sup_step c (l, s) (l, notifydp s)"

abbreviation sup_steps :: "wrapper_conf_t \<Rightarrow> loc \<times> sup \<Rightarrow> loc \<times> sup \<Rightarrow> bool" where
  "sup_steps c \<equiv> (sup_step c)\<^sup>*\<^sup>*"

text \<open>The state \<open>main\<close> enters the loop with: shared memory filled with zeros by \<open>shmget\<close>.\<close>

definition sup_init :: "int \<Rightarrow> int \<Rightarrow> sup" where
  "sup_init timeout self =
     \<lparr>shutdown = False, wpid = - 1, mpid = - 1,
      shm = \<lparr>dp = \<lparr>pid = self, status = 0\<rparr>, mp = \<lparr>pid = 0, status = 0\<rparr>, wp = \<lparr>pid = 0, status = 0\<rparr>\<rparr>,
      exit_timeout = timeout, count_sigterm = 0, sigterm_start_time = 0, m_restart_times = 0,
      w_restart_times = 0, start = 0, checks_tries = 0, running = [], zombies = [], sent = [], dead = False\<rparr>"

section \<open>What the handlers leave unchanged\<close>

lemmas shm_defs = set_wp_pid_def set_mp_pid_def set_dp_status_def wp_pid_def mp_pid_def dp_status_def

lemma set_pid_simps [simp]:
  "wp_pid (set_wp_pid p s) = p" "mpid (set_wp_pid p s) = mpid s" "wpid (set_wp_pid p s) = wpid s"
  "wp_pid (set_mp_pid p s) = wp_pid s" "mpid (set_mp_pid p s) = mpid s" "wpid (set_mp_pid p s) = wpid s"
  "wp_pid (set_dp_status p s) = wp_pid s" "mpid (set_dp_status p s) = mpid s" "wpid (set_dp_status p s) = wpid s"
  "running (set_dp_status p s) = running s" "zombies (set_dp_status p s) = zombies s"
  by (simp_all add: shm_defs)

lemma wp_pid_update [simp]:
  "wp_pid (s\<lparr>shutdown := b\<rparr>) = wp_pid s" "wp_pid (s\<lparr>wpid := i\<rparr>) = wp_pid s" "wp_pid (s\<lparr>mpid := i\<rparr>) = wp_pid s"
  "wp_pid (s\<lparr>count_sigterm := i\<rparr>) = wp_pid s" "wp_pid (s\<lparr>sigterm_start_time := i\<rparr>) = wp_pid s"
  "wp_pid (s\<lparr>m_restart_times := i\<rparr>) = wp_pid s" "wp_pid (s\<lparr>w_restart_times := i\<rparr>) = wp_pid s"
  "wp_pid (s\<lparr>start := i\<rparr>) = wp_pid s" "wp_pid (s\<lparr>checks_tries := i\<rparr>) = wp_pid s"
  "wp_pid (s\<lparr>running := xs\<rparr>) = wp_pid s" "wp_pid (s\<lparr>zombies := xs\<rparr>) = wp_pid s"
  "wp_pid (s\<lparr>sent := xs'\<rparr>) = wp_pid s" "wp_pid (s\<lparr>dead := b\<rparr>) = wp_pid s"
  by (simp_all add: wp_pid_def)

lemma send_simps [simp]:
  "wp_pid (send p g s) = wp_pid s" "mpid (send p g s) = mpid s" "wpid (send p g s) = wpid s"
  "running (send p g s) = running s" "zombies (send p g s) = zombies s"
  by (simp_all add: send_def)

lemma sigterm_handler_simps [simp]:
  "wp_pid (sigterm_handler g now s) = wp_pid s" "mpid (sigterm_handler g now s) = mpid s"
  "wpid (sigterm_handler g now s) = wpid s"
  by (simp_all add: sigterm_handler_def kill_hard_def Let_def)

lemma kill_simps [simp]:
  "wp_pid (kill now p g s) = wp_pid s" "mpid (kill now p g s) = mpid s" "wpid (kill now p g s) = wpid s"
  by (simp_all add: kill_def)

lemma waitpid_block_simps:
  assumes "waitpid_block p s = (q, t)"
  shows "wp_pid t = wp_pid s" "mpid t = mpid s" "wpid t = wpid s"
  using assms by (auto simp: waitpid_block_def reap_def split: list.splits if_splits)

lemma master_gone_simps:
  assumes "master_gone now s = (q, t)"
  shows "wp_pid t = wp_pid s" "mpid t = - 1"
proof -
  obtain q' u where u: "waitpid_block (mpid s) (kill now (mpid s) SIGTERM s) = (q', u)" by fastforce
  then have "t = (set_mp_pid 0 u)\<lparr>mpid := - 1, m_restart_times := m_restart_times u + 1, start := now\<rparr>"
    using assms by (simp add: master_gone_def)
  then show "wp_pid t = wp_pid s" "mpid t = - 1" using waitpid_block_simps [OF u] by simp_all
qed

lemma worker_gone_simps: "wp_pid (worker_gone now s) = 0" "mpid (worker_gone now s) = mpid s"
proof -
  obtain q u where u: "waitpid_block (wpid s) (kill now (wpid s) SIGTERM s) = (q, u)" by fastforce
  then show "wp_pid (worker_gone now s) = 0" "mpid (worker_gone now s) = mpid s"
    using waitpid_block_simps [OF u] by (simp_all add: worker_gone_def)
qed

section \<open>At most one worker and one master\<close>

definition pids :: "role \<Rightarrow> sup \<Rightarrow> int set" where
  "pids r s = {p. (p, r) \<in> set (running s)}"

definition sup_inv :: "loc \<Rightarrow> sup \<Rightarrow> bool" where
  "sup_inv l s \<longleftrightarrow>
     (\<forall>p \<in> pids Worker s. p = wp_pid s \<or> l = WForked p)
   \<and> (\<forall>p \<in> pids Master s. p = mpid s \<or> l = MForked p \<or> l = MReturned p)
   \<and> (\<forall>p r. (p, r) \<in> set (zombies s) \<or> (p, r) \<in> set (running s) \<longrightarrow> 0 < p)
   \<and> (\<forall>p. l = WForked p \<longrightarrow> wp_pid s \<le> 0)
   \<and> (\<forall>p. l = MForked p \<or> l = MReturned p \<longrightarrow> mpid s \<le> 0)"

lemma sup_invD:
  assumes "sup_inv l s"
  shows "p \<in> pids Worker s \<Longrightarrow> p = wp_pid s \<or> l = WForked p"
    "p \<in> pids Master s \<Longrightarrow> p = mpid s \<or> l = MForked p \<or> l = MReturned p"
    "p \<in> pids r s \<Longrightarrow> 0 < p" "k \<in> set (children s) \<Longrightarrow> 0 < fst k"
    "l = WForked p \<Longrightarrow> wp_pid s \<le> 0" "l = MForked p \<or> l = MReturned p \<Longrightarrow> mpid s \<le> 0"
  using assms by (cases k; auto simp: sup_inv_def pids_def children_def)+

text \<open>
  A change that only removes children keeps the invariant when a recorded number that changes
  becomes non-positive and its process is gone.
\<close>

lemma sup_inv_shrink:
  assumes inv: "sup_inv l s"
    and sub: "set (running t) \<subseteq> set (running s)" "set (children t) \<subseteq> set (children s)"
    and w: "wp_pid t = wp_pid s \<or> wp_pid t \<le> 0 \<and> wp_pid s \<notin> pids Worker t"
    and m: "mpid t = mpid s \<or> mpid t \<le> 0 \<and> mpid s \<notin> pids Master t"
  shows "sup_inv l t"
proof -
  have p: "p \<in> pids r t \<Longrightarrow> p \<in> pids r s" for p r using sub by (auto simp: pids_def)
  have "0 < q" if "(q, r) \<in> set (zombies t) \<or> (q, r) \<in> set (running t)" for q r
    using sup_invD(4) [OF inv, of "(q, r)"] sub(2) that by (auto simp: children_def)
  moreover have "q = wp_pid t \<or> l = WForked q" if "q \<in> pids Worker t" for q
    using sup_invD(1) [OF inv p [OF that]] w that by metis
  moreover have "q = mpid t \<or> l = MForked q \<or> l = MReturned q" if "q \<in> pids Master t" for q
    using sup_invD(2) [OF inv p [OF that]] m that by metis
  moreover have "wp_pid t \<le> 0" if "l = WForked q" for q using sup_invD(5) [OF inv that] w by auto
  moreover have "mpid t \<le> 0" if "l = MForked q \<or> l = MReturned q" for q using sup_invD(6) [OF inv that] m by auto
  ultimately show ?thesis unfolding sup_inv_def by blast
qed

lemma pids_gone: "p \<notin> fst ` set (children t) \<Longrightarrow> p \<notin> pids r t"
  by (force simp: pids_def children_def)

lemma pids_zero: "sup_inv l s \<Longrightarrow> set (running t) \<subseteq> set (running s) \<Longrightarrow> p \<le> 0 \<Longrightarrow> p \<notin> pids r t"
  using sup_invD(3) by (fastforce simp: pids_def)

lemma master_gone_inv:
  assumes "sup_inv l s" "master_gone now s = (q, t)" "mpid s \<noteq> 0"
  shows "sup_inv l t"
proof (rule sup_inv_shrink [OF assms(1)])
  note c = master_gone_children [OF assms(2)]
  show "set (running t) \<subseteq> set (running s)" "set (children t) \<subseteq> set (children s)"
    using c by (auto simp: children_def)
  show "wp_pid t = wp_pid s \<or> wp_pid t \<le> 0 \<and> wp_pid s \<notin> pids Worker t"
    using master_gone_simps [OF assms(2)] by simp
  show "mpid t = mpid s \<or> mpid t \<le> 0 \<and> mpid s \<notin> pids Master t"
    using master_gone_simps [OF assms(2)] pids_gone [OF c(4) [OF assms(3)]] by simp
qed

lemma worker_gone_inv:
  assumes "sup_inv l s" "wpid s = wp_pid s"
  shows "sup_inv l (worker_gone now s)"
proof (rule sup_inv_shrink [OF assms(1)])
  let ?t = "worker_gone now s"
  show sub: "set (running ?t) \<subseteq> set (running s)" "set (children ?t) \<subseteq> set (children s)"
    using worker_gone_children(1,2) [of now s] by (auto simp: children_def)
  have "wp_pid s \<notin> pids Worker ?t"
  proof (cases "wp_pid s = 0")
    case True
    then show ?thesis using pids_zero [OF assms(1) sub(1)] by simp
  next
    case False
    then show ?thesis using worker_gone_children(4) [of s now] assms(2) by (intro pids_gone) simp
  qed
  then show "wp_pid ?t = wp_pid s \<or> wp_pid ?t \<le> 0 \<and> wp_pid s \<notin> pids Worker ?t"
    by (simp add: worker_gone_simps)
  show "mpid ?t = mpid s \<or> mpid ?t \<le> 0 \<and> mpid s \<notin> pids Master ?t" by (simp add: worker_gone_simps)
qed

lemma sup_inv_cong:
  "sup_inv l s \<Longrightarrow> running t = running s \<Longrightarrow> zombies t = zombies s \<Longrightarrow> wp_pid t = wp_pid s \<Longrightarrow> mpid t = mpid s \<Longrightarrow> sup_inv l t"
  by (simp add: sup_inv_def pids_def)

lemma child_gone_inv:
  assumes "sup_inv l s" "0 < p"
  shows "sup_inv l (child_gone now p s)"
proof -
  obtain p1 s1 where s1: "(if p = mpid s then master_gone now s else (p, s)) = (p1, s1)" by fastforce
  then have "sup_inv l s1" using master_gone_inv [OF assms(1), of now p1 s1] assms by (auto split: if_splits)
  then have s2: "sup_inv l (s1\<lparr>wpid := wp_pid s1\<rparr>)" by (rule sup_inv_cong) simp_all
  then have w: "sup_inv l (worker_gone now (s1\<lparr>wpid := wp_pid s1\<rparr>))" by (rule worker_gone_inv) simp
  have "child_gone now p s = (if p1 = wp_pid s1 \<or> p1 = mpid s1 then worker_gone now (s1\<lparr>wpid := wp_pid s1\<rparr>)
      else s1\<lparr>wpid := wp_pid s1\<rparr>)"
    by (simp add: child_gone_def s1)
  then show ?thesis using s2 w by presburger
qed

lemma sigchld_handler_inv: "sup_inv l s \<Longrightarrow> sup_inv l (sigchld_handler now s)"
proof (induction now s rule: sigchld_handler.induct)
  case (1 now s)
  show ?case
  proof (cases "zombies s")
    case Nil
    then show ?thesis using "1.prems" by (simp add: sigchld_handler.simps)
  next
    case (Cons c cs)
    have "sup_inv l (s\<lparr>zombies := cs\<rparr>)"
      by (rule sup_inv_shrink [OF "1.prems"]) (auto simp: children_def Cons)
    moreover have "0 < fst c" using sup_invD(4) [OF "1.prems", of c] Cons by (simp add: children_def)
    ultimately have "sup_inv l (child_gone now (fst c) (s\<lparr>zombies := cs\<rparr>))" by (rule child_gone_inv)
    then show ?thesis using "1.IH" [OF Cons] Cons by (simp add: sigchld_handler.simps [of now s])
  qed
qed

lemma checkJVM_state:
  assumes "checkJVM c out s = Inr (r, t)"
  shows "running t = running s" "zombies t = zombies s" "wp_pid t = wp_pid s" "mpid t = mpid s" "wpid t = wpid s"
  using assms by (auto simp: checkJVM_def try_bind_def Let_def split: option.splits sum.splits if_splits)

lemma sup_inv_move:
  assumes "sup_inv l s" "\<forall>p. l \<noteq> WForked p \<and> l \<noteq> MForked p \<and> l \<noteq> MReturned p"
    "\<forall>p. l' \<noteq> WForked p \<and> l' \<noteq> MForked p \<and> l' \<noteq> MReturned p"
    "running t = running s" "zombies t = zombies s" "wp_pid t = wp_pid s" "mpid t = mpid s"
  shows "sup_inv l' t"
  using assms by (auto simp: sup_inv_def pids_def)

lemma main_step_inv: "main_step c (l, s) (l', s') \<Longrightarrow> sup_inv l s \<Longrightarrow> sup_inv l' s'"
proof (induction "(l, s)" "(l', s')" rule: main_step.induct)
  case (NoMaster now)
  then show ?case by (fastforce simp: sup_inv_def pids_def)
next
  case (ForkMaster p now)
  then show ?case
    by (auto simp: sup_inv_def pids_def add_child_def forkMaster_begin_def fresh_def)
next
  case (ForkMasterFails now)
  then show ?case
    by (auto simp: sup_inv_def pids_def forkMaster_begin_def)
next
  case (MasterStored p)
  then show ?case by (auto simp: sup_inv_def pids_def)
next
  case (MasterReturned p)
  then show ?case by (fastforce simp: sup_inv_def pids_def)
next
  case (ForkWorker p now)
  then show ?case
    by (fastforce simp: sup_inv_def pids_def add_child_def forkWork_begin_def fresh_def)
next
  case (ForkWorkerFails now)
  then show ?case
    by (fastforce simp: sup_inv_def pids_def forkWork_begin_def)
next
  case (WorkerStored p)
  then show ?case by (fastforce simp: sup_inv_def pids_def)
next
  case (WorkerReturned p)
  then show ?case by (auto simp: sup_inv_def pids_def)
next
  case (CheckOk out r)
  then show ?case using checkJVM_state [OF CheckOk(1)] by (intro sup_inv_move [of l s l' s']) auto
next
  case (CheckFailed out t)
  then show ?case using checkJVM_state [OF CheckFailed(1)] by (intro sup_inv_move [of l s l' s']) auto
qed (auto simp: sup_inv_def pids_def split: if_splits)

lemma sup_step_inv: "sup_step c (l, s) (l', s') \<Longrightarrow> sup_inv l s \<Longrightarrow> sup_inv l' s'"
proof (induction "(l, s)" "(l', s')" rule: sup_step.induct)
  case Main
  then show ?case by (blast intro: main_step_inv)
next
  case (SigTerm now)
  then show ?case by (auto intro: sup_inv_cong)
next
  case (SigChld now)
  then show ?case by (auto intro: sigchld_handler_inv)
next
  case (Die a k b d e)
  then show ?case by (fastforce simp: sup_inv_def pids_def)
next
  case Notify
  then show ?case by (auto simp: sup_inv_def pids_def notifydp_def)
qed

lemma sup_steps_inv: "sup_steps c x y \<Longrightarrow> sup_inv (fst x) (snd x) \<Longrightarrow> sup_inv (fst y) (snd y)"
  by (induction rule: rtranclp_induct) (auto intro: sup_step_inv)

lemma sup_inv_init: "sup_inv Top (sup_init timeout self)"
  by (simp add: sup_inv_def sup_init_def pids_def)

lemma card_le_1_eq: "(\<And>p q. p \<in> A \<Longrightarrow> q \<in> A \<Longrightarrow> p = q) \<Longrightarrow> card A \<le> 1"
  by (metis (no_types, lifting) card.empty card.insert card.infinite empty_iff equals0I finite.emptyI
      insert_absorb is_singletonI' is_singleton_altdef le_numeral_extra(4) zero_le_one)

lemma sup_inv_one:
  assumes "sup_inv l s"
  shows "card (pids Worker s) \<le> 1" "card (pids Master s) \<le> 1"
proof -
  show "card (pids Worker s) \<le> 1"
  proof (rule card_le_1_eq)
    fix p q assume "p \<in> pids Worker s" "q \<in> pids Worker s"
    then show "p = q" using sup_invD(1,3,5) [OF assms] by (metis loc.inject(3) not_le)
  qed
  show "card (pids Master s) \<le> 1"
  proof (rule card_le_1_eq)
    fix p q assume "p \<in> pids Master s" "q \<in> pids Master s"
    then show "p = q" using sup_invD(2,3,6) [OF assms] by (metis loc.distinct loc.inject(1,2) not_le)
  qed
qed

text \<open>
  C22: whatever signals arrive and whenever children terminate or notify, at every moment of the
  supervisor's run at most one worker process and at most one master process are alive.
\<close>

theorem supervisor_one_worker:
  assumes "sup_steps c (Top, sup_init timeout self) (l, s)"
  shows "card (pids Worker s) \<le> 1 \<and> card (pids Master s) \<le> 1"
  using sup_inv_one [of l s] sup_steps_inv [OF assms] sup_inv_init by simp

definition ex_sup_conf :: wrapper_conf_t where
  "ex_sup_conf = ex_conf0\<lparr>ext_conf := (ext_conf ex_conf0)\<lparr>ext_mainClass := Some (value_block ''M'')\<rparr>,
     checks_cmd := Some (value_block ''sh''), checks_keyword := Some (value_block ''bad''), checks_retryTimes := 2\<rparr>"

definition ex_both :: sup where
  "ex_both = set_wp_pid 101 (add_child 101 Worker (forkWork_begin 0 ((notifydp ((set_mp_pid 100
     (add_child 100 Master (forkMaster_begin 0 (sup_init 60 99))))\<lparr>mpid := 100\<rparr>))\<lparr>wpid := 0\<rparr>)))"

lemmas next_step = converse_rtranclp_into_rtranclp [where r = "sup_step c" for c]

lemmas ex_sup_defs = ex_sup_conf_def sup_init_def notifydp_def add_child_def forkMaster_begin_def forkWork_begin_def
  fresh_def children_def shm_defs

lemma ex_both_reached: "sup_steps ex_sup_conf (Top, sup_init 60 99) (WReturned 101, ex_both)"
proof -
  let ?c = ex_sup_conf
  let ?s1 = "add_child 100 Master (forkMaster_begin 0 (sup_init 60 99))"
  let ?s2 = "(set_mp_pid 100 ?s1)\<lparr>mpid := 100\<rparr>"
  let ?s3 = "notifydp ?s2"
  let ?s4 = "add_child 101 Worker (forkWork_begin 0 (?s3\<lparr>wpid := 0\<rparr>))"
  have "main_step ?c (Top, sup_init 60 99) (MForked 100, ?s1)"
    by (rule main_step.ForkMaster) (simp_all add: ex_sup_defs)
  then have 1: "sup_step ?c (Top, sup_init 60 99) (MForked 100, ?s1)" by (rule sup_step.Main [rotated]) (simp add: sup_init_def)
  have 2: "sup_step ?c (MForked 100, ?s1) (MReturned 100, set_mp_pid 100 ?s1)"
    by (rule sup_step.Main, simp add: ex_sup_defs) (rule main_step.MasterStored)
  have 3: "sup_step ?c (MReturned 100, set_mp_pid 100 ?s1) (WaitMaster, ?s2)"
    by (rule sup_step.Main, simp add: ex_sup_defs) (rule main_step.MasterReturned)
  have 4: "sup_step ?c (WaitMaster, ?s2) (WaitMaster, ?s3)"
    by (rule sup_step.Notify) (simp add: ex_sup_defs)
  have 5: "sup_step ?c (WaitMaster, ?s3) (AfterWait, ?s3)"
    by (rule sup_step.Main, simp add: ex_sup_defs) (rule main_step.WaitDone, simp add: ex_sup_defs)
  have 6: "sup_step ?c (AfterWait, ?s3) (Pick, ?s3)"
    by (rule sup_step.Main, simp add: ex_sup_defs) (rule main_step.Go, simp add: ex_sup_defs)
  have w: "wp_pid ?s3 = 0" by (simp add: ex_sup_defs)
  have "main_step ?c (Pick, ?s3) (WForked 101, add_child 101 Worker (forkWork_begin 0 (?s3\<lparr>wpid := wp_pid ?s3\<rparr>)))"
    by (rule main_step.ForkWorker) (simp_all add: ex_sup_defs)
  then have 7: "sup_step ?c (Pick, ?s3) (WForked 101, ?s4)"
    unfolding w by (rule sup_step.Main [rotated]) (simp add: ex_sup_defs)
  have 8: "sup_step ?c (WForked 101, ?s4) (WReturned 101, ex_both)"
    unfolding ex_both_def by (rule sup_step.Main, simp add: ex_sup_defs) (rule main_step.WorkerStored)
  show ?thesis
    by (rule next_step [OF 1 next_step [OF 2 next_step [OF 3 next_step [OF 4 next_step [OF 5 next_step [OF 6
          next_step [OF 7 next_step [OF 8 rtranclp.rtrancl_refl]]]]]]]])
qed

lemma supervisor_one_worker_witness:
  "sup_steps ex_sup_conf (Top, sup_init 60 99) (WReturned 101, ex_both) \<and> pids Worker ex_both = {101}
   \<and> pids Master ex_both = {100} \<and> card (pids Worker ex_both) \<le> 1 \<and> card (pids Master ex_both) \<le> 1"
proof -
  have "running ex_both = [(101, Worker), (100, Master)]" by (simp add: ex_both_def ex_sup_defs)
  then have "pids Worker ex_both = {101}" "pids Master ex_both = {100}" by (auto simp: pids_def)
  then show ?thesis using ex_both_reached supervisor_one_worker [OF ex_both_reached] by simp
qed

section \<open>Reaping\<close>

lemma reap_absent: "p \<notin> fst ` set (children s) \<Longrightarrow> waitpid_block p s = (if p = 0 then waitpid_block 0 s else (- 1, s))"
  by (simp add: waitpid_block_def)

lemma child_gone_master:
  assumes "p = mpid s" "0 < p" "p \<notin> fst ` set (children s)"
  shows "wp_pid (child_gone now p s) = 0" "mpid (child_gone now p s) = - 1"
proof -
  obtain q t where t: "master_gone now s = (q, t)" by fastforce
  have "waitpid_block (mpid s) (kill now (mpid s) SIGTERM s) = (- 1, kill now (mpid s) SIGTERM s)"
    using assms by (simp add: waitpid_block_def children_def)
  then have "q = - 1" using t by (simp add: master_gone_def)
  then have "child_gone now p s = worker_gone now (t\<lparr>wpid := wp_pid t\<rparr>)"
    using assms t master_gone_simps [OF t] by (simp add: child_gone_def)
  then show "wp_pid (child_gone now p s) = 0" "mpid (child_gone now p s) = - 1"
    using master_gone_simps [OF t] by (simp_all add: worker_gone_simps)
qed

lemma worker_gone_absent:
  assumes "wpid s \<noteq> 0" "wpid s \<notin> fst ` set (children s)"
  shows "zombies (worker_gone now s) = zombies s" "running (worker_gone now s) = running s"
  using assms by (simp_all add: worker_gone_def waitpid_block_def children_def)

lemma child_gone_worker:
  assumes "p \<noteq> mpid s" "p = wp_pid s" "0 < p" "p \<notin> fst ` set (children s)"
  shows "wp_pid (child_gone now p s) = 0" "mpid (child_gone now p s) = mpid s"
    "zombies (child_gone now p s) = zombies s" "running (child_gone now p s) = running s"
proof -
  let ?s = "s\<lparr>wpid := wp_pid s\<rparr>"
  have "child_gone now p s = worker_gone now ?s" using assms by (simp add: child_gone_def)
  then show "wp_pid (child_gone now p s) = 0" "mpid (child_gone now p s) = mpid s"
    "zombies (child_gone now p s) = zombies s" "running (child_gone now p s) = running s"
    using worker_gone_absent [of ?s now] assms by (simp_all add: worker_gone_simps children_def)
qed

lemma child_gone_other:
  assumes "p \<noteq> mpid s" "p \<noteq> wp_pid s"
  shows "child_gone now p s = s\<lparr>wpid := wp_pid s\<rparr>"
  using assms by (simp add: child_gone_def)

definition pids_ok :: "sup \<Rightarrow> bool" where
  "pids_ok s \<longleftrightarrow> distinct (map fst (children s)) \<and> list_all (\<lambda>k. 0 < fst k) (children s)"

lemma pids_ok_cong: "running t = running s \<Longrightarrow> zombies t = zombies s \<Longrightarrow> pids_ok t = pids_ok s"
  by (simp add: pids_ok_def children_def)

lemma pids_ok_pos: "pids_ok s \<Longrightarrow> x \<in> fst ` set (zombies s) \<Longrightarrow> 0 < x"
  by (auto simp: pids_ok_def children_def list_all_iff)

lemma pids_ok_reap: "pids_ok s \<Longrightarrow> pids_ok (reap p s)"
  by (auto simp: pids_ok_def reap_def children_def list_all_iff distinct_map_filter)

lemma pids_ok_waitpid: "waitpid_block p s = (q, t) \<Longrightarrow> pids_ok s \<Longrightarrow> pids_ok t"
  by (auto simp: waitpid_block_def pids_ok_reap split: list.splits if_splits)

lemma pids_ok_child_gone:
  assumes "pids_ok s"
  shows "pids_ok (child_gone now p s)"
proof -
  have k: "pids_ok (kill now q g u) = pids_ok u" for q g u by (rule pids_ok_cong) simp_all
  have w: "pids_ok (worker_gone now u)" if u: "pids_ok u" for u
  proof -
    obtain q t where t: "waitpid_block (wpid u) (kill now (wpid u) SIGTERM u) = (q, t)" by fastforce
    have "pids_ok t" by (rule pids_ok_waitpid [OF t]) (simp add: k u)
    then show ?thesis using t pids_ok_cong [of "worker_gone now u" t] by (simp add: worker_gone_def)
  qed
  obtain q t where t: "waitpid_block (mpid s) (kill now (mpid s) SIGTERM s) = (q, t)" by fastforce
  have m: "pids_ok t" by (rule pids_ok_waitpid [OF t]) (simp add: k assms)
  obtain p1 s1 where s1: "(if p = mpid s then master_gone now s else (p, s)) = (p1, s1)" by fastforce
  then have "running s1 = running t \<and> zombies s1 = zombies t \<or> s1 = s"
    using t by (auto simp: master_gone_def split: if_splits)
  then have "pids_ok s1" using m assms pids_ok_cong [of s1 t] by auto
  then have s2: "pids_ok (s1\<lparr>wpid := wp_pid s1\<rparr>)" using pids_ok_cong [of "s1\<lparr>wpid := wp_pid s1\<rparr>" s1] by simp
  have "child_gone now p s = worker_gone now (s1\<lparr>wpid := wp_pid s1\<rparr>) \<or> child_gone now p s = s1\<lparr>wpid := wp_pid s1\<rparr>"
    unfolding child_gone_def s1 Let_def by simp
  then show ?thesis using w [OF s2] s2 by auto
qed

text \<open>
  The handler for terminated children ends with none left. If the master was among them, or the
  worker, the number recorded for the worker is cleared, so that the loop forks a new one; if the
  master was, its number is cleared too. Otherwise both stay recorded.
\<close>

theorem sigchld_handler_reaps:
  assumes "pids_ok s"
  shows "zombies (sigchld_handler now s) = []
    \<and> wp_pid (sigchld_handler now s)
        = (if mpid s \<in> fst ` set (zombies s) \<or> wp_pid s \<in> fst ` set (zombies s) then 0 else wp_pid s)
    \<and> mpid (sigchld_handler now s) = (if mpid s \<in> fst ` set (zombies s) then - 1 else mpid s)"
  using assms
proof (induction now s rule: sigchld_handler.induct)
  case (1 now s)
  show ?case
  proof (cases "zombies s")
    case Nil
    then show ?thesis by (simp add: sigchld_handler.simps [of now s])
  next
    case (Cons c cs)
    let ?s = "s\<lparr>zombies := cs\<rparr>" and ?p = "fst c"
    let ?t = "child_gone now ?p ?s"
    have ok: "pids_ok ?s" "0 < ?p" "?p \<notin> fst ` set (children ?s)"
      using "1.prems" Cons by (auto simp: pids_ok_def children_def)
    then have t: "pids_ok ?t" by (intro pids_ok_child_gone)
    then have pos: "x \<notin> fst ` set (zombies ?t)" if "x \<le> 0" for x
      using that pids_ok_pos [OF t, of x] by auto
    have step: "sigchld_handler now s = sigchld_handler now ?t"
      using Cons by (simp add: sigchld_handler.simps [of now s])
    note IH = "1.IH" [OF Cons t]
    consider "?p = mpid s" | "?p \<noteq> mpid s" "?p = wp_pid s" | "?p \<noteq> mpid s" "?p \<noteq> wp_pid s" by blast
    then show ?thesis
    proof cases
      case 1
      then have "wp_pid ?t = 0" "mpid ?t = - 1" using child_gone_master [of ?p ?s now] ok by simp_all
      then show ?thesis using IH pos [of 0] pos [of "- 1"] 1 Cons by (simp add: step)
    next
      case 2
      then have "wp_pid ?t = 0" "mpid ?t = mpid s" "zombies ?t = cs" using child_gone_worker [of ?p ?s now] ok by simp_all
      then show ?thesis using IH pos [of 0] 2 Cons by (simp add: step)
    next
      case 3
      then show ?thesis using IH child_gone_other [of ?p ?s now] Cons by (simp add: step)
    qed
  qed
qed

definition ex_master_died :: sup where
  "ex_master_died = ex_both\<lparr>running := [(101, Worker)], zombies := [(100, Master)]\<rparr>"

lemma sigchld_handler_reaps_witness:
  "pids_ok ex_master_died \<and> mpid ex_master_died = 100 \<and> wp_pid ex_master_died = 101
   \<and> zombies (sigchld_handler 5 ex_master_died) = [] \<and> wp_pid (sigchld_handler 5 ex_master_died) = 0
   \<and> mpid (sigchld_handler 5 ex_master_died) = - 1"
proof -
  have "pids_ok ex_master_died" "mpid ex_master_died = 100" "wp_pid ex_master_died = 101"
    "fst ` set (zombies ex_master_died) = {100}"
    by (simp_all add: ex_master_died_def ex_both_def pids_ok_def ex_sup_defs)
  then show ?thesis using sigchld_handler_reaps [of ex_master_died 5] by simp
qed

section \<open>A master that dies before there is a worker\<close>

lemma sigterm_handler_first:
  assumes "count_sigterm s = 0" "wp_pid s = 0"
  shows "sigterm_handler SIGTERM now s = s\<lparr>count_sigterm := 1, sigterm_start_time := now, shutdown := True\<rparr>"
  using assms by (simp add: sigterm_handler_def SIGTERM_def SIGHUP_def Let_def)

lemma sigchld_one:
  assumes "zombies s = [k]" "zombies (child_gone now (fst k) (s\<lparr>zombies := []\<rparr>)) = []"
  shows "sigchld_handler now s = child_gone now (fst k) (s\<lparr>zombies := []\<rparr>)"
  using assms
  by (simp add: sigchld_handler.simps [of now s] sigchld_handler.simps [of now "child_gone now (fst k) (s\<lparr>zombies := []\<rparr>)"])

text \<open>
  When the master process terminates while no worker is recorded and no other child exists (it
  could not start its JVM, say), the handler signals process 0, which is the whole process group:
  the supervisor receives its own \<open>SIGTERM\<close> and shuts down instead of restarting the master.
\<close>

theorem master_death_shuts_down:
  assumes "zombies s = [(mpid s, Master)]" "running s = []" "0 < mpid s" "wp_pid s = 0" "count_sigterm s = 0"
  shows "shutdown (sigchld_handler now s) \<and> sent (sigchld_handler now s) = sent s @ [(mpid s, SIGTERM), (0, SIGTERM)]"
proof -
  let ?s = "s\<lparr>zombies := []\<rparr>"
  have m: "waitpid_block (mpid s) (kill now (mpid s) SIGTERM ?s) = (- 1, send (mpid s) SIGTERM ?s)"
    using assms by (simp add: waitpid_block_def children_def kill_def)
  let ?t = "(set_mp_pid 0 (send (mpid s) SIGTERM ?s))\<lparr>mpid := - 1, m_restart_times := m_restart_times s + 1, start := now\<rparr>"
  have "master_gone now ?s = (- 1, ?t)" using m by (simp add: master_gone_def send_def)
  then have g: "child_gone now (mpid s) ?s = worker_gone now (?t\<lparr>wpid := 0\<rparr>)"
    using assms by (simp add: child_gone_def)
  let ?u = "sigterm_handler SIGTERM now (send 0 SIGTERM (?t\<lparr>wpid := 0\<rparr>))"
  have u: "?u = (send 0 SIGTERM (?t\<lparr>wpid := 0\<rparr>))\<lparr>count_sigterm := 1, sigterm_start_time := now, shutdown := True\<rparr>"
    by (rule sigterm_handler_first) (use assms in \<open>simp_all add: send_def set_mp_pid_def wp_pid_def\<close>)
  have "waitpid_block 0 (kill now 0 SIGTERM (?t\<lparr>wpid := 0\<rparr>)) = (- 1, ?u)"
    using assms by (simp add: waitpid_block_def children_def kill_def)
  then have w: "worker_gone now (?t\<lparr>wpid := 0\<rparr>) = (set_wp_pid 0 ?u)\<lparr>wpid := - 1, w_restart_times := w_restart_times ?u + 1, start := now\<rparr>"
    by (simp add: worker_gone_def)
  then have z: "zombies (child_gone now (mpid s) ?s) = []" using g by simp
  have "sigchld_handler now s = child_gone now (mpid s) ?s"
    using sigchld_one [OF assms(1), of now] z by simp
  then show ?thesis using g w u by (simp add: set_wp_pid_def send_def set_mp_pid_def)
qed

definition ex_master_failed :: sup where
  "ex_master_failed = (set_mp_pid 100 (forkMaster_begin 0 (sup_init 60 99)))\<lparr>mpid := 100, zombies := [(100, Master)]\<rparr>"

lemma master_death_shuts_down_witness:
  "mpid ex_master_failed = 100 \<and> \<not> shutdown ex_master_failed \<and> shutdown (sigchld_handler 5 ex_master_failed)"
proof -
  have "zombies ex_master_failed = [(mpid ex_master_failed, Master)]" "running ex_master_failed = []"
    "0 < mpid ex_master_failed" "wp_pid ex_master_failed = 0" "count_sigterm ex_master_failed = 0"
    "mpid ex_master_failed = 100" "\<not> shutdown ex_master_failed"
    by (simp_all add: ex_master_failed_def ex_sup_defs)
  then show ?thesis using master_death_shuts_down [of ex_master_failed 5] by simp
qed

section \<open>A worker that dies before it is recorded\<close>

definition lost_inv :: "loc \<Rightarrow> sup \<Rightarrow> bool" where
  "lost_inv l s \<longleftrightarrow> 0 < wp_pid s \<and> mpid s \<le> 0 \<and> running s = [] \<and> zombies s = []
     \<and> (\<forall>p. l \<noteq> MForked p \<and> l \<noteq> MReturned p \<and> l \<noteq> WForked p \<and> l \<noteq> WReturned p)"

lemma lost_main_step:
  assumes c: "ext_mainClass (ext_conf c) = None"
  shows "main_step c (l, s) (l', s') \<Longrightarrow> lost_inv l s \<Longrightarrow> lost_inv l' s'"
proof (induction "(l, s)" "(l', s')" rule: main_step.induct)
  case (CheckOk out r)
  then show ?case using checkJVM_state [OF CheckOk(1)] by (auto simp: lost_inv_def)
next
  case (CheckFailed out t)
  then show ?case using checkJVM_state [OF CheckFailed(1)] by (auto simp: lost_inv_def)
qed (use c in \<open>auto simp: lost_inv_def split: if_splits\<close>)

lemma lost_step:
  assumes "ext_mainClass (ext_conf c) = None"
  shows "sup_step c (l, s) (l', s') \<Longrightarrow> lost_inv l s \<Longrightarrow> lost_inv l' s'"
proof (induction "(l, s)" "(l', s')" rule: sup_step.induct)
  case Main
  then show ?case using lost_main_step [OF assms] by blast
next
  case (SigChld now)
  then show ?case by (auto simp: lost_inv_def sigchld_handler.simps [of now s])
qed (auto simp: lost_inv_def)

lemma lost_steps:
  "sup_steps c x y \<Longrightarrow> ext_mainClass (ext_conf c) = None \<Longrightarrow> lost_inv (fst x) (snd x) \<Longrightarrow> lost_inv (fst y) (snd y)"
  by (induction rule: rtranclp_induct) (auto intro: lost_step)

definition lost_worker :: "sup \<Rightarrow> sup" where
  "lost_worker s0 = (set_wp_pid 100 ((forkWork_begin 0 (s0\<lparr>start := 0, mpid := 0, wpid := 0\<rparr>))))\<lparr>wpid := 100\<rparr>"

lemma lost_worker_reached:
  assumes c: "ext_mainClass (ext_conf c) = None"
  shows "sup_steps c (Top, sup_init t self) (Sleeping, lost_worker (sup_init t self))"
proof -
  let ?s0 = "sup_init t self"
  let ?s1 = "?s0\<lparr>start := 0, mpid := 0\<rparr>"
  let ?s2 = "forkWork_begin 0 (?s1\<lparr>wpid := 0\<rparr>)"
  let ?s3 = "add_child 100 Worker ?s2"
  let ?s4 = "?s2\<lparr>running := [], zombies := [(100, Worker)]\<rparr>"
  have 1: "sup_step c (Top, ?s0) (WaitMaster, ?s1)"
    by (rule sup_step.Main, simp add: sup_init_def) (rule main_step.NoMaster, use c in \<open>simp_all add: sup_init_def\<close>)
  have 2: "sup_step c (WaitMaster, ?s1) (AfterWait, ?s1)"
    by (rule sup_step.Main, simp add: sup_init_def) (rule main_step.WaitDone, simp add: ex_sup_defs)
  have 3: "sup_step c (AfterWait, ?s1) (Pick, ?s1)"
    by (rule sup_step.Main, simp add: sup_init_def) (rule main_step.Go, simp add: ex_sup_defs)
  have w: "wp_pid ?s1 = 0" by (simp add: ex_sup_defs)
  have "main_step c (Pick, ?s1) (WForked 100, add_child 100 Worker (forkWork_begin 0 (?s1\<lparr>wpid := wp_pid ?s1\<rparr>)))"
    by (rule main_step.ForkWorker) (simp_all add: ex_sup_defs)
  then have 4: "sup_step c (Pick, ?s1) (WForked 100, ?s3)"
    unfolding w by (rule sup_step.Main [rotated]) (simp add: ex_sup_defs)
  have "running ?s3 = [] @ (100, Worker) # []" "zombies ?s3 = [] @ []" by (simp_all add: ex_sup_defs)
  from sup_step.Die [OF this, of c "WForked 100"]
  have 5: "sup_step c (WForked 100, ?s3) (WForked 100, ?s4)" by (simp add: add_child_def)
  have g: "child_gone 0 (fst (100, Worker)) (?s4\<lparr>zombies := []\<rparr>) = ?s2"
    by (simp add: child_gone_def ex_sup_defs)
  have "sigchld_handler 0 ?s4 = child_gone 0 (fst (100, Worker)) (?s4\<lparr>zombies := []\<rparr>)"
    by (rule sigchld_one) (simp, unfold g, simp add: ex_sup_defs)
  then have "sigchld_handler 0 ?s4 = ?s2" unfolding g .
  then have 6: "sup_step c (WForked 100, ?s4) (WForked 100, ?s2)"
    using sup_step.SigChld [of ?s4 "WForked 100" c 0] by (simp add: ex_sup_defs final_def)
  have 7: "sup_step c (WForked 100, ?s2) (WReturned 100, set_wp_pid 100 ?s2)"
    by (rule sup_step.Main, simp add: ex_sup_defs) (rule main_step.WorkerStored)
  have 8: "sup_step c (WReturned 100, set_wp_pid 100 ?s2) (Sleeping, (set_wp_pid 100 ?s2)\<lparr>wpid := 100\<rparr>)"
    by (rule sup_step.Main, simp add: ex_sup_defs) (rule main_step.WorkerReturned)
  show ?thesis
    unfolding lost_worker_def
    by (rule next_step [OF 1 next_step [OF 2 next_step [OF 3 next_step [OF 4 next_step [OF 5 next_step [OF 6
          next_step [OF 7 next_step [OF 8 rtranclp.rtrancl_refl]]]]]]]])
qed

text \<open>
  A worker that terminates between its \<open>fork\<close> and the assignment to \<open>shm->wp.pid\<close> is reaped by
  the handler without being recognised, and then recorded as running. Without a master process the
  supervisor has lost it for good: from that state on, whatever happens, no process is ever
  started again.
\<close>

theorem supervisor_loses_worker:
  assumes "ext_mainClass (ext_conf c) = None"
  shows "sup_steps c (Top, sup_init t self) (Sleeping, lost_worker (sup_init t self))
    \<and> \<not> shutdown (lost_worker (sup_init t self))
    \<and> {s. \<exists>l. sup_steps c (Sleeping, lost_worker (sup_init t self)) (l, s)} \<subseteq> {s. running s = [] \<and> 0 < wp_pid s}"
proof -
  have "lost_inv Sleeping (lost_worker (sup_init t self))"
    by (simp add: lost_inv_def lost_worker_def ex_sup_defs)
  then have "running s = [] \<and> 0 < wp_pid s"
    if "sup_steps c (Sleeping, lost_worker (sup_init t self)) (l, s)" for l s
    using lost_steps [OF that assms] by (simp add: lost_inv_def)
  then have "{s. \<exists>l. sup_steps c (Sleeping, lost_worker (sup_init t self)) (l, s)} \<subseteq> {s. running s = [] \<and> 0 < wp_pid s}"
    by blast
  moreover have "\<not> shutdown (lost_worker (sup_init t self))" by (simp add: lost_worker_def ex_sup_defs)
  ultimately show ?thesis using lost_worker_reached [OF assms] by blast
qed

lemma supervisor_loses_worker_witness:
  "ext_mainClass (ext_conf ex_conf0) = None
   \<and> sup_steps ex_conf0 (Top, sup_init 60 99) (Sleeping, lost_worker (sup_init 60 99))
   \<and> {s. \<exists>l. sup_steps ex_conf0 (Sleeping, lost_worker (sup_init 60 99)) (l, s)} \<subseteq> {s. running s = [] \<and> 0 < wp_pid s}"
  using supervisor_loses_worker [of ex_conf0 60 99] by (simp add: ex_conf0_def)

section \<open>Checks and shutdown\<close>

text \<open>The results of successive checks.\<close>

fun check_runs :: "wrapper_conf_t \<Rightarrow> string list \<Rightarrow> sup \<Rightarrow> stop + (int list \<times> sup)" where
  "check_runs c [] s = Inr ([], s)"
| "check_runs c (x # xs) s =
     try_bind (checkJVM c (Some x) s) (\<lambda>(r, s'). try_bind (check_runs c xs s') (\<lambda>(rs, t). Inr (r # rs, t)))"

lemma checkJVM_found:
  assumes "checks_cmd c = Some b" "checks_keyword c = Some kwb" "c_str kwb = Inr kw"
    and "contains kw (takeWhile (\<lambda>ch. ch \<noteq> NUL) (take 2048 x))"
  shows "checkJVM c (Some x) s =
    (if checks_retryTimes c < checks_tries s + 1 then Inr (1, s\<lparr>checks_tries := 0\<rparr>)
     else Inr (0, s\<lparr>checks_tries := checks_tries s + 1\<rparr>))"
  using assms by (simp add: checkJVM_def Let_def)

lemma check_runs_found:
  assumes c: "checks_cmd c = Some b" "checks_keyword c = Some kwb" "c_str kwb = Inr kw"
    and x: "list_all (\<lambda>x. contains kw (takeWhile (\<lambda>ch. ch \<noteq> NUL) (take 2048 x))) xs"
    and n: "checks_tries s + int (length xs) = checks_retryTimes c + 1" "xs \<noteq> []"
  shows "check_runs c xs s = Inr (replicate (length xs - 1) 0 @ [1], s\<lparr>checks_tries := 0\<rparr>)"
  using x n
proof (induction xs arbitrary: s)
  case (Cons x xs)
  note f = checkJVM_found [OF c, of x s]
  show ?case
  proof (cases xs)
    case Nil
    then show ?thesis using Cons.prems f by simp
  next
    case (Cons y ys)
    then have "check_runs c xs (s\<lparr>checks_tries := checks_tries s + 1\<rparr>) = Inr (replicate (length xs - 1) 0 @ [1], s\<lparr>checks_tries := 0\<rparr>)"
      using Cons.IH [of "s\<lparr>checks_tries := checks_tries s + 1\<rparr>"] Cons.prems by simp
    then show ?thesis using Cons.prems f Cons by simp
  qed
qed simp

text \<open>
  The check orders a restart exactly when the command's output has held the keyword
  \<open>retryTimes + 1\<close> times in a row: the first \<open>retryTimes\<close> results are 0, the next is 1, and the
  count starts again. An output without the keyword starts the count again too.
\<close>

theorem checkJVM_threshold:
  assumes "checks_cmd c = Some b" "checks_keyword c = Some kwb" "c_str kwb = Inr kw"
    and "checks_retryTimes c = int n" "checks_tries s = 0"
    and "list_all (\<lambda>x. contains kw (takeWhile (\<lambda>ch. ch \<noteq> NUL) (take 2048 x))) xs" "length xs = Suc n"
    and "\<not> contains kw good" "NUL \<notin> set good" "length good < 2048"
  shows "check_runs c xs s = Inr (replicate n 0 @ [1], s)
    \<and> checkJVM c (Some good) (s\<lparr>checks_tries := k\<rparr>) = Inr (0, s)"
proof -
  have s: "s\<lparr>checks_tries := 0\<rparr> = s" using assms(5) by simp
  have runs: "check_runs c xs s = Inr (replicate (length xs - 1) 0 @ [1], s\<lparr>checks_tries := 0\<rparr>)"
    by (rule check_runs_found [OF assms(1-3,6)]) (use assms in auto)
  have "take 2048 good = good" using assms(10) by simp
  moreover have "takeWhile (\<lambda>ch. ch \<noteq> NUL) good = good" using assms(9) by (auto simp: takeWhile_eq_all_conv)
  ultimately have "checkJVM c (Some good) (s\<lparr>checks_tries := k\<rparr>) = Inr (0, s\<lparr>checks_tries := 0\<rparr>)"
    using assms(1-3,8,10) by (simp add: checkJVM_def del: takeWhile_eq_all_conv)
  then show ?thesis using runs s assms(7) by simp
qed

lemma checkJVM_threshold_witness:
  "check_runs ex_sup_conf [''bad'', ''a bad'', ''bad b''] (sup_init 60 99) = Inr ([0, 0, 1], sup_init 60 99)
   \<and> checkJVM ex_sup_conf (Some ''ok'') ((sup_init 60 99)\<lparr>checks_tries := 2\<rparr>) = Inr (0, sup_init 60 99)"
proof -
  have c: "checks_cmd ex_sup_conf = Some (value_block ''sh'')" "checks_keyword ex_sup_conf = Some (value_block ''bad'')"
    "c_str (value_block ''bad'') = Inr ''bad''" "checks_retryTimes ex_sup_conf = int 2" "checks_tries (sup_init 60 99) = 0"
    by (simp_all add: ex_sup_conf_def sup_init_def value_block_def)
  have x: "list_all (\<lambda>x. contains ''bad'' (takeWhile (\<lambda>ch. ch \<noteq> NUL) (take 2048 x))) [''bad'', ''a bad'', ''bad b'']"
    by simp
  have g: "\<not> contains ''bad'' ''ok''" "NUL \<notin> set ''ok''" "length ''ok'' < 2048" by simp_all
  show ?thesis
    using checkJVM_threshold [OF c x _ g, of 2] by (simp add: numeral_2_eq_2)
qed

section \<open>Refinement of an abstract supervisor\<close>

text \<open>
  What a supervisor is meant to be: it starts a process only for a role that has none alive, and
  processes end. The abstract state gives the processes alive in each role.
\<close>

type_synonym proc_state = "role \<Rightarrow> int set"

inductive proc_step :: "proc_state \<Rightarrow> proc_state \<Rightarrow> bool" where
  Spawn: "m r = {} \<Longrightarrow> proc_step m (m(r := {p}))"
| Exit: "A \<subset> m r \<Longrightarrow> proc_step m (m(r := A))"

definition proc_abs :: "sup \<Rightarrow> proc_state" where
  "proc_abs s = (\<lambda>r. pids r s)"

lemma proc_shrink:
  assumes "\<And>r. m' r \<subseteq> m r"
  shows "proc_step\<^sup>*\<^sup>* m m'"
proof -
  let ?n = "m(Master := m' Master)"
  have one: "proc_step\<^sup>*\<^sup>* k (k(r := A))" if "A \<subseteq> k r" for k r A
    using that proc_step.Exit [of A k r] by (cases "A = k r") auto
  have "m' = ?n(Worker := m' Worker)"
  proof
    fix r show "m' r = (?n(Worker := m' Worker)) r" by (cases r) simp_all
  qed
  moreover have "proc_step\<^sup>*\<^sup>* ?n (?n(Worker := m' Worker))" by (rule one) (simp add: assms)
  moreover have "proc_step\<^sup>*\<^sup>* m ?n" by (rule one) (rule assms)
  ultimately show ?thesis by simp
qed

lemma proc_same: "running t = running s \<Longrightarrow> proc_step\<^sup>*\<^sup>* (proc_abs s) (proc_abs t)"
  by (rule proc_shrink) (simp add: proc_abs_def pids_def)

lemma proc_subset: "set (running t) \<subseteq> set (running s) \<Longrightarrow> proc_step\<^sup>*\<^sup>* (proc_abs s) (proc_abs t)"
  by (rule proc_shrink) (auto simp: proc_abs_def pids_def)

lemma proc_spawn:
  assumes "pids r s = {}" "running t = (p, r) # running s"
  shows "proc_step\<^sup>*\<^sup>* (proc_abs s) (proc_abs t)"
proof -
  have "proc_abs t = (proc_abs s)(r := {p})"
    using assms by (intro ext) (auto simp: proc_abs_def pids_def)
  then show ?thesis using proc_step.Spawn [of "proc_abs s" r p] assms(1) by (simp add: proc_abs_def)
qed

lemma sup_inv_no_child:
  assumes "sup_inv l s" "\<forall>p. l \<noteq> MForked p \<and> l \<noteq> MReturned p \<and> l \<noteq> WForked p"
  shows "mpid s \<le> 0 \<Longrightarrow> pids Master s = {}" "wp_pid s \<le> 0 \<Longrightarrow> pids Worker s = {}"
  using sup_invD(1-3) [OF assms(1)] assms(2) by fastforce+

lemma main_step_refines:
  "main_step c (l, s) (l', s') \<Longrightarrow> sup_inv l s \<Longrightarrow> proc_step\<^sup>*\<^sup>* (proc_abs s) (proc_abs s')"
proof (induction "(l, s)" "(l', s')" rule: main_step.induct)
  case (ForkMaster p now)
  then have "pids Master s = {}" using sup_inv_no_child(1) [OF ForkMaster.prems] by auto
  then show ?case using ForkMaster by (intro proc_spawn) (auto simp: add_child_def forkMaster_begin_def)
next
  case (ForkWorker p now)
  then have "pids Worker s = {}" using sup_inv_no_child(2) [OF ForkWorker.prems] by auto
  then show ?case using ForkWorker by (intro proc_spawn) (auto simp: add_child_def forkWork_begin_def)
next
  case (CheckOk out r)
  then show ?case using checkJVM_state [OF CheckOk(1)] by (auto intro: proc_same)
next
  case (CheckFailed out t)
  then show ?case using checkJVM_state [OF CheckFailed(1)] by (auto intro!: proc_same)
qed (auto intro!: proc_same simp: forkMaster_begin_def forkWork_begin_def)

lemma sigchld_handler_running: "set (running (sigchld_handler now s)) \<subseteq> set (running s)"
proof (induction now s rule: sigchld_handler.induct)
  case (1 now s)
  show ?case
  proof (cases "zombies s")
    case Nil
    then show ?thesis by (simp add: sigchld_handler.simps [of now s])
  next
    case (Cons k ks)
    then show ?thesis
      using "1.IH" [OF Cons] child_gone_children(1) [of now "fst k" "s\<lparr>zombies := ks\<rparr>"]
      by (simp add: sigchld_handler.simps [of now s])
  qed
qed


definition ex_worker_exit :: sup where
  "ex_worker_exit = ex_both\<lparr>running := [(100, Master)], zombies := [(101, Worker)]\<rparr>"


section \<open>A dead worker is replaced\<close>

lemma frame_simps [simp]:
  "shutdown (set_wp_pid p s) = shutdown s" "dead (set_wp_pid p s) = dead s" "dp_status (set_wp_pid p s) = dp_status s"
  "dp_status (s\<lparr>wpid := i\<rparr>) = dp_status s" "dp_status (s\<lparr>mpid := i\<rparr>) = dp_status s" "dp_status (s\<lparr>start := i\<rparr>) = dp_status s"
  "dp_status (s\<lparr>zombies := xs\<rparr>) = dp_status s" "dp_status (s\<lparr>w_restart_times := i\<rparr>) = dp_status s"
  "dp_status (s\<lparr>checks_tries := i\<rparr>) = dp_status s" "dp_status (send p g s) = dp_status s"
  "shutdown (send p g s) = shutdown s" "dead (send p g s) = dead s"
  by (simp_all add: shm_defs send_def)

lemma checkJVM_frame:
  assumes "checkJVM c out s = Inr (r, t)"
  shows "shutdown t = shutdown s" "dead t = dead s" "dp_status t = dp_status s"
  using assms by (auto simp: checkJVM_def try_bind_def Let_def split: option.splits sum.splits if_splits)

lemma main_stepI: "\<not> dead s \<Longrightarrow> main_step c (l, s) x \<Longrightarrow> sup_steps c x y \<Longrightarrow> sup_steps c (l, s) y"
  by (rule next_step [OF sup_step.Main])

lemma fork_round:
  assumes "wp_pid s \<le> 0" "\<not> shutdown s" "\<not> dead s" "dp_status s \<noteq> 1" "fresh p s"
  shows "\<exists>s'. sup_steps c (WaitMaster, s) (Sleeping, s') \<and> running s' = (p, Worker) # running s \<and> wp_pid s' = p"
proof -
  let ?f = "add_child p Worker (forkWork_begin 0 (s\<lparr>wpid := wp_pid s\<rparr>))"
  have d: "\<not> dead ?f" "\<not> dead (set_wp_pid p ?f)" using assms(3) by (simp_all add: add_child_def forkWork_begin_def)
  have "sup_steps c (WForked p, ?f) (Sleeping, (set_wp_pid p ?f)\<lparr>wpid := p\<rparr>)"
    by (rule main_stepI [OF d(1) main_step.WorkerStored], rule main_stepI [OF d(2) main_step.WorkerReturned]) simp
  then have "sup_steps c (Pick, s) (Sleeping, (set_wp_pid p ?f)\<lparr>wpid := p\<rparr>)"
    by (rule main_stepI [OF assms(3) main_step.ForkWorker [OF assms(1,5)]])
  then have "sup_steps c (AfterWait, s) (Sleeping, (set_wp_pid p ?f)\<lparr>wpid := p\<rparr>)"
    by (rule main_stepI [OF assms(3) main_step.Go [OF assms(2)]])
  then have "sup_steps c (WaitMaster, s) (Sleeping, (set_wp_pid p ?f)\<lparr>wpid := p\<rparr>)"
    by (rule main_stepI [OF assms(3) main_step.WaitDone [OF disjI1 [OF assms(4)]]])
  then show ?thesis by (intro exI conjI) (assumption, simp_all add: add_child_def forkWork_begin_def)
qed

lemma loop_round:
  assumes "wp_pid s \<le> 0" "\<not> shutdown s" "\<not> dead s" "dp_status s \<noteq> 1" "fresh p s"
    and m: "0 < mpid s \<or> ext_mainClass (ext_conf c) = None"
  shows "\<exists>s'. sup_steps c (LoopEnd, s) (Sleeping, s') \<and> running s' = (p, Worker) # running s \<and> wp_pid s' = p"
proof -
  obtain t where t: "main_step c (Top, s) (WaitMaster, t)" "wp_pid t = wp_pid s" "shutdown t = shutdown s" "dead t = dead s"
      "dp_status t = dp_status s" "running t = running s" "zombies t = zombies s"
  proof (cases "0 < mpid s")
    case True
    then show ?thesis using that [of s] main_step.MasterKept by simp
  next
    case False
    then show ?thesis using that [of "s\<lparr>start := 0, mpid := 0\<rparr>"] main_step.NoMaster [of s c 0] m by simp
  qed
  have "fresh p t" using assms(5) t by (simp add: fresh_def children_def)
  then obtain s' where s': "sup_steps c (WaitMaster, t) (Sleeping, s')" "running s' = (p, Worker) # running s" "wp_pid s' = p"
    using fork_round [of t p c] assms t by auto
  from main_stepI [OF assms(3) t(1) s'(1)] have "sup_steps c (LoopEnd, s) (Sleeping, s')"
    by (rule main_stepI [OF assms(3) main_step.Again [OF assms(2)]])
  then show ?thesis using s' by blast
qed

lemma worker_died_handled:
  assumes z: "zombies s = [(wp_pid s, Worker)]" "0 < wp_pid s" "wp_pid s \<noteq> mpid s" "wp_pid s \<notin> fst ` set (running s)"
  shows "running (sigchld_handler now s) = running s" "zombies (sigchld_handler now s) = []" "wp_pid (sigchld_handler now s) = 0"
    "wpid (sigchld_handler now s) = - 1" "mpid (sigchld_handler now s) = mpid s" "shutdown (sigchld_handler now s) = shutdown s"
    "dead (sigchld_handler now s) = dead s" "dp_status (sigchld_handler now s) = dp_status s"
proof -
  let ?s = "s\<lparr>zombies := [], wpid := wp_pid s\<rparr>"
  have "waitpid_block (wp_pid s) (kill now (wp_pid s) SIGTERM ?s) = (- 1, send (wp_pid s) SIGTERM ?s)"
    using z by (simp add: waitpid_block_def children_def kill_def)
  then have g: "child_gone now (wp_pid s) (s\<lparr>zombies := []\<rparr>) =
      (set_wp_pid 0 (send (wp_pid s) SIGTERM ?s))\<lparr>wpid := - 1, w_restart_times := w_restart_times s + 1, start := now\<rparr>"
    using z by (simp add: child_gone_def worker_gone_def send_def)
  then have "sigchld_handler now s = child_gone now (wp_pid s) (s\<lparr>zombies := []\<rparr>)"
    using sigchld_one [OF z(1), of now] by simp
  then show "running (sigchld_handler now s) = running s" "zombies (sigchld_handler now s) = []" "wp_pid (sigchld_handler now s) = 0"
    "wpid (sigchld_handler now s) = - 1" "mpid (sigchld_handler now s) = mpid s" "shutdown (sigchld_handler now s) = shutdown s"
    "dead (sigchld_handler now s) = dead s" "dp_status (sigchld_handler now s) = dp_status s"
    unfolding g by simp_all
qed



end
