(* ===== verification/DaemonMain.thy ===== *)
theory DaemonMain
  imports DaemonSup
begin

text \<open>
  The program around the supervision loop (\<open>app/daemon/src/main/c/daemon.cpp\<close>): the command line,
  the commands that stop and restart a running supervisor through its pid file, the steps from the
  configuration to the loop, and the two functions that start a Java virtual machine in the forked
  processes. Files, directories, shared memory and the JVM are parameters: what each call answers.
\<close>

section \<open>Command line\<close>

text \<open>\<open>argv[argc]\<close> is a null pointer: an option at the end sets its variable to \<open>NULL\<close>.\<close>

fun args_loop :: "string list \<Rightarrow> string option \<Rightarrow> string option \<Rightarrow> (string option \<times> string option) option" where
  "args_loop [] f c = Some (f, c)"
| "args_loop [a] f c =
     (if a = ''-f'' then Some (None, c) else if a = ''-s'' then Some (f, None) else None)"
| "args_loop (a # v # rest) f c =
     (if a = ''-f'' then args_loop rest (Some v) c
      else if a = ''-s'' then args_loop rest f (Some v) else None)"

section \<open>The pid file\<close>

text \<open>Ten bytes: the number and zeros behind it. A number of ten digits would write behind \<open>pr\<close>.\<close>

definition pid_text :: "int \<Rightarrow> stop + string" where
  "pid_text p = (if 10 \<le> length (show_int p) then Inl (Undef PastEnd)
     else Inr (show_int p @ replicate (10 - length (show_int p)) NUL))"

definition read_pid :: "string \<Rightarrow> stop + int" where
  "read_pid content = atoi_block (map Some (take 10 content @ replicate (10 - length content) NUL))"

section \<open>From the command line to the loop\<close>

type_synonym files = "string \<Rightarrow> string option"

record os_env =
  conf_file :: files
  tag0 :: conf_tag_status
  conf0 :: wrapper_conf_t
  chdir_ok :: "nat \<Rightarrow> string \<Rightarrow> bool"
  log_redirect :: "string \<Rightarrow> bool option"
  shmget :: "nat \<Rightarrow> int"
  shmat_ok :: bool
  pid_writable :: "string \<Rightarrow> bool"
  getpid :: int

datatype outcome = ExitWith int | Undefined undef | Terminated | Supervise wrapper_vars sup int

record effects =
  files :: files
  terms :: "int list"

type_synonym run = "outcome \<times> effects"

definition with_stop :: "stop + 'a \<Rightarrow> effects \<Rightarrow> ('a \<Rightarrow> run) \<Rightarrow> run" where
  "with_stop r e k = (case r of Inr x \<Rightarrow> k x | Inl (Exited n) \<Rightarrow> (ExitWith n, e) | Inl (Undef u) \<Rightarrow> (Undefined u, e))"

fun to_slashes :: "block \<Rightarrow> stop + block" where
  "to_slashes [] = Inl (Undef PastEnd)"
| "to_slashes (None # b) = Inl (Undef UninitRead)"
| "to_slashes (Some c # b) =
     (if c = NUL then Inr (Some c # b)
      else try_bind (to_slashes b) (\<lambda>r. Inr (Some (if c = CHR ''.'' then CHR ''/'' else c) # r)))"

text \<open>Up to four attempts; an identifier of 0 counts as a failure.\<close>

fun shmget_loop :: "(nat \<Rightarrow> int) \<Rightarrow> nat \<Rightarrow> nat \<Rightarrow> int option" where
  "shmget_loop f 0 i = None"
| "shmget_loop f (Suc k) i = (if 0 < f i then Some (f i) else shmget_loop f k (Suc i))"

definition change_dir :: "os_env \<Rightarrow> nat \<Rightarrow> wrapper_vars \<Rightarrow> effects \<Rightarrow> run \<Rightarrow> run" where
  "change_dir env n v e k =
     (case workdir (conf v) of
        None \<Rightarrow> k
      | Some b \<Rightarrow> with_stop (c_str b) e (\<lambda>d. if chdir_ok env n d then k else (ExitWith (- 1), e)))"

text \<open>
  The commands. The loop \<open>while(kill(oldpid,SIGTERM)==0)\<close> ends when the process is gone. A pid file
  without a number gives 0, and the signal reaches the caller, which has no handler yet.
\<close>

definition run_command :: "string \<Rightarrow> string \<Rightarrow> effects \<Rightarrow> (effects \<Rightarrow> run) \<Rightarrow> run" where
  "run_command cmd path e k =
     (case files e path of
        None \<Rightarrow> (ExitWith 0, e)
      | Some content \<Rightarrow>
          with_stop (read_pid content) e (\<lambda>oldpid.
            let e1 = e\<lparr>terms := terms e @ [oldpid]\<rparr>
            in if cmd = ''stop'' then
                 (if oldpid = 0 then (Terminated, e1) else (ExitWith 0, e1\<lparr>files := (files e1)(path := None)\<rparr>))
               else if cmd = ''restart'' then (if oldpid = 0 then (Terminated, e1) else k e1)
               else (ExitWith 0, e)))"

text \<open>From the test of the pid file to the loop; the parent process of \<open>daemon()\<close> exits.\<close>

definition start_daemon :: "os_env \<Rightarrow> wrapper_vars \<Rightarrow> string \<Rightarrow> effects \<Rightarrow> run" where
  "start_daemon env v path e =
     (if files e path \<noteq> None then (ExitWith 0, e)
      else case mainClass (conf v) of
        None \<Rightarrow> (ExitWith 0, e)
      | Some mc \<Rightarrow>
          with_stop (to_slashes mc) e (\<lambda>mc'.
          with_stop (case ext_mainClass (ext_conf (conf v)) of
               None \<Rightarrow> Inr None | Some x \<Rightarrow> try_bind (to_slashes x) (\<lambda>x'. Inr (Some x'))) e (\<lambda>xc'.
          let v1 = v\<lparr>conf := (conf v)\<lparr>mainClass := Some mc', ext_conf := (ext_conf (conf v))\<lparr>ext_mainClass := xc'\<rparr>\<rparr>\<rparr>
          in with_stop (case name (conf v) of None \<Rightarrow> Inl (Undef NullRead) | Some b \<Rightarrow> c_str b) e (\<lambda>_.
          change_dir env 1 v e (
          with_stop (case logfile (conf v) of None \<Rightarrow> Inr None
               | Some b \<Rightarrow> try_bind (c_str b) (\<lambda>f. Inr (log_redirect env f))) e (\<lambda>redirected.
          if redirected = Some False then (ExitWith (- 1), e)
          else case shmget_loop (shmget env) 4 0 of
            None \<Rightarrow> (ExitWith (- 1), e)
          | Some shmid \<Rightarrow>
              if \<not> shmat_ok env then (ExitWith 1, e)
              else if \<not> pid_writable env path then (ExitWith 0, e)
              else with_stop (pid_text (getpid env)) e (\<lambda>t.
                (Supervise v1 (sup_init (jvmExitTimeout v) (getpid env)) shmid,
                 e\<lparr>files := (files e)(path \<mapsto> t)\<rparr>))))))))"

text \<open>The file-level variables as they are initialised, with the fresh allocation of the configuration.\<close>

definition main_vars :: "wrapper_conf_t \<Rightarrow> wrapper_vars" where
  "main_vars c0 = \<lparr>conf = c0, wrapperPid = map Some (''wrapper.pid'' @ [NUL]), debug = False, jvmExitTimeout = 60\<rparr>"

definition main :: "os_env \<Rightarrow> string list \<Rightarrow> effects \<Rightarrow> run" where
  "main env argv e =
     (case args_loop (tl argv) None None of
        None \<Rightarrow> (ExitWith 0, e)
      | Some (None, _) \<Rightarrow> (ExitWith 0, e)
      | Some (Some f, cmd) \<Rightarrow>
          with_stop (parse_properties (tag0 env) (conf_file env f) (main_vars (conf0 env))) e (\<lambda>v.
          change_dir env 0 v e (
          with_stop (c_str (wrapperPid v)) e (\<lambda>path.
          case cmd of
            None \<Rightarrow> start_daemon env v path e
          | Some c \<Rightarrow> run_command c path e (start_daemon env v path)))))"

section \<open>Starting a JVM\<close>

text \<open>
  The JNI calls the code makes, as parameters: the result of \<open>JNI_CreateJavaVM\<close> for the options and
  the flag \<open>ignoreUnrecognized\<close>, whether a class is found, whether it has a \<open>main\<close>.
\<close>

record jvm =
  createJavaVM :: "string list \<Rightarrow> bool \<Rightarrow> int"
  findClass :: "string \<Rightarrow> bool"
  hasMain :: "string \<Rightarrow> bool"

datatype jvm_event = Created "string list" | CallMain string "string list option" | Destroyed

text \<open>The first \<open>n\<close> strings of an array, read the way the loops over it read them.\<close>

fun read_args :: "nat \<Rightarrow> arr \<Rightarrow> stop + string list" where
  "read_args 0 a = Inr []"
| "read_args (Suc n) None = Inl (Undef UninitRead)"
| "read_args (Suc n) (Some []) = Inl (Undef PastEnd)"
| "read_args (Suc n) (Some (None # xs)) = Inl (Undef NullRead)"
| "read_args (Suc n) (Some (Some b # xs)) =
     try_bind (c_str b) (\<lambda>s. try_bind (read_args n (Some xs)) (\<lambda>ss. Inr (s # ss)))"

definition LibC :: string where "LibC = ''org/daemon/wrapper/LibC''"

text \<open>
  \<open>callJVM\<close> has no return statement on its last path: the value is \<open>None\<close>. The argument array is a
  null reference when it would be empty.
\<close>

definition callJVM :: "jvm \<Rightarrow> int \<Rightarrow> wrapper_conf_t \<Rightarrow> stop + (int option \<times> jvm_event list)" where
  "callJVM j shmid c =
     try_bind (read_args (nat (jvmOptsLen c)) (jvmOptions c)) (\<lambda>options.
     if createJavaVM j options True < 0 then Inr (Some (- 1), [])
     else
       try_bind (case mainClass c of None \<Rightarrow> Inl (Undef NullRead) | Some b \<Rightarrow> c_str b) (\<lambda>cls.
       if \<not> findClass j cls \<or> \<not> hasMain j cls then Inr (None, [Created options, Destroyed])
       else
         try_bind (read_args (nat (mainArgsLen c)) (mainArgs c)) (\<lambda>args.
         let x = (if cls = LibC then [show_int shmid] else []);
             jargs = (if 0 < mainArgsLen c + int (length x) then Some (x @ args) else None)
         in Inr (None, [Created options, CallMain cls jargs, Destroyed]))))"

text \<open>\<open>callExtJVM\<close> exits the process when the JVM does not start and returns -1 otherwise.\<close>

definition callExtJVM :: "jvm \<Rightarrow> int \<Rightarrow> wrapper_ext_conf_t \<Rightarrow> stop + (int \<times> jvm_event list)" where
  "callExtJVM j shmid c =
     try_bind (read_args (nat (ext_jvmOptsLen c)) (ext_jvmOptions c)) (\<lambda>options.
     if createJavaVM j options False < 0 then Inl (Exited 0)
     else
       try_bind (case ext_mainClass c of None \<Rightarrow> Inl (Undef NullRead) | Some b \<Rightarrow> c_str b) (\<lambda>cls.
       if \<not> findClass j cls \<or> \<not> hasMain j cls then Inr (- 1, [Created options, Destroyed])
       else
         try_bind (read_args (nat (ext_argsLen c)) (ext_args c)) (\<lambda>args.
         Inr (- 1, [Created options, CallMain cls (Some (show_int shmid # args)), Destroyed]))))"

section \<open>The pid file, stop and restart\<close>

lemma show_nat_no_nul: "NUL \<notin> set (show_nat n)"
  using show_nat_digits [of n] by (auto simp: list_all_iff is_digit_def)

lemma read_pid_text:
  assumes "0 < p" "p < 10 ^ 9"
  shows "\<exists>t. pid_text p = Inr t \<and> read_pid t = Inr p"
proof -
  let ?d = "show_nat (nat p)"
  have d: "show_int p = ?d" using assms by (simp add: show_int_def)
  have "nat p < 10 ^ Suc 8" using assms by simp
  then have len: "length ?d \<le> 9" using length_show_nat [of "nat p" 8] by simp
  have "atoi ?d = p" using atoi_show_int [of p] assms d by simp
  moreover have "replicate (10 - length ?d) NUL = NUL # replicate (9 - length ?d) NUL"
    using len by (simp add: Suc_diff_le flip: replicate_Suc)
  ultimately have "atoi_block (map Some (?d @ replicate (10 - length ?d) NUL)) = Inr p"
    using atoi_block_digits [OF show_nat_nonempty show_nat_digits, of "nat p"] by simp
  moreover have "pid_text p = Inr (?d @ replicate (10 - length ?d) NUL)" using len d by (simp add: pid_text_def)
  ultimately show ?thesis using len by (simp add: read_pid_def)
qed

fun started :: "outcome \<Rightarrow> bool" where
  "started (Supervise v s i) = True"
| "started _ = False"

lemma with_stop_not_started: "(\<And>x. \<not> started (fst (k x))) \<Longrightarrow> \<not> started (fst (with_stop r e k))"
  by (auto simp: with_stop_def split: sum.splits stop.splits)

lemma change_dir_not_started: "\<not> started (fst k) \<Longrightarrow> \<not> started (fst (change_dir env n v e k))"
  by (cases "workdir (conf v)") (simp_all add: change_dir_def with_stop_not_started)

lemma start_daemon_running: "files e path \<noteq> None \<Longrightarrow> \<not> started (fst (start_daemon env v path e))"
  by (simp add: start_daemon_def)

lemma run_command_not_started: "\<not> started (fst (run_command cmd path e (start_daemon env v path)))"
proof (cases "files e path")
  case None
  then show ?thesis by (simp add: run_command_def)
next
  case (Some t)
  have "\<not> started (fst (start_daemon env v path (e\<lparr>terms := ts\<rparr>)))" for ts
    by (rule start_daemon_running) (simp add: Some)
  then show ?thesis
    unfolding run_command_def Some option.case by (intro with_stop_not_started) (simp add: Let_def)
qed

text \<open>
  \<open>-s restart\<close> never starts a supervisor: whatever the configuration and the system answer, the
  program stops the old process and then refuses to run because the pid file, which only
  \<open>-s stop\<close> removes, is still there. No command does.
\<close>

theorem restart_never_starts:
  assumes "args_loop (tl argv) None None = Some (f, Some cmd)"
  shows "\<not> started (fst (main env argv e))"
proof (cases f)
  case None
  then show ?thesis using assms by (simp add: main_def)
next
  case (Some g)
  then show ?thesis
    using assms unfolding main_def
    by (auto intro!: with_stop_not_started change_dir_not_started run_command_not_started)
qed

definition ex_env :: os_env where
  "ex_env = \<lparr>conf_file = (\<lambda>f. if f = ''wrapper.conf'' then Some (print_conf
       [ISet K_NAME ''d'', ISet K_MAIN_CLASS ''org.daemon.wrapper.LibC'', ISec JVM_OPTION [Entry ''-Xmx64M''],
        ISec MAIN_ARGS [Entry ''a'', Entry ''b'']]) else None),
     tag0 = TAG_INIT, conf0 = ex_conf0, chdir_ok = (\<lambda>_ _. True), log_redirect = (\<lambda>_. Some True),
     shmget = (\<lambda>i. if i < 2 then - 1 else 77), shmat_ok = True, pid_writable = (\<lambda>_. True), getpid = 42\<rparr>"

definition ex_running :: effects where
  "ex_running = \<lparr>files = (\<lambda>f. if f = ''wrapper.pid'' then Some (''42'' @ replicate 8 NUL) else None), terms = []\<rparr>"

lemma restart_never_starts_witness:
  "args_loop (tl [''daemon'', ''-f'', ''wrapper.conf'', ''-s'', ''restart'']) None None = Some (Some ''wrapper.conf'', Some ''restart'')
   \<and> \<not> started (fst (main ex_env [''daemon'', ''-f'', ''wrapper.conf'', ''-s'', ''restart''] ex_running))
   \<and> terms (snd (main ex_env [''daemon'', ''-f'', ''wrapper.conf'', ''-s'', ''restart''] ex_running)) = [42]"
proof -
  have "args_loop (tl [''daemon'', ''-f'', ''wrapper.conf'', ''-s'', ''restart'']) None None = Some (Some ''wrapper.conf'', Some ''restart'')"
    by simp
  from restart_never_starts [OF this, of ex_env ex_running] this
  show ?thesis
    by (intro conjI) (assumption | code_simp)+
qed

lemma with_stop_started:
  assumes "with_stop r e k = (Supervise v s i, e')"
  obtains x where "r = Inr x" "k x = (Supervise v s i, e')"
  using assms by (auto simp: with_stop_def split: sum.splits stop.splits)

lemma change_dir_started:
  assumes "change_dir env n v e k = (Supervise v' s i, e')"
  shows "k = (Supervise v' s i, e')"
    and "change_dir env n v e2 k2 = k2"
  using assms by (auto simp: change_dir_def with_stop_def split: option.splits sum.splits stop.splits if_splits)

lemma start_daemon_started:
  assumes "start_daemon env v path e = (Supervise v' s i, e')"
  shows "files e path = None" "\<exists>t. pid_text (getpid env) = Inr t \<and> e' = e\<lparr>files := (files e)(path \<mapsto> t)\<rparr>"
    "s = sup_init (jvmExitTimeout v) (getpid env)"
  using assms unfolding start_daemon_def
  by (auto simp: Let_def elim!: with_stop_started dest!: change_dir_started(1) split: if_splits option.splits)

text \<open>
  C33: the pid file a started supervisor leaves is the one the stop command reads: started and then
  stopped with the same configuration, the program sends its signal to exactly the process that
  was started and leaves the files as they were before.
\<close>

theorem stop_ends_started:
  assumes start: "args_loop (tl argv) None None = Some (Some f, None)"
      "main env argv e = (Supervise v s i, e')"
    and stop: "args_loop (tl argv') None None = Some (Some f, Some ''stop'')"
    and pid: "0 < getpid env" "getpid env < 10 ^ 9"
  shows "main env argv' e' = (ExitWith 0, e\<lparr>terms := terms e @ [getpid env]\<rparr>) \<and> s = sup_init (exit_timeout s) (getpid env)"
proof -
  let ?p = "parse_properties (tag0 env) (conf_file env f) (main_vars (conf0 env))"
  from start obtain w where w: "?p = Inr w"
    "change_dir env 0 w e (with_stop (c_str (wrapperPid w)) e (\<lambda>path. start_daemon env w path e)) = (Supervise v s i, e')"
    by (auto simp: main_def elim: with_stop_started)
  from change_dir_started(1) [OF w(2)] obtain path where path: "c_str (wrapperPid w) = Inr path"
    "start_daemon env w path e = (Supervise v s i, e')"
    by (auto elim: with_stop_started)
  obtain t where t: "pid_text (getpid env) = Inr t" "read_pid t = Inr (getpid env)" using read_pid_text pid by blast
  then have e': "e' = e\<lparr>files := (files e)(path \<mapsto> t)\<rparr>" "files e path = None" "s = sup_init (jvmExitTimeout w) (getpid env)"
    using start_daemon_started [OF path(2)] by auto
  have fs: "(files e)(path := None) = files e" using e'(2) by auto
  have "run_command ''stop'' path e' k = (ExitWith 0, e\<lparr>terms := terms e @ [getpid env]\<rparr>)" for k
    using e'(1) t pid fs by (simp add: run_command_def with_stop_def)
  then have "main env argv' e' = (ExitWith 0, e\<lparr>terms := terms e @ [getpid env]\<rparr>)"
    using stop w(1) path(1) change_dir_started(2) [OF w(2)] by (simp add: main_def with_stop_def)
  moreover have "s = sup_init (exit_timeout s) (getpid env)" using e'(3) by (simp add: sup_init_def)
  ultimately show ?thesis by simp
qed

lemma startedD: "started (fst m) \<Longrightarrow> \<exists>v s i e'. m = (Supervise v s i, e')"
  by (cases m; cases "fst m") auto

definition ex_none :: effects where
  "ex_none = \<lparr>files = (\<lambda>_. None), terms = []\<rparr>"

lemma c_str_value: "NUL \<notin> set s \<Longrightarrow> c_str (value_block s) = Inr s"
  by (simp add: value_block_def c_str_map)

definition ex_parsed_vars :: wrapper_vars where
  "ex_parsed_vars = (main_vars (init_conf ex_conf0))\<lparr>conf := (init_conf ex_conf0)\<lparr>name := Some (value_block ''d''),
     mainClass := Some (value_block ''org.daemon.wrapper.LibC''), jvmOptsLen := 1, mainArgsLen := 2,
     jvmOptions := Some (map (Some \<circ> arg_block) [''-Xmx64M'']), mainArgs := Some (map (Some \<circ> arg_block) [''a'', ''b''])\<rparr>\<rparr>"

lemma ex_parsed:
  "parse_properties (tag0 ex_env) (conf_file ex_env ''wrapper.conf'') (main_vars (conf0 ex_env)) = Inr ex_parsed_vars"
  by code_simp

lemma stop_ends_started_witness:
  "started (fst (main ex_env [''daemon'', ''-f'', ''wrapper.conf''] ex_none))
   \<and> main ex_env [''daemon'', ''-f'', ''wrapper.conf'', ''-s'', ''stop'']
       (snd (main ex_env [''daemon'', ''-f'', ''wrapper.conf''] ex_none)) = (ExitWith 0, ex_none\<lparr>terms := [42]\<rparr>)"
proof -
  let ?m = "main ex_env [''daemon'', ''-f'', ''wrapper.conf''] ex_none"
  have n: "show_int 42 = ''42''" by code_simp
  have sh: "shmget_loop (shmget ex_env) 4 0 = Some 77" by code_simp
  have cl: "to_slashes (value_block ''org.daemon.wrapper.LibC'') = Inr (value_block LibC)" by code_simp
  have f: "workdir (conf ex_parsed_vars) = None" "logfile (conf ex_parsed_vars) = None"
    "name (conf ex_parsed_vars) = Some (value_block ''d'')" "ext_mainClass (ext_conf (conf ex_parsed_vars)) = None"
    "mainClass (conf ex_parsed_vars) = Some (value_block ''org.daemon.wrapper.LibC'')"
    "c_str (wrapperPid ex_parsed_vars) = Inr ''wrapper.pid''"
    by code_simp+
  have g: "getpid ex_env = 42" "shmat_ok ex_env" "pid_writable ex_env ''wrapper.pid''" by (simp_all add: ex_env_def)
  have st: "started (fst ?m)"
    unfolding main_def
    by (simp add: ex_parsed f g n sh cl c_str_value with_stop_def change_dir_def start_daemon_def ex_none_def pid_text_def)
  from startedD [OF st] obtain v s i e' where m: "?m = (Supervise v s i, e')" by blast
  have "getpid ex_env = 42" by (simp add: ex_env_def)
  with stop_ends_started [OF _ m, of "''wrapper.conf''" "[''daemon'', ''-f'', ''wrapper.conf'', ''-s'', ''stop'']"]
  have "main ex_env [''daemon'', ''-f'', ''wrapper.conf'', ''-s'', ''stop''] e' = (ExitWith 0, ex_none\<lparr>terms := terms ex_none @ [42]\<rparr>)"
    by simp
  then show ?thesis using st m by (simp add: ex_none_def)
qed

section \<open>From the configuration file to the Java call\<close>

lemma read_args_strings:
  "map_option (map (map_option c_str)) a = Some (map (Some \<circ> Inr) es) \<Longrightarrow> read_args (length es) a = Inr es"
proof (induction es arbitrary: a)
  case (Cons e es)
  then obtain x xs where a: "a = Some (x # xs)" "map_option c_str x = Some (Inr e)" "map (map_option c_str) xs = map (Some \<circ> Inr) es"
    by (cases a) (auto simp: Cons_eq_map_conv map_eq_Cons_conv)
  then show ?case using Cons.IH [of "Some xs"] by (cases x) auto
qed simp

definition slashes :: "string \<Rightarrow> string" where
  "slashes s = map (\<lambda>c. if c = CHR ''.'' then CHR ''/'' else c) s"

lemma to_slashes_value:
  "NUL \<notin> set s \<Longrightarrow> to_slashes (value_block s) = Inr (value_block (slashes s))"
  unfolding value_block_def slashes_def by (induction s) auto

lemma slashes_no_nul: "NUL \<notin> set s \<Longrightarrow> NUL \<notin> set (slashes s)"
  by (auto simp: slashes_def)

lemma printed_args:
  assumes wf: "list_all wf_item its" and dist: "distinct (section_tags its)"
    and s: "ISec t ls \<in> set its" "entries ls \<noteq> []"
    and v: "v'\<lparr>conf := no_arrays (conf v')\<rparr> = spec_conf its v"
    and a: "arg_strings t (conf v') = Some (map (Some \<circ> Inr) (entries ls))"
  shows "arg_len t (conf v') = int (length (entries ls))"
    "read_args (nat (arg_len t (conf v'))) (arg_arr t (conf v')) = Inr (entries ls)"
proof -
  have t: "is_args t" using wf s(1) by (fastforce simp: list_all_iff)
  have "arg_len t (conf v') = arg_len t (no_arrays (conf v'))" by (cases t) (simp_all add: no_arrays_def)
  also have "no_arrays (conf v') = conf (spec_conf its v)" using arg_cong [OF v, of conf] by simp
  finally show l: "arg_len t (conf v') = int (length (entries ls))" using arg_len_spec [OF dist s(1) t] by simp
  show "read_args (nat (arg_len t (conf v'))) (arg_arr t (conf v')) = Inr (entries ls)"
    using a read_args_strings [of "arg_arr t (conf v')" "entries ls"] by (simp add: l arg_strings_def)
qed

text \<open>
  C9: what the configuration file says is what the worker's JVM gets. For a well-formed file with a
  main class, arguments and options, the worker process creates the JVM with exactly the options of
  the file, and calls \<open>main\<close> of exactly that class, dots turned into slashes, with exactly the
  arguments of the file in order, behind the shared memory identifier for the class \<open>LibC\<close>.
\<close>

theorem worker_runs_configured_main:
  assumes wf: "list_all wf_item its"
    and fit: "list_all (\<lambda>l. drift its + length l + 2 \<le> 2048) (file_lines its)"
    and dist: "distinct (section_tags its)"
    and jvm: "ISec JVM_OPTION opts \<in> set its" "entries opts \<noteq> []"
    and args: "ISec MAIN_ARGS args \<in> set its" "entries args \<noteq> []"
    and cls: "mainClass (conf (spec_conf its (v\<lparr>conf := init_conf (conf v)\<rparr>))) = Some (value_block cls)" "NUL \<notin> set cls"
    and j: "0 \<le> createJavaVM j (entries opts) True" "findClass j (slashes cls)" "hasMain j (slashes cls)"
  shows "\<exists>v' mc. parse_properties tg (Some (print_conf its)) v = Inr v'
    \<and> map_option to_slashes (mainClass (conf v')) = Some (Inr mc)
    \<and> callJVM j shmid ((conf v')\<lparr>mainClass := Some mc\<rparr>) = Inr (None,
        [Created (entries opts),
         CallMain (slashes cls) (Some ((if slashes cls = LibC then [show_int shmid] else []) @ entries args)),
         Destroyed])"
proof -
  let ?v = "v\<lparr>conf := init_conf (conf v)\<rparr>"
  obtain v' where v': "parse_properties tg (Some (print_conf its)) v = Inr v'"
      "v'\<lparr>conf := no_arrays (conf v')\<rparr> = spec_conf its ?v"
      "\<And>t ls. ISec t ls \<in> set its \<Longrightarrow> entries ls \<noteq> [] \<Longrightarrow> arg_strings t (conf v') = Some (map (Some \<circ> Inr) (entries ls))"
    using parse_printed [OF wf fit dist jvm, of tg v] by blast
  note o = printed_args [OF wf dist jvm v'(2) v'(3) [OF jvm]]
  note a = printed_args [OF wf dist args v'(2) v'(3) [OF args]]
  have "mainClass (conf v') = mainClass (no_arrays (conf v'))" by (simp add: no_arrays_def)
  also have "no_arrays (conf v') = conf (spec_conf its ?v)" using arg_cong [OF v'(2), of conf] by simp
  finally have mc: "mainClass (conf v') = Some (value_block cls)" using cls(1) by simp
  have "callJVM j shmid ((conf v')\<lparr>mainClass := Some (value_block (slashes cls))\<rparr>) = Inr (None,
        [Created (entries opts),
         CallMain (slashes cls) (Some ((if slashes cls = LibC then [show_int shmid] else []) @ entries args)),
         Destroyed])"
    using o a j args(2) by (simp add: callJVM_def c_str_value [OF slashes_no_nul [OF cls(2)]] Let_def)
  then show ?thesis using v'(1) mc to_slashes_value [OF cls(2)] by auto
qed

definition ex_jvm :: jvm where
  "ex_jvm = \<lparr>createJavaVM = (\<lambda>_ _. 0), findClass = (\<lambda>_. True), hasMain = (\<lambda>_. True)\<rparr>"

definition ex_start :: "item list" where
  "ex_start = [ISet K_NAME ''d'', ISet K_MAIN_CLASS ''org.daemon.wrapper.LibC'', ISec JVM_OPTION [Entry ''-Xmx64M''],
     ISec MAIN_ARGS [Entry ''a'', Entry ''b'']]"

lemma worker_runs_configured_main_witness:
  "list_all wf_item ex_start \<and> (\<exists>v' mc. parse_properties TAG_INIT (Some (print_conf ex_start)) ex_vars0 = Inr v'
    \<and> callJVM ex_jvm 77 ((conf v')\<lparr>mainClass := Some mc\<rparr>) = Inr (None,
        [Created [''-Xmx64M''], CallMain LibC (Some [''77'', ''a'', ''b'']), Destroyed]))"
proof -
  have wf: "list_all wf_item ex_start" by code_simp
  have fit: "list_all (\<lambda>l. drift ex_start + length l + 2 \<le> 2048) (file_lines ex_start)" by code_simp
  have dist: "distinct (section_tags ex_start)" by code_simp
  have o: "ISec JVM_OPTION [Entry ''-Xmx64M''] \<in> set ex_start" "ISec MAIN_ARGS [Entry ''a'', Entry ''b''] \<in> set ex_start"
    by (simp_all add: ex_start_def)
  have c: "mainClass (conf (spec_conf ex_start (ex_vars0\<lparr>conf := init_conf (conf ex_vars0)\<rparr>))) = Some (value_block ''org.daemon.wrapper.LibC'')"
    by code_simp
  have l: "slashes ''org.daemon.wrapper.LibC'' = LibC" by code_simp
  have n: "show_int 77 = ''77''" by code_simp
  show ?thesis
    using worker_runs_configured_main [OF wf fit dist o(1) _ o(2) _ c, of ex_jvm TAG_INIT 77] wf l n
    by (fastforce simp: ex_jvm_def)
qed

end
