(* ===== verification/DaemonProc.thy ===== *)
theory DaemonProc
  imports DaemonSup
begin

text \<open>
  The parts of the JVM supervisor that only talk to the kernel: becoming a daemon and redirecting the
  standard streams (\<open>daemon.cpp\<close>), and the native methods of the Java class \<open>LibC\<close>
  (\<open>org_daemon_wrapper_LibC.cpp\<close>), with the strings that cross the border to Java. What the kernel answers
  is a parameter; the state is what a process has of it: its session, its directory and what its
  descriptors are open on. A Java string is the list of its bytes in UTF-8.
\<close>

section \<open>Processes and descriptors\<close>

record process =
  leader :: bool
  cwd :: string
  fds :: "int \<Rightarrow> string option"

record sys =
  sys_fork :: int
  setsid_ok :: bool
  root_ok :: bool
  sys_open :: int
  dup2_ok :: "int \<Rightarrow> bool"
  close_ok :: bool

datatype 'a jres = JRet 'a | JExit int | JThrow | JUndef

text \<open>
  \<open>dup2(fd, n)\<close> onto the three standard streams, one after the other, up to the first that fails; then
  \<open>close\<close> of a descriptor above them. -1 is an error.
\<close>

fun dup_streams :: "sys \<Rightarrow> int \<Rightarrow> int list \<Rightarrow> process \<Rightarrow> int \<times> process" where
  "dup_streams k fd [] p = (0, p)"
| "dup_streams k fd (n # ns) p =
     (if \<not> dup2_ok k n then (- 1, p) else dup_streams k fd ns (p\<lparr>fds := (fds p)(n := fds p fd)\<rparr>))"

definition redirect :: "sys \<Rightarrow> string \<Rightarrow> process \<Rightarrow> int \<times> process" where
  "redirect k file p = (let fd = sys_open k; p1 = p\<lparr>fds := (fds p)(fd \<mapsto> file)\<rparr> in
     case dup_streams k fd [0, 1, 2] p1 of
       (r, p2) \<Rightarrow> if r \<noteq> 0 then (- 1, p2)
         else if 2 < fd then (if close_ok k then (0, p2\<lparr>fds := (fds p2)(fd := None)\<rparr>) else (- 1, p2))
         else (0, p2))"

text \<open>\<open>disableSTD\<close> only reports failures and goes on.\<close>

fun try_streams :: "sys \<Rightarrow> int \<Rightarrow> int list \<Rightarrow> process \<Rightarrow> process" where
  "try_streams k fd [] p = p"
| "try_streams k fd (n # ns) p =
     try_streams k fd ns (if dup2_ok k n then p\<lparr>fds := (fds p)(n := fds p fd)\<rparr> else p)"

definition disableSTD :: "sys \<Rightarrow> process \<Rightarrow> process" where
  "disableSTD k p = (let fd = sys_open k in
     if fd = - 1 then p
     else let p1 = try_streams k fd [0, 1, 2] (p\<lparr>fds := (fds p)(fd \<mapsto> ''/dev/null'')\<rparr>) in
       if 2 < fd \<and> close_ok k then p1\<lparr>fds := (fds p1)(fd := None)\<rparr> else p1)"

text \<open>\<open>daemon\<close> of \<open>daemon.cpp\<close>, in the process that goes on, and the redirection to the log file.\<close>

definition daemonize :: "sys \<Rightarrow> process \<Rightarrow> int jres \<times> process" where
  "daemonize k p = (if sys_fork k = - 1 then (JRet (- 1), p)
     else if sys_fork k \<noteq> 0 then (JExit 0, p)
     else if \<not> setsid_ok k then (JRet (- 1), p)
     else (JRet 0, p\<lparr>leader := True\<rparr>))"

definition log_streams :: "sys \<Rightarrow> string \<Rightarrow> process \<Rightarrow> int \<times> process" where
  "log_streams k file p = (if sys_open k = - 1 then (0, p) else redirect k file p)"

section \<open>Native methods\<close>

definition libc_daemon :: "sys \<Rightarrow> int \<Rightarrow> int \<Rightarrow> process \<Rightarrow> int jres \<times> process" where
  "libc_daemon k nochdir noclose p = (case daemonize k p of
       (JRet r, p1) \<Rightarrow>
         if r \<noteq> 0 then (JRet r, p1)
         else if nochdir = 0 \<and> \<not> root_ok k then (JRet (- 1), p1)
         else let p2 = (if nochdir = 0 then p1\<lparr>cwd := ''/''\<rparr> else p1) in
           if noclose = 0 \<and> sys_open k \<noteq> - 1
           then (case redirect k ''/dev/null'' p2 of (r2, p3) \<Rightarrow> (JRet r2, p3))
           else (JRet 0, p2)
     | (e, p1) \<Rightarrow> (e, p1))"

text \<open>\<open>init\<close> attaches the shared memory; \<open>getwpid\<close> reads the worker's number from it.\<close>

definition libc_init :: "bool \<Rightarrow> int jres" where
  "libc_init shmat_ok = (if shmat_ok then JRet 0 else JExit 1)"

definition libc_getwpid :: "wrapper_shm_t \<Rightarrow> int" where
  "libc_getwpid m = pid (wp m)"

text \<open>
  \<open>read\<close> and \<open>write\<close> with the kernel's functions as arguments: the number \<open>read\<close> returns and what it
  puts into the buffer, the number \<open>write\<close> returns. A negative size makes \<open>new\<close> throw; a failed \<open>read\<close>
  gives \<open>NewByteArray\<close> a negative length, and the null reference it answers with is used.
\<close>

definition libc_read :: "(int \<Rightarrow> int \<Rightarrow> 'k \<Rightarrow> int \<times> string \<times> 'k) \<Rightarrow> int \<Rightarrow> int \<Rightarrow> 'k \<Rightarrow> string jres \<times> 'k" where
  "libc_read sys_read fid buf_len k = (if buf_len + 1 < 0 then (JThrow, k)
     else case sys_read fid buf_len k of
       (n, data, k') \<Rightarrow> if n < 0 then (JUndef, k') else (JRet data, k'))"

definition libc_write :: "(int \<Rightarrow> string \<Rightarrow> 'k \<Rightarrow> int \<times> 'k) \<Rightarrow> int \<Rightarrow> string \<Rightarrow> 'k \<Rightarrow> int \<times> 'k" where
  "libc_write sys_write fid datas k = (if datas = [] then (- 1, k) else sys_write fid datas k)"

definition libc_pipe :: "('k \<Rightarrow> (int \<times> int) option \<times> 'k) \<Rightarrow> 'k \<Rightarrow> int list option \<times> 'k" where
  "libc_pipe sys_pipe k = (case sys_pipe k of
     (Some (r, w), k') \<Rightarrow> (Some [r, w], k') | (None, k') \<Rightarrow> (None, k'))"

text \<open>
  \<open>waitpid\<close> hands the reference of the Java array to the kernel as the address of the status; when a
  child has ended, the kernel writes there.
\<close>

definition libc_waitpid :: "(int \<Rightarrow> int \<Rightarrow> int) \<Rightarrow> int \<Rightarrow> 'r option \<Rightarrow> int \<Rightarrow> int jres" where
  "libc_waitpid sys_waitpid p arr opt = (let r = sys_waitpid p opt in
     if 0 < r \<and> arr \<noteq> None then JUndef else JRet r)"

text \<open>Strings to and from Java: an empty Java string becomes a null pointer, a zero byte ends the C string.\<close>

definition s2Jstring :: "string \<Rightarrow> string" where
  "s2Jstring pat = takeWhile (\<lambda>c. c \<noteq> NUL) pat"

definition jstring2s :: "string \<Rightarrow> string option" where
  "jstring2s jstr = (if 0 < length jstr then Some (takeWhile (\<lambda>c. c \<noteq> NUL) jstr) else None)"

section \<open>Standard streams\<close>

lemma dup_streams_ok:
  "dup_streams k fd ns p = (0, p') \<Longrightarrow>
    leader p' = leader p \<and> cwd p' = cwd p \<and> fds p' = (\<lambda>n. if n \<in> set ns then fds p fd else fds p n)"
proof (induction ns arbitrary: p)
  case (Cons n ns)
  then have "dup_streams k fd ns (p\<lparr>fds := (fds p)(n := fds p fd)\<rparr>) = (0, p')" by (simp split: if_splits)
  from Cons.IH [OF this] show ?case by auto
qed simp

lemma redirect_ok:
  assumes "redirect k file p = (0, p')" "0 \<le> sys_open k" "fds p (sys_open k) = None"
  shows "leader p' = leader p \<and> cwd p' = cwd p \<and> fds p' = (\<lambda>n. if n \<in> {0, 1, 2} then Some file else fds p n)"
proof -
  let ?fd = "sys_open k" and ?p1 = "p\<lparr>fds := (fds p)(sys_open k \<mapsto> file)\<rparr>"
  obtain r p2 where d: "dup_streams k ?fd [0, 1, 2] ?p1 = (r, p2)" by (cases "dup_streams k ?fd [0, 1, 2] ?p1")
  have r: "r = 0" "p' = (if 2 < ?fd then p2\<lparr>fds := (fds p2)(?fd := None)\<rparr> else p2)"
    using assms(1) d by (auto simp: redirect_def Let_def simp del: dup_streams.simps split: if_splits)
  from dup_streams_ok [OF d [unfolded r(1)]]
  have p2: "leader p2 = leader p" "cwd p2 = cwd p"
    "fds p2 = (\<lambda>n. if n \<in> {0, 1, 2} then Some file else ((fds p)(?fd \<mapsto> file)) n)" by (simp_all add: fun_eq_iff)
  show ?thesis
  proof (cases "2 < ?fd")
    case True
    then show ?thesis using r(2) p2 assms(3) by (auto simp: fun_eq_iff)
  next
    case False
    then have "?fd \<in> {0, 1, 2}" using assms(2) by auto
    then show ?thesis using r(2) p2 False by (auto simp: fun_eq_iff)
  qed
qed

text \<open>
  C36: a call of \<open>LibC.daemon\<close> that returns 0 does so in a new process that leads its own session; unless
  told otherwise it works in the root directory and its three standard streams are open on
  \<open>/dev/null\<close>, if that could be opened; every other descriptor is as it was.
\<close>

theorem daemon_detaches:
  assumes "libc_daemon k nochdir noclose p = (JRet 0, p')"
    and "sys_open k = - 1 \<or> 0 \<le> sys_open k \<and> fds p (sys_open k) = None"
  shows "sys_fork k = 0 \<and> leader p' \<and> cwd p' = (if nochdir = 0 then ''/'' else cwd p) \<and>
    fds p' = (\<lambda>n. if n \<in> {0, 1, 2} \<and> noclose = 0 \<and> sys_open k \<noteq> - 1 then Some ''/dev/null'' else fds p n)"
proof -
  define p2 where "p2 = (if nochdir = 0 then p\<lparr>leader := True, cwd := ''/''\<rparr> else p\<lparr>leader := True\<rparr>)"
  have p2: "leader p2" "cwd p2 = (if nochdir = 0 then ''/'' else cwd p)" "fds p2 = fds p" by (simp_all add: p2_def)
  have a: "sys_fork k = 0" "if noclose = 0 \<and> sys_open k \<noteq> - 1 then redirect k ''/dev/null'' p2 = (0, p') else p' = p2"
    using assms(1) by (auto simp: libc_daemon_def daemonize_def p2_def Let_def split: if_splits prod.splits)
  show ?thesis
  proof (cases "noclose = 0 \<and> sys_open k \<noteq> - 1")
    case True
    then have "redirect k ''/dev/null'' p2 = (0, p')" "0 \<le> sys_open k" "fds p2 (sys_open k) = None"
      using a(2) assms(2) p2(3) by simp_all
    from redirect_ok [OF this] show ?thesis using a(1) p2 True by (simp add: fun_eq_iff)
  next
    case False
    then have "p' = p2" using a(2) by simp
    then show ?thesis using a(1) p2 False by (auto simp: fun_eq_iff)
  qed
qed

definition ex_sys :: sys where
  "ex_sys = \<lparr>sys_fork = 0, setsid_ok = True, root_ok = True, sys_open = 7, dup2_ok = (\<lambda>n. True), close_ok = True\<rparr>"

definition ex_process :: process where
  "ex_process = \<lparr>leader = False, cwd = ''/home'', fds = [0 \<mapsto> ''tty'', 1 \<mapsto> ''tty'', 2 \<mapsto> ''tty'', 3 \<mapsto> ''conf'']\<rparr>"

theorem daemon_detaches_witness:
  "\<exists>p'. libc_daemon ex_sys 0 0 ex_process = (JRet 0, p') \<and> leader p' \<and> cwd p' = ''/'' \<and>
    fds p' 1 = Some ''/dev/null'' \<and> fds p' 3 = Some ''conf'' \<and> fds p' 7 = None"
proof -
  have "fst (libc_daemon ex_sys 0 0 ex_process) = JRet 0"
    by (simp add: libc_daemon_def daemonize_def redirect_def ex_sys_def ex_process_def Let_def)
  then obtain p' where p: "libc_daemon ex_sys 0 0 ex_process = (JRet 0, p')"
    by (cases "libc_daemon ex_sys 0 0 ex_process") simp
  have "sys_open ex_sys = - 1 \<or> 0 \<le> sys_open ex_sys \<and> fds ex_process (sys_open ex_sys) = None"
    by (simp add: ex_sys_def ex_process_def)
  from daemon_detaches [OF p this] p show ?thesis by (simp add: ex_sys_def ex_process_def)
qed

section \<open>Pipes\<close>

text \<open>
  What \<open>pipe\<close>, \<open>write\<close> and \<open>read\<close> promise: \<open>queued k r\<close> are the bytes in the pipe that is read at \<open>r\<close>,
  \<open>reader k w\<close> is where the pipe written at \<open>w\<close> is read. A write of at most \<open>room\<close> bytes into an empty pipe is
  complete; \<open>read\<close> takes as many bytes as there are, up to the size of the buffer.
\<close>

locale pipe_kernel =
  fixes sys_pipe :: "'k \<Rightarrow> (int \<times> int) option \<times> 'k"
    and sys_write :: "int \<Rightarrow> string \<Rightarrow> 'k \<Rightarrow> int \<times> 'k"
    and sys_read :: "int \<Rightarrow> int \<Rightarrow> 'k \<Rightarrow> int \<times> string \<times> 'k"
    and queued :: "'k \<Rightarrow> int \<Rightarrow> string"
    and reader :: "'k \<Rightarrow> int \<Rightarrow> int option"
    and room :: nat
  assumes pipe_new: "sys_pipe k = (Some (r, w), k') \<Longrightarrow> reader k' w = Some r \<and> queued k' r = []"
    and write_queues: "reader k w = Some r \<Longrightarrow> queued k r = [] \<Longrightarrow> length bs \<le> room \<Longrightarrow>
      \<exists>k'. sys_write w bs k = (int (length bs), k') \<and> queued k' r = bs \<and> reader k' = reader k"
    and read_takes: "queued k r \<noteq> [] \<Longrightarrow> 0 < n \<Longrightarrow>
      \<exists>k'. sys_read r n k = (int (length (take (nat n) (queued k r))), take (nat n) (queued k r), k') \<and>
        queued k' r = drop (nat n) (queued k r)"
begin

text \<open>A message that fits is read as it was written, in as many pieces as the buffers make of it.\<close>

lemma write_then_read:
  assumes "libc_pipe sys_pipe k = (Some [r, w], k1)" "bs \<noteq> []" "length bs \<le> room" "0 < n"
  shows "\<exists>k2 k3. libc_write sys_write w bs k1 = (int (length bs), k2) \<and>
    libc_read sys_read r n k2 = (JRet (take (nat n) bs), k3) \<and> queued k3 r = drop (nat n) bs"
proof -
  have "sys_pipe k = (Some (r, w), k1)"
    using assms(1) by (auto simp: libc_pipe_def split: prod.splits option.splits)
  then have k1: "reader k1 w = Some r" "queued k1 r = []" using pipe_new by blast+
  from write_queues [OF k1 assms(3)] obtain k2 where k2: "sys_write w bs k1 = (int (length bs), k2)" "queued k2 r = bs"
    by blast
  with read_takes [of k2 r n] assms(2,4) obtain k3 where
    "sys_read r n k2 = (int (length (take (nat n) bs)), take (nat n) bs, k3)" "queued k3 r = drop (nat n) bs" by auto
  then show ?thesis using k2(1) assms(2,4) by (simp add: libc_write_def libc_read_def)
qed

end

text \<open>Pipes as queues: the instance numbers descriptors upwards, the write end behind the read end.\<close>

record queues =
  next_fd :: int
  q_content :: "int \<Rightarrow> string"
  q_reader :: "int \<Rightarrow> int option"

definition q_pipe :: "queues \<Rightarrow> (int \<times> int) option \<times> queues" where
  "q_pipe q = (let r = next_fd q in (Some (r, r + 1),
     q\<lparr>next_fd := r + 2, q_content := (q_content q)(r := []), q_reader := (q_reader q)(r + 1 \<mapsto> r)\<rparr>))"

definition q_write :: "int \<Rightarrow> string \<Rightarrow> queues \<Rightarrow> int \<times> queues" where
  "q_write w bs q = (case q_reader q w of
       None \<Rightarrow> (- 1, q)
     | Some r \<Rightarrow> let n = min (length bs) (65536 - length (q_content q r)) in
         (int n, q\<lparr>q_content := (q_content q)(r := q_content q r @ take n bs)\<rparr>))"

definition q_read :: "int \<Rightarrow> int \<Rightarrow> queues \<Rightarrow> int \<times> string \<times> queues" where
  "q_read r n q = (let d = take (nat n) (q_content q r) in
     (int (length d), d, q\<lparr>q_content := (q_content q)(r := drop (nat n) (q_content q r))\<rparr>))"

interpretation fifo: pipe_kernel q_pipe q_write q_read q_content q_reader 65536
  by unfold_locales (auto simp: q_pipe_def q_write_def q_read_def Let_def)

text \<open>
  Between the Java processes: what one writes into a pipe with \<open>LibC.write\<close>, the other gets with
  \<open>LibC.read\<close>, for every kernel whose pipes keep their promise. A buffer that is too small leaves the rest
  in the pipe.
\<close>

theorem libc_pipe_roundtrip:
  assumes "pipe_kernel sys_pipe sys_write sys_read queued reader room"
    and "libc_pipe sys_pipe k = (Some [r, w], k1)" "bs \<noteq> []" "length bs \<le> room" "int (length bs) \<le> n"
  shows "\<exists>k2 k3. libc_write sys_write w bs k1 = (int (length bs), k2) \<and>
    libc_read sys_read r n k2 = (JRet bs, k3) \<and> queued k3 r = []"
proof -
  have "0 < n" using assms(3,5) by (cases bs) auto
  from pipe_kernel.write_then_read [OF assms(1-4) this] show ?thesis using assms(5) by simp
qed

theorem libc_pipe_roundtrip_witness:
  "\<exists>k1 k2 k3. libc_pipe q_pipe \<lparr>next_fd = 3, q_content = (\<lambda>r. []), q_reader = Map.empty\<rparr> = (Some [3, 4], k1) \<and>
    libc_write q_write 4 ''ready'' k1 = (5, k2) \<and> libc_read q_read 3 1024 k2 = (JRet ''ready'', k3)"
proof -
  let ?q = "\<lparr>next_fd = 3, q_content = (\<lambda>r. []), q_reader = Map.empty\<rparr>"
  obtain k1 where k1: "libc_pipe q_pipe ?q = (Some [3, 4], k1)" by (simp add: libc_pipe_def q_pipe_def Let_def)
  from libc_pipe_roundtrip [OF fifo.pipe_kernel_axioms k1, of "''ready''" 1024] k1 show ?thesis by auto
qed

section \<open>Failures that reach Java\<close>

text \<open>
  A \<open>read\<close> that fails, for example on a closed descriptor, does not become an exception: the method goes
  on with the null reference it gets for an array of negative length. In the same way every child
  that \<open>waitpid\<close> reports while the caller wants its status makes the kernel write to the reference of the
  Java array instead of its elements.
\<close>

theorem libc_failures_undefined:
  assumes "0 \<le> buf_len" "sys_read fid buf_len k = (- 1, data, k')" "0 < sys_waitpid p opt"
  shows "libc_read sys_read fid buf_len k = (JUndef, k') \<and> libc_waitpid sys_waitpid p (Some arr) opt = JUndef"
  using assms by (simp add: libc_read_def libc_waitpid_def Let_def)

text \<open>Strings survive the way to Java and back unless they are empty: an empty one comes back as null.\<close>

lemma jstring_roundtrip:
  assumes "NUL \<notin> set s"
  shows "jstring2s (s2Jstring s) = (if s = [] then None else Some s)"
proof -
  have t: "takeWhile (\<lambda>c. c \<noteq> NUL) s = s" using assms by (auto simp: takeWhile_eq_all_conv)
  show ?thesis unfolding jstring2s_def s2Jstring_def t by simp
qed

end
