(* ===== verification/Crc32.thy ===== *)
theory Crc32
  imports Prelude
begin

text \<open>
  The checksum of \<open>daemon/src/main/c/hashmap.c\<close>: a table of 256 words and the loop over the bytes of
  a key, on 64-bit words as \<open>unsigned long\<close> has. The table is that of the polynomial
  \<open>0xEDB88320\<close>, and the loop computes the bitwise checksum of that polynomial.
\<close>

section \<open>The table and the loop\<close>

definition crc32_tab :: "u64 list" where
  "crc32_tab = [
   0x00000000, 0x77073096, 0xee0e612c, 0x990951ba, 0x076dc419, 0x706af48f, 0xe963a535, 0x9e6495a3,
   0x0edb8832, 0x79dcb8a4, 0xe0d5e91e, 0x97d2d988, 0x09b64c2b, 0x7eb17cbd, 0xe7b82d07, 0x90bf1d91,
   0x1db71064, 0x6ab020f2, 0xf3b97148, 0x84be41de, 0x1adad47d, 0x6ddde4eb, 0xf4d4b551, 0x83d385c7,
   0x136c9856, 0x646ba8c0, 0xfd62f97a, 0x8a65c9ec, 0x14015c4f, 0x63066cd9, 0xfa0f3d63, 0x8d080df5,
   0x3b6e20c8, 0x4c69105e, 0xd56041e4, 0xa2677172, 0x3c03e4d1, 0x4b04d447, 0xd20d85fd, 0xa50ab56b,
   0x35b5a8fa, 0x42b2986c, 0xdbbbc9d6, 0xacbcf940, 0x32d86ce3, 0x45df5c75, 0xdcd60dcf, 0xabd13d59,
   0x26d930ac, 0x51de003a, 0xc8d75180, 0xbfd06116, 0x21b4f4b5, 0x56b3c423, 0xcfba9599, 0xb8bda50f,
   0x2802b89e, 0x5f058808, 0xc60cd9b2, 0xb10be924, 0x2f6f7c87, 0x58684c11, 0xc1611dab, 0xb6662d3d,
   0x76dc4190, 0x01db7106, 0x98d220bc, 0xefd5102a, 0x71b18589, 0x06b6b51f, 0x9fbfe4a5, 0xe8b8d433,
   0x7807c9a2, 0x0f00f934, 0x9609a88e, 0xe10e9818, 0x7f6a0dbb, 0x086d3d2d, 0x91646c97, 0xe6635c01,
   0x6b6b51f4, 0x1c6c6162, 0x856530d8, 0xf262004e, 0x6c0695ed, 0x1b01a57b, 0x8208f4c1, 0xf50fc457,
   0x65b0d9c6, 0x12b7e950, 0x8bbeb8ea, 0xfcb9887c, 0x62dd1ddf, 0x15da2d49, 0x8cd37cf3, 0xfbd44c65,
   0x4db26158, 0x3ab551ce, 0xa3bc0074, 0xd4bb30e2, 0x4adfa541, 0x3dd895d7, 0xa4d1c46d, 0xd3d6f4fb,
   0x4369e96a, 0x346ed9fc, 0xad678846, 0xda60b8d0, 0x44042d73, 0x33031de5, 0xaa0a4c5f, 0xdd0d7cc9,
   0x5005713c, 0x270241aa, 0xbe0b1010, 0xc90c2086, 0x5768b525, 0x206f85b3, 0xb966d409, 0xce61e49f,
   0x5edef90e, 0x29d9c998, 0xb0d09822, 0xc7d7a8b4, 0x59b33d17, 0x2eb40d81, 0xb7bd5c3b, 0xc0ba6cad,
   0xedb88320, 0x9abfb3b6, 0x03b6e20c, 0x74b1d29a, 0xead54739, 0x9dd277af, 0x04db2615, 0x73dc1683,
   0xe3630b12, 0x94643b84, 0x0d6d6a3e, 0x7a6a5aa8, 0xe40ecf0b, 0x9309ff9d, 0x0a00ae27, 0x7d079eb1,
   0xf00f9344, 0x8708a3d2, 0x1e01f268, 0x6906c2fe, 0xf762575d, 0x806567cb, 0x196c3671, 0x6e6b06e7,
   0xfed41b76, 0x89d32be0, 0x10da7a5a, 0x67dd4acc, 0xf9b9df6f, 0x8ebeeff9, 0x17b7be43, 0x60b08ed5,
   0xd6d6a3e8, 0xa1d1937e, 0x38d8c2c4, 0x4fdff252, 0xd1bb67f1, 0xa6bc5767, 0x3fb506dd, 0x48b2364b,
   0xd80d2bda, 0xaf0a1b4c, 0x36034af6, 0x41047a60, 0xdf60efc3, 0xa867df55, 0x316e8eef, 0x4669be79,
   0xcb61b38c, 0xbc66831a, 0x256fd2a0, 0x5268e236, 0xcc0c7795, 0xbb0b4703, 0x220216b9, 0x5505262f,
   0xc5ba3bbe, 0xb2bd0b28, 0x2bb45a92, 0x5cb36a04, 0xc2d7ffa7, 0xb5d0cf31, 0x2cd99e8b, 0x5bdeae1d,
   0x9b64c2b0, 0xec63f226, 0x756aa39c, 0x026d930a, 0x9c0906a9, 0xeb0e363f, 0x72076785, 0x05005713,
   0x95bf4a82, 0xe2b87a14, 0x7bb12bae, 0x0cb61b38, 0x92d28e9b, 0xe5d5be0d, 0x7cdcefb7, 0x0bdbdf21,
   0x86d3d2d4, 0xf1d4e242, 0x68ddb3f8, 0x1fda836e, 0x81be16cd, 0xf6b9265b, 0x6fb077e1, 0x18b74777,
   0x88085ae6, 0xff0f6a70, 0x66063bca, 0x11010b5c, 0x8f659eff, 0xf862ae69, 0x616bffd3, 0x166ccf45,
   0xa00ae278, 0xd70dd2ee, 0x4e048354, 0x3903b3c2, 0xa7672661, 0xd06016f7, 0x4969474d, 0x3e6e77db,
   0xaed16a4a, 0xd9d65adc, 0x40df0b66, 0x37d83bf0, 0xa9bcae53, 0xdebb9ec5, 0x47b2cf7f, 0x30b5ffe9,
   0xbdbdf21c, 0xcabac28a, 0x53b39330, 0x24b4a3a6, 0xbad03605, 0xcdd70693, 0x54de5729, 0x23d967bf,
   0xb3667a2e, 0xc4614ab8, 0x5d681b02, 0x2a6f2b94, 0xb40bbe37, 0xc30c8ea1, 0x5a05df1b, 0x2d02ef8d]"

text \<open>The bytes of a string, as \<open>unsigned char\<close> reads them.\<close>

definition crc_step :: "u64 \<Rightarrow> char \<Rightarrow> u64" where
  "crc_step crc c = crc32_tab ! unat ((crc XOR of_char c) AND 0xff) XOR drop_bit 8 crc"

definition crc32 :: "string \<Rightarrow> u64" where
  "crc32 s = foldl crc_step 0 s"

section \<open>Reference: one bit after the other\<close>

definition crc_bit :: "u64 \<Rightarrow> u64" where
  "crc_bit c = drop_bit 1 c XOR (if bit c 0 then 0xEDB88320 else 0)"

definition crc_ref :: "string \<Rightarrow> u64" where
  "crc_ref s = foldl (\<lambda>crc c. (crc_bit ^^ 8) (crc XOR of_char c)) 0 s"

section \<open>The reference is linear\<close>

abbreviation crc_byte :: "u64 \<Rightarrow> u64" where
  "crc_byte \<equiv> crc_bit ^^ 8"

lemma crc_byte_unfold: "crc_byte c = crc_bit (crc_bit (crc_bit (crc_bit (crc_bit (crc_bit (crc_bit (crc_bit c)))))))"
  by (simp add: numeral_eq_Suc)

lemma crc_bit_xor: "crc_bit (a XOR b) = crc_bit a XOR crc_bit b"
  by (auto simp: crc_bit_def bit_simps xor.assoc xor.left_commute)

lemma crc_bits_xor: "(crc_bit ^^ n) (a XOR b) = (crc_bit ^^ n) a XOR (crc_bit ^^ n) b"
  by (induction n) (simp_all add: crc_bit_xor)

lemma crc_byte_basis:
  shows "crc_byte 0x1 = 0x77073096"
    "crc_byte 0x2 = 0xee0e612c"
    "crc_byte 0x4 = 0x076dc419"
    "crc_byte 0x8 = 0x0edb8832"
    "crc_byte 0x10 = 0x1db71064"
    "crc_byte 0x20 = 0x3b6e20c8"
    "crc_byte 0x40 = 0x76dc4190"
    "crc_byte 0x80 = 0xedb88320"
  by (simp_all add: crc_byte_unfold crc_bit_def)

text \<open>The upper half of a table of \<open>2 ^ (k + 1)\<close> entries is the lower half with one word added.\<close>

lemma crc_table_double:
  "map (\<lambda>i. (crc_bit ^^ n) (of_nat i)) [0..<2 ^ Suc k] =
   (let t = map (\<lambda>i. (crc_bit ^^ n) (of_nat i)) [0..<2 ^ k] in t @ map (\<lambda>x. x XOR (crc_bit ^^ n) (2 ^ k)) t)"
  if "k < 64"
proof -
  have "(of_nat (i + 2 ^ k) :: u64) = of_nat i XOR 2 ^ k" if "i < 2 ^ k" for i
  proof -
    have "\<not> bit i k" using that by (simp add: bit_iff_odd)
    then have "(of_nat i :: u64) AND 2 ^ k = 0"
      by (auto intro!: bit_eqI simp: bit_simps)
    then show ?thesis by (simp add: disjunctive_xor_eq_or disjunctive_add_eq_or)
  qed
  then have "map (\<lambda>i. (crc_bit ^^ n) (of_nat i :: u64)) [2 ^ k..<2 ^ Suc k] =
      map (\<lambda>i. (crc_bit ^^ n) (of_nat i) XOR (crc_bit ^^ n) (2 ^ k)) [0..<2 ^ k]"
    by (simp add: crc_bits_xor [symmetric] map_add_upt [symmetric] mult_2)
  moreover have "[0..<2 ^ Suc k] = [0..<2 ^ k] @ [2 ^ k..<2 ^ Suc k]"
    by (metis le0 upt_add_eq_append mult_2 power_Suc)
  ultimately show ?thesis by (simp add: Let_def comp_def)
qed

lemma crc32_tab_bits: "crc32_tab = map (\<lambda>i. crc_byte (of_nat i)) [0..<256]"
proof -
  define T where "T k = map (\<lambda>i. crc_byte (of_nat i)) [0..<2 ^ k]" for k :: nat
  have 0: "T 0 = [0]" by (simp add: T_def crc_byte_unfold crc_bit_def)
  have s: "T (Suc k) = T k @ map (\<lambda>x. x XOR crc_byte (2 ^ k)) (T k)" if "k < 64" for k
    using crc_table_double [OF that, of 8] by (simp only: Let_def T_def)
  have 2: "T 2 = [0x00000000, 0x77073096, 0xee0e612c, 0x990951ba]"
    using s [of 0] s [of 1] 0 by (simp add: crc_byte_basis numeral_2_eq_2)
  have 4: "T 4 = [0x00000000, 0x77073096, 0xee0e612c, 0x990951ba, 0x076dc419, 0x706af48f, 0xe963a535, 0x9e6495a3, 0x0edb8832, 0x79dcb8a4, 0xe0d5e91e, 0x97d2d988, 0x09b64c2b, 0x7eb17cbd, 0xe7b82d07, 0x90bf1d91]"
    using s [of 2] s [of 3] 2 by (simp add: crc_byte_basis)
  have "T 8 = crc32_tab"
    using s [of 4] s [of 5] s [of 6] s [of 7] 4 by (simp add: crc_byte_basis crc32_tab_def)
  then show ?thesis by (simp add: T_def)
qed

lemma crc_bits_low_zero: "take_bit n x = 0 \<Longrightarrow> (crc_bit ^^ n) x = drop_bit n x"
proof (induction n arbitrary: x)
  case (Suc n)
  have "\<not> bit x i" if "i < Suc n" for i
  proof -
    have "bit (take_bit (Suc n) x) i = bit x i" using that by (simp add: bit_simps)
    then show ?thesis using Suc.prems by simp
  qed
  then have z: "\<not> bit x 0" "take_bit n (drop_bit 1 x) = 0" by (auto intro!: bit_eqI simp: bit_simps)
  then have "(crc_bit ^^ Suc n) x = (crc_bit ^^ n) (drop_bit 1 x)" by (simp add: crc_bit_def funpow_swap1)
  also have "\<dots> = drop_bit (Suc n) x" using Suc.IH [OF z(2)] by (simp add: drop_bit_drop_bit)
  finally show ?case .
qed simp

lemma crc_byte_table: "crc_byte c = crc32_tab ! unat (c AND 0xff) XOR drop_bit 8 c"
proof -
  have m: "(0xff :: u64) = mask 8" by (simp add: mask_eq_exp_minus_1)
  let ?lo = "c AND 0xff" and ?hi = "c AND NOT 0xff"
  have "c = ?lo XOR ?hi" by (auto intro!: bit_eqI simp: bit_simps)
  then have "crc_byte c = crc_byte ?lo XOR crc_byte ?hi" using crc_bits_xor [of 8 ?lo ?hi] by simp
  moreover have "take_bit 8 ?hi = 0" unfolding m by (auto intro!: bit_eqI simp: bit_simps)
  then have "crc_byte ?hi = drop_bit 8 ?hi" by (rule crc_bits_low_zero)
  moreover have "drop_bit 8 ?hi = drop_bit 8 c"
  proof (rule bit_eqI)
    fix i
    show "bit (drop_bit 8 ?hi) i = bit (drop_bit 8 c) i"
      unfolding m using bit_imp_le_length [of c "8 + i"] by (auto simp: bit_simps)
  qed
  moreover have "unat ?lo < 256"
    using unsigned_take_bit_eq [of 8 c, where 'a = nat] take_bit_nat_less_exp [of 8 "unat c"] by (simp add: m take_bit_eq_mask [symmetric])
  then have "crc32_tab ! unat ?lo = crc_byte ?lo" by (simp add: crc32_tab_bits)
  ultimately show ?thesis by simp
qed

lemma take_bit_char: "8 \<le> n \<Longrightarrow> take_bit n (of_char c :: u64) = of_char c"
proof -
  assume "8 \<le> n"
  then have "(256 :: nat) \<le> 2 ^ n" using power_increasing [of 8 n "2 :: nat"] by simp
  with nat_of_char_less_256 [of c] have "(of_char c :: nat) < 2 ^ n" by (rule less_le_trans)
  then have "take_bit n (of_nat (of_char c) :: u64) = of_nat (of_char c)"
    by (simp add: take_bit_of_nat take_bit_nat_eq_self)
  then show ?thesis by (simp only: of_nat_of_char)
qed

lemma crc_step_byte: "crc_step = (\<lambda>crc c. crc_byte (crc XOR of_char c))"
proof (intro ext)
  fix crc c
  have "take_bit 8 (of_char c :: u64) = of_char c" by (rule take_bit_char) simp
  then have "drop_bit 8 (of_char c :: u64) = 0" by (metis drop_bit_take_bit diff_self_eq_0 take_bit_0)
  then show "crc_step crc c = crc_byte (crc XOR of_char c)"
    by (simp add: crc_step_def crc_byte_table drop_bit_xor)
qed

text \<open>
  C13: the loop over the table computes the checksum of the polynomial \<open>0xEDB88320\<close> bit by bit: no entry
  of the table is wrong, on any input.
\<close>

theorem crc32_equivalent: "crc32 s = crc_ref s"
  by (simp add: crc32_def crc_ref_def crc_step_byte fun_eq_iff)

definition below_2_32 :: "u64 \<Rightarrow> bool" where
  "below_2_32 c \<longleftrightarrow> take_bit 32 c = c"

lemma crc_bit_bound: "below_2_32 c \<Longrightarrow> below_2_32 (crc_bit c)"
proof -
  assume "below_2_32 c"
  then have "\<not> bit c i" if "32 \<le> i" for i using that by (metis below_2_32_def bit_take_bit_iff not_le)
  then have "take_bit 32 (drop_bit 1 c) = drop_bit 1 c" 
  proof (intro bit_eqI)
    fix i show "bit (take_bit 32 (drop_bit 1 c)) i = bit (drop_bit 1 c) i"
      using \<open>32 \<le> Suc i \<Longrightarrow> \<not> bit c (Suc i)\<close> by (cases "i < 32") (simp_all add: bit_simps)
  qed
  then show ?thesis by (simp add: below_2_32_def crc_bit_def take_bit_xor)
qed

text \<open>The checksum stays within 32 bits, although \<open>unsigned long\<close> has 64.\<close>

theorem crc32_bounded: "crc32 s < 2 ^ 32"
proof -
  have b: "below_2_32 c \<Longrightarrow> below_2_32 ((crc_bit ^^ n) c)" for n c by (induction n) (simp_all add: crc_bit_bound)
  have c: "below_2_32 (of_char ch)" for ch by (simp add: below_2_32_def take_bit_char)
  have x: "below_2_32 (a XOR d)" if "below_2_32 a" "below_2_32 d" for a d
    using that by (simp add: below_2_32_def take_bit_xor)
  have "below_2_32 a \<Longrightarrow> below_2_32 (foldl (\<lambda>crc ch. crc_byte (crc XOR of_char ch)) a s)" for a
    by (induction s arbitrary: a) (simp_all add: b c x)
  then have "take_bit 32 (crc_ref s) = crc_ref s" by (simp add: crc_ref_def below_2_32_def)
  then have "unat (crc_ref s) = take_bit 32 (unat (crc_ref s))" by (metis unsigned_take_bit_eq)
  then have "unat (crc_ref s) < 2 ^ 32" by (metis take_bit_nat_less_exp)
  moreover have "crc32 s = crc_ref s" by (simp add: crc32_def crc_ref_def crc_step_byte fun_eq_iff)
  ultimately show ?thesis by (simp add: word_less_nat_alt)
qed

end
