(* ===== verification/HashMap.thy ===== *)
theory HashMap
  imports Crc32 CString
begin

text \<open>
  The hash map of \<open>daemon/src/main/c/hashmap.c\<close>: an open table of keys and pointers with linear
  probing over at most eight places, doubled when it is half full or when the eight places of a key
  are taken. An element without a use has null pointers for key and data everywhere in the code, so an
  element is a datatype with the two states as its constructors; a \<open>void_ptr\<close> is an option, \<open>None\<close> the
  null pointer. The table keeps the pointer to a key, not a copy of it; the model has the characters,
  which is right as long as the caller does not change them.

  \<open>hashmap_put\<close> and \<open>_hashmap_rehash\<close> call each other: the model has a bound \<open>n\<close> on the depth of these
  calls, \<open>None\<close> when it is used up, and \<open>hashmap_put_returns\<close> says which bound is enough. \<open>calloc_ok\<close>
  tells for which numbers of elements \<open>calloc\<close> succeeds.
\<close>

section \<open>The table\<close>

definition HMAP_E_KEYUSED :: int where "HMAP_E_KEYUSED = - 5"
definition HMAP_E_OUTMEM :: int where "HMAP_E_OUTMEM = - 4"
definition HMAP_E_NOTFOUND :: int where "HMAP_E_NOTFOUND = - 3"
definition HMAP_S_OK :: int where "HMAP_S_OK = 0"

definition HMAP_INITIAL_SIZE :: nat where "HMAP_INITIAL_SIZE = 256"
definition HMAP_CHAIN_LENGTH :: nat where "HMAP_CHAIN_LENGTH = 8"

datatype 'v hashmap_elem_t = hashmap_unused_0 | hashmap_used_1 string "'v option"

record 'v hashmap_map_t =
  table_size :: nat
  msize :: nat
  elems :: "'v hashmap_elem_t list"

definition mix32 :: "u64 \<Rightarrow> u64" where
  "mix32 key0 = (let key = key0 + push_bit 12 key0; key = key XOR drop_bit 22 key;
     key = key + push_bit 4 key; key = key XOR drop_bit 9 key;
     key = key + push_bit 10 key; key = key XOR drop_bit 2 key;
     key = key + push_bit 7 key; key = key XOR drop_bit 12 key
   in drop_bit 3 key * 0x9E3779B1)"

definition find_hash_index :: "nat \<Rightarrow> string \<Rightarrow> nat" where
  "find_hash_index tsize key = unat (mix32 (crc32 key)) mod tsize"

text \<open>The probing of \<open>_hashmap_hash\<close>: the first place that is free or has the key.\<close>

fun probe :: "'v hashmap_map_t \<Rightarrow> string \<Rightarrow> nat \<Rightarrow> nat \<Rightarrow> nat option" where
  "probe m key cur 0 = None"
| "probe m key cur (Suc i) = (case elems m ! cur of
       hashmap_unused_0 \<Rightarrow> Some cur
     | hashmap_used_1 k d \<Rightarrow> if k = key then Some cur else probe m key ((cur + 1) mod table_size m) i)"

definition hashmap_hash :: "'v hashmap_map_t \<Rightarrow> string \<Rightarrow> nat option" where
  "hashmap_hash m key = (if table_size m div 2 \<le> msize m then None
     else probe m key (find_hash_index (table_size m) key) HMAP_CHAIN_LENGTH)"

definition new_table :: "nat \<Rightarrow> 'v hashmap_map_t" where
  "new_table n = \<lparr>table_size = n, msize = 0, elems = replicate n hashmap_unused_0\<rparr>"

text \<open>The loop that puts the elements of the old table into the new one; \<open>put\<close> is \<open>hashmap_put\<close>.\<close>

fun rehash_loop ::
    "('v hashmap_map_t \<Rightarrow> string \<Rightarrow> 'v option \<Rightarrow> (int \<times> 'v hashmap_map_t) option) \<Rightarrow>
     'v hashmap_elem_t list \<Rightarrow> 'v hashmap_map_t \<Rightarrow> (int \<times> 'v hashmap_map_t) option" where
  "rehash_loop put [] m = Some (HMAP_S_OK, m)"
| "rehash_loop put (e # es) m = (case e of
       hashmap_unused_0 \<Rightarrow> rehash_loop put es m
     | hashmap_used_1 k d \<Rightarrow> (case put m k d of
           None \<Rightarrow> None
         | Some (status, m') \<Rightarrow> if status \<noteq> HMAP_S_OK then Some (status, m') else rehash_loop put es m'))"

definition hashmap_rehash ::
    "(nat \<Rightarrow> bool) \<Rightarrow> ('v hashmap_map_t \<Rightarrow> string \<Rightarrow> 'v option \<Rightarrow> (int \<times> 'v hashmap_map_t) option) \<Rightarrow>
     'v hashmap_map_t \<Rightarrow> (int \<times> 'v hashmap_map_t) option" where
  "hashmap_rehash calloc_ok put m =
     (if \<not> calloc_ok (2 * table_size m) then Some (HMAP_E_OUTMEM, m)
      else rehash_loop put (elems m) (new_table (2 * table_size m)))"

fun hashmap_put ::
    "(nat \<Rightarrow> bool) \<Rightarrow> nat \<Rightarrow> 'v hashmap_map_t \<Rightarrow> string \<Rightarrow> 'v option \<Rightarrow> (int \<times> 'v hashmap_map_t) option" where
  "hashmap_put calloc_ok 0 m key value = None"
| "hashmap_put calloc_ok (Suc n) m key value = (case hashmap_hash m key of
       Some index \<Rightarrow> (case elems m ! index of
           hashmap_used_1 k d \<Rightarrow> Some (HMAP_E_KEYUSED, m)
         | hashmap_unused_0 \<Rightarrow>
             Some (HMAP_S_OK, m\<lparr>elems := (elems m)[index := hashmap_used_1 key value], msize := msize m + 1\<rparr>))
     | None \<Rightarrow> (case hashmap_rehash calloc_ok (hashmap_put calloc_ok n) m of
           None \<Rightarrow> None
         | Some (status, m') \<Rightarrow>
             if status = HMAP_E_OUTMEM then Some (HMAP_E_OUTMEM, m') else hashmap_put calloc_ok n m' key value))"

definition hashmap_create :: "'v hashmap_map_t" where
  "hashmap_create = new_table HMAP_INITIAL_SIZE"

text \<open>The search of \<open>hashmap_get\<close> and \<open>hashmap_remove\<close>: all eight places, whether free or not.\<close>

fun find_key :: "'v hashmap_map_t \<Rightarrow> string \<Rightarrow> nat \<Rightarrow> nat \<Rightarrow> (nat \<times> 'v option) option" where
  "find_key m key cur 0 = None"
| "find_key m key cur (Suc i) = (case elems m ! cur of
       hashmap_used_1 k d \<Rightarrow> if k = key then Some (cur, d) else find_key m key ((cur + 1) mod table_size m) i
     | hashmap_unused_0 \<Rightarrow> find_key m key ((cur + 1) mod table_size m) i)"

definition hashmap_get :: "'v hashmap_map_t \<Rightarrow> string \<Rightarrow> int \<times> 'v option" where
  "hashmap_get m key = (case find_key m key (find_hash_index (table_size m) key) HMAP_CHAIN_LENGTH of
       Some (cur, d) \<Rightarrow> (HMAP_S_OK, d)
     | None \<Rightarrow> (HMAP_E_NOTFOUND, None))"

definition hashmap_remove :: "'v hashmap_map_t \<Rightarrow> string \<Rightarrow> int \<times> 'v option \<times> 'v hashmap_map_t" where
  "hashmap_remove m key = (case find_key m key (find_hash_index (table_size m) key) HMAP_CHAIN_LENGTH of
       Some (cur, d) \<Rightarrow> (HMAP_S_OK, d, m\<lparr>elems := (elems m)[cur := hashmap_unused_0], msize := msize m - 1\<rparr>)
     | None \<Rightarrow> (HMAP_E_NOTFOUND, None, m))"

definition hashmap_size :: "'v hashmap_map_t \<Rightarrow> nat" where
  "hashmap_size m = msize m"

text \<open>\<open>hashmap_iterate\<close> with a callback on the state of the caller, which may stop the loop.\<close>

fun iterate_loop :: "('v option \<Rightarrow> 'a \<Rightarrow> int \<times> 'a) \<Rightarrow> 'v hashmap_elem_t list \<Rightarrow> 'a \<Rightarrow> int \<times> 'a" where
  "iterate_loop fnIterValue [] a = (HMAP_S_OK, a)"
| "iterate_loop fnIterValue (e # es) a = (case e of
       hashmap_unused_0 \<Rightarrow> iterate_loop fnIterValue es a
     | hashmap_used_1 k d \<Rightarrow> (case fnIterValue d a of
           (status, a') \<Rightarrow> if status \<noteq> HMAP_S_OK then (status, a') else iterate_loop fnIterValue es a'))"

definition hashmap_iterate :: "'v hashmap_map_t \<Rightarrow> ('v option \<Rightarrow> 'a \<Rightarrow> int \<times> 'a) \<Rightarrow> 'a \<Rightarrow> int \<times> 'a" where
  "hashmap_iterate m fnIterValue a =
     (if hashmap_size m = 0 then (HMAP_E_NOTFOUND, a) else iterate_loop fnIterValue (elems m) a)"

text \<open>\<open>hashmap_destroy\<close>: the values handed to \<open>fnFreeValue\<close>, from the end of the table.\<close>

fun destroy_loop :: "('v option \<Rightarrow> 'a \<Rightarrow> 'a) \<Rightarrow> 'v hashmap_elem_t list \<Rightarrow> 'a \<Rightarrow> 'a" where
  "destroy_loop fnFreeValue [] a = a"
| "destroy_loop fnFreeValue (e # es) a = (case e of
       hashmap_unused_0 \<Rightarrow> destroy_loop fnFreeValue es a
     | hashmap_used_1 k d \<Rightarrow> destroy_loop fnFreeValue es (fnFreeValue d a))"

definition hashmap_destroy :: "'v hashmap_map_t \<Rightarrow> ('v option \<Rightarrow> 'a \<Rightarrow> 'a) \<Rightarrow> 'a \<Rightarrow> 'a" where
  "hashmap_destroy m fnFreeValue a = destroy_loop fnFreeValue (rev (elems m)) a"

section \<open>The table as a map\<close>

definition used_pairs :: "'v hashmap_elem_t list \<Rightarrow> (string \<times> 'v option) list" where
  "used_pairs es = concat (map (case_hashmap_elem_t [] (\<lambda>k d. [(k, d)])) es)"

definition hm_map :: "'v hashmap_map_t \<Rightarrow> string \<Rightarrow> 'v option option" where
  "hm_map m = map_of (used_pairs (elems m))"

lemma used_pairs_simps [simp]:
  "used_pairs [] = []" "used_pairs (hashmap_unused_0 # es) = used_pairs es"
  "used_pairs (hashmap_used_1 k d # es) = (k, d) # used_pairs es"
  "used_pairs (es @ fs) = used_pairs es @ used_pairs fs"
  by (simp_all add: used_pairs_def)

lemma used_pairs_replicate [simp]: "used_pairs (replicate n hashmap_unused_0) = []"
  by (induction n) simp_all

lemma set_used_pairs: "(k, d) \<in> set (used_pairs es) \<longleftrightarrow> (\<exists>i < length es. es ! i = hashmap_used_1 k d)"
proof -
  have "(k, d) \<in> set (used_pairs es) \<longleftrightarrow> hashmap_used_1 k d \<in> set es"
  proof (induction es)
    case (Cons e es)
    then show ?case by (cases e) auto
  qed simp
  then show ?thesis by (auto simp: in_set_conv_nth)
qed

lemma used_pairs_fill:
  assumes "i < length es" "es ! i = hashmap_unused_0"
  shows "mset (used_pairs (es[i := hashmap_used_1 k d])) = add_mset (k, d) (mset (used_pairs es))"
proof -
  have "used_pairs es = used_pairs (take i es) @ used_pairs (drop (Suc i) es)"
    by (subst id_take_nth_drop [OF assms(1)]) (simp add: assms(2))
  then show ?thesis by (simp add: upd_conv_take_nth_drop [OF assms(1)])
qed

lemma used_pairs_clear:
  assumes "i < length es" "es ! i = hashmap_used_1 k d"
  shows "mset (used_pairs es) = add_mset (k, d) (mset (used_pairs (es[i := hashmap_unused_0])))"
proof -
  have "used_pairs es = used_pairs (take i es) @ (k, d) # used_pairs (drop (Suc i) es)"
    by (subst id_take_nth_drop [OF assms(1)]) (simp add: assms(2))
  then show ?thesis by (simp add: upd_conv_take_nth_drop [OF assms(1)])
qed

text \<open>With distinct keys the order of the pairs does not matter.\<close>

lemma map_of_mset:
  assumes "distinct (map fst xs)" "mset ys = mset xs"
  shows "map_of ys = map_of xs \<and> distinct (map fst ys)"
proof -
  have "mset (map fst ys) = mset (map fst xs)" using assms(2) by simp
  then have d: "distinct (map fst ys)" using assms(1) by (metis mset_eq_imp_distinct_iff)
  have "set ys = set xs" using assms(2) by (metis mset_eq_setD)
  then show ?thesis using d assms(1) map_of_inject_set by blast
qed

section \<open>The places of a key\<close>

definition place :: "'v hashmap_map_t \<Rightarrow> string \<Rightarrow> nat \<Rightarrow> nat" where
  "place m key j = (find_hash_index (table_size m) key + j) mod table_size m"

lemma place_less: "0 < table_size m \<Longrightarrow> place m key j < table_size m"
  by (simp add: place_def)

lemma place_0: "find_hash_index (table_size m) key = place m key 0"
  by (simp add: place_def find_hash_index_def)

lemma place_Suc: "(place m key j + 1) mod table_size m = place m key (Suc j)"
  by (simp add: place_def mod_Suc_eq)

lemma probe_Some:
  "probe m key (place m key j) n = Some i \<Longrightarrow>
    \<exists>l < n. i = place m key (j + l) \<and> (elems m ! i = hashmap_unused_0 \<or> (\<exists>d. elems m ! i = hashmap_used_1 key d)) \<and>
      (\<forall>l' < l. \<exists>k d. elems m ! place m key (j + l') = hashmap_used_1 k d \<and> k \<noteq> key)"
proof (induction n arbitrary: j)
  case (Suc n)
  show ?case
  proof (cases "elems m ! place m key j")
    case hashmap_unused_0
    then show ?thesis using Suc.prems by (intro exI [of _ 0]) simp
  next
    case (hashmap_used_1 k d)
    show ?thesis
    proof (cases "k = key")
      case True
      then show ?thesis using Suc.prems hashmap_used_1 by (intro exI [of _ 0]) simp
    next
      case False
      then have "probe m key (place m key (Suc j)) n = Some i"
        using Suc.prems hashmap_used_1 place_Suc [of m key j] by simp
      from Suc.IH [OF this] obtain l where l: "l < n" "i = place m key (Suc j + l)"
        "elems m ! i = hashmap_unused_0 \<or> (\<exists>d. elems m ! i = hashmap_used_1 key d)"
        "\<forall>l' < l. \<exists>k d. elems m ! place m key (Suc j + l') = hashmap_used_1 k d \<and> k \<noteq> key" by blast
      have "\<exists>k d. elems m ! place m key (j + l') = hashmap_used_1 k d \<and> k \<noteq> key" if "l' < Suc l" for l'
        using l(4) hashmap_used_1 False that by (cases l') auto
      then show ?thesis using l(1-3) by (intro exI [of _ "Suc l"]) simp
    qed
  qed
qed simp

lemma find_key_Some:
  "find_key m key (place m key j) n = Some (i, d) \<Longrightarrow>
    \<exists>l < n. i = place m key (j + l) \<and> elems m ! i = hashmap_used_1 key d"
proof (induction n arbitrary: j)
  case (Suc n)
  show ?case
  proof (cases "elems m ! place m key j = hashmap_used_1 key d \<and> i = place m key j")
    case True
    then show ?thesis by (intro exI [of _ 0]) simp
  next
    case False
    then have "find_key m key (place m key (Suc j)) n = Some (i, d)"
      using Suc.prems place_Suc [of m key j] by (auto split: hashmap_elem_t.splits if_splits)
    from Suc.IH [OF this] obtain l where "l < n" "i = place m key (Suc j + l)" "elems m ! i = hashmap_used_1 key d"
      by blast
    then show ?thesis by (intro exI [of _ "Suc l"]) simp
  qed
qed simp

lemma find_key_None:
  "find_key m key (place m key j) n = None \<Longrightarrow> l < n \<Longrightarrow> elems m ! place m key (j + l) \<noteq> hashmap_used_1 key d"
proof (induction n arbitrary: j l)
  case (Suc n)
  then show ?case using Suc.IH [of "Suc j" "l - 1"] place_Suc [of m key j]
    by (cases l) (auto split: hashmap_elem_t.splits if_splits)
qed simp

section \<open>Invariant and abstraction\<close>

text \<open>
  \<open>hm_inv\<close>: every key is in one of its eight places and in no other element, and \<open>size\<close> counts the
  elements in use. \<open>packed\<close>: no place of a key before its element is free.
\<close>

definition hm_inv :: "'v hashmap_map_t \<Rightarrow> bool" where
  "hm_inv m \<longleftrightarrow> 0 < table_size m \<and> length (elems m) = table_size m \<and> distinct (map fst (used_pairs (elems m))) \<and>
     msize m = length (used_pairs (elems m)) \<and>
     (\<forall>i < table_size m. \<forall>k d. elems m ! i = hashmap_used_1 k d \<longrightarrow> (\<exists>j < HMAP_CHAIN_LENGTH. i = place m k j))"

definition packed :: "'v hashmap_map_t \<Rightarrow> bool" where
  "packed m \<longleftrightarrow> (\<forall>i < table_size m. \<forall>k d. elems m ! i = hashmap_used_1 k d \<longrightarrow>
     (\<exists>j < HMAP_CHAIN_LENGTH. i = place m k j \<and> (\<forall>j' < j. elems m ! place m k j' \<noteq> hashmap_unused_0)))"

lemma hm_map_Some:
  assumes "hm_inv m"
  shows "hm_map m k = Some d \<longleftrightarrow> (\<exists>i < table_size m. elems m ! i = hashmap_used_1 k d)"
  using assms set_used_pairs [of k d "elems m"] by (simp add: hm_inv_def hm_map_def)

lemma hm_map_None:
  assumes "hm_inv m"
  shows "hm_map m k = None \<longleftrightarrow> (\<forall>i < table_size m. \<forall>d. elems m ! i \<noteq> hashmap_used_1 k d)"
  using hm_map_Some [OF assms, of k] by (metis not_Some_eq)

lemma find_key_map:
  assumes "hm_inv m"
  shows "map_option snd (find_key m key (find_hash_index (table_size m) key) HMAP_CHAIN_LENGTH) = hm_map m key"
proof (cases "find_key m key (place m key 0) HMAP_CHAIN_LENGTH")
  case None
  have "elems m ! i \<noteq> hashmap_used_1 key d" if "i < table_size m" for i d
  proof
    assume "elems m ! i = hashmap_used_1 key d"
    moreover from this obtain j where "j < HMAP_CHAIN_LENGTH" "i = place m key j"
      using assms \<open>i < table_size m\<close> unfolding hm_inv_def by meson
    ultimately show False using find_key_None [OF None, of j d] by simp
  qed
  then have "hm_map m key = None" using hm_map_None [OF assms] by blast
  then show ?thesis using None by (simp add: place_0)
next
  case (Some p)
  obtain i d where p: "p = (i, d)" by (cases p)
  then have "elems m ! i = hashmap_used_1 key d" "i < table_size m"
    using find_key_Some [of m key 0 HMAP_CHAIN_LENGTH i d] Some place_less [of m key] assms by (auto simp: hm_inv_def)
  then have "hm_map m key = Some d" using hm_map_Some [OF assms] by blast
  then show ?thesis using Some p by (simp add: place_0)
qed

text \<open>Lookup answers from the map.\<close>

lemma hashmap_get_map:
  assumes "hm_inv m"
  shows "hashmap_get m key = (case hm_map m key of None \<Rightarrow> (HMAP_E_NOTFOUND, None) | Some d \<Rightarrow> (HMAP_S_OK, d))"
  using find_key_map [OF assms, of key]
  by (auto simp: hashmap_get_def split: option.splits prod.splits)

lemma new_table_inv: "0 < n \<Longrightarrow> hm_inv (new_table n) \<and> packed (new_table n) \<and> hm_map (new_table n) = Map.empty"
  by (simp add: hm_inv_def packed_def hm_map_def new_table_def)

lemma place_update [simp]: "place (m\<lparr>elems := es, msize := n\<rparr>) k j = place m k j"
  by (simp add: place_def)

text \<open>Filling a free place of a new key.\<close>

lemma store_inv:
  assumes "hm_inv m" "hm_map m key = None" "i = place m key l" "l < HMAP_CHAIN_LENGTH" "elems m ! i = hashmap_unused_0"
    and m'_def: "m' = m\<lparr>elems := (elems m)[i := hashmap_used_1 key val], msize := msize m + 1\<rparr>"
  shows "hm_inv m'" "hm_map m' = (hm_map m)(key \<mapsto> val)"
proof -
  have i: "i < length (elems m)" using assms(1,3) place_less [of m key l] by (simp add: hm_inv_def)
  note f = used_pairs_fill [OF i assms(5), of key val]
  have "key \<notin> fst ` set (used_pairs (elems m))" using assms(2) by (simp add: hm_map_def map_of_eq_None_iff)
  then have d: "distinct (map fst ((key, val) # used_pairs (elems m)))" using assms(1) by (simp add: hm_inv_def)
  note mp = map_of_mset [OF d, of "used_pairs ((elems m)[i := hashmap_used_1 key val])"]
  have len: "length (used_pairs ((elems m)[i := hashmap_used_1 key val])) = Suc (length (used_pairs (elems m)))"
    using arg_cong [OF f, of size] by simp
  show "hm_map m' = (hm_map m)(key \<mapsto> val)" using mp f by (simp add: hm_map_def m'_def)
  show "hm_inv m'"
    using assms(1,3,4) mp f len i by (auto simp: hm_inv_def m'_def nth_list_update)
qed

lemma store_packed:
  assumes "packed m" "i = place m key l" "l < HMAP_CHAIN_LENGTH" "\<forall>l' < l. elems m ! place m key l' \<noteq> hashmap_unused_0"
    and "length (elems m) = table_size m"
  shows "packed (m\<lparr>elems := (elems m)[i := hashmap_used_1 key val], msize := s\<rparr>)"
proof -
  let ?es = "(elems m)[i := hashmap_used_1 key val]"
  have keep: "?es ! p \<noteq> hashmap_unused_0" if "elems m ! p \<noteq> hashmap_unused_0" for p
    using that by (cases "p = i"; cases "i < length (elems m)") (auto simp: list_update_beyond)
  have "\<exists>j < HMAP_CHAIN_LENGTH. p = place m k j \<and> (\<forall>j' < j. ?es ! place m k j' \<noteq> hashmap_unused_0)"
    if "p < table_size m" "?es ! p = hashmap_used_1 k d" for p k d
  proof (cases "p = i")
    case True
    then have "k = key" using that assms(5) by simp
    then show ?thesis using True assms(2-4) keep by blast
  next
    case False
    then have "elems m ! p = hashmap_used_1 k d" using that(2) by simp
    then show ?thesis using assms(1) that(1) keep unfolding packed_def by meson
  qed
  then show ?thesis by (simp add: packed_def)
qed

text \<open>What \<open>_hashmap_hash\<close> finds in a packed table.\<close>

lemma hashmap_hash_packed:
  assumes "hm_inv m" "packed m" "hashmap_hash m key = Some i"
  obtains l where "l < HMAP_CHAIN_LENGTH" "i = place m key l" "elems m ! i = hashmap_unused_0" "hm_map m key = None"
      "\<forall>l' < l. elems m ! place m key l' \<noteq> hashmap_unused_0"
  | d where "elems m ! i = hashmap_used_1 key d" "hm_map m key = Some d"
proof -
  have "probe m key (place m key 0) HMAP_CHAIN_LENGTH = Some i"
    using assms(3) by (simp add: hashmap_hash_def place_0 split: if_splits)
  from probe_Some [OF this] obtain l where l: "l < HMAP_CHAIN_LENGTH" "i = place m key l"
    "elems m ! i = hashmap_unused_0 \<or> (\<exists>d. elems m ! i = hashmap_used_1 key d)"
    "\<forall>l' < l. \<exists>k d. elems m ! place m key l' = hashmap_used_1 k d \<and> k \<noteq> key" by auto
  have used: "\<forall>l' < l. elems m ! place m key l' \<noteq> hashmap_unused_0"
    using l(4) by (metis hashmap_elem_t.distinct(1))
  have i: "i < table_size m" using l(2) assms(1) place_less [of m key l] by (simp add: hm_inv_def)
  show thesis
  proof (cases "elems m ! i = hashmap_unused_0")
    case True
    have "elems m ! p \<noteq> hashmap_used_1 key d" if "p < table_size m" for p d
    proof
      assume p: "elems m ! p = hashmap_used_1 key d"
      then obtain j where j: "p = place m key j" "\<forall>j' < j. elems m ! place m key j' \<noteq> hashmap_unused_0"
        using assms(2) \<open>p < table_size m\<close> unfolding packed_def by meson
      consider "j < l" | "j = l" | "l < j" by linarith
      then show False
      proof cases
        case 1
        then show ?thesis using l(4) j(1) p by auto
      next
        case 2
        then show ?thesis using True l(2) j(1) p by simp
      next
        case 3
        then show ?thesis using True l(2) j(2) by blast
      qed
    qed
    then have "hm_map m key = None" using hm_map_None [OF assms(1)] by blast
    then show thesis using that(1) l(1,2) True used by blast
  next
    case False
    then obtain d where "elems m ! i = hashmap_used_1 key d" using l(3) by blast
    then show thesis using that(2) hm_map_Some [OF assms(1)] i by blast
  qed
qed

section \<open>Insertion\<close>

definition put_spec :: "'v hashmap_map_t \<Rightarrow> string \<Rightarrow> 'v option \<Rightarrow> int \<Rightarrow> 'v hashmap_map_t \<Rightarrow> bool" where
  "put_spec m key val status m' \<longleftrightarrow> hm_inv m' \<and> packed m' \<and> table_size m \<le> table_size m' \<and>
     ((status = HMAP_S_OK \<and> hm_map m key = None \<and> hm_map m' = (hm_map m)(key \<mapsto> val)) \<or>
      (status = HMAP_E_KEYUSED \<and> hm_map m key \<noteq> None \<and> hm_map m' = hm_map m) \<or>
      (status = HMAP_E_OUTMEM \<and> hm_map m' \<subseteq>\<^sub>m hm_map m))"

lemmas status_defs = HMAP_S_OK_def HMAP_E_KEYUSED_def HMAP_E_OUTMEM_def HMAP_E_NOTFOUND_def

lemma map_le_disjoint_add: "dom f \<inter> dom g = {} \<Longrightarrow> f \<subseteq>\<^sub>m f ++ g"
  by (metis map_add_comm map_le_map_add)

text \<open>The loop of \<open>_hashmap_rehash\<close>, given that the insertions it makes are right.\<close>

lemma rehash_loop_spec:
  assumes put: "\<And>m k v st m'. hm_inv m \<Longrightarrow> packed m \<Longrightarrow> put m k v = Some (st, m') \<Longrightarrow> put_spec m k v st m'"
  shows "rehash_loop put es m = Some (status, m') \<Longrightarrow> hm_inv m \<Longrightarrow> packed m \<Longrightarrow>
    distinct (map fst (used_pairs es)) \<Longrightarrow> fst ` set (used_pairs es) \<inter> dom (hm_map m) = {} \<Longrightarrow>
    hm_inv m' \<and> packed m' \<and> table_size m \<le> table_size m' \<and>
    ((status = HMAP_S_OK \<and> hm_map m' = hm_map m ++ map_of (used_pairs es)) \<or>
     (status = HMAP_E_OUTMEM \<and> hm_map m' \<subseteq>\<^sub>m hm_map m ++ map_of (used_pairs es)))"
proof (induction es arbitrary: m)
  case Nil
  then show ?case by simp
next
  case (Cons e es)
  show ?case
  proof (cases e)
    case hashmap_unused_0
    then show ?thesis using Cons by simp
  next
    case (hashmap_used_1 k d)
    then obtain st m1 where p: "put m k d = Some (st, m1)"
      using Cons.prems(1) by (auto split: option.splits)
    have sp: "put_spec m k d st m1" using put Cons.prems(2,3) p by blast
    have k: "hm_map m k = None" "k \<notin> fst ` set (used_pairs es)" "distinct (map fst (used_pairs es))"
      "fst ` set (used_pairs es) \<inter> dom (hm_map m) = {}"
      using Cons.prems(4,5) hashmap_used_1 by auto
    show ?thesis
    proof (cases "st = HMAP_S_OK")
      case True
      then have m1: "hm_inv m1" "packed m1" "table_size m \<le> table_size m1" "hm_map m1 = (hm_map m)(k \<mapsto> d)"
        using sp by (simp_all add: put_spec_def status_defs)
      have "rehash_loop put es m1 = Some (status, m')" using Cons.prems(1) hashmap_used_1 p True by simp
      moreover have "fst ` set (used_pairs es) \<inter> dom (hm_map m1) = {}" using k(2,4) m1(4) by auto
      ultimately have "hm_inv m' \<and> packed m' \<and> table_size m1 \<le> table_size m' \<and>
          ((status = HMAP_S_OK \<and> hm_map m' = hm_map m1 ++ map_of (used_pairs es)) \<or>
           (status = HMAP_E_OUTMEM \<and> hm_map m' \<subseteq>\<^sub>m hm_map m1 ++ map_of (used_pairs es)))"
        using Cons.IH [of m1] m1(1,2) k(3) by blast
      moreover have "hm_map m1 ++ map_of (used_pairs es) = hm_map m ++ map_of (used_pairs (e # es))"
        using k(2) m1(4) hashmap_used_1 by (simp add: map_add_upd_left dom_map_of_conv_image_fst)
      ultimately show ?thesis using m1(3) by (metis le_trans)
    next
      case False
      then have "status = st" "m' = m1" "st = HMAP_E_OUTMEM" "hm_map m1 \<subseteq>\<^sub>m hm_map m"
        using Cons.prems(1) hashmap_used_1 p sp k(1) by (auto simp: put_spec_def)
      moreover have "hm_map m \<subseteq>\<^sub>m hm_map m ++ map_of (used_pairs (e # es))"
        using Cons.prems(5) by (intro map_le_disjoint_add) (auto simp: dom_map_of_conv_image_fst)
      ultimately show ?thesis using sp by (auto simp: put_spec_def intro: map_le_trans)
    qed
  qed
qed

lemma hashmap_rehash_spec:
  assumes put: "\<And>m k v st m'. hm_inv m \<Longrightarrow> packed m \<Longrightarrow> put m k v = Some (st, m') \<Longrightarrow> put_spec m k v st m'"
    and m: "hm_inv m" "packed m" and r: "hashmap_rehash calloc_ok put m = Some (status, m')"
  shows "hm_inv m' \<and> packed m' \<and> table_size m \<le> table_size m' \<and>
    ((status = HMAP_S_OK \<and> hm_map m' = hm_map m) \<or> (status = HMAP_E_OUTMEM \<and> hm_map m' \<subseteq>\<^sub>m hm_map m))"
proof (cases "calloc_ok (2 * table_size m)")
  case True
  let ?t = "new_table (2 * table_size m) :: 'a hashmap_map_t"
  have "0 < 2 * table_size m" using m(1) by (simp add: hm_inv_def)
  note new = new_table_inv [OF this, where ?'a = 'a]
  have t: "hm_inv ?t" "packed ?t" "hm_map ?t = Map.empty" using new by blast+
  have loop: "rehash_loop put (elems m) ?t = Some (status, m')" using r True by (simp add: hashmap_rehash_def)
  have d: "distinct (map fst (used_pairs (elems m)))" using m(1) by (simp add: hm_inv_def)
  have e: "hm_map ?t ++ map_of (used_pairs (elems m)) = hm_map m" using t(3) by (simp add: hm_map_def)
  have "table_size m \<le> table_size ?t" by (simp add: new_table_def)
  then show ?thesis using rehash_loop_spec [OF put loop t(1,2) d] t(3) unfolding e by fastforce
next
  case False
  then show ?thesis using r m by (simp add: hashmap_rehash_def)
qed

lemma hashmap_put_spec:
  "hm_inv m \<Longrightarrow> packed m \<Longrightarrow> hashmap_put calloc_ok n m key val = Some (status, m') \<Longrightarrow> put_spec m key val status m'"
proof (induction n arbitrary: m key val status m')
  case 0
  then show ?case by simp
next
  case (Suc n)
  show ?case
  proof (cases "hashmap_hash m key")
    case (Some i)
    note len = Suc.prems(1) [unfolded hm_inv_def, THEN conjunct2, THEN conjunct1]
    from Suc.prems(1,2) Some show ?thesis
    proof (cases rule: hashmap_hash_packed)
      case (1 l)
      then have "status = HMAP_S_OK"
        "m' = m\<lparr>elems := (elems m)[i := hashmap_used_1 key val], msize := msize m + 1\<rparr>"
        using Suc.prems(3) Some by simp_all
      then show ?thesis
        using 1 store_inv [OF Suc.prems(1) 1(4,2,1,3)] store_packed [OF Suc.prems(2) 1(2,1,5) len]
        by (simp add: put_spec_def)
    next
      case (2 d)
      then show ?thesis using Suc.prems Some by (simp add: put_spec_def)
    qed
  next
    case None
    then obtain st m1 where r: "hashmap_rehash calloc_ok (hashmap_put calloc_ok n) m = Some (st, m1)"
      using Suc.prems(3) by (auto split: option.splits)
    have m1: "hm_inv m1 \<and> packed m1 \<and> table_size m \<le> table_size m1 \<and>
        ((st = HMAP_S_OK \<and> hm_map m1 = hm_map m) \<or> (st = HMAP_E_OUTMEM \<and> hm_map m1 \<subseteq>\<^sub>m hm_map m))"
      by (rule hashmap_rehash_spec [OF _ Suc.prems(1,2) r]) (rule Suc.IH)
    show ?thesis
    proof (cases "st = HMAP_E_OUTMEM")
      case True
      then have "status = HMAP_E_OUTMEM" "m' = m1" using Suc.prems(3) None r by simp_all
      moreover have "hm_map m1 \<subseteq>\<^sub>m hm_map m" using m1 True by (simp add: status_defs)
      ultimately show ?thesis using m1 unfolding put_spec_def by blast
    next
      case False
      then have "hm_map m1 = hm_map m" using m1 by blast
      moreover have "hashmap_put calloc_ok n m1 key val = Some (status, m')" using Suc.prems(3) None r False by simp
      with Suc.IH m1 have "put_spec m1 key val status m'" by blast
      ultimately show ?thesis using m1 unfolding put_spec_def by (metis le_trans)
    qed
  qed
qed

text \<open>A table never gets smaller, whatever it holds.\<close>

lemma rehash_loop_grows:
  assumes "\<And>m k v st m'. put m k v = Some (st, m') \<Longrightarrow> table_size m \<le> table_size m'"
  shows "rehash_loop put es m = Some (status, m') \<Longrightarrow> table_size m \<le> table_size m'"
proof (induction es arbitrary: m)
  case (Cons e es)
  show ?case
  proof (cases e)
    case hashmap_unused_0
    then show ?thesis using Cons by simp
  next
    case (hashmap_used_1 k d)
    then obtain st m1 where p: "put m k d = Some (st, m1)" using Cons.prems by (auto split: option.splits)
    have "table_size m \<le> table_size m1" using assms p by blast
    moreover have "table_size m1 \<le> table_size m'"
      using Cons hashmap_used_1 p by (auto split: if_splits)
    ultimately show ?thesis by simp
  qed
qed simp

lemma hashmap_put_grows:
  "hashmap_put calloc_ok n m key val = Some (status, m') \<Longrightarrow> table_size m \<le> table_size m'"
proof (induction n arbitrary: m key val status m')
  case (Suc n)
  show ?case
  proof (cases "hashmap_hash m key")
    case (Some i)
    then show ?thesis using Suc.prems by (cases "elems m ! i") auto
  next
    case None
    then obtain st m1 where r: "hashmap_rehash calloc_ok (hashmap_put calloc_ok n) m = Some (st, m1)"
      using Suc.prems by (auto split: option.splits)
    have m1: "table_size m \<le> table_size m1"
    proof (cases "calloc_ok (2 * table_size m)")
      case True
      then have "rehash_loop (hashmap_put calloc_ok n) (elems m) (new_table (2 * table_size m)) = Some (st, m1)"
        using r by (simp add: hashmap_rehash_def)
      from rehash_loop_grows [OF _ this] have "2 * table_size m \<le> table_size m1"
        using Suc.IH by (simp add: new_table_def)
      then show ?thesis by simp
    qed (use r in \<open>simp add: hashmap_rehash_def\<close>)
    show ?thesis
    proof (cases "st = HMAP_E_OUTMEM")
      case True
      then show ?thesis using Suc.prems None r m1 by simp
    next
      case False
      then have "hashmap_put calloc_ok n m1 key val = Some (status, m')" using Suc.prems None r by simp
      then show ?thesis using Suc.IH m1 by (meson le_trans)
    qed
  qed
qed simp

lemma rehash_loop_returns:
  assumes put: "\<And>m k v. s \<le> table_size m \<Longrightarrow> \<exists>st m'. put m k v = Some (st, m') \<and> table_size m \<le> table_size m'"
  shows "s \<le> table_size m \<Longrightarrow> \<exists>st m'. rehash_loop put es m = Some (st, m') \<and> table_size m \<le> table_size m'"
proof (induction es arbitrary: m)
  case (Cons e es)
  show ?case
  proof (cases e)
    case hashmap_unused_0
    then show ?thesis using Cons by simp
  next
    case (hashmap_used_1 k d)
    obtain st m1 where p: "put m k d = Some (st, m1)" "table_size m \<le> table_size m1" using put Cons.prems by blast
    then obtain st' m2 where "rehash_loop put es m1 = Some (st', m2)" "table_size m1 \<le> table_size m2"
      using Cons.IH [of m1] Cons.prems by (meson le_trans)
    then show ?thesis using hashmap_used_1 p by (cases "st = HMAP_S_OK") auto
  qed
qed simp

lemma hashmap_put_total:
  assumes "\<And>s. calloc_ok s \<Longrightarrow> s \<le> B"
  shows "B < 2 ^ n * table_size m \<Longrightarrow> \<exists>status m'. hashmap_put calloc_ok (Suc n) m key val = Some (status, m')"
proof (induction n arbitrary: m key val)
  case 0
  then have "\<not> calloc_ok (2 * table_size m)" using assms [of "2 * table_size m"] by auto
  then show ?case by (simp add: hashmap_rehash_def split: option.split hashmap_elem_t.split)
next
  case (Suc n)
  show ?case
  proof (cases "hashmap_hash m key")
    case (Some i)
    then show ?thesis by (simp split: hashmap_elem_t.split)
  next
    case None
    let ?put = "hashmap_put calloc_ok (Suc n)" and ?s = "2 * table_size m"
    have put: "\<exists>st m'. ?put t k v = Some (st, m') \<and> table_size t \<le> table_size m'" if "?s \<le> table_size t"
      for t :: "'a hashmap_map_t" and k v
    proof -
      have "B < 2 ^ n * ?s" using Suc.prems by (simp add: mult.commute mult.left_commute)
      also have "\<dots> \<le> 2 ^ n * table_size t" using that by (rule mult_le_mono2)
      finally have "B < 2 ^ n * table_size t" .
      from Suc.IH [OF this, of k v] obtain st m' where "?put t k v = Some (st, m')" by (elim exE)
      then show ?thesis using hashmap_put_grows [of calloc_ok "Suc n" t k v st m'] by (intro exI conjI)
    qed
    show ?thesis
    proof (cases "calloc_ok ?s")
      case True
      then have rl: "hashmap_rehash calloc_ok ?put m = rehash_loop ?put (elems m) (new_table ?s)"
        by (simp add: hashmap_rehash_def)
      obtain st m1 where r: "hashmap_rehash calloc_ok ?put m = Some (st, m1)" "?s \<le> table_size m1"
        using rehash_loop_returns [of ?s ?put, OF put, of "new_table ?s" "elems m"] unfolding rl
        by (auto simp: new_table_def)
      obtain st' m2 where "?put m1 key val = Some (st', m2)" using put r(2) by blast
      then show ?thesis using None r(1) by (subst hashmap_put.simps) simp
    next
      case False
      then have "hashmap_rehash calloc_ok ?put m = Some (HMAP_E_OUTMEM, m)" by (simp add: hashmap_rehash_def)
      then show ?thesis using None by (subst hashmap_put.simps) simp
    qed
  qed
qed

section \<open>Removal\<close>

lemma hashmap_remove_spec:
  assumes "hm_inv m" "hashmap_remove m key = (status, d, m')"
  shows "hm_inv m'" "hm_map m' = (hm_map m)(key := None)"
    "status = (if hm_map m key = None then HMAP_E_NOTFOUND else HMAP_S_OK)"
    "d = (case hm_map m key of None \<Rightarrow> None | Some v \<Rightarrow> v)"
proof -
  note fm = find_key_map [OF assms(1), of key]
  have "hm_inv m' \<and> hm_map m' = (hm_map m)(key := None) \<and>
    status = (if hm_map m key = None then HMAP_E_NOTFOUND else HMAP_S_OK) \<and>
    d = (case hm_map m key of None \<Rightarrow> None | Some v \<Rightarrow> v)"
  proof (cases "find_key m key (place m key 0) HMAP_CHAIN_LENGTH")
    case None
    then have "hm_map m key = None" using fm by (simp add: place_0)
    then show ?thesis using assms None by (auto simp: hashmap_remove_def place_0 fun_upd_idem)
  next
    case (Some p)
    obtain i v where p: "p = (i, v)" by (cases p)
    then have v: "hm_map m key = Some v" using fm Some by (simp add: place_0)
    let ?es = "(elems m)[i := hashmap_unused_0]"
    have m': "status = HMAP_S_OK" "d = v" "m' = m\<lparr>elems := ?es, msize := msize m - 1\<rparr>"
      using assms(2) Some p by (simp_all add: hashmap_remove_def place_0)
    have i: "elems m ! i = hashmap_used_1 key v" "i < length (elems m)"
      using find_key_Some [of m key 0 HMAP_CHAIN_LENGTH i v] Some p place_less [of m key] assms(1)
      by (auto simp: hm_inv_def)
    note cl = used_pairs_clear [OF i(2,1)]
    have "distinct (map fst (used_pairs (elems m)))" using assms(1) by (simp add: hm_inv_def)
    from map_of_mset [OF this, of "(key, v) # used_pairs ?es"] cl
    have mp: "(map_of (used_pairs ?es))(key \<mapsto> v) = map_of (used_pairs (elems m))"
      "key \<notin> fst ` set (used_pairs ?es)" "distinct (map fst (used_pairs ?es))" by simp_all
    have "length (used_pairs (elems m)) = Suc (length (used_pairs ?es))" using arg_cong [OF cl, of size] by simp
    then have "hm_inv m'" using assms(1) mp(3) i(2) by (auto simp: hm_inv_def m'(3) nth_list_update)
    moreover have "map_of (used_pairs ?es) key = None" using mp(2) by (simp add: map_of_eq_None_iff)
    then have "hm_map m' = (hm_map m)(key := None)"
      unfolding hm_map_def m'(3) mp(1) [symmetric] by (simp add: fun_upd_idem)
    ultimately show ?thesis using v m' by (simp add: status_defs)
  qed
  then show "hm_inv m'" "hm_map m' = (hm_map m)(key := None)"
    "status = (if hm_map m key = None then HMAP_E_NOTFOUND else HMAP_S_OK)"
    "d = (case hm_map m key of None \<Rightarrow> None | Some v \<Rightarrow> v)" by blast+
qed

section \<open>The contract of the header\<close>

text \<open>
  What \<open>hashmap.h\<close> promises a caller that only inserts and looks up: \<open>cont\<close> is the content of a table,
  \<open>ok\<close> and \<open>used\<close> are the answers of \<open>put\<close> that change it by one pair and that leave it as it is.
\<close>

fun put_all :: "('m \<Rightarrow> 'k \<Rightarrow> 'd \<Rightarrow> 's \<times> 'm) \<Rightarrow> ('k \<times> 'd) list \<Rightarrow> 'm \<Rightarrow> 's list \<times> 'm" where
  "put_all put [] m = ([], m)"
| "put_all put ((k, v) # kvs) m = (let (s, m1) = put m k v; (ss, m2) = put_all put kvs m1 in (s # ss, m2))"

locale insert_map =
  fixes emp :: 'm
    and put :: "'m \<Rightarrow> 'k \<Rightarrow> 'd \<Rightarrow> 's \<times> 'm"
    and get :: "'m \<Rightarrow> 'k \<Rightarrow> 'd option"
    and inv :: "'m \<Rightarrow> bool"
    and ok used :: 's
  assumes emp_inv: "inv emp"
    and emp_get: "get emp k = None"
    and put_ok: "inv m \<Longrightarrow> put m k v = (ok, m') \<Longrightarrow> inv m' \<and> get m k = None \<and> get m' = (get m)(k \<mapsto> v)"
    and put_used: "inv m \<Longrightarrow> put m k v = (used, m') \<Longrightarrow> inv m' \<and> get m k \<noteq> None \<and> get m' = get m"
begin

text \<open>The first value inserted under a key stays; \<open>used\<close> is answered exactly for the later ones.\<close>

lemma put_all_content:
  "inv m \<Longrightarrow> put_all put kvs m = (ss, m') \<Longrightarrow> set ss \<subseteq> {ok, used} \<Longrightarrow>
    inv m' \<and> get m' = map_of kvs ++ get m"
proof (induction kvs arbitrary: m ss)
  case (Cons kv kvs)
  obtain k v where kv: "kv = (k, v)" by (cases kv)
  obtain s m1 where p: "put m k v = (s, m1)" by (cases "put m k v")
  obtain ss' where r: "put_all put kvs m1 = (ss', m')" "ss = s # ss'"
    using Cons.prems(2) kv p by (auto split: prod.splits)
  consider "s = ok" | "s = used" using Cons.prems(3) r(2) by auto
  then show ?case
  proof cases
    case 1
    with put_ok Cons.prems(1) p have m1: "inv m1" "get m k = None" "get m1 = (get m)(k \<mapsto> v)" by blast+
    with Cons.IH [OF m1(1) r(1)] Cons.prems(3) r(2) show ?thesis by (auto simp: kv map_add_def fun_eq_iff)
  next
    case 2
    with put_used Cons.prems(1) p have m1: "inv m1" "get m k \<noteq> None" "get m1 = get m" by blast+
    with Cons.IH [OF m1(1) r(1)] Cons.prems(3) r(2) show ?thesis by (auto simp: kv map_add_def fun_eq_iff)
  qed
qed simp

lemma put_all_emp:
  assumes "put_all put kvs emp = (ss, m')" "set ss \<subseteq> {ok, used}"
  shows "get m' = map_of kvs"
  using put_all_content [OF emp_inv assms] emp_get by (auto simp: map_add_def fun_eq_iff split: option.splits)

end

text \<open>
  The hash map with memory for tables of at most \<open>B\<close> elements. The depth \<open>Suc B\<close> is always enough, so
  the last case does not happen.
\<close>

definition put_within :: "nat \<Rightarrow> 'v hashmap_map_t \<Rightarrow> string \<Rightarrow> 'v option \<Rightarrow> int \<times> 'v hashmap_map_t" where
  "put_within B m key val = (case hashmap_put (\<lambda>s. s \<le> B) (Suc B) m key val of
     Some r \<Rightarrow> r | None \<Rightarrow> (HMAP_E_OUTMEM, m))"

definition get_opt :: "'v hashmap_map_t \<Rightarrow> string \<Rightarrow> 'v option option" where
  "get_opt m key = (case hashmap_get m key of (status, d) \<Rightarrow> if status = HMAP_S_OK then Some d else None)"

lemma get_opt_map: "hm_inv m \<Longrightarrow> get_opt m = hm_map m"
  by (auto simp: get_opt_def hashmap_get_map fun_eq_iff status_defs split: option.split)

lemma put_within_spec:
  assumes "hm_inv m" "packed m" "put_within B m key val = (status, m')"
  shows "put_spec m key val status m'"
proof -
  have "B < 2 ^ B * table_size m"
    using assms(1) less_exp [of B] by (cases "table_size m") (simp_all add: hm_inv_def trans_less_add1)
  then obtain st m1 where r: "hashmap_put (\<lambda>s. s \<le> B) (Suc B) m key val = Some (st, m1)"
    using hashmap_put_total [of "\<lambda>s. s \<le> B" B B m key val] by auto
  then show ?thesis using hashmap_put_spec [OF assms(1,2) r] assms(3) by (simp add: put_within_def)
qed

lemma hashmap_create_inv:
  "hm_inv hashmap_create" "packed hashmap_create" "hm_map hashmap_create = Map.empty"
  by (simp_all add: hashmap_create_def HMAP_INITIAL_SIZE_def new_table_inv)

interpretation hm: insert_map hashmap_create "put_within B" get_opt "\<lambda>m. hm_inv m \<and> packed m"
    HMAP_S_OK HMAP_E_KEYUSED for B
proof
  show "hm_inv hashmap_create \<and> packed hashmap_create" by (simp add: hashmap_create_inv)
  show "get_opt hashmap_create k = None" for k by (simp add: get_opt_map hashmap_create_inv)
next
  fix m m' :: "'a hashmap_map_t" and k v
  assume "hm_inv m \<and> packed m" "put_within B m k v = (HMAP_S_OK, m')"
  with put_within_spec [of m B k v HMAP_S_OK m'] get_opt_map [of m] get_opt_map [of m']
  show "(hm_inv m' \<and> packed m') \<and> get_opt m k = None \<and> get_opt m' = (get_opt m)(k \<mapsto> v)"
    by (simp add: put_spec_def status_defs)
next
  fix m m' :: "'a hashmap_map_t" and k v
  assume "hm_inv m \<and> packed m" "put_within B m k v = (HMAP_E_KEYUSED, m')"
  with put_within_spec [of m B k v HMAP_E_KEYUSED m'] get_opt_map [of m] get_opt_map [of m']
  show "(hm_inv m' \<and> packed m') \<and> get_opt m k \<noteq> None \<and> get_opt m' = get_opt m"
    by (simp add: put_spec_def status_defs)
qed

text \<open>The places that \<open>_hashmap_hash\<close> and the searches try first.\<close>

lemma hashmap_hash_first:
  assumes "msize m < table_size m div 2" "i = find_hash_index (table_size m) key"
  shows "elems m ! i = hashmap_unused_0 \<Longrightarrow> hashmap_hash m key = Some i"
    and "elems m ! i = hashmap_used_1 k d \<Longrightarrow> k \<noteq> key \<Longrightarrow> elems m ! ((i + 1) mod table_size m) = hashmap_unused_0 \<Longrightarrow>
      hashmap_hash m key = Some ((i + 1) mod table_size m)"
    and "elems m ! i = hashmap_used_1 key d \<Longrightarrow> hashmap_hash m key = Some i"
  using assms by (simp_all add: hashmap_hash_def HMAP_CHAIN_LENGTH_def numeral_eq_Suc)

lemma find_key_first:
  "elems m ! i = hashmap_used_1 key d \<Longrightarrow> find_key m key i HMAP_CHAIN_LENGTH = Some (i, d)"
  "elems m ! i = hashmap_unused_0 \<Longrightarrow> elems m ! ((i + 1) mod table_size m) = hashmap_used_1 key d \<Longrightarrow>
    find_key m key i HMAP_CHAIN_LENGTH = Some ((i + 1) mod table_size m, d)"
  by (simp_all add: HMAP_CHAIN_LENGTH_def numeral_eq_Suc)

section \<open>Visiting the values\<close>

text \<open>\<open>hashmap_destroy\<close> hands every value in use to the callback once, from the last to the first.\<close>

lemma used_pairs_rev [simp]: "used_pairs (rev es) = rev (used_pairs es)"
proof (induction es)
  case (Cons e es)
  then show ?case by (cases e) simp_all
qed simp

lemma destroy_loop_fold: "destroy_loop fnFreeValue es a = fold (\<lambda>(k, d). fnFreeValue d) (used_pairs es) a"
proof (induction es arbitrary: a)
  case (Cons e es)
  then show ?case by (cases e) simp_all
qed simp

lemma hashmap_destroy_visits:
  "hashmap_destroy m fnFreeValue a = foldr (\<lambda>(k, d). fnFreeValue d) (used_pairs (elems m)) a"
  by (simp add: hashmap_destroy_def foldr_conv_fold destroy_loop_fold)

text \<open>The answers of \<open>hashmap_put\<close> are the three that \<open>hashmap.h\<close> names.\<close>

lemma put_all_status:
  "put_all (put_within B) kvs m = (ss, m') \<Longrightarrow> hm_inv m \<Longrightarrow> packed m \<Longrightarrow>
    set ss \<subseteq> {HMAP_S_OK, HMAP_E_KEYUSED, HMAP_E_OUTMEM} \<and> hm_inv m'"
proof (induction kvs arbitrary: m ss)
  case (Cons kv kvs)
  obtain k v where kv: "kv = (k, v)" by (cases kv)
  obtain s m1 where p: "put_within B m k v = (s, m1)" by (cases "put_within B m k v")
  obtain ss' where r: "put_all (put_within B) kvs m1 = (ss', m')" "ss = s # ss'"
    using Cons.prems(1) kv p by (auto split: prod.splits)
  have "put_spec m k v s m1" using put_within_spec [OF Cons.prems(2,3) p] .
  then have "hm_inv m1" "packed m1" "s \<in> {HMAP_S_OK, HMAP_E_KEYUSED, HMAP_E_OUTMEM}" by (auto simp: put_spec_def)
  then show ?case using Cons.IH [OF r(1)] r(2) by auto
qed simp

text \<open>Two keys of one character that share their first place.\<close>

lemma ex_idx: "find_hash_index 256 ''1'' = 75" "find_hash_index 256 ''A'' = 75"
  by (simp_all add: find_hash_index_def mix32_def crc32_def crc_step_def crc32_tab_def)

lemma ex_put_1:
  "hashmap_put calloc_ok (Suc n) hashmap_create ''1'' v =
    Some (HMAP_S_OK, \<lparr>table_size = 256, msize = 1, elems = (replicate 256 hashmap_unused_0)[75 := hashmap_used_1 ''1'' v]\<rparr>)"
proof -
  let ?m = "\<lparr>table_size = 256, msize = 0, elems = replicate 256 hashmap_unused_0\<rparr> :: 'a hashmap_map_t"
  have "hashmap_hash ?m ''1'' = Some 75" by (rule hashmap_hash_first(1)) (simp_all add: ex_idx)
  then show ?thesis by (simp add: hashmap_create_def new_table_def HMAP_INITIAL_SIZE_def)
qed

section \<open>Properties\<close>

text \<open>C10: Insertion into the table refines the update of a map. On a table in which every key is in one of
  its eight places with no free place before it, whatever the number of reallocations, \<open>hashmap_put\<close>
  either adds the pair of a new key (\<open>HMAP_S_OK\<close>), or leaves the content as it is because the key is
  there (\<open>HMAP_E_KEYUSED\<close>), or runs out of memory and then at most loses pairs; the table stays of that form
  and \<open>hashmap_get\<close> answers every key from the content.\<close>

theorem hashmap_put_refines:
  assumes "hm_inv m" "packed m" "hashmap_put calloc_ok n m key val = Some (status, m')"
  shows "hm_inv m' \<and> packed m' \<and>
    (\<forall>k. hashmap_get m' k = (case hm_map m' k of None \<Rightarrow> (HMAP_E_NOTFOUND, None) | Some d \<Rightarrow> (HMAP_S_OK, d))) \<and>
    (status = HMAP_S_OK \<and> hm_map m key = None \<and> hm_map m' = (hm_map m)(key \<mapsto> val) \<or>
     status = HMAP_E_KEYUSED \<and> hm_map m key \<noteq> None \<and> hm_map m' = hm_map m \<or>
     status = HMAP_E_OUTMEM \<and> hm_map m' \<subseteq>\<^sub>m hm_map m)"
  using hashmap_put_spec [OF assms] by (simp add: put_spec_def hashmap_get_map)

theorem hashmap_put_refines_witness:
  "\<exists>m'. hashmap_put (\<lambda>s. True) 1 hashmap_create ''1'' (Some (7 :: nat)) = Some (HMAP_S_OK, m') \<and> packed m' \<and>
    hm_map m' = [''1'' \<mapsto> Some 7] \<and> hashmap_get m' ''A'' = (HMAP_E_NOTFOUND, None)"
  using hashmap_put_refines [OF hashmap_create_inv(1,2) ex_put_1 [of "\<lambda>s. True" 0 "Some (7 :: nat)"]]
  by (auto simp: ex_put_1 hashmap_create_inv status_defs simp del: hashmap_put.simps)

text \<open>C34: An insertion always returns: when \<open>calloc\<close> fails for tables of more than \<open>B\<close> elements, a depth of
  calls that doubles the table beyond \<open>B\<close> is enough, whatever the table holds.\<close>

theorem hashmap_put_returns:
  assumes "\<forall>s. calloc_ok s \<longrightarrow> s \<le> B" "B < 2 ^ n * table_size m"
  shows "\<exists>status m'. hashmap_put calloc_ok (Suc n) m key val = Some (status, m')"
  using hashmap_put_total [of calloc_ok B n m key val] assms by blast

theorem hashmap_put_returns_witness:
  "\<exists>status m'. hashmap_put (\<lambda>s. s \<le> 1000) 3 (hashmap_create :: nat hashmap_map_t) ''key'' None = Some (status, m')"
proof -
  have n: "3 = Suc 2" by simp
  show ?thesis unfolding n
    by (rule hashmap_put_returns [of _ 1000]) (simp_all add: hashmap_create_def new_table_def HMAP_INITIAL_SIZE_def)
qed

text \<open>Inserting any list of pairs into a new table and looking them up again: as long as the memory
  lasts, a key is found exactly when it is in the list, with the first value given for it.\<close>

theorem insertions_retrieved:
  assumes "put_all (put_within B) kvs hashmap_create = (ss, m)" "HMAP_E_OUTMEM \<notin> set ss"
  shows "hashmap_get m key = (case map_of kvs key of None \<Rightarrow> (HMAP_E_NOTFOUND, None) | Some d \<Rightarrow> (HMAP_S_OK, d))"
proof -
  have "set ss \<subseteq> {HMAP_S_OK, HMAP_E_KEYUSED}" "hm_inv m"
    using put_all_status [OF assms(1)] hashmap_create_inv assms(2) by auto
  then show ?thesis using hm.put_all_emp [OF assms(1)] by (simp add: get_opt_map hashmap_get_map)
qed

theorem insertions_retrieved_witness:
  "\<exists>m. put_all (put_within 1000) [(''1'', Some (10 :: nat)), (''1'', Some 30)] hashmap_create =
      ([HMAP_S_OK, HMAP_E_KEYUSED], m) \<and>
    hashmap_get m ''1'' = (HMAP_S_OK, Some 10) \<and> hashmap_get m ''A'' = (HMAP_E_NOTFOUND, None)"
proof -
  let ?m = "\<lparr>table_size = 256, msize = 1,
    elems = (replicate 256 hashmap_unused_0)[75 := hashmap_used_1 ''1'' (Some (10 :: nat))]\<rparr>"
  have "hashmap_hash ?m ''1'' = Some 75" by (rule hashmap_hash_first(3)) (simp_all add: ex_idx)
  then have "put_within B ?m ''1'' (Some 30) = (HMAP_E_KEYUSED, ?m)" for B by (simp add: put_within_def)
  moreover have "put_within B hashmap_create ''1'' (Some (10 :: nat)) = (HMAP_S_OK, ?m)" for B
    by (simp add: put_within_def ex_put_1 del: hashmap_put.simps)
  ultimately have run: "put_all (put_within 1000) [(''1'', Some (10 :: nat)), (''1'', Some 30)] hashmap_create =
      ([HMAP_S_OK, HMAP_E_KEYUSED], ?m)" by simp
  have "HMAP_E_OUTMEM \<notin> set [HMAP_S_OK, HMAP_E_KEYUSED]" by (simp add: status_defs)
  note ret = insertions_retrieved [OF run this]
  show ?thesis using run ret [of "''1''"] ret [of "''A''"] by (intro exI [of _ ?m]) simp
qed

text \<open>C35: A removal leaves a gap that breaks the table: when two keys share their first place and the first is
  removed, inserting the second again answers \<open>HMAP_S_OK\<close> although \<open>hashmap_get\<close> finds it, the table has it
  twice, and after one removal the old value is back.\<close>

theorem duplicate_after_remove:
  fixes a b c :: "'v option"
  assumes "k1 \<noteq> k2" "find_hash_index HMAP_INITIAL_SIZE k1 = find_hash_index HMAP_INITIAL_SIZE k2"
    and "hashmap_put calloc_ok (Suc n) hashmap_create k1 a = Some (s1, m1)"
    and "hashmap_put calloc_ok (Suc n) m1 k2 b = Some (s2, m2)"
    and "hashmap_remove m2 k1 = (s3, a', m3)"
    and "hashmap_put calloc_ok (Suc n) m3 k2 c = Some (s4, m4)"
    and "hashmap_remove m4 k2 = (s5, c', m5)"
  shows "fst (hashmap_get m3 k2) = HMAP_S_OK \<and> s4 = HMAP_S_OK \<and> hashmap_size m4 = 2 \<and> c' = c \<and>
    hashmap_get m5 k2 = (HMAP_S_OK, b)"
proof -
  define i where "i = find_hash_index 256 k2"
  define j where "j = Suc i mod 256"
  define z where "z = replicate 256 (hashmap_unused_0 :: 'v hashmap_elem_t)"
  have i: "i < 256" by (simp add: i_def find_hash_index_def)
  have j: "j < 256" "i \<noteq> j" "j \<noteq> i" using i by (auto simp: j_def mod_Suc)
  have z: "length z = 256" "z ! i = hashmap_unused_0" "z ! j = hashmap_unused_0"
    using i j by (simp_all add: z_def)
  note loc = i j z j_def [symmetric]
  have k: "find_hash_index 256 k1 = i" "find_hash_index 256 k2 = i"
    using assms(2) by (simp_all add: i_def HMAP_INITIAL_SIZE_def)
  define tab where "tab es n = \<lparr>table_size = 256, msize = n, elems = es\<rparr>" for es :: "'v hashmap_elem_t list" and n
  have tab: "table_size (tab es n) = 256" "msize (tab es n) = n" "elems (tab es n) = es"
    "tab es n\<lparr>elems := fs, msize := l\<rparr> = tab fs l" for es fs n l by (simp_all add: tab_def)
  have create: "hashmap_create = tab z 0" by (simp add: hashmap_create_def new_table_def HMAP_INITIAL_SIZE_def tab_def z_def)
  have "hashmap_hash (tab z 0) k1 = Some i" by (rule hashmap_hash_first(1)) (simp_all add: tab k loc)
  then have m1: "m1 = tab (z[i := hashmap_used_1 k1 a]) 1" using assms(3) unfolding create by (simp add: tab loc)
  have "hashmap_hash m1 k2 = Some j"
    using hashmap_hash_first(2) [of m1 i k2 k1 a] assms(1) unfolding m1 tab k by (simp add: loc)
  then have m2: "m2 = tab (z[i := hashmap_used_1 k1 a, j := hashmap_used_1 k2 b]) (Suc 1)"
    using assms(4) by (simp add: m1 tab loc)
  have m3: "m3 = tab (z[i := hashmap_unused_0, j := hashmap_used_1 k2 b]) 1"
    using assms(5) find_key_first(1) [of m2 i k1 a]
    by (simp add: m2 tab loc k hashmap_remove_def list_update_swap [of j i])
  have "hashmap_hash m3 k2 = Some i" by (rule hashmap_hash_first(1)) (simp_all add: m3 tab k loc)
  then have m4: "s4 = HMAP_S_OK" "m4 = tab (z[i := hashmap_used_1 k2 c, j := hashmap_used_1 k2 b]) (Suc 1)"
    using assms(6) by (simp_all add: m3 tab loc list_update_swap [of j i])
  have m5: "c' = c" "m5 = tab (z[i := hashmap_unused_0, j := hashmap_used_1 k2 b]) 1"
    using assms(7) find_key_first(1) [of m4 i k2 c]
    by (simp_all add: m4(2) tab loc k hashmap_remove_def list_update_swap [of j i])
  have "hashmap_get (tab (z[i := hashmap_unused_0, j := hashmap_used_1 k2 b]) 1) k2 = (HMAP_S_OK, b)"
    using find_key_first(2) [of "tab (z[i := hashmap_unused_0, j := hashmap_used_1 k2 b]) 1" i k2 b]
    by (simp add: hashmap_get_def tab loc k)
  then show ?thesis using m3 m4 m5 by (simp add: hashmap_size_def tab)
qed

theorem duplicate_after_remove_witness:
  "\<exists>s1 m1 s2 m2 s3 a m3 m4 s5 m5. hashmap_put (\<lambda>s. False) 1 hashmap_create ''1'' (Some (10 :: nat)) = Some (s1, m1) \<and>
    hashmap_put (\<lambda>s. False) 1 m1 ''A'' (Some 20) = Some (s2, m2) \<and> hashmap_remove m2 ''1'' = (s3, a, m3) \<and>
    hashmap_put (\<lambda>s. False) 1 m3 ''A'' (Some 30) = Some (HMAP_S_OK, m4) \<and>
    hashmap_remove m4 ''A'' = (s5, Some 30, m5) \<and> hashmap_get m5 ''A'' = (HMAP_S_OK, Some 20)"
proof -
  have put: "\<exists>s m'. hashmap_put (\<lambda>s. False) (Suc 0) m k v = Some (s, m') \<and> 0 < table_size m'"
    if "0 < table_size m" for m :: "nat hashmap_map_t" and k v
    using that hashmap_put_total [of "\<lambda>s. False" 0 0 m k v] hashmap_put_grows by fastforce
  have rem: "\<exists>s v m'. hashmap_remove m k = (s, v, m') \<and> table_size m' = table_size m" for m :: "nat hashmap_map_t" and k
    by (auto simp: hashmap_remove_def split: option.split)
  have "0 < table_size (hashmap_create :: nat hashmap_map_t)"
    by (simp add: hashmap_create_def new_table_def HMAP_INITIAL_SIZE_def)
  then obtain s1 m1 where 1: "hashmap_put (\<lambda>s. False) (Suc 0) hashmap_create ''1'' (Some (10 :: nat)) = Some (s1, m1)"
    "0 < table_size m1" using put by blast
  then obtain s2 m2 where 2: "hashmap_put (\<lambda>s. False) (Suc 0) m1 ''A'' (Some 20) = Some (s2, m2)"
    "0 < table_size m2" using put by blast
  obtain s3 a m3 where 3: "hashmap_remove m2 ''1'' = (s3, a, m3)" "0 < table_size m3" using rem 2(2) by metis
  then obtain s4 m4 where 4: "hashmap_put (\<lambda>s. False) (Suc 0) m3 ''A'' (Some 30) = Some (s4, m4)" using put by blast
  obtain s5 c m5 where 5: "hashmap_remove m4 ''A'' = (s5, c, m5)" using rem by blast
  from duplicate_after_remove [OF _ _ 1(1) 2(1) 3(1) 4 5] show ?thesis
    using 1 2 3 4 5 by (auto simp: HMAP_INITIAL_SIZE_def ex_idx simp del: hashmap_put.simps)
qed

section \<open>Any sequence of operations\<close>

text \<open>
  What also survives a removal, with the gaps and the keys stored twice that may follow it: the table has
  its size, \<open>size\<close> counts the elements in use, and every element is in one of the eight places of its key.
\<close>

definition hm_wf :: "'v hashmap_map_t \<Rightarrow> bool" where
  "hm_wf m \<longleftrightarrow> 0 < table_size m \<and> length (elems m) = table_size m \<and> msize m = length (used_pairs (elems m)) \<and>
     (\<forall>i < table_size m. \<forall>k d. elems m ! i = hashmap_used_1 k d \<longrightarrow> (\<exists>j < HMAP_CHAIN_LENGTH. i = place m k j))"

inductive hm_step :: "'v hashmap_map_t \<Rightarrow> 'v hashmap_map_t \<Rightarrow> bool" where
  Put: "hashmap_put calloc_ok n m key val = Some (status, m') \<Longrightarrow> hm_step m m'"
| Remove: "hashmap_remove m key = (status, d, m') \<Longrightarrow> hm_step m m'"

lemma new_table_wf: "0 < n \<Longrightarrow> hm_wf (new_table n)"
  by (simp add: hm_wf_def new_table_def)

lemma store_wf:
  assumes "hm_wf m" "i = place m key l" "l < HMAP_CHAIN_LENGTH" "elems m ! i = hashmap_unused_0"
  shows "hm_wf (m\<lparr>elems := (elems m)[i := hashmap_used_1 key val], msize := msize m + 1\<rparr>)"
proof -
  have i: "i < length (elems m)" using assms(1,2) place_less [of m key l] by (simp add: hm_wf_def)
  have "length (used_pairs ((elems m)[i := hashmap_used_1 key val])) = Suc (length (used_pairs (elems m)))"
    using arg_cong [OF used_pairs_fill [OF i assms(4), of key val], of size] by simp
  then show ?thesis using assms(1-3) i by (auto simp: hm_wf_def nth_list_update)
qed

lemma rehash_loop_wf:
  assumes "\<And>m k v st m'. hm_wf m \<Longrightarrow> put m k v = Some (st, m') \<Longrightarrow> hm_wf m'"
  shows "rehash_loop put es m = Some (status, m') \<Longrightarrow> hm_wf m \<Longrightarrow> hm_wf m'"
proof (induction es arbitrary: m)
  case (Cons e es)
  show ?case
  proof (cases e)
    case hashmap_unused_0
    then show ?thesis using Cons by simp
  next
    case (hashmap_used_1 k d)
    then obtain st m1 where p: "put m k d = Some (st, m1)" using Cons.prems by (auto split: option.splits)
    have "hm_wf m1" using assms p Cons.prems(2) by blast
    then show ?thesis using Cons.IH [of m1] Cons.prems(1) hashmap_used_1 p by (auto split: if_splits)
  qed
qed simp

lemma hashmap_put_wf: "hm_wf m \<Longrightarrow> hashmap_put calloc_ok n m key val = Some (status, m') \<Longrightarrow> hm_wf m'"
proof (induction n arbitrary: m key val status m')
  case (Suc n)
  show ?case
  proof (cases "hashmap_hash m key")
    case (Some i)
    then have "probe m key (place m key 0) HMAP_CHAIN_LENGTH = Some i"
      by (simp add: hashmap_hash_def place_0 split: if_splits)
    from probe_Some [OF this] obtain l where l: "l < HMAP_CHAIN_LENGTH" "i = place m key l" by auto
    show ?thesis
    proof (cases "elems m ! i")
      case hashmap_unused_0
      then show ?thesis using Suc.prems Some store_wf [OF Suc.prems(1) l(2,1) hashmap_unused_0] by auto
    next
      case (hashmap_used_1 k d)
      then show ?thesis using Suc.prems Some by simp
    qed
  next
    case None
    then obtain st m1 where r: "hashmap_rehash calloc_ok (hashmap_put calloc_ok n) m = Some (st, m1)"
      using Suc.prems(2) by (auto split: option.splits)
    have "hm_wf m1"
    proof (cases "calloc_ok (2 * table_size m)")
      case True
      then have l: "rehash_loop (hashmap_put calloc_ok n) (elems m) (new_table (2 * table_size m)) = Some (st, m1)"
        using r by (simp add: hashmap_rehash_def)
      have "0 < 2 * table_size m" using Suc.prems(1) by (simp add: hm_wf_def)
      then show ?thesis using rehash_loop_wf [OF _ l] Suc.IH new_table_wf by blast
    qed (use r Suc.prems(1) in \<open>simp add: hashmap_rehash_def\<close>)
    then show ?thesis using Suc.prems(2) None r Suc.IH by (auto split: if_splits)
  qed
qed simp

lemma hashmap_remove_wf:
  assumes "hm_wf m" "hashmap_remove m key = (status, d, m')"
  shows "hm_wf m'"
proof (cases "find_key m key (place m key 0) HMAP_CHAIN_LENGTH")
  case None
  then show ?thesis using assms by (simp add: hashmap_remove_def place_0)
next
  case (Some p)
  obtain i v where p: "p = (i, v)" by (cases p)
  let ?es = "(elems m)[i := hashmap_unused_0]"
  have m': "m' = m\<lparr>elems := ?es, msize := msize m - 1\<rparr>"
    using assms(2) Some p by (simp add: hashmap_remove_def place_0)
  have i: "elems m ! i = hashmap_used_1 key v" "i < length (elems m)"
    using find_key_Some [of m key 0 HMAP_CHAIN_LENGTH i v] Some p place_less [of m key] assms(1)
    by (auto simp: hm_wf_def)
  have "length (used_pairs (elems m)) = Suc (length (used_pairs ?es))"
    using arg_cong [OF used_pairs_clear [OF i(2,1)], of size] by simp
  then show ?thesis using assms(1) i(2) by (auto simp: hm_wf_def m' nth_list_update)
qed

lemma reachable_wf:
  assumes "hm_step\<^sup>*\<^sup>* hashmap_create m"
  shows "hm_wf m"
  using assms
proof (induction rule: rtranclp_induct)
  case base
  show ?case by (simp add: hashmap_create_def HMAP_INITIAL_SIZE_def new_table_wf)
next
  case (step m1 m2)
  from step.hyps(2) step.IH show ?case by cases (auto intro: hashmap_put_wf hashmap_remove_wf simp del: hashmap_put.simps)
qed

lemma get_finds_used:
  assumes "hm_wf m"
  shows "fst (hashmap_get m key) = HMAP_S_OK \<longleftrightarrow> key \<in> fst ` set (used_pairs (elems m))"
proof (cases "find_key m key (place m key 0) HMAP_CHAIN_LENGTH")
  case None
  have "(key, d) \<notin> set (used_pairs (elems m))" for d
  proof
    assume "(key, d) \<in> set (used_pairs (elems m))"
    then obtain i where i: "i < table_size m" "elems m ! i = hashmap_used_1 key d"
      using assms by (auto simp: set_used_pairs hm_wf_def)
    then obtain j where "j < HMAP_CHAIN_LENGTH" "i = place m key j" using assms unfolding hm_wf_def by meson
    then show False using find_key_None [OF None, of j d] i(2) by simp
  qed
  then show ?thesis using None by (auto simp: hashmap_get_def place_0 status_defs)
next
  case (Some p)
  obtain i d where p: "p = (i, d)" by (cases p)
  then have "elems m ! i = hashmap_used_1 key d" "i < length (elems m)"
    using find_key_Some [of m key 0 HMAP_CHAIN_LENGTH i d] Some place_less [of m key] assms by (auto simp: hm_wf_def)
  then have "(key, d) \<in> set (used_pairs (elems m))" using set_used_pairs by blast
  then show ?thesis using Some p by (force simp: hashmap_get_def place_0)
qed

text \<open>C24: In every table that any sequence of insertions and removals makes out of a new one, failed and
  repeated insertions and reallocations included, the array has \<open>table_size\<close> elements, \<open>hashmap_size\<close> is the
  number of those in use, every place the searches look at is inside the array, and a search finds
  a key exactly when some element has it.\<close>

theorem hashmap_wellformed:
  assumes "hm_step\<^sup>*\<^sup>* hashmap_create m"
  shows "length (elems m) = table_size m \<and> hashmap_size m = length (used_pairs (elems m)) \<and>
    place m key j < length (elems m) \<and>
    (fst (hashmap_get m key) = HMAP_S_OK \<longleftrightarrow> key \<in> fst ` set (used_pairs (elems m)))"
  using reachable_wf [OF assms] get_finds_used [OF reachable_wf [OF assms], of key] place_less [of m key j]
  by (simp add: hm_wf_def hashmap_size_def)

theorem hashmap_wellformed_witness:
  "\<exists>m. hm_step hashmap_create m \<and> hashmap_size m = length (used_pairs (elems m)) \<and>
    fst (hashmap_get m ''1'') = HMAP_S_OK \<and> elems m ! 75 = hashmap_used_1 ''1'' (Some (10 :: nat))"
proof -
  let ?m = "\<lparr>table_size = 256, msize = 1,
    elems = (replicate 256 hashmap_unused_0)[75 := hashmap_used_1 ''1'' (Some (10 :: nat))]\<rparr>"
  have s: "hm_step hashmap_create ?m" by (rule Put [OF ex_put_1 [of "\<lambda>s. True" 0]])
  then have r: "hm_step\<^sup>*\<^sup>* hashmap_create ?m" by (rule r_into_rtranclp)
  have "(''1'', Some 10) \<in> set (used_pairs (elems ?m))"
    unfolding set_used_pairs by (intro exI [of _ 75]) simp
  then have "fst (hashmap_get ?m ''1'') = HMAP_S_OK"
    using hashmap_wellformed [OF r, of "''1''" 0] by force
  moreover have "hashmap_size ?m = length (used_pairs (elems ?m))" using hashmap_wellformed [OF r] by blast
  ultimately show ?thesis using s by (intro exI [of _ ?m]) simp
qed

end
