(* ===== verification/PvTrace.thy ===== *)
theory PvTrace
  imports CString
begin

text \<open>
  The call tracer under \<open>src/pvtrace\<close>. An instrumented program writes one line per function entry and
  exit (\<open>instrument.c\<close>); \<open>pvtrace\<close> reads the lines back with \<open>fscanf\<close> (\<open>trace.c\<close>), keeps the functions
  that are active on a stack (\<open>stack.c\<close>), counts for every pair of functions how often one entered
  while the other was on top (\<open>symbols.cpp\<close>) and writes the counts as a graph.

  The fixed arrays are functions on their indices; the sizes are tested where the code tests them,
  and where it does not a write or a read outside an array is a value of \<open>pv_stop\<close>, as is a failing
  \<open>assert\<close>. The shell command \<open>addr2line ... |c++filt\<close> is a parameter: the text it prints, or
  \<open>None\<close> where \<open>popen\<close> fails.
\<close>

section \<open>The stack (stack.c)\<close>

datatype pv_stop = AssertFails | OutsideArray | Unterminated | UnsetPointer

definition MAX_ELEMENTS :: nat where "MAX_ELEMENTS = 500"

record pv_stack =
  stack_arr :: "nat \<Rightarrow> u32"
  stack_index :: nat

definition stackInit :: "pv_stack \<Rightarrow> pv_stack" where
  "stackInit s = s\<lparr>stack_index := 0\<rparr>"

definition stackNumElems :: "pv_stack \<Rightarrow> nat" where
  "stackNumElems s = stack_index s"

definition stackTop :: "pv_stack \<Rightarrow> (pv_stop, u32) result" where
  "stackTop s = (if stack_index s > 0 then Inr (stack_arr s (stack_index s - 1)) else Inl AssertFails)"

definition stackPush :: "u32 \<Rightarrow> pv_stack \<Rightarrow> (pv_stop, pv_stack) result" where
  "stackPush v s = (if stack_index s < MAX_ELEMENTS
     then Inr (s\<lparr>stack_arr := (stack_arr s)(stack_index s := v), stack_index := stack_index s + 1\<rparr>)
     else Inl AssertFails)"

definition stackPop :: "pv_stack \<Rightarrow> (pv_stop, u32 \<times> pv_stack) result" where
  "stackPop s = (if stack_index s > 0
     then Inr (stack_arr s (stack_index s - 1), s\<lparr>stack_index := stack_index s - 1\<rparr>)
     else Inl AssertFails)"

text \<open>What the array holds, bottom first.\<close>

definition stack_content :: "pv_stack \<Rightarrow> u32 list" where
  "stack_content s = map (stack_arr s) [0..<stack_index s]"

text \<open>What the rest of the program relies on: a stack of bounded size whose misuse is an error.\<close>

locale bounded_stack =
  fixes empty :: "'s \<Rightarrow> 's"
    and num :: "'s \<Rightarrow> nat"
    and top_of :: "'s \<Rightarrow> 'e + 'a"
    and push :: "'a \<Rightarrow> 's \<Rightarrow> 'e + 's"
    and pop :: "'s \<Rightarrow> 'e + ('a \<times> 's)"
    and content :: "'s \<Rightarrow> 'a list"
    and cap :: nat
    and err :: 'e
  assumes content_empty: "content (empty s) = []"
    and num_content: "num s = length (content s)"
    and top_content: "top_of s = (if content s = [] then Inl err else Inr (last (content s)))"
    and push_ok: "length (content s) < cap \<Longrightarrow> \<exists>s'. push v s = Inr s' \<and> content s' = content s @ [v]"
    and push_full: "cap \<le> length (content s) \<Longrightarrow> push v s = Inl err"
    and pop_ok: "content s \<noteq> [] \<Longrightarrow>
      \<exists>s'. pop s = Inr (last (content s), s') \<and> content s' = butlast (content s)"
    and pop_empty: "content s = [] \<Longrightarrow> pop s = Inl err"
begin

lemma push_pop:
  assumes "push v s = Inr s'"
  obtains s'' where "pop s' = Inr (v, s'')" and "content s'' = content s"
proof -
  have "length (content s) < cap" using assms push_full [of s v] by (cases "cap \<le> length (content s)") auto
  then have "content s' = content s @ [v]" using push_ok [of s v] assms by auto
  then show thesis using pop_ok [of s'] that by auto
qed

lemma push_cases:
  "(length (content s) < cap \<and> (\<exists>s'. push v s = Inr s' \<and> content s' = content s @ [v])) \<or>
   (cap \<le> length (content s) \<and> push v s = Inl err)"
  using push_ok [of s v] push_full [of s v] by (meson not_le)

end

lemma stack_content_push:
  "map ((stack_arr s)(stack_index s := v)) [0..<stack_index s] = stack_content s"
  by (simp add: stack_content_def)

lemma stack_content_last:
  "0 < stack_index s \<Longrightarrow> stack_content s = map (stack_arr s) [0..<stack_index s - 1] @ [stack_arr s (stack_index s - 1)]"
  by (cases "stack_index s") (simp_all add: stack_content_def)

lemma stack_content_Nil: "stack_content s = [] \<longleftrightarrow> stack_index s = 0"
  by (simp add: stack_content_def)

interpretation st: bounded_stack stackInit stackNumElems stackTop stackPush stackPop stack_content MAX_ELEMENTS AssertFails
proof unfold_locales
  fix s v
  show "stack_content (stackInit s) = []" by (simp add: stack_content_def stackInit_def)
  show "stackNumElems s = length (stack_content s)" by (simp add: stackNumElems_def stack_content_def)
  show "stackTop s = (if stack_content s = [] then Inl AssertFails else Inr (last (stack_content s)))"
    by (simp add: stackTop_def stack_content_Nil stack_content_last)
  show "\<exists>s'. stackPush v s = Inr s' \<and> stack_content s' = stack_content s @ [v]"
    if "length (stack_content s) < MAX_ELEMENTS"
    using that by (simp add: stackPush_def stack_content_def)
  show "stackPush v s = Inl AssertFails" if "MAX_ELEMENTS \<le> length (stack_content s)"
    using that by (simp add: stackPush_def stack_content_def)
  show "\<exists>s'. stackPop s = Inr (last (stack_content s), s') \<and> stack_content s' = butlast (stack_content s)"
    if "stack_content s \<noteq> []"
    using that by (simp add: stackPop_def stack_content_Nil stack_content_last butlast_append)
      (simp add: stack_content_def)
  show "stackPop s = Inl AssertFails" if "stack_content s = []"
    using that by (simp add: stackPop_def stack_content_Nil)
qed

section \<open>Symbols and counts (symbols.cpp)\<close>

definition MAX_FUNCTIONS :: nat where "MAX_FUNCTIONS = 30000"
definition MAX_FUNCTION_NAME :: nat where "MAX_FUNCTION_NAME = 250"

abbreviation CR :: char where "CR \<equiv> CHR 0x0D"

record pvtrace =
  funNameMap :: "u32 \<rightharpoonup> char list"
  func_addr :: "nat \<Rightarrow> u32"
  totals :: "nat \<Rightarrow> u32"
  calls :: "nat \<Rightarrow> nat \<Rightarrow> u32"
  imageName :: string
  line :: "char list"
  callstack :: pv_stack

text \<open>Static storage starts as zeros.\<close>

definition pv_zero :: pvtrace where
  "pv_zero = \<lparr>funNameMap = Map.empty, func_addr = (\<lambda>_. 0), totals = (\<lambda>_. 0), calls = (\<lambda>_ _. 0),
     imageName = [], line = replicate MAX_FUNCTION_NAME NUL,
     callstack = \<lparr>stack_arr = (\<lambda>_. 0), stack_index = 0\<rparr>\<rparr>"

function lookup_loop :: "(nat \<Rightarrow> u32) \<Rightarrow> u32 \<Rightarrow> nat \<Rightarrow> (pv_stop, nat) result" where
  "lookup_loop fs a index = (if index < MAX_FUNCTIONS
     then if fs index = 0 then Inl AssertFails
       else if fs index = a then Inr index
       else lookup_loop fs a (Suc index)
     else Inl AssertFails)"
  by pat_completeness auto
termination by (relation "measure (\<lambda>(fs, a, i). MAX_FUNCTIONS - i)") auto

declare lookup_loop.simps [simp del]

definition lookupSymbol :: "u32 \<Rightarrow> pvtrace \<Rightarrow> (pv_stop, nat) result" where
  "lookupSymbol a s = lookup_loop (func_addr s) a 0"

text \<open>\<open>%x\<close>: lower-case hexadecimal digits.\<close>

definition hex_digit :: "nat \<Rightarrow> char" where
  "hex_digit d = (if d < 10 then char_of (48 + d) else char_of (87 + d))"

fun show_hex :: "nat \<Rightarrow> string" where
  "show_hex n = (if n < 16 then [hex_digit n] else show_hex (n div 16) @ [hex_digit (n mod 16)])"

declare show_hex.simps [simp del]

text \<open>The command line that \<open>sprintf\<close> puts into \<open>line\<close>.\<close>

definition addr2line_cmd :: "string \<Rightarrow> u32 \<Rightarrow> string" where
  "addr2line_cmd img a = ''addr2line -e '' @ img @ '' -f -s 0x'' @ show_hex (unat a) @ '' |c++filt''"

text \<open>Writing \<open>bytes\<close> to the start of an array leaves the rest of it as it was.\<close>

definition overwrite :: "char list \<Rightarrow> char list \<Rightarrow> char list" where
  "overwrite bytes buf = bytes @ drop (length bytes) buf"

text \<open>
  The copying loop over the \<open>len\<close> characters of \<open>line\<close>: the zeroed block of \<open>len\<close> bytes gets the
  characters up to the first line end, where a NUL is written and the loop stops.
\<close>

fun copy_name :: "char list \<Rightarrow> char list" where
  "copy_name [] = []"
| "copy_name (c # cs) = (if c = CR \<or> c = NL then NUL # replicate (length cs) NUL else c # copy_name cs)"

definition translateFunctionFromSymbol ::
    "(string \<Rightarrow> string option) \<Rightarrow> u32 \<Rightarrow> pvtrace \<Rightarrow> (pv_stop, pvtrace) result" where
  "translateFunctionFromSymbol popen a s = (case funNameMap s a of
       Some _ \<Rightarrow> Inr s
     | None \<Rightarrow>
         let cmd = addr2line_cmd (imageName s) a in
         if MAX_FUNCTION_NAME < length cmd + 1 then Inl OutsideArray
         else let s1 = s\<lparr>line := overwrite (cmd @ [NUL]) (line s)\<rparr> in
         (case popen cmd of
            None \<Rightarrow> Inr s1
          | Some out \<Rightarrow>
              let s2 = s1\<lparr>line := overwrite (take MAX_FUNCTION_NAME out) (line s1)\<rparr> in
              if NUL \<notin> set (line s2) then Inl OutsideArray
              else Inr (s2\<lparr>funNameMap := (funNameMap s2)(a \<mapsto> copy_name (takeWhile (\<lambda>c. c \<noteq> NUL) (line s2)))\<rparr>)))"

definition initSymbol :: "string \<Rightarrow> pvtrace \<Rightarrow> (pv_stop, pvtrace) result" where
  "initSymbol img s = (if MAX_FUNCTION_NAME < length img + 1 then Inl OutsideArray
     else Inr (s\<lparr>imageName := img,
       func_addr := (\<lambda>i. if i < MAX_FUNCTIONS then 0 else func_addr s i),
       totals := (\<lambda>i. if i < MAX_FUNCTIONS then 0 else totals s i),
       calls := (\<lambda>i j. if i < MAX_FUNCTIONS \<and> j < MAX_FUNCTIONS then 0 else calls s i j)\<rparr>))"

text \<open>The search loop of \<open>addSymbol\<close>: the address is there, or the index where the loop stopped.\<close>

function add_loop :: "(nat \<Rightarrow> u32) \<Rightarrow> u32 \<Rightarrow> nat \<Rightarrow> nat option" where
  "add_loop fs a index = (if index < MAX_FUNCTIONS
     then if fs index = a then None
       else if fs index = 0 then Some index
       else add_loop fs a (Suc index)
     else Some index)"
  by pat_completeness auto
termination by (relation "measure (\<lambda>(fs, a, i). MAX_FUNCTIONS - i)") auto

declare add_loop.simps [simp del]

definition addSymbol :: "(string \<Rightarrow> string option) \<Rightarrow> u32 \<Rightarrow> pvtrace \<Rightarrow> (pv_stop, pvtrace) result" where
  "addSymbol popen a s = (case add_loop (func_addr s) a 0 of
       None \<Rightarrow> Inr s
     | Some index \<Rightarrow>
         if index < MAX_FUNCTIONS
         then translateFunctionFromSymbol popen a (s\<lparr>func_addr := (func_addr s)(index := a)\<rparr>)
         else Inl AssertFails)"

definition addCallTrace :: "u32 \<Rightarrow> pvtrace \<Rightarrow> (pv_stop, pvtrace) result" where
  "addCallTrace a s = (if stackNumElems (callstack s) \<noteq> 0
     then case stackTop (callstack s) of
         Inl e \<Rightarrow> Inl e
       | Inr f \<Rightarrow> (case lookupSymbol f s of
           Inl e \<Rightarrow> Inl e
         | Inr i \<Rightarrow> (case lookupSymbol a s of
             Inl e \<Rightarrow> Inl e
           | Inr j \<Rightarrow> Inr (s\<lparr>calls := (calls s)(i := (calls s i)(j := calls s i j + 1))\<rparr>)))
     else Inr s)"

text \<open>The inner loop that sets \<open>totals[from]\<close>.\<close>

function total_loop :: "pvtrace \<Rightarrow> nat \<Rightarrow> nat \<Rightarrow> u32 \<Rightarrow> u32" where
  "total_loop s from_i to_i tot = (if to_i < MAX_FUNCTIONS \<and> func_addr s to_i \<noteq> 0
     then total_loop s from_i (Suc to_i) (if calls s from_i to_i \<noteq> 0 then tot + 1 else tot)
     else tot)"
  by pat_completeness auto
termination by (relation "measure (\<lambda>(s, f, t, k). MAX_FUNCTIONS - t)") auto

declare total_loop.simps [simp del]

text \<open>\<open>%d\<close> of an unsigned number, and \<open>%s\<close> of a block of memory.\<close>

definition print_d :: "u32 \<Rightarrow> string" where
  "print_d w = show_int (sint w)"

definition print_s :: "char list option \<Rightarrow> (pv_stop, string) result" where
  "print_s func = (case func of
       None \<Rightarrow> Inl UnsetPointer
     | Some blk \<Rightarrow> if NUL \<in> set blk then Inr (takeWhile (\<lambda>c. c \<noteq> NUL) blk) else Inl Unterminated)"

definition node_line :: "u32 \<Rightarrow> string \<Rightarrow> bool \<Rightarrow> string" where
  "node_line a label_txt caller = ''  S'' @ print_d a @ '' [label='' @ [CHR 0x22] @ label_txt @ [CHR 0x22] @
     (if caller then '',shape=rectangle]'' else '',shape=ellipse]'') @ [NL]"

definition edge_line :: "u32 \<Rightarrow> u32 \<Rightarrow> u32 \<Rightarrow> string" where
  "edge_line a b n = ''  S'' @ print_d a @ '' -> S'' @ print_d b @ '' [label='' @ [CHR 0x22] @ print_d n @
     '' calls'' @ [CHR 0x22] @ '' fontsize='' @ [CHR 0x22] @ ''10'' @ [CHR 0x22] @ '']'' @ [NL]"

text \<open>
  The first loop of \<open>emitSymbols\<close>. \<open>func\<close> is a local pointer that is not set before the loop and is
  kept from one round to the next when the map has no name.
\<close>

function node_loop :: "nat \<Rightarrow> char list option \<Rightarrow> string \<Rightarrow> pvtrace \<Rightarrow> (pv_stop, string \<times> pvtrace) result" where
  "node_loop from_i func fp s = (if from_i < MAX_FUNCTIONS \<and> func_addr s from_i \<noteq> 0
     then let a = func_addr s from_i;
              s1 = s\<lparr>totals := (totals s)(from_i := total_loop s from_i 0 (totals s from_i))\<rparr>;
              func1 = (case funNameMap s1 a of None \<Rightarrow> func | Some blk \<Rightarrow> Some blk)
          in case print_s func1 of
               Inl e \<Rightarrow> Inl e
             | Inr txt \<Rightarrow> node_loop (Suc from_i) func1 (fp @ node_line a txt (totals s1 from_i \<noteq> 0)) s1
     else Inr (fp, s))"
  by pat_completeness auto
termination by (relation "measure (\<lambda>(i, f, fp, s). MAX_FUNCTIONS - i)") auto

declare node_loop.simps [simp del]

function edge_to_loop :: "pvtrace \<Rightarrow> nat \<Rightarrow> nat \<Rightarrow> string" where
  "edge_to_loop s from_i to_i = (if to_i < MAX_FUNCTIONS
     then (if calls s from_i to_i \<noteq> 0
            then edge_line (func_addr s from_i) (func_addr s to_i) (calls s from_i to_i) else []) @
          (if func_addr s to_i = 0 then [] else edge_to_loop s from_i (Suc to_i))
     else [])"
  by pat_completeness auto
termination by (relation "measure (\<lambda>(s, f, t). MAX_FUNCTIONS - t)") auto

declare edge_to_loop.simps [simp del]

function edge_loop :: "pvtrace \<Rightarrow> nat \<Rightarrow> string" where
  "edge_loop s from_i = (if from_i < MAX_FUNCTIONS \<and> func_addr s from_i \<noteq> 0
     then edge_to_loop s from_i 0 @ edge_loop s (Suc from_i) else [])"
  by pat_completeness auto
termination by (relation "measure (\<lambda>(s, f). MAX_FUNCTIONS - f)") auto

declare edge_loop.simps [simp del]

text \<open>How the process ends: with an exit code and a message, or with the file \<open>graph.dot\<close> written.\<close>

datatype pv_end = PvExit int string | Graph string

definition emitSymbols :: "bool \<Rightarrow> pvtrace \<Rightarrow> (pv_stop, pv_end) result" where
  "emitSymbols can_write s = (if \<not> can_write then Inr (PvExit 0 (''Couldn't open graph.dot'' @ [NL]))
     else case node_loop 0 None (''digraph '' @ imageName s @ '' {'' @ [NL, NL]) s of
         Inl e \<Rightarrow> Inl e
       | Inr (fp, s1) \<Rightarrow> Inr (Graph (fp @ edge_loop s1 0 @ [NL] @ ''}'' @ [NL])))"

section \<open>The instrumented program (instrument.c)\<close>

text \<open>\<open>%p\<close> of the C library: \<open>(nil)\<close> for a null pointer, else hexadecimal digits after \<open>0x\<close>.\<close>

definition print_p :: "u64 \<Rightarrow> string" where
  "print_p p = (if p = 0 then ''(nil)'' else ''0x'' @ show_hex (unat p))"

definition cyg_profile_func_enter :: "u64 \<Rightarrow> string" where
  "cyg_profile_func_enter this_fn = ''E'' @ print_p this_fn @ [NL]"

definition cyg_profile_func_exit :: "u64 \<Rightarrow> string" where
  "cyg_profile_func_exit this_fn = ''X'' @ print_p this_fn @ [NL]"

section \<open>Reading the trace (trace.c)\<close>

definition is_xdigit :: "char \<Rightarrow> bool" where
  "is_xdigit c = (is_digit c \<or> (65 \<le> (of_char c :: nat) \<and> (of_char c :: nat) \<le> 70) \<or>
     (97 \<le> (of_char c :: nat) \<and> (of_char c :: nat) \<le> 102))"

definition xdigit_val :: "char \<Rightarrow> nat" where
  "xdigit_val c = (if is_digit c then of_char c - 48
     else if (of_char c :: nat) \<le> 70 then of_char c - 55 else of_char c - 87)"

definition xdigits_val :: "string \<Rightarrow> nat" where
  "xdigits_val ds = foldl (\<lambda>n c. n * 16 + xdigit_val c) 0 ds"

text \<open>
  The conversion \<open>%x\<close> into an \<open>unsigned int\<close>: white space, a sign, an optional \<open>0x\<close>, digits. The value
  is an \<open>unsigned long\<close>, the largest one when it does not fit, of which the low 32 bits are stored.
  The result is \<open>None\<close> when no number is there; then what was read is gone all the same.
\<close>

definition hex_value :: "bool \<Rightarrow> string \<Rightarrow> u32" where
  "hex_value neg ds = (let n = xdigits_val ds; ul = (if n < 2 ^ 64 then if neg then - of_nat n else of_nat n else - 1) :: u64
     in ucast ul)"

definition scan_digits :: "bool \<Rightarrow> bool \<Rightarrow> string \<Rightarrow> u32 option \<times> string" where
  "scan_digits neg prefix inp = (let ds = takeWhile is_xdigit inp; rest = dropWhile is_xdigit inp in
     if ds = [] \<and> \<not> prefix then (None, rest) else (Some (hex_value neg ds), rest))"

definition scan_prefix :: "bool \<Rightarrow> string \<Rightarrow> u32 option \<times> string" where
  "scan_prefix neg inp = (if take 2 inp = ''0x'' \<or> take 2 inp = ''0X''
     then scan_digits neg True (drop 2 inp) else scan_digits neg False inp)"

definition scan_x :: "string \<Rightarrow> u32 option \<times> string" where
  "scan_x inp = (case dropWhile is_space inp of
       [] \<Rightarrow> (None, [])
     | c # cs \<Rightarrow> if c = CHR ''-'' then scan_prefix True cs
         else if c = CHR ''+'' then scan_prefix False cs
         else scan_prefix False (c # cs))"

text \<open>
  \<open>fscanf(tracef, "%c0x%x\n", &type, &address)\<close>: the new values of both variables, what is left of the
  file and whether the end of the file was met. A variable keeps its value where its conversion does
  not happen.
\<close>

definition fscan :: "char \<Rightarrow> u32 \<Rightarrow> string \<Rightarrow> char \<times> u32 \<times> string \<times> bool" where
  "fscan ty ad inp = (case inp of
       [] \<Rightarrow> (ty, ad, [], True)
     | c # r \<Rightarrow> (case r of
         [] \<Rightarrow> (c, ad, [], True)
       | d # r1 \<Rightarrow> if d \<noteq> CHR ''0'' then (c, ad, r, False) else (case r1 of
           [] \<Rightarrow> (c, ad, [], True)
         | e # r2 \<Rightarrow> if e \<noteq> CHR ''x'' then (c, ad, r1, False) else (case scan_x r2 of
             (None, rest) \<Rightarrow> (c, ad, rest, rest = [])
           | (Some v, rest) \<Rightarrow> let rest' = dropWhile is_space rest in (c, v, rest', rest' = [])))))"

text \<open>One turn of the loop: the switch on the type of the line.\<close>

definition pv_switch :: "(string \<Rightarrow> string option) \<Rightarrow> char \<Rightarrow> u32 \<Rightarrow> pvtrace \<Rightarrow> (pv_stop, pvtrace) result" where
  "pv_switch popen ty ad s =
    (if ty = CHR ''E'' then (case addSymbol popen ad s of
         Inl e \<Rightarrow> Inl e
       | Inr s1 \<Rightarrow> (case addCallTrace ad s1 of
           Inl e \<Rightarrow> Inl e
         | Inr s2 \<Rightarrow> (case stackPush ad (callstack s2) of
             Inl e \<Rightarrow> Inl e
           | Inr st \<Rightarrow> Inr (s2\<lparr>callstack := st\<rparr>))))
     else if ty = CHR ''X'' then (case stackPop (callstack s) of
         Inl e \<Rightarrow> Inl e
       | Inr (v, st) \<Rightarrow> Inr (s\<lparr>callstack := st\<rparr>))
     else Inr s)"

lemma scan_prefix_shorter: "length (snd (scan_prefix neg inp)) \<le> length inp"
proof -
  have "snd (scan_digits n p i) = dropWhile is_xdigit i" for n p i
    by (simp add: scan_digits_def Let_def)
  then show ?thesis
    using length_dropWhile_le [of is_xdigit inp] length_dropWhile_le [of is_xdigit "drop 2 inp"]
    by (auto simp: scan_prefix_def)
qed

lemma scan_x_shorter: "length (snd (scan_x inp)) \<le> length inp"
proof (cases "dropWhile is_space inp")
  case Nil
  then show ?thesis by (simp add: scan_x_def del: dropWhile_eq_Nil_conv)
next
  case (Cons c cs)
  then have "Suc (length cs) \<le> length inp" using length_dropWhile_le [of is_space inp] by simp
  then show ?thesis
    using Cons scan_prefix_shorter [of True cs] scan_prefix_shorter [of False cs]
      scan_prefix_shorter [of False "c # cs"] by (simp add: scan_x_def)
qed

lemma fscan_shorter: "fscan ty ad inp = (ty', ad', inp', False) \<Longrightarrow> length inp' < length inp"
proof -
  have "length (snd (scan_x r)) < Suc (length r)" for r using scan_x_shorter [of r] by simp
  moreover have "length (dropWhile is_space (snd (scan_x r))) < Suc (length r)" for r
    using scan_x_shorter [of r] length_dropWhile_le [of is_space "snd (scan_x r)"] by linarith
  ultimately show "fscan ty ad inp = (ty', ad', inp', False) \<Longrightarrow> length inp' < length inp"
    by (auto simp: fscan_def Let_def less_Suc_eq split: list.splits if_splits prod.splits option.splits)
      (metis snd_conv less_Suc_eq)+
qed

function trace_loop :: "(string \<Rightarrow> string option) \<Rightarrow> char \<Rightarrow> u32 \<Rightarrow> string \<Rightarrow> pvtrace \<Rightarrow> (pv_stop, pvtrace) result" where
  "trace_loop popen ty ad inp s = (case fscan ty ad inp of (ty', ad', inp', eof) \<Rightarrow>
     (case pv_switch popen ty' ad' s of
        Inl e \<Rightarrow> Inl e
      | Inr s' \<Rightarrow> if eof then Inr s' else trace_loop popen ty' ad' inp' s'))"
  by pat_completeness auto
termination by (relation "measure (\<lambda>(p, t, a, inp, s). length inp)") (auto intro: fscan_shorter [OF sym])

declare trace_loop.simps [simp del]

text \<open>
  \<open>main\<close>: the arguments, the contents of \<open>trace.txt\<close> (\<open>None\<close> when it cannot be opened), and the values
  \<open>type\<close> and \<open>address\<close> have before anything is stored in them.
\<close>

definition pv_main :: "(string \<Rightarrow> string option) \<Rightarrow> bool \<Rightarrow> char \<Rightarrow> u32 \<Rightarrow> string list \<Rightarrow> string option \<Rightarrow>
    (pv_stop, pv_end) result" where
  "pv_main popen can_write ty0 ad0 argv tracef =
    (if length argv \<noteq> 2 then Inr (PvExit (- 1) (''Usage: pvtrace <image>'' @ [NL, NL]))
     else case initSymbol (argv ! 1) pv_zero of
         Inl e \<Rightarrow> Inl e
       | Inr s \<Rightarrow> let s1 = s\<lparr>callstack := stackInit (callstack s)\<rparr> in
         (case tracef of
            None \<Rightarrow> Inr (PvExit (- 1) (''Can't open trace.txt'' @ [NL]))
          | Some inp \<Rightarrow> (case trace_loop popen ty0 ad0 inp s1 of
              Inl e \<Rightarrow> Inl e
            | Inr s2 \<Rightarrow> emitSymbols can_write s2)))"

section \<open>Reference: the calls of an instrumented run\<close>

text \<open>
  A run of the instrumented program is a sequence of calls, each with the calls made inside it; one
  line is written when a call begins and one when it ends.
\<close>

datatype 'a call_tree = Call 'a "'a call_tree list"

fun call_lines :: "'a call_tree list \<Rightarrow> (char \<times> 'a) list" where
  "call_lines [] = []"
| "call_lines (Call f cs # ts) = (CHR ''E'', f) # call_lines cs @ (CHR ''X'', f) # call_lines ts"

definition line_text :: "char \<times> u64 \<Rightarrow> string" where
  "line_text l = (if fst l = CHR ''E'' then cyg_profile_func_enter (snd l) else cyg_profile_func_exit (snd l))"

definition trace_text :: "u64 call_tree list \<Rightarrow> string" where
  "trace_text ts = concat (map line_text (call_lines ts))"

text \<open>The functions entered, in order; how deep calls nest; the pairs of caller and callee.\<close>

fun entered :: "'a call_tree list \<Rightarrow> 'a list" where
  "entered [] = []"
| "entered (Call f cs # ts) = f # entered cs @ entered ts"

fun call_depth :: "'a call_tree list \<Rightarrow> nat" where
  "call_depth [] = 0"
| "call_depth (Call f cs # ts) = max (Suc (call_depth cs)) (call_depth ts)"

fun call_pairs :: "'a option \<Rightarrow> 'a call_tree list \<Rightarrow> ('a \<times> 'a) list" where
  "call_pairs p [] = []"
| "call_pairs p (Call f cs # ts) =
     (case p of None \<Rightarrow> [] | Some c \<Rightarrow> [(c, f)]) @ call_pairs (Some f) cs @ call_pairs p ts"

text \<open>Each element once, in the order of first occurrence, after those of \<open>fs\<close>.\<close>

fun firsts :: "'a list \<Rightarrow> 'a list \<Rightarrow> 'a list" where
  "firsts fs [] = fs"
| "firsts fs (a # as) = firsts (if a \<in> set fs then fs else fs @ [a]) as"

text \<open>The graph of a run: every function with its name, and every pair with its number of calls.\<close>

definition run_graph :: "string \<Rightarrow> (u64 \<Rightarrow> string) \<Rightarrow> u64 call_tree list \<Rightarrow> string" where
  "run_graph img nm ts = (let fs = firsts [] (entered ts); n = (\<lambda>f g. count_list (call_pairs None ts) (f, g)) in
     ''digraph '' @ img @ '' {'' @ [NL, NL] @
     concat (map (\<lambda>f. node_line (ucast f) (nm f) (\<exists>g \<in> set fs. n f g > 0)) fs) @
     concat (map (\<lambda>f. concat (map (\<lambda>g. if n f g > 0 then edge_line (ucast f) (ucast g) (of_nat (n f g)) else []) fs)) fs) @
     [NL] @ ''}'' @ [NL])"

section \<open>Printed pointers are read back\<close>

lemma of_char_hex_digit: "d < 16 \<Longrightarrow> (of_char (hex_digit d) :: nat) = (if d < 10 then 48 + d else 87 + d)"
  by (simp add: hex_digit_def of_char_of)

lemma hex_digit_props:
  assumes "d < 16"
  shows "is_xdigit (hex_digit d)" "xdigit_val (hex_digit d) = d" "\<not> is_space (hex_digit d)"
    "hex_digit d \<noteq> CHR ''-''" "hex_digit d \<noteq> CHR ''+''" "hex_digit d = CHR ''0'' \<longleftrightarrow> d = 0"
proof -
  note o = of_char_hex_digit [OF assms]
  show "is_xdigit (hex_digit d)" "xdigit_val (hex_digit d) = d" "\<not> is_space (hex_digit d)"
    using assms by (simp_all add: is_xdigit_def is_digit_def xdigit_val_def is_space_def o)
  have ne: "hex_digit d = c \<Longrightarrow> (of_char c :: nat) = (if d < 10 then 48 + d else 87 + d)" for c
    using o by auto
  show "hex_digit d \<noteq> CHR ''-''" "hex_digit d \<noteq> CHR ''+''"
    using ne [of "CHR ''-''"] ne [of "CHR ''+''"] by (auto split: if_splits)
  have "hex_digit 0 = CHR ''0''" by code_simp
  then show "hex_digit d = CHR ''0'' \<longleftrightarrow> d = 0"
    using ne [of "CHR ''0''"] by (auto split: if_splits)
qed

lemma xdigits_val_snoc: "xdigits_val (ds @ [c]) = xdigits_val ds * 16 + xdigit_val c"
  by (simp add: xdigits_val_def)

lemma show_hex_val: "xdigits_val (show_hex n) = n"
proof (induction n rule: show_hex.induct)
  case (1 n)
  then show ?case
    by (subst show_hex.simps) (simp add: xdigits_val_snoc hex_digit_props, simp add: xdigits_val_def hex_digit_props)
qed

lemma show_hex_digits: "list_all is_xdigit (show_hex n)"
proof (induction n rule: show_hex.induct)
  case (1 n)
  then show ?case by (subst show_hex.simps) (simp add: hex_digit_props)
qed

text \<open>The first digit of a positive number.\<close>

lemma show_hex_first: "0 < n \<Longrightarrow> \<exists>d ds. show_hex n = hex_digit d # ds \<and> 0 < d \<and> d < 16"
proof (induction n rule: show_hex.induct)
  case (1 n)
  show ?case
  proof (cases "n < 16")
    case True
    then show ?thesis using 1 by (subst show_hex.simps) auto
  next
    case False
    then obtain d ds where "show_hex (n div 16) = hex_digit d # ds \<and> 0 < d \<and> d < 16"
      using "1.IH" by (metis div_greater_zero_iff linorder_not_le zero_less_numeral)
    then show ?thesis using False by (subst show_hex.simps) auto
  qed
qed

lemma scan_x_show_hex:
  assumes "0 < n" "n < 2 ^ 64" "rest = [] \<or> \<not> is_xdigit (hd rest)"
  shows "scan_x (show_hex n @ rest) = (Some (ucast (of_nat n :: u64)), rest)"
proof -
  obtain d ds where d: "show_hex n = hex_digit d # ds" "0 < d" "d < 16"
    using show_hex_first [OF assms(1)] by blast
  have t: "takeWhile is_xdigit (show_hex n @ rest) = show_hex n" "dropWhile is_xdigit (show_hex n @ rest) = rest"
    using show_hex_digits [of n] assms(3)
    by (cases rest; simp add: list_all_iff takeWhile_append2 dropWhile_append2)+
  have p: "scan_prefix False (show_hex n @ rest) = (Some (ucast (of_nat n :: u64)), rest)"
    using d t assms(2) show_hex_val [of n]
    by (simp add: scan_prefix_def scan_digits_def Let_def hex_value_def hex_digit_props)
  show ?thesis using d p by (simp add: scan_x_def hex_digit_props)
qed

text \<open>One printed line is read as its type and the low half of its address.\<close>

lemma line_text_eq:
  "snd l \<noteq> 0 \<Longrightarrow> fst l \<in> {CHR ''E'', CHR ''X''} \<Longrightarrow>
   line_text l = fst l # CHR ''0'' # CHR ''x'' # show_hex (unat (snd l)) @ [NL]"
  by (auto simp: line_text_def cyg_profile_func_enter_def cyg_profile_func_exit_def print_p_def)

lemma fscan_line:
  assumes "snd l \<noteq> 0" "fst l \<in> {CHR ''E'', CHR ''X''}" "rest = [] \<or> \<not> is_space (hd rest)"
  shows "fscan ty ad (line_text l @ rest) = (fst l, ucast (snd l), rest, rest = [])"
proof -
  have n: "0 < unat (snd l)" "unat (snd l) < 2 ^ 64"
    using assms(1) unsigned_less [of "snd l", where 'a = nat] by (simp_all add: unat_gt_0)
  have "scan_x (show_hex (unat (snd l)) @ NL # rest) = (Some (ucast (snd l)), NL # rest)"
    using scan_x_show_hex [OF n, of "NL # rest"] by (simp add: is_xdigit_def is_digit_def)
  moreover have "dropWhile is_space (NL # rest) = rest"
    using assms(3) by (cases rest) (simp_all, simp_all add: is_space_def)
  ultimately show ?thesis
    unfolding line_text_eq [OF assms(1,2)]
    by (simp add: fscan_def Let_def del: dropWhile.simps dropWhile_eq_Nil_conv)
qed

section \<open>The loop over the lines\<close>

fun run_lines :: "(string \<Rightarrow> string option) \<Rightarrow> (char \<times> u32) list \<Rightarrow> pvtrace \<Rightarrow> (pv_stop, pvtrace) result" where
  "run_lines popen [] s = Inr s"
| "run_lines popen (l # ls) s = (case pv_switch popen (fst l) (snd l) s of
       Inl e \<Rightarrow> Inl e | Inr s' \<Rightarrow> run_lines popen ls s')"

lemma run_lines_append:
  "run_lines popen (ls @ ms) s = (case run_lines popen ls s of Inl e \<Rightarrow> Inl e | Inr s' \<Rightarrow> run_lines popen ms s')"
  by (induction ls arbitrary: s) (simp_all split: sum.split)

lemma trace_loop_lines:
  assumes "ls \<noteq> []" "\<forall>l \<in> set ls. snd l \<noteq> 0 \<and> fst l \<in> {CHR ''E'', CHR ''X''}"
  shows "trace_loop popen ty ad (concat (map line_text ls)) s = run_lines popen (map (apsnd ucast) ls) s"
  using assms
proof (induction ls arbitrary: ty ad s)
  case Nil
  then show ?case by simp
next
  case (Cons l ls)
  let ?rest = "concat (map line_text ls)"
  have sp: "\<not> is_space (CHR ''E'')" "\<not> is_space (CHR ''X'')" by (simp_all add: is_space_def)
  have r: "?rest = [] \<longleftrightarrow> ls = []" "?rest = [] \<or> \<not> is_space (hd ?rest)"
    using Cons.prems sp by (cases ls; auto simp: line_text_eq)+
  have f: "fscan ty ad (line_text l @ ?rest) = (fst l, ucast (snd l), ?rest, ?rest = [])"
    using Cons.prems r(2) by (intro fscan_line) auto
  show ?case
  proof (cases "ls = []")
    case True
    then show ?thesis using f by (subst trace_loop.simps) (simp split: sum.split)
  next
    case False
    then have "trace_loop popen ty ad ?rest s = run_lines popen (map (apsnd ucast) ls) s" for ty ad s
      using Cons by simp
    then show ?thesis using f r(1) False
      by (subst trace_loop.simps) (auto split: sum.split)
  qed
qed

lemma call_lines_shape: "l \<in> set (call_lines ts) \<Longrightarrow> fst l \<in> {CHR ''E'', CHR ''X''} \<and> snd l \<in> set (entered ts)"
  by (induction ts rule: call_lines.induct) auto

lemma call_lines_map: "call_lines (map (map_call_tree h) ts) = map (apsnd h) (call_lines ts)"
  by (induction ts rule: call_lines.induct) simp_all

lemma entered_map: "entered (map (map_call_tree h) ts) = map h (entered ts)"
  by (induction ts rule: entered.induct) simp_all

lemma call_depth_map: "call_depth (map (map_call_tree h) ts) = call_depth ts"
  by (induction ts rule: call_depth.induct) simp_all

lemma call_pairs_map:
  "call_pairs (map_option h p) (map (map_call_tree h) ts) = map (map_prod h h) (call_pairs p ts)"
  by (induction p ts rule: call_pairs.induct) (auto split: option.splits)

section \<open>The tables follow the run\<close>

definition func_table :: "pvtrace \<Rightarrow> u32 list \<Rightarrow> bool" where
  "func_table s fs \<longleftrightarrow> distinct fs \<and> 0 \<notin> set fs \<and> length fs \<le> MAX_FUNCTIONS \<and>
     (\<forall>i < MAX_FUNCTIONS. func_addr s i = (if i < length fs then fs ! i else 0))"

lemma func_table_nth: "func_table s fs \<Longrightarrow> i < length fs \<Longrightarrow> func_addr s i = fs ! i \<and> func_addr s i \<noteq> 0"
  by (auto simp: func_table_def) (metis nth_mem)

lemma func_table_end: "func_table s fs \<Longrightarrow> length fs < MAX_FUNCTIONS \<Longrightarrow> func_addr s (length fs) = 0"
  by (simp add: func_table_def)

lemma lookupSymbol_nth:
  assumes "func_table s fs" "k < length fs"
  shows "lookupSymbol (fs ! k) s = Inr k"
proof -
  have "lookup_loop (func_addr s) (fs ! k) i = Inr k" if "i \<le> k" for i
    using that
  proof (induction rule: inc_induct)
    case base
    then show ?case using assms func_table_nth [OF assms] by (subst lookup_loop.simps) (simp add: func_table_def)
  next
    case (step n)
    then have "fs ! n \<noteq> fs ! k" "n < length fs" using assms by (simp_all add: func_table_def nth_eq_iff_index_eq)
    then show ?case using step assms func_table_nth [OF assms(1), of n]
      by (subst lookup_loop.simps) (simp add: func_table_def)
  qed
  then show ?thesis by (simp add: lookupSymbol_def)
qed

lemma add_loop_known:
  assumes "func_table s fs" "a \<in> set fs"
  shows "add_loop (func_addr s) a 0 = None"
proof -
  obtain k where k: "k < length fs" "fs ! k = a" using assms(2) by (auto simp: in_set_conv_nth)
  have "add_loop (func_addr s) a i = None" if "i \<le> k" for i
    using that
  proof (induction rule: inc_induct)
    case base
    then show ?case using assms(1) k func_table_nth [OF assms(1) k(1)]
      by (subst add_loop.simps) (simp add: func_table_def)
  next
    case (step n)
    then show ?case using assms(1) k func_table_nth [OF assms(1), of n]
      by (subst add_loop.simps) (simp add: func_table_def)
  qed
  then show ?thesis by simp
qed

lemma add_loop_new:
  assumes "func_table s fs" "a \<notin> set fs" "a \<noteq> 0"
  shows "add_loop (func_addr s) a 0 = Some (length fs)"
proof -
  have "add_loop (func_addr s) a i = Some (length fs)" if "i \<le> length fs" for i
    using that
  proof (induction rule: inc_induct)
    case base
    then show ?case using assms func_table_end [OF assms(1)] by (subst add_loop.simps) simp
  next
    case (step n)
    then have "fs ! n \<noteq> a" using assms(2) by (metis nth_mem)
    then show ?case using step assms(1) func_table_nth [OF assms(1), of n]
      by (subst add_loop.simps) (simp add: func_table_def)
  qed
  then show ?thesis by simp
qed

lemma func_table_add:
  assumes "func_table s fs" "a \<notin> set fs" "a \<noteq> 0" "length fs < MAX_FUNCTIONS"
  shows "func_table (s\<lparr>func_addr := (func_addr s)(length fs := a)\<rparr>) (fs @ [a])"
  using assms by (auto simp: func_table_def nth_append)

text \<open>What the shell command has to answer for a function to get its name.\<close>

definition names_ok :: "(string \<Rightarrow> string option) \<Rightarrow> string \<Rightarrow> (u32 \<Rightarrow> string) \<Rightarrow> u32 \<Rightarrow> bool" where
  "names_ok popen img nm a \<longleftrightarrow> length (addr2line_cmd img a) < MAX_FUNCTION_NAME \<and>
     (case popen (addr2line_cmd img a) of
        None \<Rightarrow> False
      | Some out \<Rightarrow> length out < MAX_FUNCTION_NAME \<and> NUL \<notin> set out \<and> NL \<in> set out \<and>
          nm a = takeWhile (\<lambda>c. c \<noteq> CR \<and> c \<noteq> NL) out)"

lemma copy_name_line:
  "(CR \<in> set s \<or> NL \<in> set s) \<Longrightarrow> NUL \<notin> set s \<Longrightarrow>
    print_s (Some (copy_name (s @ t))) = Inr (takeWhile (\<lambda>c. c \<noteq> CR \<and> c \<noteq> NL) s)"
  by (induction s) (auto simp: print_s_def split: if_splits)

text \<open>The last byte of \<open>line\<close> stays zero, so that \<open>strlen\<close> ends inside it.\<close>

definition line_ok :: "char list \<Rightarrow> bool" where
  "line_ok l \<longleftrightarrow> length l = MAX_FUNCTION_NAME \<and> last l = NUL"

lemma line_ok_overwrite:
  assumes "line_ok l" "length b < MAX_FUNCTION_NAME \<or> (length b = MAX_FUNCTION_NAME \<and> last b = NUL)"
  shows "line_ok (overwrite b l)"
  using assms by (auto simp: line_ok_def overwrite_def last_append last_drop MAX_FUNCTION_NAME_def)

lemma line_ok_NUL: "line_ok l \<Longrightarrow> NUL \<in> set l"
  by (cases "l = []") (auto simp: line_ok_def MAX_FUNCTION_NAME_def dest: last_in_set)

lemma translate_new:
  assumes "names_ok popen (imageName s) nm a" "funNameMap s a = None" "line_ok (line s)"
  obtains l blk where "translateFunctionFromSymbol popen a s =
      Inr (s\<lparr>line := l, funNameMap := (funNameMap s)(a \<mapsto> blk)\<rparr>)"
    and "line_ok l" and "print_s (Some blk) = Inr (nm a)"
proof -
  let ?cmd = "addr2line_cmd (imageName s) a"
  obtain out where out: "popen ?cmd = Some out" "length out < MAX_FUNCTION_NAME" "NUL \<notin> set out" "NL \<in> set out"
      "nm a = takeWhile (\<lambda>c. c \<noteq> CR \<and> c \<noteq> NL) out" and c: "length ?cmd < MAX_FUNCTION_NAME"
    using assms(1) by (auto simp: names_ok_def split: option.splits)
  define l where "l = overwrite out (overwrite (?cmd @ [NUL]) (line s))"
  have "line_ok (overwrite (?cmd @ [NUL]) (line s))"
    using assms(3) c by (intro line_ok_overwrite) auto
  from line_ok_overwrite [OF this, of out] have l: "line_ok l" unfolding l_def using out(2) by blast
  have "takeWhile (\<lambda>c. c \<noteq> NUL) l =
      out @ takeWhile (\<lambda>c. c \<noteq> NUL) (drop (length out) (overwrite (?cmd @ [NUL]) (line s)))"
    unfolding l_def overwrite_def [of out] using out(3) by (subst takeWhile_append2) auto
  then have "print_s (Some (copy_name (takeWhile (\<lambda>c. c \<noteq> NUL) l))) = Inr (nm a)"
    using copy_name_line out(3,4,5) by simp
  moreover have "translateFunctionFromSymbol popen a s = Inr (s\<lparr>line := l, funNameMap :=
      (funNameMap s)(a \<mapsto> copy_name (takeWhile (\<lambda>c. c \<noteq> NUL) l))\<rparr>)"
    using assms(2) out(1,2) c line_ok_NUL [OF l]
    by (simp add: translateFunctionFromSymbol_def Let_def l_def)
  ultimately show thesis using l that by blast
qed

text \<open>
  The state after part of a run: \<open>fs\<close> are the functions entered so far, \<open>E\<close> the pairs counted so far
  and \<open>st\<close> the functions that are active.
\<close>

definition pv_rel :: "string \<Rightarrow> (u32 \<Rightarrow> string) \<Rightarrow> u32 list \<Rightarrow> (u32 \<times> u32) list \<Rightarrow> u32 list \<Rightarrow> pvtrace \<Rightarrow> bool" where
  "pv_rel img nm fs E st s \<longleftrightarrow> func_table s fs \<and> imageName s = img \<and> line_ok (line s) \<and>
     dom (funNameMap s) = set fs \<and> (\<forall>a \<in> set fs. print_s (funNameMap s a) = Inr (nm a)) \<and>
     (\<forall>i < MAX_FUNCTIONS. totals s i = 0) \<and>
     (\<forall>i < MAX_FUNCTIONS. \<forall>j < MAX_FUNCTIONS. calls s i j =
        (if i < length fs \<and> j < length fs then of_nat (count_list E (fs ! i, fs ! j)) else 0)) \<and>
     set E \<subseteq> set fs \<times> set fs \<and> set st \<subseteq> set fs \<and> stack_content (callstack s) = st"

lemma addSymbol_rel:
  assumes "pv_rel img nm fs E st s" "a \<noteq> 0" "names_ok popen img nm a" "length (firsts fs [a]) \<le> MAX_FUNCTIONS"
  obtains s' where "addSymbol popen a s = Inr s'" "pv_rel img nm (firsts fs [a]) E st s'"
proof (cases "a \<in> set fs")
  case True
  then show thesis
    using assms(1) that add_loop_known [of s fs a] by (simp add: addSymbol_def pv_rel_def)
next
  case False
  let ?s = "s\<lparr>func_addr := (func_addr s)(length fs := a)\<rparr>"
  have ft: "func_table s fs" and len: "length fs < MAX_FUNCTIONS"
    using assms(1,4) False by (simp_all add: pv_rel_def)
  have pre: "names_ok popen (imageName ?s) nm a" "funNameMap ?s a = None" "line_ok (line ?s)"
    using assms(1,3) False by (auto simp: pv_rel_def)
  obtain l blk where t: "translateFunctionFromSymbol popen a ?s =
      Inr (?s\<lparr>line := l, funNameMap := (funNameMap s)(a \<mapsto> blk)\<rparr>)" "line_ok l" "print_s (Some blk) = Inr (nm a)"
    by (rule translate_new [OF pre]) simp
  let ?t = "?s\<lparr>line := l, funNameMap := (funNameMap s)(a \<mapsto> blk)\<rparr>"
  have "addSymbol popen a s = Inr ?t"
    using add_loop_new [OF ft False assms(2)] len t(1) by (simp add: addSymbol_def)
  moreover have z: "count_list E (x, y) = 0" if "x = a \<or> y = a" for x y
    using assms(1) False that by (auto simp: pv_rel_def count_list_0_iff)
  have "pv_rel img nm (fs @ [a]) E st ?t"
    using assms(1) func_table_add [OF ft False assms(2) len] t(2,3) False z len
    by (auto simp: pv_rel_def nth_append less_Suc_eq func_table_def)
  ultimately show thesis using that False by simp
qed

lemma addCallTrace_rel:
  assumes "pv_rel img nm fs E st s" "a \<in> set fs"
  obtains s' where "addCallTrace a s = Inr s'"
    "pv_rel img nm fs (E @ (if st = [] then [] else [(last st, a)])) st s'"
proof (cases "st = []")
  case True
  then show thesis using assms(1) that st.num_content [of "callstack s"]
    by (simp add: addCallTrace_def pv_rel_def)
next
  case False
  have ft: "func_table s fs" and sc: "stack_content (callstack s) = st" and "last st \<in> set fs"
    using assms(1) False last_in_set [of st] by (auto simp: pv_rel_def)
  then obtain i j where ij: "i < length fs" "fs ! i = last st" "j < length fs" "fs ! j = a"
    using assms(2) by (metis in_set_conv_nth)
  let ?t = "s\<lparr>calls := (calls s)(i := (calls s i)(j := calls s i j + 1))\<rparr>"
  have "addCallTrace a s = Inr ?t"
    using False sc st.num_content [of "callstack s"] st.top_content [of "callstack s"]
      lookupSymbol_nth [OF ft ij(1)] lookupSymbol_nth [OF ft ij(3)] ij by (simp add: addCallTrace_def)
  moreover have "pv_rel img nm fs (E @ [(last st, a)]) st ?t"
    using assms ij False \<open>last st \<in> set fs\<close>
    by (auto simp: pv_rel_def func_table_def count_list_append nth_eq_iff_index_eq)
  ultimately show thesis using that False by simp
qed

lemma switch_enter_rel:
  assumes "pv_rel img nm fs E st s" "a \<noteq> 0" "names_ok popen img nm a" "length (firsts fs [a]) \<le> MAX_FUNCTIONS"
  shows "if length st < MAX_ELEMENTS
    then \<exists>s'. pv_switch popen (CHR ''E'') a s = Inr s' \<and>
      pv_rel img nm (firsts fs [a]) (E @ (if st = [] then [] else [(last st, a)])) (st @ [a]) s'
    else pv_switch popen (CHR ''E'') a s = Inl AssertFails"
proof -
  obtain s1 where s1: "addSymbol popen a s = Inr s1" "pv_rel img nm (firsts fs [a]) E st s1"
    using addSymbol_rel [OF assms] .
  obtain s2 where s2: "addCallTrace a s1 = Inr s2"
      "pv_rel img nm (firsts fs [a]) (E @ (if st = [] then [] else [(last st, a)])) st s2"
    by (rule addCallTrace_rel [OF s1(2), of a]) simp
  have c: "stack_content (callstack s2) = st" using s2(2) by (simp add: pv_rel_def)
  show ?thesis
  proof (cases "length st < MAX_ELEMENTS")
    case True
    then obtain t where "stackPush a (callstack s2) = Inr t" "stack_content t = st @ [a]"
      using st.push_ok [of "callstack s2" a] c by auto
    then show ?thesis using True s1(1) s2 by (auto simp: pv_switch_def pv_rel_def func_table_def)
  next
    case False
    then show ?thesis using st.push_full [of "callstack s2" a] c s1(1) s2(1) by (simp add: pv_switch_def)
  qed
qed

lemma switch_exit_rel:
  assumes "pv_rel img nm fs E (st @ [a]) s"
  obtains s' where "pv_switch popen (CHR ''X'') b s = Inr s'" "pv_rel img nm fs E st s'"
proof -
  obtain t where "stackPop (callstack s) = Inr (a, t)" "stack_content t = st"
    using st.pop_ok [of "callstack s"] assms by (auto simp: pv_rel_def)
  then show thesis using assms that by (auto simp: pv_switch_def pv_rel_def func_table_def)
qed

lemma firsts_append: "firsts fs (as @ bs) = firsts (firsts fs as) bs"
  by (induction as arbitrary: fs) simp_all

lemma firsts_grows: "length fs \<le> length (firsts fs as)"
proof (induction as arbitrary: fs)
  case (Cons a as)
  then show ?case using Cons [of fs] Cons [of "fs @ [a]"] by simp
qed simp

lemma set_firsts: "set (firsts fs as) = set fs \<union> set as"
  by (induction as arbitrary: fs) auto

abbreviation caller_of :: "'a list \<Rightarrow> 'a option" where
  "caller_of st \<equiv> (if st = [] then None else Some (last st))"

text \<open>The whole run, or the abort at the first call that is nested too deeply.\<close>

lemma run_lines_calls:
  assumes "pv_rel img nm fs E st s" "\<forall>a \<in> set (entered ts). a \<noteq> 0 \<and> names_ok popen img nm a"
    and "length (firsts fs (entered ts)) \<le> MAX_FUNCTIONS" "length st + call_depth ts \<le> MAX_ELEMENTS"
  shows "\<exists>s'. run_lines popen (call_lines ts) s = Inr s' \<and>
    pv_rel img nm (firsts fs (entered ts)) (E @ call_pairs (caller_of st) ts) st s'"
  using assms
proof (induction "caller_of st" ts arbitrary: fs E st s rule: call_pairs.induct)
  case 1
  then show ?case by simp
next
  case (2 f cs ts)
  let ?fs1 = "firsts fs [f]" and ?E1 = "E @ (if st = [] then [] else [(last st, f)])"
  have fs: "firsts fs (entered (Call f cs # ts)) = firsts (firsts ?fs1 (entered cs)) (entered ts)"
    by (simp add: firsts_append)
  have len2: "length (firsts ?fs1 (entered cs)) \<le> MAX_FUNCTIONS" and len1: "length ?fs1 \<le> MAX_FUNCTIONS"
    using "2.prems"(3) firsts_grows unfolding fs by (meson order_trans)+
  have d: "length (st @ [f]) + call_depth cs \<le> MAX_ELEMENTS" "length st + call_depth ts \<le> MAX_ELEMENTS"
    using "2.prems"(4) by simp_all
  obtain s1 where s1: "pv_switch popen (CHR ''E'') f s = Inr s1" "pv_rel img nm ?fs1 ?E1 (st @ [f]) s1"
    using switch_enter_rel [OF "2.prems"(1), of f popen] "2.prems"(2) d(1) len1 by (auto split: if_splits)
  obtain s2 where s2: "run_lines popen (call_lines cs) s1 = Inr s2"
      "pv_rel img nm (firsts ?fs1 (entered cs)) (?E1 @ call_pairs (Some f) cs) (st @ [f]) s2"
    using "2.hyps"(1) [of "st @ [f]", OF _ s1(2)] "2.prems"(2) d(1) len2 by auto
  obtain s3 where s3: "pv_switch popen (CHR ''X'') f s2 = Inr s3"
      "pv_rel img nm (firsts ?fs1 (entered cs)) (?E1 @ call_pairs (Some f) cs) st s3"
    using switch_exit_rel [OF s2(2)] .
  show ?case
    using "2.hyps"(2) [OF _ s3(2)] "2.prems"(2,3) d(2) s1(1) s2(1) s3(1) fs
    by (auto simp: run_lines_append split: if_splits)
qed

lemma run_lines_deep:
  assumes "pv_rel img nm fs E st s" "\<forall>a \<in> set (entered ts). a \<noteq> 0 \<and> names_ok popen img nm a"
    and "length (firsts fs (entered ts)) \<le> MAX_FUNCTIONS"
    and "length st \<le> MAX_ELEMENTS" "MAX_ELEMENTS < length st + call_depth ts"
  shows "run_lines popen (call_lines ts) s = Inl AssertFails"
  using assms
proof (induction ts arbitrary: fs E st s rule: call_lines.induct)
  case 1
  then show ?case by simp
next
  case (2 f cs ts)
  let ?fs1 = "firsts fs [f]" and ?E1 = "E @ (if st = [] then [] else [(last st, f)])"
  have fs: "firsts fs (entered (Call f cs # ts)) = firsts (firsts ?fs1 (entered cs)) (entered ts)"
    by (simp add: firsts_append)
  have len2: "length (firsts ?fs1 (entered cs)) \<le> MAX_FUNCTIONS" and len1: "length ?fs1 \<le> MAX_FUNCTIONS"
    using "2.prems"(3) firsts_grows unfolding fs by (meson order_trans)+
  have enter: "if length st < MAX_ELEMENTS
    then \<exists>s'. pv_switch popen (CHR ''E'') f s = Inr s' \<and> pv_rel img nm ?fs1 ?E1 (st @ [f]) s'
    else pv_switch popen (CHR ''E'') f s = Inl AssertFails"
    using "2.prems"(2) len1 by (intro switch_enter_rel [OF "2.prems"(1)]) auto
  have ok: "\<forall>a \<in> set (entered cs). a \<noteq> 0 \<and> names_ok popen img nm a"
    "\<forall>a \<in> set (entered ts). a \<noteq> 0 \<and> names_ok popen img nm a" using "2.prems"(2) by simp_all
  consider "length st = MAX_ELEMENTS"
    | "length st < MAX_ELEMENTS" "MAX_ELEMENTS < length (st @ [f]) + call_depth cs"
    | "length (st @ [f]) + call_depth cs \<le> MAX_ELEMENTS" "MAX_ELEMENTS < length st + call_depth ts"
    using "2.prems"(4,5) by (fastforce simp: max_def split: if_splits)
  then show ?case
  proof cases
    case 1
    then show ?thesis using enter by simp
  next
    case 2
    then obtain s1 where s1: "pv_switch popen (CHR ''E'') f s = Inr s1" "pv_rel img nm ?fs1 ?E1 (st @ [f]) s1"
      using enter by auto
    have "run_lines popen (call_lines cs) s1 = Inl AssertFails"
      using "2.IH"(1) [OF s1(2) ok(1) len2] 2 by simp
    then show ?thesis using s1(1) by (simp add: run_lines_append)
  next
    case 3
    then obtain s1 where s1: "pv_switch popen (CHR ''E'') f s = Inr s1" "pv_rel img nm ?fs1 ?E1 (st @ [f]) s1"
      using enter by auto
    obtain s2 where s2: "run_lines popen (call_lines cs) s1 = Inr s2"
        "pv_rel img nm (firsts ?fs1 (entered cs)) (?E1 @ call_pairs (Some f) cs) (st @ [f]) s2"
      using run_lines_calls [OF s1(2) ok(1) len2 3(1)] by auto
    obtain s3 where s3: "pv_switch popen (CHR ''X'') f s2 = Inr s3"
        "pv_rel img nm (firsts ?fs1 (entered cs)) (?E1 @ call_pairs (Some f) cs) st s3"
      using switch_exit_rel [OF s2(2)] .
    have "run_lines popen (call_lines ts) s3 = Inl AssertFails"
      using "2.IH"(2) [OF s3(2) ok(2)] "2.prems"(3,4) fs 3(2) by simp
    then show ?thesis using s1(1) s2(1) s3(1) by (simp add: run_lines_append)
  qed
qed

section \<open>The graph that is written\<close>

definition emit_rel :: "(u32 \<Rightarrow> string) \<Rightarrow> u32 list \<Rightarrow> (u32 \<times> u32) list \<Rightarrow> nat \<Rightarrow> pvtrace \<Rightarrow> bool" where
  "emit_rel nm fs E k s \<longleftrightarrow> func_table s fs \<and> (\<forall>a \<in> set fs. print_s (funNameMap s a) = Inr (nm a)) \<and>
     (\<forall>i < MAX_FUNCTIONS. k \<le> i \<longrightarrow> totals s i = 0) \<and>
     (\<forall>i < MAX_FUNCTIONS. \<forall>j < MAX_FUNCTIONS. calls s i j =
        (if i < length fs \<and> j < length fs then of_nat (count_list E (fs ! i, fs ! j)) else 0)) \<and>
     (\<forall>e. count_list E e < 2 ^ 31)"

lemma of_nat_u32_zero: "n < 2 ^ 31 \<Longrightarrow> (of_nat n :: u32) = 0 \<longleftrightarrow> n = 0"
  by (auto simp: word_of_nat_eq_0_iff dest!: dvd_imp_le)

lemma emit_rel_calls:
  assumes "emit_rel nm fs E k s" "i < length fs" "j < length fs"
  shows "calls s i j = of_nat (count_list E (fs ! i, fs ! j))"
    "calls s i j = 0 \<longleftrightarrow> count_list E (fs ! i, fs ! j) = 0"
    "func_addr s j = fs ! j" "func_addr s j \<noteq> 0" "j < MAX_FUNCTIONS"
proof -
  show c: "calls s i j = of_nat (count_list E (fs ! i, fs ! j))" and "j < MAX_FUNCTIONS"
    using assms by (simp_all add: emit_rel_def func_table_def)
  show "calls s i j = 0 \<longleftrightarrow> count_list E (fs ! i, fs ! j) = 0"
    using c assms(1) of_nat_u32_zero by (simp add: emit_rel_def)
  show "func_addr s j = fs ! j" "func_addr s j \<noteq> 0"
    using assms func_table_nth by (auto simp: emit_rel_def)
qed

lemma emit_rel_end: "emit_rel nm fs E k s \<Longrightarrow> (length fs < MAX_FUNCTIONS \<and> func_addr s (length fs) \<noteq> 0) = False"
  by (simp add: emit_rel_def func_table_def)

lemma edge_to_loop_eq:
  assumes "emit_rel nm fs E k s" "i < length fs" "j \<le> length fs"
  shows "edge_to_loop s i j = concat (map (\<lambda>g. if count_list E (fs ! i, g) > 0
    then edge_line (fs ! i) g (of_nat (count_list E (fs ! i, g))) else []) (drop j fs))"
  using assms(3)
proof (induction rule: inc_induct)
  case base
  have "calls s i (length fs) = 0 \<and> func_addr s (length fs) = 0" if "length fs < MAX_FUNCTIONS"
    using assms(1,2) that by (simp add: emit_rel_def func_table_def)
  then show ?case by (subst edge_to_loop.simps) simp
next
  case (step j)
  then show ?case
    using emit_rel_calls [OF assms(1,2), of j] emit_rel_calls(3) [OF assms(1,2,2)]
    by (subst edge_to_loop.simps) (simp add: Cons_nth_drop_Suc [symmetric])
qed

lemma edge_loop_eq:
  assumes "emit_rel nm fs E k s" "i \<le> length fs"
  shows "edge_loop s i = concat (map (\<lambda>f. concat (map (\<lambda>g. if count_list E (f, g) > 0
    then edge_line f g (of_nat (count_list E (f, g))) else []) fs)) (drop i fs))"
  using assms(2)
proof (induction rule: inc_induct)
  case base
  then show ?case by (subst edge_loop.simps) (simp add: emit_rel_end [OF assms(1)])
next
  case (step i)
  then show ?case
    using emit_rel_calls [OF assms(1), of i i] edge_to_loop_eq [OF assms(1), of i 0]
    by (subst edge_loop.simps) (simp add: Cons_nth_drop_Suc [symmetric])
qed

lemma total_loop_eq:
  assumes "emit_rel nm fs E k s" "i < length fs" "j \<le> length fs"
  shows "total_loop s i j t = t + of_nat (length (filter (\<lambda>g. count_list E (fs ! i, g) > 0) (drop j fs)))"
  using assms(3)
proof (induction arbitrary: t rule: inc_induct)
  case base
  then show ?case by (subst total_loop.simps) (simp add: emit_rel_end [OF assms(1)])
next
  case (step j)
  then show ?case
    using emit_rel_calls [OF assms(1,2), of j]
    by (subst total_loop.simps) (simp add: Cons_nth_drop_Suc [symmetric] add.assoc)
qed

lemma total_loop_nonzero:
  assumes "emit_rel nm fs E k s" "i < length fs"
  shows "total_loop s i 0 0 \<noteq> 0 \<longleftrightarrow> (\<exists>g \<in> set fs. count_list E (fs ! i, g) > 0)"
proof -
  let ?l = "filter (\<lambda>g. count_list E (fs ! i, g) > 0) fs"
  have "length fs \<le> 30000" using assms(1) by (simp add: emit_rel_def func_table_def MAX_FUNCTIONS_def)
  then have "length ?l < 2 ^ 31" using length_filter_le [of "\<lambda>g. count_list E (fs ! i, g) > 0" fs]
    by (simp del: length_filter_le)
  then have "(of_nat (length ?l) :: u32) = 0 \<longleftrightarrow> ?l = []" by (simp add: of_nat_u32_zero)
  then show ?thesis using total_loop_eq [OF assms, of 0 0] by (auto simp: filter_empty_conv)
qed

lemma node_loop_eq:
  assumes "emit_rel nm fs E i s" "i \<le> length fs"
  shows "\<exists>tot. node_loop i func fp s = Inr (fp @ concat (map (\<lambda>f. node_line f (nm f)
    (\<exists>g \<in> set fs. count_list E (f, g) > 0)) (drop i fs)), s\<lparr>totals := tot\<rparr>)"
  using assms
proof (induction "length fs - i" arbitrary: i func fp s)
  case 0
  then have "i = length fs" by simp
  then have "node_loop i func fp s = Inr (fp, s\<lparr>totals := totals s\<rparr>)"
    using emit_rel_end [OF "0.prems"(1)] by (subst node_loop.simps) auto
  then show ?case using \<open>i = length fs\<close> by (intro exI [of _ "totals s"]) simp
next
  case (Suc n)
  then have i: "i < length fs" by simp
  note c = emit_rel_calls [OF Suc.prems(1) i i]
  let ?s = "s\<lparr>totals := (totals s)(i := total_loop s i 0 0)\<rparr>"
  have z: "totals s i = 0" using Suc.prems(1) c(5) by (simp add: emit_rel_def)
  have p: "print_s (funNameMap s (fs ! i)) = Inr (nm (fs ! i))"
    using Suc.prems(1) i by (simp add: emit_rel_def)
  then obtain blk where blk: "funNameMap s (fs ! i) = Some blk" by (cases "funNameMap s (fs ! i)") (auto simp: print_s_def)
  have "emit_rel nm fs E (Suc i) ?s" using Suc.prems(1) by (auto simp: emit_rel_def func_table_def)
  from Suc.hyps(1) [OF _ this] Suc.hyps(2) i
  have "\<exists>tot. node_loop (Suc i) (Some blk) fp' ?s = Inr (fp' @ concat (map (\<lambda>f. node_line f (nm f)
      (\<exists>g \<in> set fs. count_list E (f, g) > 0)) (drop (Suc i) fs)), ?s\<lparr>totals := tot\<rparr>)" for fp'
    by simp
  from this [of "fp @ node_line (fs ! i) (nm (fs ! i)) (\<exists>g \<in> set fs. count_list E (fs ! i, g) > 0)"]
  show ?case
    using c z p blk i total_loop_nonzero [OF Suc.prems(1) i]
    by (subst node_loop.simps) (simp add: Let_def Cons_nth_drop_Suc [symmetric])
qed

lemma pv_rel_emit:
  "pv_rel img nm fs E st s \<Longrightarrow> (\<forall>e. count_list E e < 2 ^ 31) \<Longrightarrow> emit_rel nm fs E 0 s"
  by (simp add: pv_rel_def emit_rel_def)

lemma emitSymbols_eq:
  assumes "pv_rel img nm fs E st s" "\<forall>e. count_list E e < 2 ^ 31"
  shows "emitSymbols True s = Inr (Graph (''digraph '' @ img @ '' {'' @ [NL, NL] @
    concat (map (\<lambda>f. node_line f (nm f) (\<exists>g \<in> set fs. count_list E (f, g) > 0)) fs) @
    concat (map (\<lambda>f. concat (map (\<lambda>g. if count_list E (f, g) > 0
      then edge_line f g (of_nat (count_list E (f, g))) else []) fs)) fs) @ [NL] @ ''}'' @ [NL]))"
proof -
  note e = pv_rel_emit [OF assms]
  obtain tot where n: "node_loop 0 None (''digraph '' @ imageName s @ '' {'' @ [NL, NL]) s =
      Inr ((''digraph '' @ imageName s @ '' {'' @ [NL, NL]) @ concat (map (\<lambda>f. node_line f (nm f)
        (\<exists>g \<in> set fs. count_list E (f, g) > 0)) fs), s\<lparr>totals := tot\<rparr>)"
    using node_loop_eq [OF e, of None "''digraph '' @ imageName s @ '' {'' @ [NL, NL]"] by auto
  have "emit_rel nm fs E MAX_FUNCTIONS (s\<lparr>totals := tot\<rparr>)"
    using e by (simp add: emit_rel_def func_table_def)
  from edge_loop_eq [OF this, of 0] show ?thesis
    using n assms(1) by (simp add: emitSymbols_def pv_rel_def)
qed

section \<open>Whole runs of pvtrace\<close>

lemma firsts_map:
  "inj_on h (set fs \<union> set as) \<Longrightarrow> firsts (map h fs) (map h as) = map h (firsts fs as)"
proof (induction as arbitrary: fs)
  case (Cons a as)
  have "h a \<in> h ` set fs \<longleftrightarrow> a \<in> set fs" 
    using inj_on_image_mem_iff [OF Cons.prems, of a "set fs"] by auto
  moreover have "firsts (map h gs) (map h as) = map h (firsts gs as)" if "gs = fs \<or> gs = fs @ [a]" for gs
    using that by (intro Cons.IH inj_on_subset [OF Cons.prems]) auto
  from this [of fs] this [of "fs @ [a]"]
  have "firsts (map h fs) (map h as) = map h (firsts fs as)"
    "firsts (map h fs @ [h a]) (map h as) = map h (firsts (fs @ [a]) as)" by simp_all
  ultimately show ?case by simp
qed simp

lemma count_list_map_prod:
  assumes "inj_on h S" "set xs \<subseteq> S \<times> S" "f \<in> S" "g \<in> S"
  shows "count_list (map (map_prod h h) xs) (h f, h g) = count_list xs (f, g)"
  using assms(2) by (induction xs) (use assms(1,3,4) in \<open>auto dest: inj_onD\<close>)

lemma call_pairs_entered:
  "set (call_pairs p ts) \<subseteq> (set_option p \<union> set (entered ts)) \<times> set (entered ts)"
  by (induction p ts rule: call_pairs.induct) (auto split: option.splits)

lemma cmd_longer: "length img < length (addr2line_cmd img a)"
  by (simp add: addr2line_cmd_def)

definition pv_ready :: "string \<Rightarrow> pvtrace" where
  "pv_ready img = pv_zero\<lparr>imageName := img, func_addr := (\<lambda>_. 0), totals := (\<lambda>_. 0), calls := (\<lambda>_ _. 0),
     callstack := stackInit (callstack pv_zero)\<rparr>"

lemma pv_ready_rel: "pv_rel img nm [] [] [] (pv_ready img)"
  by (simp add: pv_rel_def pv_ready_def pv_zero_def func_table_def line_ok_def st.content_empty MAX_FUNCTION_NAME_def)

lemma pv_main_run:
  assumes "length img < MAX_FUNCTION_NAME"
  shows "pv_main popen can_write ty0 ad0 [prog, img] (Some inp) =
    (case trace_loop popen ty0 ad0 inp (pv_ready img) of Inl e \<Rightarrow> Inl e | Inr s \<Rightarrow> emitSymbols can_write s)"
  using assms by (simp add: pv_main_def initSymbol_def pv_zero_def pv_ready_def Let_def cong: if_cong)

text \<open>
  What a recorded run has to satisfy for the tables: functions can be told apart by the low halves of
  their addresses, there are not more than the table holds, and the names are printed as expected.
\<close>

definition recordable :: "(string \<Rightarrow> string option) \<Rightarrow> string \<Rightarrow> (u64 \<Rightarrow> string) \<Rightarrow> u64 call_tree list \<Rightarrow> bool" where
  "recordable popen img nm ts \<longleftrightarrow> ts \<noteq> [] \<and> length (firsts [] (entered ts)) \<le> MAX_FUNCTIONS \<and>
     length (call_pairs None ts) < 2 ^ 31 \<and>
     distinct (map (ucast :: u64 \<Rightarrow> u32) (firsts [] (entered ts))) \<and>
     list_all (\<lambda>f. (ucast f :: u32) \<noteq> 0 \<and> names_ok popen img (\<lambda>_. nm f) (ucast f)) (entered ts)"

lemma names_ok_cong: "nm a = nm' a \<Longrightarrow> names_ok popen img nm a = names_ok popen img nm' a"
  by (simp add: names_ok_def split: option.split)

lemma recordable_run:
  assumes "recordable popen img nm ts"
  defines "h \<equiv> ucast :: u64 \<Rightarrow> u32"
  obtains nm' where "\<forall>f \<in> set (entered ts). nm' (h f) = nm f"
    and "\<forall>a \<in> set (entered (map (map_call_tree h) ts)). a \<noteq> 0 \<and> names_ok popen img nm' a"
    and "inj_on h (set (entered ts))"
    and "firsts [] (entered (map (map_call_tree h) ts)) = map h (firsts [] (entered ts))"
    and "pv_main popen w ty0 ad0 [prog, img] (Some (trace_text ts)) =
      (case run_lines popen (call_lines (map (map_call_tree h) ts)) (pv_ready img) of
         Inl e \<Rightarrow> Inl e | Inr s \<Rightarrow> emitSymbols w s)"
proof -
  have i: "inj_on h (set (entered ts))"
    using assms by (simp add: recordable_def distinct_map set_firsts)
  define nm' where "nm' a = nm (the_inv_into (set (entered ts)) h a)" for a
  have nm': "nm' (h f) = nm f" if "f \<in> set (entered ts)" for f
    using that i by (simp add: nm'_def the_inv_into_f_f)
  have ok: "\<forall>f \<in> set (entered ts). h f \<noteq> 0 \<and> names_ok popen img nm' (h f)"
    using assms nm' names_ok_cong [of nm'] by (auto simp: recordable_def list_all_iff)
  obtain f cs us where ts: "ts = Call f cs # us"
    using assms by (cases ts) (auto simp: recordable_def elim: call_tree.exhaust)
  have "names_ok popen img nm' (h f)" using ok ts by simp
  then have img: "length img < MAX_FUNCTION_NAME"
    using cmd_longer [of img "h f"] by (simp add: names_ok_def)
  have "\<forall>l \<in> set (call_lines ts). snd l \<noteq> 0 \<and> fst l \<in> {CHR ''E'', CHR ''X''}"
    using call_lines_shape ok unfolding h_def by (metis unsigned_0)
  then have "trace_loop popen ty0 ad0 (trace_text ts) s = run_lines popen (call_lines (map (map_call_tree h) ts)) s" for s
    unfolding trace_text_def h_def call_lines_map using ts by (intro trace_loop_lines) auto
  then have "pv_main popen w ty0 ad0 [prog, img] (Some (trace_text ts)) =
      (case run_lines popen (call_lines (map (map_call_tree h) ts)) (pv_ready img) of
         Inl e \<Rightarrow> Inl e | Inr s \<Rightarrow> emitSymbols w s)"
    using pv_main_run [OF img] by simp
  moreover have "firsts [] (entered (map (map_call_tree h) ts)) = map h (firsts [] (entered ts))"
    using firsts_map [of h "[]" "entered ts"] i by (simp add: entered_map)
  ultimately show thesis using that [of nm'] nm' ok i by (auto simp: entered_map)
qed

lemma run_graph_map:
  assumes "inj_on h (set (entered ts))" "\<forall>f \<in> set (entered ts). nm' (h f) = nm f" "h = ucast"
  defines "fs \<equiv> map h (firsts [] (entered ts))" and "E \<equiv> call_pairs None (map (map_call_tree h) ts)"
  shows "run_graph img nm ts = ''digraph '' @ img @ '' {'' @ [NL, NL] @
    concat (map (\<lambda>f. node_line f (nm' f) (\<exists>g \<in> set fs. count_list E (f, g) > 0)) fs) @
    concat (map (\<lambda>f. concat (map (\<lambda>g. if count_list E (f, g) > 0
      then edge_line f g (of_nat (count_list E (f, g))) else []) fs)) fs) @ [NL] @ ''}'' @ [NL]"
proof -
  have E: "E = map (map_prod h h) (call_pairs None ts)"
    unfolding E_def using call_pairs_map [of h None ts] by simp
  have c: "count_list E (h f, h g) = count_list (call_pairs None ts) (f, g)"
    if "f \<in> set (entered ts)" "g \<in> set (entered ts)" for f g
    unfolding E using that assms(1) call_pairs_entered [of None ts] by (intro count_list_map_prod) auto
  have s: "set (firsts [] (entered ts)) = set (entered ts)" by (simp add: set_firsts)
  let ?n = "\<lambda>f g. count_list (call_pairs None ts) (f, g)" and ?F = "firsts [] (entered ts)"
  have "concat (map (\<lambda>f. node_line (ucast f) (nm f) (\<exists>g \<in> set ?F. ?n f g > 0)) ?F) =
      concat (map (\<lambda>f. node_line f (nm' f) (\<exists>g \<in> set fs. count_list E (f, g) > 0)) fs)"
    unfolding fs_def map_map using c s assms(2,3) by (intro arg_cong [where f = concat] map_cong) auto
  moreover have "concat (map (\<lambda>f. concat (map (\<lambda>g. if ?n f g > 0
        then edge_line (ucast f) (ucast g) (of_nat (?n f g)) else []) ?F)) ?F) =
      concat (map (\<lambda>f. concat (map (\<lambda>g. if count_list E (f, g) > 0
        then edge_line f g (of_nat (count_list E (f, g))) else []) fs)) fs)"
    unfolding fs_def map_map using c s assms(3) by (intro arg_cong [where f = concat] map_cong refl) (auto intro!: arg_cong [where f = concat])
  ultimately show ?thesis unfolding run_graph_def Let_def by simp
qed

definition ex_run :: "u64 call_tree list" where
  "ex_run = [Call 16 [Call 32 [Call 48 []], Call 32 []]]"

definition ex_popen :: "string \<Rightarrow> string option" where
  "ex_popen cmd = Some (''f'' @ [NL] @ ''f.c:1'' @ [NL])"

text \<open>
  C18: the graph that pvtrace writes for the trace of an instrumented run is the graph of that run: every
  function once, in the order of the first entries, with its name and drawn as a rectangle exactly if
  it called something, and every pair of caller and callee with the number of calls.
\<close>

theorem pvtrace_graph_equivalent:
  assumes "recordable popen img nm ts" "call_depth ts \<le> MAX_ELEMENTS"
  shows "pv_main popen True ty0 ad0 [prog, img] (Some (trace_text ts)) = Inr (Graph (run_graph img nm ts))"
proof -
  let ?h = "ucast :: u64 \<Rightarrow> u32"
  let ?ts = "map (map_call_tree ?h) ts"
  obtain nm' where nm': "\<forall>f \<in> set (entered ts). nm' (?h f) = nm f"
      "\<forall>a \<in> set (entered ?ts). a \<noteq> 0 \<and> names_ok popen img nm' a"
      "inj_on ?h (set (entered ts))" "firsts [] (entered ?ts) = map ?h (firsts [] (entered ts))"
      "pv_main popen True ty0 ad0 [prog, img] (Some (trace_text ts)) =
        (case run_lines popen (call_lines ?ts) (pv_ready img) of Inl e \<Rightarrow> Inl e | Inr s \<Rightarrow> emitSymbols True s)"
    using recordable_run [OF assms(1), of True ty0 ad0 prog] by blast
  have len: "length (firsts [] (entered ?ts)) \<le> MAX_FUNCTIONS" "length [] + call_depth ?ts \<le> MAX_ELEMENTS"
    using nm'(4) assms by (simp_all add: recordable_def call_depth_map)
  obtain s where s: "run_lines popen (call_lines ?ts) (pv_ready img) = Inr s"
      "pv_rel img nm' (map ?h (firsts [] (entered ts))) (call_pairs None ?ts) [] s"
    using run_lines_calls [OF pv_ready_rel nm'(2) len(1)] len(2) nm'(4) by auto
  have "length (call_pairs None ?ts) < 2 ^ 31"
    using assms(1) call_pairs_map [of ?h None ts] by (simp add: recordable_def)
  then have "\<forall>e. count_list (call_pairs None ?ts) e < 2 ^ 31"
    by (auto intro: le_less_trans [OF count_le_length])
  note emit = emitSymbols_eq [OF s(2) this]
  show ?thesis
    unfolding nm'(5) s(1) sum.case emit run_graph_map [OF nm'(3,1) refl, of img] by (rule refl)
qed

theorem pvtrace_graph_equivalent_witness:
  "pv_main ex_popen True (CHR ''E'') 0 [''pvtrace'', ''a''] (Some (trace_text ex_run)) =
     Inr (Graph (run_graph ''a'' (\<lambda>_. ''f'') ex_run))"
  by (rule pvtrace_graph_equivalent) (simp_all add: recordable_def ex_run_def names_ok_def ex_popen_def addr2line_cmd_def
    show_hex.simps MAX_FUNCTIONS_def MAX_FUNCTION_NAME_def MAX_ELEMENTS_def)

primrec ex_nest :: "nat \<Rightarrow> u64 call_tree list" where
  "ex_nest 0 = []"
| "ex_nest (Suc n) = [Call 16 (ex_nest n)]"

lemma ex_nest_facts:
  "entered (ex_nest n) = replicate n 16" "call_depth (ex_nest n) = n" "length (call_pairs p (ex_nest n)) \<le> n"
  "firsts [16] (replicate n (16 :: u64)) = [16]"
  by (induction n arbitrary: p) (auto intro: le_SucI split: option.split)

lemma ex_nest_recordable: "0 < n \<Longrightarrow> n \<le> 1000 \<Longrightarrow> recordable ex_popen ''a'' (\<lambda>_. ''f'') (ex_nest n)"
proof -
  assume n: "0 < n" "n \<le> 1000"
  then obtain m where m: "n = Suc m" by (cases n) auto
  have "names_ok ex_popen ''a'' (\<lambda>_. ''f'') 16"
    by (simp add: names_ok_def ex_popen_def addr2line_cmd_def show_hex.simps MAX_FUNCTION_NAME_def)
  then show ?thesis
    using n m ex_nest_facts(3) [of None n] ex_nest_facts(1) [of n] ex_nest_facts(4) [of m]
    by (auto simp: recordable_def MAX_FUNCTIONS_def list_all_iff)
qed

text \<open>
  A run whose calls nest more deeply than the stack holds makes pvtrace abort; no graph is written.
\<close>

theorem pvtrace_deep_aborts:
  assumes "recordable popen img nm ts" "MAX_ELEMENTS < call_depth ts"
  shows "pv_main popen w ty0 ad0 [prog, img] (Some (trace_text ts)) = Inl AssertFails"
proof -
  let ?h = "ucast :: u64 \<Rightarrow> u32"
  let ?ts = "map (map_call_tree ?h) ts"
  obtain nm' where nm': "\<forall>a \<in> set (entered ?ts). a \<noteq> 0 \<and> names_ok popen img nm' a"
      "firsts [] (entered ?ts) = map ?h (firsts [] (entered ts))"
      "pv_main popen w ty0 ad0 [prog, img] (Some (trace_text ts)) =
        (case run_lines popen (call_lines ?ts) (pv_ready img) of Inl e \<Rightarrow> Inl e | Inr s \<Rightarrow> emitSymbols w s)"
    using recordable_run [OF assms(1), of w ty0 ad0 prog] by blast
  have "length (firsts [] (entered ?ts)) \<le> MAX_FUNCTIONS"
    using nm'(2) assms(1) by (simp add: recordable_def)
  then have "run_lines popen (call_lines ?ts) (pv_ready img) = Inl AssertFails"
    using run_lines_deep [OF pv_ready_rel nm'(1)] assms(2) by (simp add: call_depth_map)
  then show ?thesis using nm'(3) by simp
qed

theorem pvtrace_deep_aborts_witness:
  "pv_main ex_popen True (CHR ''E'') 0 [''pvtrace'', ''a''] (Some (trace_text (ex_nest 501))) = Inl AssertFails"
  by (rule pvtrace_deep_aborts [OF ex_nest_recordable]) (simp_all add: ex_nest_facts MAX_ELEMENTS_def)

lemma copy_name_plain: "CR \<notin> set s \<Longrightarrow> NL \<notin> set s \<Longrightarrow> copy_name s = s"
  by (induction s) auto

lemma show_hex_set: "c \<in> set (show_hex n) \<Longrightarrow> is_xdigit c"
  using show_hex_digits [of n] by (simp add: list_all_iff)

lemma addr2line_cmd_plain:
  assumes "{NUL, CR, NL} \<inter> set img = {}"
  shows "{NUL, CR, NL} \<inter> set (addr2line_cmd img a) = {}"
proof -
  have "\<not> is_xdigit NUL" "\<not> is_xdigit CR" "\<not> is_xdigit NL" by (simp_all add: is_xdigit_def is_digit_def)
  then show ?thesis using assms show_hex_set [of _ "unat a"] by (auto simp: addr2line_cmd_def)
qed

text \<open>
  Two answers of the shell that \<open>translateFunctionFromSymbol\<close> does not cope with. A name and a
  position that fill the 250 bytes of \<open>line\<close>, as those of C++ templates do, leave no NUL in it, and
  \<open>strlen\<close> reads on behind the array. When nothing is printed (the tools are not installed),
  \<open>line\<close> still holds the command, which becomes the name, in a block with no room for a NUL.
\<close>

theorem pvtrace_unexpected_names:
  assumes "funNameMap s a = None" "length (addr2line_cmd (imageName s) a) < MAX_FUNCTION_NAME"
    and "length (line s) = MAX_FUNCTION_NAME" "popen (addr2line_cmd (imageName s) a) = Some out"
    and "{NUL, CR, NL} \<inter> set (imageName s) = {}"
  shows "(MAX_FUNCTION_NAME \<le> length out \<and> NUL \<notin> set out \<longrightarrow> translateFunctionFromSymbol popen a s = Inl OutsideArray) \<and>
    (out = [] \<longrightarrow> (\<exists>s'. translateFunctionFromSymbol popen a s = Inr s' \<and>
      funNameMap s' a = Some (addr2line_cmd (imageName s) a) \<and> print_s (funNameMap s' a) = Inl Unterminated))"
proof -
  let ?cmd = "addr2line_cmd (imageName s) a"
  have plain: "NUL \<notin> set ?cmd" "CR \<notin> set ?cmd" "NL \<notin> set ?cmd"
    using addr2line_cmd_plain [OF assms(5), of a] by auto
  let ?l = "overwrite (?cmd @ [NUL]) (line s)"
  have "NUL \<notin> set (overwrite (take MAX_FUNCTION_NAME out) ?l)" if "MAX_FUNCTION_NAME \<le> length out" "NUL \<notin> set out"
    using that assms(2,3) by (auto simp: overwrite_def dest: in_set_takeD)
  then have "MAX_FUNCTION_NAME \<le> length out \<and> NUL \<notin> set out \<longrightarrow> translateFunctionFromSymbol popen a s = Inl OutsideArray"
    using assms by (simp add: translateFunctionFromSymbol_def Let_def)
  moreover have "takeWhile (\<lambda>c. c \<noteq> NUL) (?cmd @ NUL # r) = ?cmd" for r
    using plain(1) by (subst takeWhile_append2) auto
  then have "takeWhile (\<lambda>c. c \<noteq> NUL) ?l = ?cmd" "NUL \<in> set ?l" by (simp_all add: overwrite_def)
  then have "out = [] \<longrightarrow> (\<exists>s'. translateFunctionFromSymbol popen a s = Inr s' \<and>
      funNameMap s' a = Some ?cmd \<and> print_s (funNameMap s' a) = Inl Unterminated)"
    using assms plain
    by (simp add: translateFunctionFromSymbol_def Let_def copy_name_plain print_s_def overwrite_def [of "[]"])
  ultimately show ?thesis by (rule conjI)
qed

theorem pvtrace_unexpected_names_witness:
  "translateFunctionFromSymbol (\<lambda>_. Some (replicate 250 (CHR ''t''))) 16 (pv_ready ''a'') = Inl OutsideArray"
proof -
  have "(MAX_FUNCTION_NAME \<le> length (replicate 250 (CHR ''t'')) \<and> NUL \<notin> set (replicate 250 (CHR ''t'')) \<longrightarrow>
      translateFunctionFromSymbol (\<lambda>_. Some (replicate 250 (CHR ''t''))) 16 (pv_ready ''a'') = Inl OutsideArray)"
    by (rule pvtrace_unexpected_names [THEN conjunct1])
      (simp_all add: pv_ready_def pv_zero_def addr2line_cmd_def show_hex.simps MAX_FUNCTION_NAME_def)
  moreover have "NUL \<notin> set (replicate 250 (CHR ''t''))" by (simp add: set_replicate_conv_if del: set_replicate)
  ultimately show ?thesis by (simp only: MAX_FUNCTION_NAME_def length_replicate simp_thms order_refl)
qed

end
