(* ===== verification/MinerHook.thy ===== *)
theory MinerHook
  imports CString
begin

text \<open>
  The preloaded library under \<open>hook-linux/claymore\<close>: the command line of the parent process is read and
  searched for the pool and the wallet (\<open>hook.c\<close>, \<open>parseMining\<close> of \<open>claymore.c\<close>), and name lookups,
  connections and login messages of the process are changed. The functions copy into arrays of fixed
  size and write into the buffer of the caller, so every operation says where it leaves a buffer or
  uses a null pointer. The lookup of a name and the contents of \<open>/proc\<close> are parameters; logging is left out.
\<close>

section \<open>Memory and strings\<close>

datatype fault = Overrun | NullPointer

type_synonym 'a safe = "fault + 'a"

definition bind_safe :: "'a safe \<Rightarrow> ('a \<Rightarrow> 'b safe) \<Rightarrow> 'b safe" where
  "bind_safe r f = (case r of Inl e \<Rightarrow> Inl e | Inr x \<Rightarrow> f x)"

text \<open>A copy with its terminating zero into an array of \<open>n\<close> characters.\<close>

definition into_array :: "nat \<Rightarrow> string \<Rightarrow> string safe" where
  "into_array n s = (if length s < n then Inr s else Inl Overrun)"

text \<open>\<open>strstr\<close>: the rest of the string from the first occurrence on.\<close>

fun strstr :: "string \<Rightarrow> string \<Rightarrow> string option" where
  "strstr [] pat = (if pat = [] then Some [] else None)"
| "strstr (c # cs) pat = (if take (length pat) (c # cs) = pat then Some (c # cs) else strstr cs pat)"

definition c_string :: "string \<Rightarrow> string" where
  "c_string mem = takeWhile (\<lambda>c. c \<noteq> NUL) mem"

section \<open>The command line of the parent process\<close>

text \<open>
  \<open>get_cmdline_from_pid\<close> with the 1024 bytes of \<open>init\<close>: \<open>None\<close> is a file that cannot be read, which leaves the
  buffer filled with zeros. An empty file makes it look at the byte before the buffer; the byte
  behind the last one read is set to zero, wherever that is.
\<close>

definition get_cmdline_from_pid :: "string option \<Rightarrow> string safe" where
  "get_cmdline_from_pid file = (case file of
       None \<Rightarrow> Inr []
     | Some content \<Rightarrow> let buf = take 1024 content in
         if buf = [] then Inl Overrun
         else let buf1 = (if last buf = NL then butlast buf else buf) in
           if length buf1 = 1024 then Inl Overrun
           else Inr (map (\<lambda>c. if (of_char c :: nat) < 32 then CHR '' '' else c) buf1))"

section \<open>What is mined, and where\<close>

datatype SMiningMode = E_ETH | E_ETC | E_ETP | E_ETC_SC | E_ETH_SC | E_ETP_SC

record miner =
  miningMode :: SMiningMode
  s_mMinePoolHName :: string
  s_scMinePoolHName :: string
  s_mWallet :: string
  s_scWallet :: string
  s_mMinePoolIP :: string
  s_scMinePoolIP :: string
  s_MinePoolIP :: string
  s_MinePoolHName :: string
  i_MinePoolPort :: nat
  inited :: bool

definition ETH_WALLET :: string where "ETH_WALLET = ''0x0e77d862a62e67328b8eb9c9c2884df163be5b98''"
definition ETC_WALLET :: string where "ETC_WALLET = ''0x0e77d862a62e67328b8eb9c9c2884df163be5b98''"
definition ETP_WALLET :: string where "ETP_WALLET = ''MDoBLLXZnBvnbyb5NfEV8XTWwEJb3YLcxv''"
definition SC_WALLET :: string where "SC_WALLET = ''DsXnHq3fwYZfXbau8caDUag5hGMgcjdh2vN''"

text \<open>The text behind an option that ends in a blank: the pointer is set onto that blank, then blanks are skipped.\<close>

definition opt_arg :: "string \<Rightarrow> string \<Rightarrow> string option" where
  "opt_arg cmdline opt = map_option (\<lambda>p. dropWhile (\<lambda>c. c = CHR '' '') (drop (length opt - 1) p)) (strstr cmdline opt)"

definition word_to :: "string \<Rightarrow> string \<Rightarrow> string" where
  "word_to stops p = takeWhile (\<lambda>c. c \<notin> set stops) p"

text \<open>The test of \<open>-allcoins\<close>: three characters, of which \<open>memcmp(pos,"etc",2)\<close> compares two.\<close>

definition allcoins_etc :: "string \<Rightarrow> bool" where
  "allcoins_etc cmdline = (case opt_arg cmdline '' -allcoins '' of
       None \<Rightarrow> False
     | Some pos \<Rightarrow> length (word_to '' '' pos) = 3 \<and> take 2 pos = take 2 ''etc'')"

definition mode_of :: "string \<Rightarrow> bool \<Rightarrow> miner \<Rightarrow> SMiningMode" where
  "mode_of cmdline sc m =
     (if take 2 (s_mWallet m) = ''0x'' then
        if allcoins_etc cmdline \<or> take 3 (s_mMinePoolHName m) = ''etc''
        then (if sc then E_ETC_SC else E_ETC) else (if sc then E_ETH_SC else E_ETH)
      else (if sc then E_ETP_SC else E_ETP))"

definition parseMining :: "string \<Rightarrow> miner \<Rightarrow> (bool \<times> miner) safe" where
  "parseMining cmdline m0 = (case opt_arg cmdline '' -epool '' of
       None \<Rightarrow> Inr (False, m0)
     | Some p \<Rightarrow>
       bind_safe (into_array 50 (word_to '': '' p)) (\<lambda>host.
       bind_safe (case strstr cmdline '' stratum+tcp://'' of None \<Rightarrow> Inr []
          | Some q \<Rightarrow> into_array 50 (word_to '': '' (drop 15 q))) (\<lambda>schost.
       let m1 = m0\<lparr>s_mMinePoolHName := host, s_mMinePoolIP := [], s_scMinePoolIP := [], s_scMinePoolHName := schost\<rparr> in
       case opt_arg cmdline '' -ewal '' of
         None \<Rightarrow> Inr (False, m1)
       | Some w \<Rightarrow>
         bind_safe (into_array 50 (word_to '' '' w)) (\<lambda>wallet.
         let m2 = m1\<lparr>s_mWallet := wallet\<rparr> in
         case opt_arg cmdline '' -dwal '' of
           None \<Rightarrow> Inr (True, m2\<lparr>miningMode := mode_of cmdline False m2\<rparr>)
         | Some d \<Rightarrow>
           bind_safe (into_array 50 (word_to '' .'' d)) (\<lambda>scwallet.
           Inr (True, m2\<lparr>s_scWallet := scwallet, miningMode := mode_of cmdline True m2\<rparr>))))))"

definition own_pool :: "SMiningMode \<Rightarrow> string \<times> nat" where
  "own_pool md = (case md of
       E_ETH \<Rightarrow> (''eth.f2pool.com'', 8008) | E_ETH_SC \<Rightarrow> (''eth.f2pool.com'', 8008)
     | E_ETC \<Rightarrow> (''etc.f2pool.com'', 8118) | E_ETC_SC \<Rightarrow> (''etc.f2pool.com'', 8118)
     | E_ETP \<Rightarrow> (''etp.uupool.cn'', 8008) | E_ETP_SC \<Rightarrow> (''etp.uupool.cn'', 8008))"

definition initializer :: "string \<Rightarrow> miner \<Rightarrow> miner safe" where
  "initializer cmdline m = bind_safe (parseMining cmdline m) (\<lambda>(ok, m1).
     if \<not> ok then Inr m1
     else Inr (m1\<lparr>s_MinePoolHName := fst (own_pool (miningMode m1)), i_MinePoolPort := snd (own_pool (miningMode m1))\<rparr>))"

text \<open>\<open>init\<close> of \<open>hook.c\<close>, under its lock: once, also when the command line was of no use.\<close>

definition init :: "string option \<Rightarrow> miner \<Rightarrow> miner safe" where
  "init file m = (if inited m then Inr m
     else bind_safe (get_cmdline_from_pid file) (\<lambda>buf.
          bind_safe (initializer buf m) (\<lambda>m1. Inr (m1\<lparr>inited := True\<rparr>))))"

section \<open>Messages\<close>

definition own_wallet :: "SMiningMode \<Rightarrow> bool \<Rightarrow> string" where
  "own_wallet md issc = (case md of
       E_ETH \<Rightarrow> ETH_WALLET | E_ETC \<Rightarrow> ETC_WALLET | E_ETP \<Rightarrow> ETP_WALLET
     | E_ETH_SC \<Rightarrow> if issc then SC_WALLET else ETH_WALLET
     | E_ETC_SC \<Rightarrow> if issc then SC_WALLET else ETC_WALLET
     | E_ETP_SC \<Rightarrow> if issc then SC_WALLET else ETP_WALLET)"

definition params :: string where
  "params = [CHR 0x22] @ ''params'' @ [CHR 0x22] @ '': ['' @ [CHR 0x22]"

text \<open>
  \<open>process\<close> on a buffer of which the last byte is zero: as many bytes as the configured wallet has are
  copied from the constant \<open>wallet\<close> behind \<open>params\<close>, unless the configured wallet is in the message.
\<close>

definition process :: "string \<Rightarrow> string \<Rightarrow> string \<Rightarrow> string safe" where
  "process a1 wallet configured = (let walletLen = length configured; s = c_string a1 in
     if strstr s configured \<noteq> None then Inr a1
     else case strstr s params of
       None \<Rightarrow> Inl NullPointer
     | Some q \<Rightarrow> let p = length s - length q + 12 in
         if length wallet + 1 < walletLen \<or> length a1 < p + walletLen then Inl Overrun
         else Inr (take p a1 @ take walletLen (wallet @ [NUL]) @ drop (p + walletLen) a1))"

definition replaceWallet :: "string \<Rightarrow> bool \<Rightarrow> miner \<Rightarrow> string safe" where
  "replaceWallet dat issc m = (if dat = [] then Inl Overrun
     else bind_safe (process (butlast dat @ [NUL]) (own_wallet (miningMode m) issc)
            (if issc then s_scWallet m else s_mWallet m))
          (\<lambda>a1. Inr (butlast a1 @ [last dat])))"

definition q_method :: "string \<Rightarrow> string" where
  "q_method nm = [CHR 0x22] @ ''method'' @ [CHR 0x22] @ '': '' @ [CHR 0x22] @ nm @ [CHR 0x22]"

text \<open>\<open>strstr\<close> on memory: it stops at a match or at a zero, and otherwise leaves the memory that is known.\<close>

definition strstr_mem :: "string \<Rightarrow> string \<Rightarrow> bool safe" where
  "strstr_mem mem pat = (if strstr (c_string mem) pat \<noteq> None then Inr True
     else if NUL \<in> set mem then Inr False else Inl Overrun)"

text \<open>\<open>tail\<close> is what lies behind the bytes to be sent.\<close>

definition Mine_send_enter :: "string \<Rightarrow> string \<Rightarrow> miner \<Rightarrow> string safe" where
  "Mine_send_enter dat tail m = bind_safe (strstr_mem (dat @ tail) (q_method ''eth_submitLogin'')) (\<lambda>login.
     if login then replaceWallet dat False m
     else if miningMode m \<in> {E_ETH_SC, E_ETC_SC, E_ETP_SC} then
       bind_safe (strstr_mem (dat @ tail) (q_method ''mining.authorize'')) (\<lambda>auth.
         if auth then replaceWallet dat True m else Inr dat)
     else Inr dat)"

section \<open>Names and connections\<close>

type_synonym ipv4 = "8 word \<times> 8 word \<times> 8 word \<times> 8 word"

definition inet_ntoa :: "ipv4 \<Rightarrow> string" where
  "inet_ntoa a = (case a of (b1, b2, b3, b4) \<Rightarrow>
     show_nat (unat b1) @ ''.'' @ show_nat (unat b2) @ ''.'' @ show_nat (unat b3) @ ''.'' @ show_nat (unat b4))"

definition same_name :: "string \<Rightarrow> nat \<Rightarrow> string \<Rightarrow> bool" where
  "same_name pool n a1 \<longleftrightarrow> length pool = n \<and> take n (a1 @ [NUL]) = pool"

definition Mine_gethostbyname ::
    "(string \<Rightarrow> ipv4 option) \<Rightarrow> string \<Rightarrow> miner \<Rightarrow> (ipv4 option \<times> miner) safe" where
  "Mine_gethostbyname resolve hname m = (let n = length hname;
       a1 = (if \<not> same_name (s_mMinePoolHName m) n hname \<and> \<not> same_name (s_scMinePoolHName m) n hname
             then s_MinePoolHName m else hname)
     in case resolve a1 of
       None \<Rightarrow> Inr (None, m)
     | Some addr \<Rightarrow> bind_safe (into_array 16 (inet_ntoa addr)) (\<lambda>ip.
         Inr (Some addr,
           if same_name (s_mMinePoolHName m) n a1 then m\<lparr>s_mMinePoolIP := ip\<rparr>
           else if same_name (s_scMinePoolHName m) n a1 then m\<lparr>s_scMinePoolIP := ip\<rparr>
           else m\<lparr>s_MinePoolIP := ip\<rparr>)))"

definition Mine_connect :: "ipv4 \<Rightarrow> nat \<Rightarrow> miner \<Rightarrow> nat" where
  "Mine_connect addr port m = (if inet_ntoa addr = s_MinePoolIP m then i_MinePoolPort m else port)"

text \<open>The interposed functions: \<open>init\<close> first, except in \<open>send\<close>.\<close>

definition hook_gethostbyname ::
    "string option \<Rightarrow> (string \<Rightarrow> ipv4 option) \<Rightarrow> string \<Rightarrow> miner \<Rightarrow> (ipv4 option \<times> miner) safe" where
  "hook_gethostbyname file resolve domain m = bind_safe (init file m) (Mine_gethostbyname resolve domain)"

definition hook_connect :: "string option \<Rightarrow> bool \<Rightarrow> ipv4 \<Rightarrow> nat \<Rightarrow> miner \<Rightarrow> (nat \<times> miner) safe" where
  "hook_connect file is_stream addr port m =
     bind_safe (init file m) (\<lambda>m1. Inr (if is_stream then Mine_connect addr port m1 else port, m1))"

section \<open>Searching\<close>

lemma bind_safe_simps [simp]: "bind_safe (Inr x) f = f x" "bind_safe (Inl e) f = Inl e"
  by (simp_all add: bind_safe_def)

lemma bind_safe_Inr: "bind_safe r f = Inr y \<longleftrightarrow> (\<exists>x. r = Inr x \<and> f x = Inr y)"
  by (cases r) simp_all

lemma into_array_Inr: "into_array n s = Inr t \<longleftrightarrow> length s < n \<and> t = s"
  by (auto simp: into_array_def)

lemma strstr_Some: "strstr s pat = Some q \<Longrightarrow> \<exists>pre. s = pre @ q \<and> take (length pat) q = pat"
proof (induction s arbitrary: q)
  case (Cons c cs)
  show ?case
  proof (cases "take (length pat) (c # cs) = pat")
    case True
    then show ?thesis using Cons.prems by (intro exI [of _ "[]"]) auto
  next
    case False
    then obtain pre where "cs = pre @ q \<and> take (length pat) q = pat" using Cons by auto
    then show ?thesis by (intro exI [of _ "c # pre"]) simp
  qed
qed (simp split: if_splits)

lemma strstr_empty [simp]: "strstr s [] = Some s"
  by (cases s) simp_all

text \<open>An option begins with a blank, so words without one are passed over.\<close>

lemma strstr_skip:
  "x \<notin> set pre \<Longrightarrow> strstr (pre @ x # s) (x # pat) = strstr (x # s) (x # pat)"
  by (induction pre) auto

lemma strstr_skip_word:
  assumes "x \<notin> set w" "x \<notin> set pat" "w \<noteq> pat"
  shows "strstr (x # w @ x # s) (x # pat @ [x]) = strstr (x # s) (x # pat @ [x])"
proof -
  have "take (Suc (length pat)) (w @ x # s) \<noteq> pat @ [x]"
  proof
    assume "take (Suc (length pat)) (w @ x # s) = pat @ [x]"
    then have "w @ x # s = pat @ x # drop (Suc (length pat)) (w @ x # s)"
      by (metis append.assoc append_Cons append_Nil append_take_drop_id)
    then have "takeWhile (\<lambda>c. c \<noteq> x) (w @ x # s) = takeWhile (\<lambda>c. c \<noteq> x) (pat @ x # drop (Suc (length pat)) (w @ x # s))"
      by (rule arg_cong)
    moreover have "takeWhile (\<lambda>c. c \<noteq> x) (v @ x # t) = v" if "x \<notin> set v" for v t
      using that by (subst takeWhile_append2) auto
    ultimately show False using assms by simp
  qed
  then have "strstr (x # w @ x # s) (x # pat @ [x]) = strstr (w @ x # s) (x # pat @ [x])" by simp
  then show ?thesis using strstr_skip [OF assms(1), of s "pat @ [x]"] by simp
qed

lemma word_to_stop:
  assumes "set w \<inter> set stops = {}" "r = [] \<or> hd r \<in> set stops"
  shows "word_to stops (w @ r) = w"
proof -
  have "takeWhile (\<lambda>c. c \<notin> set stops) (w @ r) = w @ takeWhile (\<lambda>c. c \<notin> set stops) r"
    using assms(1) by (intro takeWhile_append2) auto
  then show ?thesis using assms(2) by (cases r) (simp_all add: word_to_def)
qed

section \<open>Bounds\<close>

lemma length_show_byte: "n < 256 \<Longrightarrow> length (show_nat n) \<le> 3"
proof -
  assume "n < 256"
  moreover have "length (show_nat k) = 1" if "k < 10" for k using that by (subst show_nat.simps) simp
  moreover have "length (show_nat k) \<le> 2" if "k < 100" for k
    using that \<open>\<And>k. k < 10 \<Longrightarrow> length (show_nat k) = 1\<close> [of "k div 10"] by (subst show_nat.simps) auto
  moreover from this [of "n div 10"] \<open>n < 256\<close> have "length (show_nat (n div 10)) \<le> 2" by simp
  ultimately show ?thesis by (subst show_nat.simps) simp
qed

lemma length_inet_ntoa: "length (inet_ntoa a) < 16"
proof -
  have "length (show_nat (unat b)) \<le> 3" for b :: "8 word"
    by (rule length_show_byte) (use unsigned_less [of b, where ?'a = nat] in simp)
  note l = this
  obtain b1 b2 b3 b4 where a: "a = (b1, b2, b3, b4)" by (cases a)
  show ?thesis using l [of b1] l [of b2] l [of b3] l [of b4] by (simp add: a inet_ntoa_def)
qed

text \<open>An address always fits into the 16 bytes kept for it, so a name lookup never leaves its buffers.\<close>

lemma gethostbyname_safe: "\<exists>r. Mine_gethostbyname resolve hname m = Inr r"
  using length_inet_ntoa
  by (auto simp: Mine_gethostbyname_def into_array_def Let_def split: option.split)

text \<open>
  The buffer of 1024 bytes for the command line is left exactly by an empty command line, and by one
  that fills the buffer without a line end as its last byte.
\<close>

theorem cmdline_overrun_iff:
  "get_cmdline_from_pid (Some content) = Inl Overrun \<longleftrightarrow>
    content = [] \<or> 1024 \<le> length content \<and> content ! 1023 \<noteq> NL"
proof (cases "content = []")
  case False
  have l: "last (take 1024 content) = content ! 1023" if "1024 \<le> length content"
    using that by (subst last_conv_nth) auto
  show ?thesis
  proof (cases "1024 \<le> length content")
    case True
    then show ?thesis using False l by (simp add: get_cmdline_from_pid_def Let_def)
  next
    case short: False
    then show ?thesis using False by (auto simp: get_cmdline_from_pid_def Let_def)
  qed
qed (simp add: get_cmdline_from_pid_def)

section \<open>Reading the command line\<close>

lemma ewal_no_colon: "CHR '':'' \<notin> set ''-ewal''"
  by simp

text \<open>
  The pool and the wallet of a command line of the usual form are found, whatever follows them, as long
  as they fit into their arrays and no second coin is configured.
\<close>

theorem parseMining_reads_back:
  assumes "cmdline = prog @ '' -epool '' @ host @ '':'' @ port @ '' -ewal '' @ wallet @ rest"
    and "CHR '' '' \<notin> set prog" "CHR '' '' \<notin> set port" "set host \<inter> set '': '' = {}" "CHR '' '' \<notin> set wallet"
    and "wallet \<noteq> []" "rest = [] \<or> hd rest = CHR '' ''" "length host < 50" "length wallet < 50"
    and "strstr cmdline '' stratum+tcp://'' = None" "strstr cmdline '' -dwal '' = None"
  shows "parseMining cmdline m = Inr (True, m\<lparr>miningMode :=
      mode_of cmdline False (m\<lparr>s_mWallet := wallet, s_mMinePoolHName := host\<rparr>),
    s_mMinePoolHName := host, s_scMinePoolHName := [], s_mWallet := wallet, s_mMinePoolIP := [], s_scMinePoolIP := []\<rparr>)"
proof -
  have "opt_arg cmdline '' -epool '' = Some (host @ '':'' @ port @ '' -ewal '' @ wallet @ rest)"
  proof -
    have "strstr cmdline '' -epool '' = Some ('' -epool '' @ host @ '':'' @ port @ '' -ewal '' @ wallet @ rest)"
      using strstr_skip [OF assms(2), of "''-epool '' @ host @ '':'' @ port @ '' -ewal '' @ wallet @ rest" "''-epool ''"]
      by (simp add: assms(1))
    then show ?thesis using assms(4) by (cases host) (auto simp: opt_arg_def)
  qed
  moreover have "word_to '': '' (host @ '':'' @ port @ '' -ewal '' @ wallet @ rest) = host"
    using assms(4) by (intro word_to_stop) auto
  moreover have "opt_arg cmdline '' -ewal '' = Some (wallet @ rest)"
  proof -
    have hp: "CHR '' '' \<notin> set (host @ '':'' @ port)" using assms(3,4) by auto
    have "CHR '':'' \<in> set (host @ '':'' @ port)" by simp
    then have colon: "host @ '':'' @ port \<noteq> ''-ewal''" by (metis ewal_no_colon)
    have "strstr cmdline '' -ewal '' = Some ('' -ewal '' @ wallet @ rest)"
      using strstr_skip [OF assms(2), of "''-epool '' @ host @ '':'' @ port @ '' -ewal '' @ wallet @ rest" "''-ewal ''"]
        strstr_skip_word [OF hp, of "''-ewal''" "''-ewal '' @ wallet @ rest"] colon
      by (simp add: assms(1))
    then show ?thesis using assms(5,6) by (cases wallet) (auto simp: opt_arg_def)
  qed
  moreover have "word_to '' '' (wallet @ rest) = wallet"
    using assms(5,7) by (intro word_to_stop) auto
  moreover have "opt_arg cmdline '' -dwal '' = None" using assms(11) by (simp add: opt_arg_def)
  ultimately show ?thesis using assms(8-10) by (simp add: parseMining_def into_array_def mode_of_def)
qed

definition ex_cmdline :: string where
  "ex_cmdline = ''miner -epool etc.pool.org:8008 -ewal 0x12ab -mode 1''"

definition ex_miner :: miner where
  "ex_miner = \<lparr>miningMode = E_ETH, s_mMinePoolHName = [], s_scMinePoolHName = [], s_mWallet = [], s_scWallet = [],
     s_mMinePoolIP = [], s_scMinePoolIP = [], s_MinePoolIP = [], s_MinePoolHName = [], i_MinePoolPort = 0, inited = False\<rparr>"

theorem parseMining_reads_back_witness:
  "\<exists>m'. parseMining ex_cmdline ex_miner = Inr (True, m') \<and> s_mMinePoolHName m' = ''etc.pool.org'' \<and>
    s_mWallet m' = ''0x12ab'' \<and> miningMode m' = E_ETC"
proof -
  have "parseMining ex_cmdline ex_miner = Inr (True, ex_miner\<lparr>miningMode :=
      mode_of ex_cmdline False (ex_miner\<lparr>s_mWallet := ''0x12ab'', s_mMinePoolHName := ''etc.pool.org''\<rparr>),
    s_mMinePoolHName := ''etc.pool.org'', s_scMinePoolHName := [], s_mWallet := ''0x12ab'', s_mMinePoolIP := [], s_scMinePoolIP := []\<rparr>)"
    by (rule parseMining_reads_back [where prog = "''miner''" and port = "''8008''" and rest = "'' -mode 1''"])
      (simp_all add: ex_cmdline_def)
  then show ?thesis by (simp add: mode_of_def)
qed

text \<open>
  \<open>-allcoins eth\<close> selects Ethereum Classic: two of the three characters are compared, so every value
  of three characters that begins with \<open>et\<close> is taken for \<open>etc\<close>.
\<close>

theorem allcoins_eth_is_etc:
  assumes "parseMining cmdline m = Inr (True, m')" "take 2 (s_mWallet m') = ''0x''"
    and "opt_arg cmdline '' -allcoins '' = Some pos" "word_to '' '' pos = ''et'' @ [c]"
  shows "miningMode m' \<in> {E_ETC, E_ETC_SC}"
proof -
  have "take 2 pos = ''et''"
    using assms(4) takeWhile_dropWhile_id [of "\<lambda>c. c \<notin> set '' ''" pos] unfolding word_to_def by (metis
        append.assoc append_Cons append_Nil take_Suc_Cons take0 numeral_2_eq_2)
  then have "allcoins_etc cmdline" using assms(3,4) by (simp add: allcoins_etc_def)
  then show ?thesis using assms(1,2)
    by (auto simp: parseMining_def bind_safe_Inr into_array_Inr mode_of_def Let_def split: option.splits)
qed

theorem allcoins_eth_is_etc_witness:
  "\<exists>m'. parseMining ''miner -epool eth.pool.org:1 -ewal 0x12ab -allcoins eth'' ex_miner = Inr (True, m') \<and>
    miningMode m' \<in> {E_ETC, E_ETC_SC}"
proof -
  let ?c = "''miner -epool eth.pool.org:1 -ewal 0x12ab -allcoins eth''"
  have "parseMining ?c ex_miner = Inr (True, ex_miner\<lparr>miningMode :=
      mode_of ?c False (ex_miner\<lparr>s_mWallet := ''0x12ab'', s_mMinePoolHName := ''eth.pool.org''\<rparr>),
    s_mMinePoolHName := ''eth.pool.org'', s_scMinePoolHName := [], s_mWallet := ''0x12ab'', s_mMinePoolIP := [], s_scMinePoolIP := []\<rparr>)"
    by code_simp
  then obtain m' where m: "parseMining ?c ex_miner = Inr (True, m')" "s_mWallet m' = ''0x12ab''" by simp
  have "opt_arg ?c '' -allcoins '' = Some ''eth''" by code_simp
  from allcoins_eth_is_etc [OF m(1) _ this, of "CHR ''h''"] m show ?thesis by (simp add: word_to_def)
qed

section \<open>What a message can become\<close>

lemma process_frame:
  assumes "process a1 wallet configured = Inr a2"
  shows "length a2 = length a1 \<and> (a2 = a1 \<or> (\<exists>p \<ge> 12. take 12 (drop (p - 12) a1) = params \<and>
    (\<forall>i < length a1. i < p \<or> p + length configured \<le> i \<longrightarrow> a2 ! i = a1 ! i)))"
proof (cases "strstr (c_string a1) configured = None")
  case True
  then obtain q where q: "strstr (c_string a1) params = Some q"
    using assms by (auto simp: process_def Let_def split: option.splits)
  define p where "p = length (c_string a1) - length q + 12"
  have b: "length configured \<le> length wallet + 1" "p + length configured \<le> length a1"
    and a2: "a2 = take p a1 @ take (length configured) (wallet @ [NUL]) @ drop (p + length configured) a1"
    using assms True q by (auto simp: process_def Let_def p_def split: if_splits)
  obtain pre where pre: "c_string a1 = pre @ q" "take (length params) q = params" using strstr_Some [OF q] by blast
  have "a1 = pre @ q @ dropWhile (\<lambda>c. c \<noteq> NUL) a1"
    using pre(1) takeWhile_dropWhile_id [of "\<lambda>c. c \<noteq> NUL" a1] by (simp add: c_string_def)
  moreover have "p - 12 = length pre" using pre(1) by (simp add: p_def)
  ultimately have "drop (p - 12) a1 = q @ dropWhile (\<lambda>c. c \<noteq> NUL) a1" by (metis append_eq_conv_conj)
  moreover have l: "length params = 12" "12 \<le> p" by (simp_all add: params_def p_def)
  moreover have "12 \<le> length q" using arg_cong [OF pre(2), of length] l(1) by simp
  ultimately have "take 12 (drop (p - 12) a1) = params" using pre(2) by simp
  moreover have "a2 ! i = a1 ! i" if "i < length a1" "i < p \<or> p + length configured \<le> i" for i
  proof -
    define W where "W = take (length configured) (wallet @ [NUL])"
    have "length W = length configured" using b(1) by (simp add: W_def)
    then show ?thesis using that b(2) unfolding a2 W_def [symmetric] by (auto simp: nth_append)
  qed
  ultimately show ?thesis using l(2) b a2 by auto
qed (use assms in \<open>auto simp: process_def Let_def\<close>)

lemma params_before:
  assumes "12 \<le> p" "take 12 (drop (p - 12) (b @ [NUL])) = params"
  shows "take 12 (drop (p - 12) (b @ [c])) = params"
proof -
  have len: "length params = 12" "NUL \<notin> set params" by (simp_all add: params_def)
  have "p \<le> Suc (length b)" using arg_cong [OF assms(2), of length] len(1) assms(1) by simp
  moreover have "p \<noteq> Suc (length b)"
  proof
    assume p: "p = Suc (length b)"
    then have "NUL \<in> set (take 12 (drop (p - 12) (b @ [NUL])))" using assms(1) by simp
    then show False using len(2) unfolding assms(2) by simp
  qed
  ultimately have "p \<le> length b" by simp
  then have "take 12 (drop (p - 12) (b @ [x])) = take 12 (drop (p - 12) b)" for x using assms(1) by simp
  then show ?thesis using assms(2) by metis
qed

text \<open>
  A message that is sent on has its length, and differs from the one given at most in as many bytes as
  the configured wallet has, right behind a text \<open>C25: params\<close> of the message.
\<close>

theorem send_changes_only_wallet:
  assumes "Mine_send_enter dat tail m = Inr dat'"
  shows "length dat' = length dat \<and> (dat' = dat \<or> (\<exists>p w. w \<in> {s_mWallet m, s_scWallet m} \<and> 12 \<le> p \<and>
    take 12 (drop (p - 12) dat) = params \<and> (\<forall>i < length dat. i < p \<or> p + length w \<le> i \<longrightarrow> dat' ! i = dat ! i)))"
proof (cases "dat' = dat")
  case False
  then obtain issc where r: "replaceWallet dat issc m = Inr dat'"
    using assms by (auto simp: Mine_send_enter_def bind_safe_Inr split: if_splits)
  define w where "w = (if issc then s_scWallet m else s_mWallet m)"
  let ?a = "butlast dat @ [NUL]"
  obtain a2 where ne: "dat \<noteq> []" and a2: "process ?a (own_wallet (miningMode m) issc) w = Inr a2" "dat' = butlast a2 @ [last dat]"
    using r by (auto simp: replaceWallet_def bind_safe_Inr w_def split: if_splits)
  note fr = process_frame [OF a2(1)]
  have la: "length ?a = length dat" using ne by (cases dat) simp_all
  have dat: "dat = butlast dat @ [last dat]" using ne by simp
  have l2: "length a2 = length dat" using fr la by simp
  have "a2 \<noteq> ?a" using a2(2) False dat by auto
  then have "\<exists>p \<ge> 12. take 12 (drop (p - 12) ?a) = params \<and>
      (\<forall>i < length ?a. i < p \<or> p + length w \<le> i \<longrightarrow> a2 ! i = ?a ! i)" using fr by blast
  then obtain p where p: "12 \<le> p" "take 12 (drop (p - 12) ?a) = params"
    "\<forall>i < length ?a. i < p \<or> p + length w \<le> i \<longrightarrow> a2 ! i = ?a ! i" by blast
  have "take 12 (drop (p - 12) dat) = params"
    using params_before [OF p(1,2), of "last dat"] dat by simp
  moreover have "dat' ! i = dat ! i" if "i < length dat" "i < p \<or> p + length w \<le> i" for i
  proof (cases "i < length dat - 1")
    case True
    then show ?thesis using p(3) [rule_format, of i] that l2 a2(2) la by (simp add: nth_append nth_butlast)
  next
    case False
    then have "i = length dat - 1" using that(1) by simp
    then show ?thesis using a2(2) l2 ne by (simp add: nth_append last_conv_nth)
  qed
  moreover have "w \<in> {s_mWallet m, s_scWallet m}" by (simp add: w_def)
  moreover have "length dat' = length dat" using a2(2) l2 ne by (cases a2) auto
  ultimately show ?thesis using p(1) by blast
qed simp

text \<open>A login with another wallet than the configured one.\<close>

definition ex_login :: "string \<Rightarrow> string" where
  "ex_login w = ''{'' @ q_method ''eth_submitLogin'' @ '', '' @ params @ w @ [CHR 0x22] @ '']}'' @ [NL]"

theorem send_changes_only_wallet_witness:
  "\<exists>dat'. Mine_send_enter (ex_login ''0xffff'') [NUL] (ex_miner\<lparr>s_mWallet := ''0x12ab''\<rparr>) = Inr dat' \<and>
    dat' = ex_login ''0x0e77'' \<and> length dat' = length (ex_login ''0xffff'')"
proof -
  have "Mine_send_enter (ex_login ''0xffff'') [NUL] (ex_miner\<lparr>s_mWallet := ''0x12ab''\<rparr>) = Inr (ex_login ''0x0e77'')"
    by code_simp
  from send_changes_only_wallet [OF this] this show ?thesis by blast
qed

text \<open>
  A login without the text \<open>"params": ["\<close> is written to through a null pointer, and one that is shorter than
  the configured wallet needs is written past its end.
\<close>

lemma login_faults:
  assumes "strstr (c_string (butlast dat)) (s_mWallet m) = None" "dat \<noteq> []"
    and "strstr_mem (dat @ tail) (q_method ''eth_submitLogin'') = Inr True"
    and "strstr (c_string (butlast dat)) params = None"
  shows "Mine_send_enter dat tail m = Inl NullPointer"
proof -
  have "c_string (butlast dat @ [NUL]) = c_string (butlast dat)"
  proof (cases "NUL \<in> set (butlast dat)")
    case True
    then show ?thesis by (simp add: c_string_def takeWhile_append1)
  next
    case False
    then have "\<And>x. x \<in> set (butlast dat) \<Longrightarrow> x \<noteq> NUL" by auto
    then show ?thesis unfolding c_string_def by (subst takeWhile_append2) (auto simp: takeWhile_eq_all_conv [THEN iffD2])
  qed
  then show ?thesis using assms by (simp add: Mine_send_enter_def replaceWallet_def process_def Let_def)
qed

end
