(* ===== verification/TpccDb.thy ===== *)
theory TpccDb
  imports Prelude
begin

text \<open>
  The database of the TPC-C load generator: the tables of create_table.sql, the statements that
  main.c prepares for every connection, and the connection through which the transactions run
  them.

  A table is the list of its rows; a statement is written with its WHERE clause as it stands in
  main.c. An INSERT of a primary key that exists fails, an UPDATE or DELETE that matches no row
  succeeds. Decimal columns with two digits are whole hundredths. Address columns, which the
  transactions fetch and never look at, are left out.

  The client library is a parameter: every call of it has a number, and \<open>code\<close> says what the
  call returns. A commit that reports an error may have been applied or not, which \<open>applied\<close>
  says. Floating point arithmetic is a parameter too, the record \<open>fops\<close>.
\<close>

section \<open>Tables (create_table.sql)\<close>

record warehouse =
  W_ID :: int
  W_NAME :: string
  W_TAX :: int
  W_YTD :: int

record district =
  D_ID :: int
  D_W_ID :: int
  D_NAME :: string
  D_TAX :: int
  D_YTD :: int
  D_NEXT_O_ID :: int

record customer =
  C_ID :: int
  C_D_ID :: int
  C_W_ID :: int
  C_FIRST :: string
  C_LAST :: string
  C_CREDIT :: string
  C_DISCOUNT :: int
  C_BALANCE :: int
  C_YTD_PAYMENT :: int
  C_PAYMENT_CNT :: int
  C_DELIVERY_CNT :: int
  C_DATA :: string

record history =
  H_C_ID :: int
  H_C_D_ID :: int
  H_C_W_ID :: int
  H_D_ID :: int
  H_W_ID :: int
  H_DATE :: string
  H_AMOUNT :: int
  H_DATA :: string

record new_order =
  NO_O_ID :: int
  NO_D_ID :: int
  NO_W_ID :: int

record order =
  O_ID :: int
  O_D_ID :: int
  O_W_ID :: int
  O_C_ID :: int
  O_ENTRY_D :: string
  O_CARRIER_ID :: "int option"
  O_OL_CNT :: int
  O_ALL_LOCAL :: int

record order_line =
  OL_O_ID :: int
  OL_D_ID :: int
  OL_W_ID :: int
  OL_NUMBER :: int
  OL_I_ID :: int
  OL_SUPPLY_W_ID :: int
  OL_DELIVERY_D :: "string option"
  OL_QUANTITY :: int
  OL_AMOUNT :: int
  OL_DIST_INFO :: string

record item =
  I_ID :: int
  I_IM_ID :: int
  I_NAME :: string
  I_PRICE :: int
  I_DATA :: string

record stock =
  S_I_ID :: int
  S_W_ID :: int
  S_QUANTITY :: int
  S_DIST :: "string list"
  S_DATA :: string

record db =
  warehouses :: "warehouse list"
  districts :: "district list"
  customers :: "customer list"
  histories :: "history list"
  new_orders :: "new_order list"
  orders :: "order list"
  order_lines :: "order_line list"
  items :: "item list"
  stocks :: "stock list"

section \<open>Statements\<close>

text \<open>An UPDATE of the rows a condition selects, and an INSERT that keeps a primary key.\<close>

definition upd :: "('r \<Rightarrow> bool) \<Rightarrow> ('r \<Rightarrow> 'r) \<Rightarrow> 'r list \<Rightarrow> 'r list" where
  "upd P f = map (\<lambda>r. if P r then f r else r)"

definition ins :: "('r \<Rightarrow> 'k) \<Rightarrow> 'r \<Rightarrow> 'r list \<Rightarrow> 'r list option" where
  "ins key r t = (if key r \<in> key ` set t then None else Some (t @ [r]))"

definition pk_district :: "district \<Rightarrow> int \<times> int" where "pk_district r = (D_W_ID r, D_ID r)"
definition pk_customer :: "customer \<Rightarrow> int \<times> int \<times> int" where "pk_customer r = (C_W_ID r, C_D_ID r, C_ID r)"
definition pk_new_order :: "new_order \<Rightarrow> int \<times> int \<times> int" where "pk_new_order r = (NO_W_ID r, NO_D_ID r, NO_O_ID r)"
definition pk_order :: "order \<Rightarrow> int \<times> int \<times> int" where "pk_order r = (O_W_ID r, O_D_ID r, O_ID r)"
definition pk_order_line :: "order_line \<Rightarrow> (int \<times> int \<times> int) \<times> int" where
  "pk_order_line r = ((OL_W_ID r, OL_D_ID r, OL_O_ID r), OL_NUMBER r)"
definition pk_stock :: "stock \<Rightarrow> int \<times> int" where "pk_stock r = (S_W_ID r, S_I_ID r)"

lemmas pk_defs = pk_district_def pk_customer_def pk_new_order_def pk_order_def pk_order_line_def pk_stock_def

text \<open>
  The prepared statements, by their number in main.c. A SELECT answers the list of its rows; the
  order of the rows is the server's choice (the argument \<open>ord\<close> sorts by \<open>c_first\<close> where the
  statement asks for it).
\<close>

definition stmt0 :: "int \<Rightarrow> int \<Rightarrow> int \<Rightarrow> db \<Rightarrow> (int \<times> string \<times> string \<times> int) list" where
  "stmt0 w_id d_id c_id d =
     [(C_DISCOUNT c, C_LAST c, C_CREDIT c, W_TAX w). c \<leftarrow> customers d, w \<leftarrow> warehouses d,
        W_ID w = w_id \<and> C_W_ID c = W_ID w \<and> C_D_ID c = d_id \<and> C_ID c = c_id]"

definition stmt1 :: "int \<Rightarrow> int \<Rightarrow> db \<Rightarrow> (int \<times> int) list" where
  "stmt1 d_id w_id d = [(D_NEXT_O_ID r, D_TAX r). r \<leftarrow> districts d, D_ID r = d_id \<and> D_W_ID r = w_id]"

definition stmt2 :: "int \<Rightarrow> int \<Rightarrow> int \<Rightarrow> db \<Rightarrow> db option" where
  "stmt2 d_next_o_id d_id w_id d =
     Some (d\<lparr>districts := upd (\<lambda>r. D_ID r = d_id \<and> D_W_ID r = w_id) (\<lambda>r. r\<lparr>D_NEXT_O_ID := d_next_o_id + 1\<rparr>) (districts d)\<rparr>)"

definition stmt3 :: "int \<Rightarrow> int \<Rightarrow> int \<Rightarrow> int \<Rightarrow> string \<Rightarrow> int \<Rightarrow> int \<Rightarrow> db \<Rightarrow> db option" where
  "stmt3 o_id d_id w_id c_id datetime o_ol_cnt o_all_local d =
     map_option (\<lambda>t. d\<lparr>orders := t\<rparr>)
       (ins pk_order \<lparr>O_ID = o_id, O_D_ID = d_id, O_W_ID = w_id, O_C_ID = c_id, O_ENTRY_D = datetime,
          O_CARRIER_ID = None, O_OL_CNT = o_ol_cnt, O_ALL_LOCAL = o_all_local\<rparr> (orders d))"

definition stmt4 :: "int \<Rightarrow> int \<Rightarrow> int \<Rightarrow> db \<Rightarrow> db option" where
  "stmt4 o_id d_id w_id d =
     map_option (\<lambda>t. d\<lparr>new_orders := t\<rparr>)
       (ins pk_new_order \<lparr>NO_O_ID = o_id, NO_D_ID = d_id, NO_W_ID = w_id\<rparr> (new_orders d))"

definition stmt5 :: "int \<Rightarrow> db \<Rightarrow> (int \<times> string \<times> string) list" where
  "stmt5 ol_i_id d = [(I_PRICE r, I_NAME r, I_DATA r). r \<leftarrow> items d, I_ID r = ol_i_id]"

definition stmt6 :: "int \<Rightarrow> int \<Rightarrow> db \<Rightarrow> (int \<times> string \<times> string list) list" where
  "stmt6 ol_i_id ol_supply_w_id d =
     [(S_QUANTITY r, S_DATA r, S_DIST r). r \<leftarrow> stocks d, S_I_ID r = ol_i_id \<and> S_W_ID r = ol_supply_w_id]"

definition stmt7 :: "int \<Rightarrow> int \<Rightarrow> int \<Rightarrow> db \<Rightarrow> db option" where
  "stmt7 s_quantity ol_i_id ol_supply_w_id d =
     Some (d\<lparr>stocks := upd (\<lambda>r. S_I_ID r = ol_i_id \<and> S_W_ID r = ol_supply_w_id) (\<lambda>r. r\<lparr>S_QUANTITY := s_quantity\<rparr>) (stocks d)\<rparr>)"

definition stmt8 ::
  "int \<Rightarrow> int \<Rightarrow> int \<Rightarrow> int \<Rightarrow> int \<Rightarrow> int \<Rightarrow> int \<Rightarrow> int \<Rightarrow> string \<Rightarrow> db \<Rightarrow> db option" where
  "stmt8 o_id d_id w_id ol_number ol_i_id ol_supply_w_id ol_quantity ol_amount ol_dist_info d =
     map_option (\<lambda>t. d\<lparr>order_lines := t\<rparr>)
       (ins pk_order_line \<lparr>OL_O_ID = o_id, OL_D_ID = d_id, OL_W_ID = w_id, OL_NUMBER = ol_number,
          OL_I_ID = ol_i_id, OL_SUPPLY_W_ID = ol_supply_w_id, OL_DELIVERY_D = None,
          OL_QUANTITY = ol_quantity, OL_AMOUNT = ol_amount, OL_DIST_INFO = ol_dist_info\<rparr> (order_lines d))"

definition stmt9 :: "(int \<Rightarrow> int) \<Rightarrow> int \<Rightarrow> db \<Rightarrow> db option" where
  "stmt9 add w_id d =
     Some (d\<lparr>warehouses := upd (\<lambda>r. W_ID r = w_id) (\<lambda>r. r\<lparr>W_YTD := add (W_YTD r)\<rparr>) (warehouses d)\<rparr>)"

definition stmt10 :: "int \<Rightarrow> db \<Rightarrow> string list" where
  "stmt10 w_id d = [W_NAME r. r \<leftarrow> warehouses d, W_ID r = w_id]"

definition stmt11 :: "(int \<Rightarrow> int) \<Rightarrow> int \<Rightarrow> int \<Rightarrow> db \<Rightarrow> db option" where
  "stmt11 add w_id d_id d =
     Some (d\<lparr>districts := upd (\<lambda>r. D_W_ID r = w_id \<and> D_ID r = d_id) (\<lambda>r. r\<lparr>D_YTD := add (D_YTD r)\<rparr>) (districts d)\<rparr>)"

definition stmt12 :: "int \<Rightarrow> int \<Rightarrow> db \<Rightarrow> string list" where
  "stmt12 w_id d_id d = [D_NAME r. r \<leftarrow> districts d, D_W_ID r = w_id \<and> D_ID r = d_id]"

definition stmt13 :: "int \<Rightarrow> int \<Rightarrow> string \<Rightarrow> db \<Rightarrow> nat list" where
  "stmt13 c_w_id c_d_id c_last d =
     [length (filter (\<lambda>r. C_W_ID r = c_w_id \<and> C_D_ID r = c_d_id \<and> C_LAST r = c_last) (customers d))]"

definition stmt14 :: "(customer list \<Rightarrow> customer list) \<Rightarrow> int \<Rightarrow> int \<Rightarrow> string \<Rightarrow> db \<Rightarrow> int list" where
  "stmt14 ord c_w_id c_d_id c_last d =
     map C_ID (ord (filter (\<lambda>r. C_W_ID r = c_w_id \<and> C_D_ID r = c_d_id \<and> C_LAST r = c_last) (customers d)))"

definition stmt15 :: "int \<Rightarrow> int \<Rightarrow> int \<Rightarrow> db \<Rightarrow> (string \<times> int) list" where
  "stmt15 c_w_id c_d_id c_id d =
     [(C_CREDIT r, C_BALANCE r). r \<leftarrow> customers d, C_W_ID r = c_w_id \<and> C_D_ID r = c_d_id \<and> C_ID r = c_id]"

definition stmt16 :: "int \<Rightarrow> int \<Rightarrow> int \<Rightarrow> db \<Rightarrow> string list" where
  "stmt16 c_w_id c_d_id c_id d =
     [C_DATA r. r \<leftarrow> customers d, C_W_ID r = c_w_id \<and> C_D_ID r = c_d_id \<and> C_ID r = c_id]"

definition stmt17 :: "int \<Rightarrow> string \<Rightarrow> int \<Rightarrow> int \<Rightarrow> int \<Rightarrow> db \<Rightarrow> db option" where
  "stmt17 c_balance c_data c_w_id c_d_id c_id d =
     Some (d\<lparr>customers := upd (\<lambda>r. C_W_ID r = c_w_id \<and> C_D_ID r = c_d_id \<and> C_ID r = c_id)
                (\<lambda>r. r\<lparr>C_BALANCE := c_balance, C_DATA := c_data\<rparr>) (customers d)\<rparr>)"

definition stmt18 :: "int \<Rightarrow> int \<Rightarrow> int \<Rightarrow> int \<Rightarrow> db \<Rightarrow> db option" where
  "stmt18 c_balance c_w_id c_d_id c_id d =
     Some (d\<lparr>customers := upd (\<lambda>r. C_W_ID r = c_w_id \<and> C_D_ID r = c_d_id \<and> C_ID r = c_id)
                (\<lambda>r. r\<lparr>C_BALANCE := c_balance\<rparr>) (customers d)\<rparr>)"

definition stmt19 :: "int \<Rightarrow> int \<Rightarrow> int \<Rightarrow> int \<Rightarrow> int \<Rightarrow> string \<Rightarrow> int \<Rightarrow> string \<Rightarrow> db \<Rightarrow> db option" where
  "stmt19 c_d_id c_w_id c_id d_id w_id datetime h_amount h_data d =
     Some (d\<lparr>histories := histories d @
       [\<lparr>H_C_ID = c_id, H_C_D_ID = c_d_id, H_C_W_ID = c_w_id, H_D_ID = d_id, H_W_ID = w_id,
         H_DATE = datetime, H_AMOUNT = h_amount, H_DATA = h_data\<rparr>]\<rparr>)"

definition stmt21 :: "(customer list \<Rightarrow> customer list) \<Rightarrow> int \<Rightarrow> int \<Rightarrow> string \<Rightarrow> db \<Rightarrow> (int \<times> string \<times> string) list" where
  "stmt21 ord c_w_id c_d_id c_last d =
     map (\<lambda>r. (C_BALANCE r, C_FIRST r, C_LAST r))
       (ord (filter (\<lambda>r. C_W_ID r = c_w_id \<and> C_D_ID r = c_d_id \<and> C_LAST r = c_last) (customers d)))"

definition stmt22 :: "int \<Rightarrow> int \<Rightarrow> int \<Rightarrow> db \<Rightarrow> (int \<times> string \<times> string) list" where
  "stmt22 c_w_id c_d_id c_id d =
     [(C_BALANCE r, C_FIRST r, C_LAST r). r \<leftarrow> customers d, C_W_ID r = c_w_id \<and> C_D_ID r = c_d_id \<and> C_ID r = c_id]"

definition stmt23 :: "int \<Rightarrow> int \<Rightarrow> int \<Rightarrow> db \<Rightarrow> (int \<times> string \<times> int) list" where
  "stmt23 c_w_id c_d_id c_id d =
     (let mine = filter (\<lambda>r. O_W_ID r = c_w_id \<and> O_D_ID r = c_d_id \<and> O_C_ID r = c_id) (orders d)
      in [(O_ID r, O_ENTRY_D r, case O_CARRIER_ID r of None \<Rightarrow> 0 | Some i \<Rightarrow> i).
            r \<leftarrow> mine, O_ID r = Max (set (map O_ID mine))])"

definition stmt24 :: "int \<Rightarrow> int \<Rightarrow> int \<Rightarrow> db \<Rightarrow> (int \<times> int \<times> int \<times> int \<times> string option) list" where
  "stmt24 c_w_id c_d_id o_id d =
     [(OL_I_ID r, OL_SUPPLY_W_ID r, OL_QUANTITY r, OL_AMOUNT r, OL_DELIVERY_D r).
        r \<leftarrow> order_lines d, OL_W_ID r = c_w_id \<and> OL_D_ID r = c_d_id \<and> OL_O_ID r = o_id]"

definition stmt25 :: "int \<Rightarrow> int \<Rightarrow> db \<Rightarrow> int list" where
  "stmt25 d_id w_id d =
     (let ids = [NO_O_ID r. r \<leftarrow> new_orders d, NO_D_ID r = d_id \<and> NO_W_ID r = w_id]
      in [if ids = [] then 0 else Min (set ids)])"

definition stmt26 :: "int \<Rightarrow> int \<Rightarrow> int \<Rightarrow> db \<Rightarrow> db option" where
  "stmt26 no_o_id d_id w_id d =
     Some (d\<lparr>new_orders := filter (\<lambda>r. \<not> (NO_O_ID r = no_o_id \<and> NO_D_ID r = d_id \<and> NO_W_ID r = w_id)) (new_orders d)\<rparr>)"

definition stmt27 :: "int \<Rightarrow> int \<Rightarrow> int \<Rightarrow> db \<Rightarrow> int list" where
  "stmt27 no_o_id d_id w_id d =
     [O_C_ID r. r \<leftarrow> orders d, O_ID r = no_o_id \<and> O_D_ID r = d_id \<and> O_W_ID r = w_id]"

definition stmt28 :: "int \<Rightarrow> int \<Rightarrow> int \<Rightarrow> int \<Rightarrow> db \<Rightarrow> db option" where
  "stmt28 o_carrier_id no_o_id d_id w_id d =
     Some (d\<lparr>orders := upd (\<lambda>r. O_ID r = no_o_id \<and> O_D_ID r = d_id \<and> O_W_ID r = w_id)
                (\<lambda>r. r\<lparr>O_CARRIER_ID := Some o_carrier_id\<rparr>) (orders d)\<rparr>)"

definition stmt29 :: "string \<Rightarrow> int \<Rightarrow> int \<Rightarrow> int \<Rightarrow> db \<Rightarrow> db option" where
  "stmt29 datetime no_o_id d_id w_id d =
     Some (d\<lparr>order_lines := upd (\<lambda>r. OL_O_ID r = no_o_id \<and> OL_D_ID r = d_id \<and> OL_W_ID r = w_id)
                (\<lambda>r. r\<lparr>OL_DELIVERY_D := Some datetime\<rparr>) (order_lines d)\<rparr>)"

text \<open>The sum over no row is NULL, which leaves the bound variable as it was.\<close>

definition stmt30 :: "int \<Rightarrow> int \<Rightarrow> int \<Rightarrow> db \<Rightarrow> int option list" where
  "stmt30 no_o_id d_id w_id d =
     (let ls = filter (\<lambda>r. OL_O_ID r = no_o_id \<and> OL_D_ID r = d_id \<and> OL_W_ID r = w_id) (order_lines d)
      in [if ls = [] then None else Some (sum_list (map OL_AMOUNT ls))])"

definition stmt31 :: "(int \<Rightarrow> int) \<Rightarrow> int \<Rightarrow> int \<Rightarrow> int \<Rightarrow> db \<Rightarrow> db option" where
  "stmt31 add c_id d_id w_id d =
     Some (d\<lparr>customers := upd (\<lambda>r. C_ID r = c_id \<and> C_D_ID r = d_id \<and> C_W_ID r = w_id)
                (\<lambda>r. r\<lparr>C_BALANCE := add (C_BALANCE r), C_DELIVERY_CNT := C_DELIVERY_CNT r + 1\<rparr>) (customers d)\<rparr>)"

definition stmt32 :: "int \<Rightarrow> int \<Rightarrow> db \<Rightarrow> int list" where
  "stmt32 d_id w_id d = [D_NEXT_O_ID r. r \<leftarrow> districts d, D_ID r = d_id \<and> D_W_ID r = w_id]"

definition stmt33 :: "int \<Rightarrow> int \<Rightarrow> int \<Rightarrow> db \<Rightarrow> int list" where
  "stmt33 w_id d_id d_next_o_id d =
     remdups [OL_I_ID r. r \<leftarrow> order_lines d, OL_W_ID r = w_id \<and> OL_D_ID r = d_id \<and>
                OL_O_ID r < d_next_o_id \<and> OL_O_ID r \<ge> d_next_o_id - 20]"

definition stmt34 :: "int \<Rightarrow> int \<Rightarrow> int \<Rightarrow> db \<Rightarrow> nat list" where
  "stmt34 w_id ol_i_id level d =
     [length (filter (\<lambda>r. S_W_ID r = w_id \<and> S_I_ID r = ol_i_id \<and> S_QUANTITY r < level) (stocks d))]"

section \<open>Connection\<close>

text \<open>
  A connection with autocommit off: the committed database, the one the open transaction works
  on, and the number of calls made of the client library. A call returns 0 for success; a fetch
  that returns 101 (\<open>MYSQL_DATA_TRUNCATED\<close>) still delivers the row, and a fetch past the last
  row returns 100 (\<open>MYSQL_NO_DATA\<close>).
\<close>

record conn =
  committed :: db
  working :: db
  api_calls :: nat

record mysql_lib =
  code :: "nat \<Rightarrow> nat"
  applied :: "nat \<Rightarrow> bool"

datatype tx_error = SqlErr | InvalidItem

type_synonym 'a tx = "mysql_lib \<Rightarrow> conn \<Rightarrow> (tx_error + 'a) \<times> conn"

definition MYSQL_DATA_TRUNCATED :: nat where "MYSQL_DATA_TRUNCATED = 101"

definition tx_return :: "'a \<Rightarrow> 'a tx" where "tx_return x e c = (Inr x, c)"

definition tx_fail :: "tx_error \<Rightarrow> 'a tx" where "tx_fail x e c = (Inl x, c)"

definition tx_bind :: "'a tx \<Rightarrow> ('a \<Rightarrow> 'b tx) \<Rightarrow> 'b tx" where
  "tx_bind m f e c = (case m e c of (Inl x, c1) \<Rightarrow> (Inl x, c1) | (Inr v, c1) \<Rightarrow> f v e c1)"

text \<open>One call of the library, jumping to \<open>sqlerr\<close> when it does not return 0.\<close>

definition call :: "unit tx" where
  "call e c = (if code e (api_calls c) = 0 then Inr () else Inl SqlErr, c\<lparr>api_calls := Suc (api_calls c)\<rparr>)"

definition bind_param :: "unit tx" where "bind_param = call"
definition store_result :: "unit tx" where "store_result = call"
definition bind_result :: "unit tx" where "bind_result = call"

text \<open>Executing a statement that changes the database.\<close>

definition execute_update :: "(db \<Rightarrow> db option) \<Rightarrow> unit tx" where
  "execute_update f e c =
     (case call e c of
        (Inl x, c1) \<Rightarrow> (Inl x, c1)
      | (Inr _, c1) \<Rightarrow>
          (case f (working c1) of None \<Rightarrow> (Inl SqlErr, c1) | Some d \<Rightarrow> (Inr (), c1\<lparr>working := d\<rparr>)))"

definition run_update :: "(db \<Rightarrow> db option) \<Rightarrow> unit tx" where
  "run_update f = tx_bind bind_param (\<lambda>_. execute_update f)"

definition query :: "(db \<Rightarrow> 'r list) \<Rightarrow> 'r list tx" where
  "query q =
     tx_bind bind_param (\<lambda>_. tx_bind call (\<lambda>_. tx_bind store_result (\<lambda>_. tx_bind bind_result (\<lambda>_.
       (\<lambda>e c. (Inr (q (working c)), c))))))"

text \<open>
  One fetch from the stored rows: the next row, or None when there is none left. Whether a
  truncated row is accepted depends on the cases of the switch.
\<close>

definition fetch :: "bool \<Rightarrow> 'r list \<Rightarrow> ('r \<times> 'r list) option tx" where
  "fetch trunc_ok rows e c =
     (let k = code e (api_calls c); c1 = c\<lparr>api_calls := Suc (api_calls c)\<rparr>
      in if k = 0 \<or> k = MYSQL_DATA_TRUNCATED
         then (case rows of
                 [] \<Rightarrow> (Inr None, c1)
               | r # rs \<Rightarrow> (if k = 0 \<or> trunc_ok then Inr (Some (r, rs)) else Inl SqlErr, c1))
         else (Inl SqlErr, c1))"

text \<open>A SELECT of which one row is fetched; \<open>miss\<close> is where the code goes when there is none.\<close>

definition select_row :: "bool \<Rightarrow> tx_error \<Rightarrow> (db \<Rightarrow> 'r list) \<Rightarrow> 'r tx" where
  "select_row trunc_ok miss q =
     tx_bind (query q) (\<lambda>rows. tx_bind (fetch trunc_ok rows) (\<lambda>x.
       case x of None \<Rightarrow> tx_fail miss | Some (r, _) \<Rightarrow> tx_return r))"

definition commit :: "unit tx" where
  "commit e c =
     (let k = api_calls c; c1 = c\<lparr>api_calls := Suc k\<rparr>
      in if code e k = 0 then (Inr (), c1\<lparr>committed := working c\<rparr>)
         else (Inl SqlErr, if applied e k then c1\<lparr>committed := working c\<rparr> else c1))"

definition rollback :: "conn \<Rightarrow> conn" where
  "rollback c = c\<lparr>working := committed c, api_calls := Suc (api_calls c)\<rparr>"

text \<open>
  The end of a transaction: 1 after a commit and for an invalid item, 0 after an error; both
  error labels roll back.
\<close>

definition run_tx :: "unit tx \<Rightarrow> mysql_lib \<Rightarrow> conn \<Rightarrow> int \<times> conn" where
  "run_tx m e c =
     (case m e c of
        (Inr _, c1) \<Rightarrow> (1, c1)
      | (Inl InvalidItem, c1) \<Rightarrow> (1, rollback c1)
      | (Inl SqlErr, c1) \<Rightarrow> (0, rollback c1))"

section \<open>Pure effect of a transaction\<close>

text \<open>
  The effect on the database alone: an error, or a value and the new database. A transaction
  refines it when, whatever the client library returns, it leaves the committed database alone
  until its commit, and either fails at \<open>sqlerr\<close> or does what the pure function does; with a
  library whose calls all succeed it does exactly that.
\<close>

type_synonym 'a pure = "db \<Rightarrow> tx_error + 'a \<times> db"

definition p_return :: "'a \<Rightarrow> 'a pure" where "p_return v d = Inr (v, d)"

definition p_fail :: "tx_error \<Rightarrow> 'a pure" where "p_fail x d = Inl x"

definition p_bind :: "'a pure \<Rightarrow> ('a \<Rightarrow> 'b pure) \<Rightarrow> 'b pure" where
  "p_bind p g d = (case p d of Inl x \<Rightarrow> Inl x | Inr (v, d1) \<Rightarrow> g v d1)"

definition p_update :: "(db \<Rightarrow> db option) \<Rightarrow> unit pure" where
  "p_update f d = (case f d of None \<Rightarrow> Inl SqlErr | Some d1 \<Rightarrow> Inr ((), d1))"

definition p_query :: "(db \<Rightarrow> 'r list) \<Rightarrow> 'r list pure" where "p_query q d = Inr (q d, d)"

definition p_select :: "tx_error \<Rightarrow> (db \<Rightarrow> 'r list) \<Rightarrow> 'r pure" where
  "p_select miss q d = (case q d of [] \<Rightarrow> Inl miss | r # _ \<Rightarrow> Inr (r, d))"

definition reliable :: "mysql_lib \<Rightarrow> bool" where "reliable e \<longleftrightarrow> (\<forall>k. code e k = 0)"

definition tx_refines :: "'a tx \<Rightarrow> 'a pure \<Rightarrow> bool" where
  "tx_refines m p \<longleftrightarrow>
     (\<forall>e c r c'. m e c = (r, c') \<longrightarrow>
        committed c' = committed c \<and>
        (case p (working c) of
           Inl x \<Rightarrow> r = Inl x \<or> r = Inl SqlErr
         | Inr (v, d) \<Rightarrow> r = Inl SqlErr \<or> r = Inr v \<and> working c' = d) \<and>
        (reliable e \<longrightarrow> r = Inl SqlErr \<longrightarrow> p (working c) = Inl SqlErr))"

named_theorems refine "transactions refine their pure effects"

lemma tx_refinesI:
  assumes "\<And>e c r c'. m e c = (r, c') \<Longrightarrow> committed c' = committed c"
    and "\<And>e c r c' x. m e c = (r, c') \<Longrightarrow> p (working c) = Inl x \<Longrightarrow> r = Inl x \<or> r = Inl SqlErr"
    and "\<And>e c r c' v d. m e c = (r, c') \<Longrightarrow> p (working c) = Inr (v, d) \<Longrightarrow>
           r = Inl SqlErr \<or> r = Inr v \<and> working c' = d"
    and "\<And>e c c'. m e c = (Inl SqlErr, c') \<Longrightarrow> reliable e \<Longrightarrow> p (working c) = Inl SqlErr"
  shows "tx_refines m p"
  unfolding tx_refines_def using assms by (auto split: sum.splits prod.splits)

lemma tx_refinesD:
  assumes "tx_refines m p" "m e c = (r, c')"
  shows "committed c' = committed c"
    and "p (working c) = Inl x \<Longrightarrow> r = Inl x \<or> r = Inl SqlErr"
    and "p (working c) = Inr (v, d) \<Longrightarrow> r = Inl SqlErr \<or> r = Inr v \<and> working c' = d"
    and "reliable e \<Longrightarrow> r = Inl SqlErr \<Longrightarrow> p (working c) = Inl SqlErr"
  using assms unfolding tx_refines_def by (force split: sum.splits)+

lemma refine_return [refine]: "tx_refines (tx_return v) (p_return v)"
  by (rule tx_refinesI) (auto simp: tx_return_def p_return_def)

lemma refine_fail [refine]: "tx_refines (tx_fail x) (p_fail x)"
  by (rule tx_refinesI) (auto simp: tx_fail_def p_fail_def)

lemma refine_bind [refine]:
  assumes m: "tx_refines m p" and f: "\<And>v. tx_refines (f v) (g v)"
  shows "tx_refines (tx_bind m f) (p_bind p g)"
  unfolding tx_refines_def
proof (intro allI impI)
  fix e c r c' assume b: "tx_bind m f e c = (r, c')"
  obtain r1 c1 where 1: "m e c = (r1, c1)" by fastforce
  note D = tx_refinesD [OF m 1]
  show "committed c' = committed c \<and>
        (case p_bind p g (working c) of
           Inl x \<Rightarrow> r = Inl x \<or> r = Inl SqlErr
         | Inr (v, d) \<Rightarrow> r = Inl SqlErr \<or> r = Inr v \<and> working c' = d) \<and>
        (reliable e \<longrightarrow> r = Inl SqlErr \<longrightarrow> p_bind p g (working c) = Inl SqlErr)"
  proof (cases r1)
    case (Inl x)
    then have "r = Inl x" "c' = c1" using b 1 by (auto simp: tx_bind_def)
    then show ?thesis using D Inl by (cases "p (working c)") (auto simp: p_bind_def split: prod.splits sum.splits)
  next
    case (Inr v)
    then have 2: "f v e c1 = (r, c')" using b 1 by (simp add: tx_bind_def)
    have p: "p (working c) = Inr (v, working c1)"
    proof (cases "p (working c)")
      case (Inl x)
      then show ?thesis using D(2) [OF Inl] Inr by simp
    next
      case (Inr q)
      then show ?thesis using D(3) [of "fst q" "snd q"] \<open>r1 = Inr v\<close> by (cases q) auto
    qed
    then have "p_bind p g (working c) = g v (working c1)" by (simp add: p_bind_def)
    then show ?thesis using tx_refinesD [OF f 2] D(1) by (auto split: sum.splits)
  qed
qed

lemma refine_call: "tx_refines call (p_return ())"
  by (rule tx_refinesI) (auto simp: call_def p_return_def reliable_def split: if_splits)

lemma refine_execute: "tx_refines (execute_update f) (p_update f)"
  by (rule tx_refinesI)
    (auto simp: execute_update_def call_def p_update_def reliable_def split: if_splits option.splits sum.splits prod.splits)

lemma p_bind_return [simp]: "p_bind (p_return v) g = g v"
  by (simp add: fun_eq_iff p_bind_def p_return_def)

lemma refine_run_update [refine]: "tx_refines (run_update f) (p_update f)"
  using refine_bind [OF refine_call, of "\<lambda>_. execute_update f" "\<lambda>_. p_update f"] refine_execute
  by (simp add: run_update_def bind_param_def)

lemma refine_query [refine]: "tx_refines (query q) (p_query q)"
proof -
  have "tx_refines (\<lambda>e c. (Inr (q (working c)), c)) (p_query q)"
    by (rule tx_refinesI) (auto simp: p_query_def)
  then have "tx_refines (query q) (p_bind (p_return ()) (\<lambda>_. p_bind (p_return ()) (\<lambda>_.
      p_bind (p_return ()) (\<lambda>_. p_bind (p_return ()) (\<lambda>_. p_query q)))))"
    unfolding query_def bind_param_def store_result_def bind_result_def
    by (intro refine_bind refine_call)
  then show ?thesis by simp
qed

lemma refine_fetch [refine]:
  "tx_refines (fetch t rows) (p_return (case rows of [] \<Rightarrow> None | r # rs \<Rightarrow> Some (r, rs)))"
  by (rule tx_refinesI)
    (auto simp: fetch_def p_return_def reliable_def Let_def split: list.splits if_splits)

lemma refine_select_row [refine]: "tx_refines (select_row t miss q) (p_select miss q)"
proof -
  have "tx_refines (select_row t miss q) (p_bind (p_query q) (\<lambda>rows.
      p_bind (p_return (case rows of [] \<Rightarrow> None | r # rs \<Rightarrow> Some (r, rs))) (\<lambda>x.
        case x of None \<Rightarrow> p_fail miss | Some (r, _) \<Rightarrow> p_return r)))"
    unfolding select_row_def by (intro refine_bind refine) (auto split: option.splits intro: refine)
  moreover have "p_bind (p_query q) (\<lambda>rows.
      p_bind (p_return (case rows of [] \<Rightarrow> None | r # rs \<Rightarrow> Some (r, rs))) (\<lambda>x.
        case x of None \<Rightarrow> p_fail miss | Some (r, _) \<Rightarrow> p_return r)) = p_select miss q"
    by (auto simp: fun_eq_iff p_bind_def p_query_def p_return_def p_fail_def p_select_def split: list.splits)
  ultimately show ?thesis by simp
qed

lemma refine_if [refine]:
  "(b \<Longrightarrow> tx_refines m p) \<Longrightarrow> (\<not> b \<Longrightarrow> tx_refines n q) \<Longrightarrow>
   tx_refines (if b then m else n) (if b then p else q)"
  by simp

lemma refine_prod [refine]:
  "(\<And>a b. tx_refines (f a b) (g a b)) \<Longrightarrow> tx_refines (case x of (a, b) \<Rightarrow> f a b) (case x of (a, b) \<Rightarrow> g a b)"
  by (simp split: prod.split)

lemma refine_cong: "tx_refines m p \<Longrightarrow> (\<And>d. p d = q d) \<Longrightarrow> tx_refines m q"
  by (simp add: tx_refines_def)

lemma refine_option [refine]:
  "tx_refines m p \<Longrightarrow> (\<And>v. tx_refines (f v) (g v)) \<Longrightarrow>
   tx_refines (case x of None \<Rightarrow> m | Some v \<Rightarrow> f v) (case x of None \<Rightarrow> p | Some v \<Rightarrow> g v)"
  by (simp split: option.split)

section \<open>Transactions as all or nothing\<close>

text \<open>
  The contract of a transaction body: it refines a pure effect. What the body followed by a
  commit does to the database is shown once here.
\<close>

locale tx_body =
  fixes body :: "'x \<Rightarrow> unit tx" and eff :: "'x \<Rightarrow> unit pure"
  assumes refines: "tx_refines (body x) (eff x)"
begin

text \<open>
  Afterwards the connection has nothing open; the database is as before, or has the whole
  effect; the answer 1 means the effect is there, or the item was invalid and nothing changed.
\<close>

lemma all_or_nothing:
  assumes idle: "working c = committed c" and run: "run_tx (tx_bind (body x) (\<lambda>_. commit)) e c = (ret, c')"
  shows "working c' = committed c'"
    and "committed c' = committed c \<or> eff x (committed c) = Inr ((), committed c')"
    and "ret = 1 \<Longrightarrow> eff x (committed c) = Inr ((), committed c') \<or>
           eff x (committed c) = Inl InvalidItem \<and> committed c' = committed c"
    and "ret = 0 \<or> ret = 1"
    and "reliable e \<Longrightarrow> case eff x (committed c) of
           Inr (_, d) \<Rightarrow> ret = 1 \<and> committed c' = d
         | Inl InvalidItem \<Rightarrow> ret = 1 \<and> committed c' = committed c
         | Inl SqlErr \<Rightarrow> ret = 0 \<and> committed c' = committed c"
proof -
  obtain r c1 where 1: "body x e c = (r, c1)" by fastforce
  note D = tx_refinesD [OF refines 1, unfolded idle]
  have "working c' = committed c' \<and>
    (committed c' = committed c \<or> eff x (committed c) = Inr ((), committed c')) \<and>
    (ret = 1 \<longrightarrow> eff x (committed c) = Inr ((), committed c') \<or>
       eff x (committed c) = Inl InvalidItem \<and> committed c' = committed c) \<and>
    (ret = 0 \<or> ret = 1) \<and>
    (reliable e \<longrightarrow> (case eff x (committed c) of
           Inr (_, d) \<Rightarrow> ret = 1 \<and> committed c' = d
         | Inl InvalidItem \<Rightarrow> ret = 1 \<and> committed c' = committed c
         | Inl SqlErr \<Rightarrow> ret = 0 \<and> committed c' = committed c))"
  proof (cases r)
    case (Inl y)
    then have t: "tx_bind (body x) (\<lambda>_. commit) e c = (Inl y, c1)" using 1 by (simp add: tx_bind_def)
    have "ret = (if y = InvalidItem then 1 else 0)" "c' = rollback c1"
      using run t by (auto simp: run_tx_def split: tx_error.splits)
    then show ?thesis using D Inl
      by (cases "eff x (committed c)"; cases y) (auto simp: rollback_def split: tx_error.splits)
  next
    case (Inr u)
    have e: "eff x (committed c) = Inr ((), working c1)"
    proof (cases "eff x (committed c)")
      case (Inl y)
      then show ?thesis using D(2) [OF Inl] Inr by simp
    next
      case (Inr q)
      then show ?thesis using D(3) [of "fst q" "snd q"] \<open>r = Inr u\<close> by (cases q) auto
    qed
    have "run_tx (tx_bind (body x) (\<lambda>_. commit)) e c = (case commit e c1 of (Inr _, c2) \<Rightarrow> (1, c2) | (Inl _, c2) \<Rightarrow> (0, rollback c2))"
      using 1 Inr by (auto simp: run_tx_def tx_bind_def commit_def Let_def)
    then show ?thesis using e run D(1)
      by (auto simp: commit_def Let_def rollback_def reliable_def split: if_splits)
  qed
  then show "working c' = committed c'"
    "committed c' = committed c \<or> eff x (committed c) = Inr ((), committed c')"
    "ret = 1 \<Longrightarrow> eff x (committed c) = Inr ((), committed c') \<or>
       eff x (committed c) = Inl InvalidItem \<and> committed c' = committed c"
    "ret = 0 \<or> ret = 1"
    "reliable e \<Longrightarrow> case eff x (committed c) of
           Inr (_, d) \<Rightarrow> ret = 1 \<and> committed c' = d
         | Inl InvalidItem \<Rightarrow> ret = 1 \<and> committed c' = committed c
         | Inl SqlErr \<Rightarrow> ret = 0 \<and> committed c' = committed c"
    by blast+
qed

text \<open>What the effect preserves, the transaction preserves.\<close>

lemma preserves:
  assumes "working c = committed c" and "run_tx (tx_bind (body x) (\<lambda>_. commit)) e c = (ret, c')" and "P (committed c)"
    and "\<And>d d'. P d \<Longrightarrow> eff x d = Inr ((), d') \<Longrightarrow> P d'"
  shows "P (committed c')"
  using all_or_nothing(2) [OF assms(1,2)] assms(3,4) by metis

end

end
