(* ===== verification/TpccSupport.thy ===== *)
theory TpccSupport
  imports Prelude
begin

text \<open>
  The support routines of the TPC-C load generator (app/tpcc-mysql/src): the random numbers of
  support.c, the shuffled sequence of transactions of sequence.c, the response time histogram of
  rthist.c, the percentile counters of sb_percentile.c and the host parser of parse_port.h.

  The answers of \<open>rand()\<close> are a function of how often it was called; a routine takes the number
  of calls made so far and returns the new one. What an uninitialised variable holds is a
  function of the same number.
\<close>

section \<open>Sizes (tpc.h)\<close>

definition MAXITEMS :: int where "MAXITEMS = 100000"
definition CUST_PER_DIST :: int where "CUST_PER_DIST = 3000"
definition DIST_PER_WARE :: int where "DIST_PER_WARE = 10"
definition ORD_PER_DIST :: nat where "ORD_PER_DIST = 3000"

lemmas tpc_sizes = MAXITEMS_def CUST_PER_DIST_def DIST_PER_WARE_def ORD_PER_DIST_def

section \<open>Random numbers (support.c)\<close>

type_synonym rand = "nat \<Rightarrow> nat"

text \<open>
  C's remainder of a non-negative number by a negative one is non-negative. A range with
  \<open>max = min - 1\<close> divides by zero; only the choice of a warehouse can ask for one, and checks
  for it where it is modelled.
\<close>

definition RandomNumber :: "rand \<Rightarrow> int \<Rightarrow> int \<Rightarrow> nat \<Rightarrow> int \<times> nat" where
  "RandomNumber r lo hi k = (lo + int (r k) mod \<bar>hi - lo + 1\<bar>, Suc k)"

text \<open>
  \<open>NURand\<close> has a static flag and three automatic variables, which only the first call sets:
  from the second call on they hold whatever \<open>junk\<close> says. The arithmetic is that of 32-bit
  unsigned numbers. The operands of the bitwise or are evaluated from left to right.
\<close>

record rng =
  calls :: nat
  first_call :: bool

definition rand_in :: "rand \<Rightarrow> int \<Rightarrow> int \<Rightarrow> rng \<Rightarrow> int \<times> rng" where
  "rand_in r lo hi g = (fst (RandomNumber r lo hi (calls g)), g\<lparr>calls := Suc (calls g)\<rparr>)"

definition nurand_consts :: "rand \<Rightarrow> (nat \<Rightarrow> nat) \<Rightarrow> rng \<Rightarrow> (int \<times> int \<times> int) \<times> rng" where
  "nurand_consts r junk g =
     (if first_call g
      then (let (c255, g1) = rand_in r 0 255 g;
                (c1023, g2) = rand_in r 0 1023 g1;
                (c8191, g3) = rand_in r 0 8191 g2
            in ((c255, c1023, c8191), g3\<lparr>first_call := False\<rparr>))
      else (let j = int (junk (calls g)) mod 2 ^ 32 in ((j, j, j), g)))"

definition NURand :: "rand \<Rightarrow> (nat \<Rightarrow> nat) \<Rightarrow> int \<Rightarrow> int \<Rightarrow> int \<Rightarrow> rng \<Rightarrow> int option \<times> rng" where
  "NURand r junk A x y g =
     (let ((c255, c1023, c8191), g0) = nurand_consts r junk g;
          C = (if A = 255 then Some c255 else if A = 1023 then Some c1023
               else if A = 8191 then Some c8191 else None)
      in case C of
           None \<Rightarrow> (None, g0)
         | Some c \<Rightarrow>
             let (a, g1) = rand_in r 0 A g0; (b, g2) = rand_in r x y g1
             in (Some ((((a OR b) + c) mod 2 ^ 32) mod (y - x + 1) + x), g2))"

definition alphanum :: string where
  "alphanum = ''0123456789ABCDEFGHIJKLMNOPQRSTUVWXYZabcdefghijklmnopqrstuvwxyz''"

definition numeric :: string where "numeric = ''0123456789''"

text \<open>The loop of the two string makers: the characters stored and the calls made.\<close>

fun make_chars :: "rand \<Rightarrow> string \<Rightarrow> int \<Rightarrow> nat \<Rightarrow> rng \<Rightarrow> string \<times> rng" where
  "make_chars r tbl arrmax 0 g = ([], g)"
| "make_chars r tbl arrmax (Suc n) g =
     (let (i, g1) = rand_in r 0 arrmax g; (s, g2) = make_chars r tbl arrmax n g1
      in (tbl ! nat i # s, g2))"

definition MakeAlphaString :: "rand \<Rightarrow> int \<Rightarrow> int \<Rightarrow> rng \<Rightarrow> string \<times> rng" where
  "MakeAlphaString r x y g =
     (let (len, g1) = rand_in r x y g in make_chars r alphanum 61 (nat len) g1)"

definition MakeNumberString :: "rand \<Rightarrow> int \<Rightarrow> int \<Rightarrow> rng \<Rightarrow> string \<times> rng" where
  "MakeNumberString r x y g =
     (let (len, g1) = rand_in r x y g in make_chars r numeric 9 (nat len) g1)"

section \<open>Customer permutation (support.c)\<close>

definition swap_int :: "nat \<Rightarrow> nat \<Rightarrow> 'a list \<Rightarrow> 'a list" where
  "swap_int i j xs = xs[i := xs ! j, j := xs ! i]"

record perm_state =
  nums :: "nat list"
  perm_count :: nat

text \<open>The shuffle exchanges entry \<open>i\<close> with one of the entries behind it, \<open>i + 1\<close> to \<open>n - 1\<close>.\<close>

function perm_shuffle :: "rand \<Rightarrow> nat \<Rightarrow> nat \<Rightarrow> nat list \<Rightarrow> rng \<Rightarrow> nat list \<times> rng" where
  "perm_shuffle r n i xs g =
     (if i + 1 < n
      then (let (j, g1) = rand_in r (int i + 1) (int n - 1) g
            in perm_shuffle r n (Suc i) (swap_int i (nat j) xs) g1)
      else (xs, g))"
  by pat_completeness auto
termination by (relation "measure (\<lambda>(r, n, i, xs, g). n - i)") auto

declare perm_shuffle.simps [simp del]

definition InitPermutation :: "rand \<Rightarrow> rng \<Rightarrow> perm_state \<times> rng" where
  "InitPermutation r g =
     (let (xs, g1) = perm_shuffle r ORD_PER_DIST 0 (map Suc [0..<ORD_PER_DIST]) g
      in (\<lparr>nums = xs, perm_count = 0\<rparr>, g1))"

definition GetPermutation :: "perm_state \<Rightarrow> (nat \<times> perm_state) option" where
  "GetPermutation p =
     (if perm_count p \<ge> ORD_PER_DIST then None
      else Some (nums p ! perm_count p, p\<lparr>perm_count := Suc (perm_count p)\<rparr>))"

section \<open>Last names (support.c)\<close>

definition syllables :: "string list" where
  "syllables = [''BAR'', ''OUGHT'', ''ABLE'', ''PRI'', ''PRES'',
                ''ESE'', ''ANTI'', ''CALLY'', ''ATION'', ''EING'']"

text \<open>None is a read outside the table of syllables.\<close>

definition Lastname :: "int \<Rightarrow> string option" where
  "Lastname num =
     (if 0 \<le> num \<and> num div 100 < 10
      then Some (syllables ! nat (num div 100) @ syllables ! nat (num div 10 mod 10) @
                 syllables ! nat (num mod 10))
      else None)"

section \<open>The shared sequence of transactions (sequence.c)\<close>

record seq_state =
  seq_no :: nat
  seq_py :: nat
  seq_os :: nat
  seq_dl :: nat
  seq_sl :: nat
  seq :: "nat list"
  next_num :: nat

definition seq_total :: "seq_state \<Rightarrow> nat" where
  "seq_total s = seq_no s + seq_py s + seq_os s + seq_dl s + seq_sl s"

definition seq_fill :: "seq_state \<Rightarrow> nat list" where
  "seq_fill s = replicate (seq_no s) 0 @ replicate (seq_py s) 1 @ replicate (seq_os s) 2 @
                replicate (seq_dl s) 3 @ replicate (seq_sl s) 4"

text \<open>The exchange loop runs with \<open>i\<close> going up and \<open>j\<close> going down to 1.\<close>

fun seq_mix :: "rand \<Rightarrow> nat \<Rightarrow> nat \<Rightarrow> nat list \<Rightarrow> nat \<Rightarrow> nat list \<times> nat" where
  "seq_mix r i 0 xs k = (xs, k)"
| "seq_mix r i (Suc j) xs k = seq_mix r (Suc i) j (swap_int i (r k mod (j + 2) + i) xs) (Suc k)"

definition shuffle_seq :: "rand \<Rightarrow> seq_state \<Rightarrow> nat \<Rightarrow> seq_state \<times> nat" where
  "shuffle_seq r s k =
     (let (xs, k1) = seq_mix r 0 (seq_total s - 1) (seq_fill s) k in (s\<lparr>seq := xs\<rparr>, k1))"

definition seq_init :: "rand \<Rightarrow> nat \<Rightarrow> nat \<Rightarrow> nat \<Rightarrow> nat \<Rightarrow> nat \<Rightarrow> nat \<Rightarrow> seq_state \<times> nat" where
  "seq_init r n p os d sl k =
     shuffle_seq r \<lparr>seq_no = n, seq_py = p, seq_os = os, seq_dl = d, seq_sl = sl, seq = [],
                    next_num = 0\<rparr> k"

definition seq_get :: "rand \<Rightarrow> seq_state \<Rightarrow> nat \<Rightarrow> nat \<times> seq_state \<times> nat" where
  "seq_get r s k =
     (let (s1, k1) = (if next_num s \<ge> seq_total s
                      then (let (s0, k0) = shuffle_seq r s k in (s0\<lparr>next_num := 0\<rparr>, k0))
                      else (s, k))
      in (seq s1 ! next_num s1, s1\<lparr>next_num := Suc (next_num s1)\<rparr>, k1))"

text \<open>
  The threads call \<open>seq_get\<close> one after the other under its mutex; between two calls they draw
  other random numbers. A run is given by how often \<open>rand\<close> was called before each call.
\<close>

fun seq_gets :: "rand \<Rightarrow> nat list \<Rightarrow> seq_state \<Rightarrow> nat list \<times> seq_state" where
  "seq_gets r [] s = ([], s)"
| "seq_gets r (k # ks) s =
     (let (t, s1, k1) = seq_get r s k; (ts, s2) = seq_gets r ks s1 in (t # ts, s2))"

section \<open>Ranges\<close>

lemma RandomNumber_range:
  assumes "lo \<le> hi"
  shows "lo \<le> fst (RandomNumber r lo hi k)" "fst (RandomNumber r lo hi k) \<le> hi"
  using assms pos_mod_sign [of "\<bar>hi - lo + 1\<bar>" "int (r k)"]
    pos_mod_bound [of "\<bar>hi - lo + 1\<bar>" "int (r k)"]
  by (auto simp: RandomNumber_def)

lemma rand_in_range:
  assumes "rand_in r lo hi g = (v, g')" and "lo \<le> hi"
  shows "lo \<le> v" "v \<le> hi"
  using assms RandomNumber_range [of lo hi r "calls g"] by (auto simp: rand_in_def)

lemma or_nonneg_int: "0 \<le> (a::int) \<Longrightarrow> 0 \<le> b \<Longrightarrow> 0 \<le> (a OR b)"
  by (simp add: or_nonnegative_int_iff)

text \<open>Whatever the constant is, set or not, the answer lies in the range asked for.\<close>

lemma NURand_returns:
  assumes "A \<in> {255, 1023, 8191}" and "0 \<le> x" "x \<le> y"
  shows "\<exists>v g'. NURand r junk A x y g = (Some v, g') \<and> x \<le> v \<and> v \<le> y"
proof -
  obtain c255 c1023 c8191 g0 where c: "nurand_consts r junk g = ((c255, c1023, c8191), g0)"
    by (metis surj_pair)
  obtain cc where cc: "(if A = 255 then Some c255 else if A = 1023 then Some c1023
      else if A = 8191 then Some c8191 else None) = Some cc"
    using assms(1) by auto
  obtain a g1 where a: "rand_in r 0 A g0 = (a, g1)" by fastforce
  obtain b g2 where b: "rand_in r x y g1 = (b, g2)" by fastforce
  let ?m = "((a OR b) + cc) mod 2 ^ 32 mod (y - x + 1)"
  have "0 \<le> ?m" "?m < y - x + 1"
    using assms pos_mod_bound [of "y - x + 1"] by simp_all
  then show ?thesis using c cc a b by (simp add: NURand_def Let_def)
qed

lemma make_chars_length: "length (fst (make_chars r t m n g)) = n"
  by (induction n arbitrary: g) (auto simp: Let_def split: prod.splits, metis fst_conv)

lemma make_chars_set:
  assumes "0 \<le> m" "nat m < length t"
  shows "set (fst (make_chars r t m n g)) \<subseteq> set t"
proof (induction n arbitrary: g)
  case (Suc n)
  obtain i g1 where i: "rand_in r 0 m g = (i, g1)" by fastforce
  have "nat i < length t" using rand_in_range [OF i] assms by linarith
  then show ?case using i Suc.IH [of g1] by (auto simp: Let_def split: prod.splits)
qed simp

lemma MakeAlphaString_length:
  assumes "0 \<le> x" "x \<le> y"
  shows "nat x \<le> length (fst (MakeAlphaString r x y g))"
    and "length (fst (MakeAlphaString r x y g)) \<le> nat y"
proof -
  obtain v g1 where v: "rand_in r x y g = (v, g1)" by fastforce
  show "nat x \<le> length (fst (MakeAlphaString r x y g))"
    "length (fst (MakeAlphaString r x y g)) \<le> nat y"
    using rand_in_range [OF v assms(2)] v by (simp_all add: MakeAlphaString_def make_chars_length)
qed

lemma MakeAlphaString_chars: "set (fst (MakeAlphaString r x y g)) \<subseteq> set alphanum"
  unfolding MakeAlphaString_def
  by (cases "rand_in r x y g") (simp add: make_chars_set alphanum_def del: set_simps)

section \<open>Exchanges\<close>

lemma length_swap_int [simp]: "length (swap_int i j xs) = length xs"
  by (simp add: swap_int_def)

lemma mset_swap_int: "i < length xs \<Longrightarrow> j < length xs \<Longrightarrow> mset (swap_int i j xs) = mset xs"
  unfolding swap_int_def using mset_swap [of j xs i] by simp

lemma nth_swap_int:
  "i < length xs \<Longrightarrow> j < length xs \<Longrightarrow> p < length xs \<Longrightarrow>
   swap_int i j xs ! p = (if p = j then xs ! i else if p = i then xs ! j else xs ! p)"
  by (auto simp: swap_int_def nth_list_update)

lemma perm_shuffle_step:
  assumes "i + 1 < n"
  obtains j g1 where "i < j" "j < n"
    "perm_shuffle r n i xs g = perm_shuffle r n (Suc i) (swap_int i j xs) g1"
proof -
  obtain v g1 where v: "rand_in r (int i + 1) (int n - 1) g = (v, g1)" by fastforce
  have "i < nat v" "nat v < n" using rand_in_range [OF v] assms by linarith+
  moreover have "perm_shuffle r n i xs g = perm_shuffle r n (Suc i) (swap_int i (nat v) xs) g1"
    using v assms by (subst perm_shuffle.simps) simp
  ultimately show thesis by (rule that)
qed

lemma perm_shuffle_mset:
  "length xs = n \<Longrightarrow> mset (fst (perm_shuffle r n i xs g)) = mset xs"
proof (induction "n - i" arbitrary: i xs g)
  case 0
  then show ?case by (simp add: perm_shuffle.simps)
next
  case (Suc d)
  show ?case
  proof (cases "i + 1 < n")
    case True
    then obtain j g1 where j: "i < j" "j < n"
      and e: "perm_shuffle r n i xs g = perm_shuffle r n (Suc i) (swap_int i j xs) g1"
      by (rule perm_shuffle_step)
    show ?thesis using Suc.hyps Suc.prems j e by (simp add: mset_swap_int)
  qed (simp add: perm_shuffle.simps)
qed

text \<open>
  Entry \<open>i\<close> is always exchanged with a later one: before round \<open>i\<close> an entry \<open>p \<ge> i\<close> still holds
  \<open>p + 1\<close> or a number from the part already done, so no entry ends where it began.
\<close>

definition shuffled_upto :: "nat \<Rightarrow> nat list \<Rightarrow> bool" where
  "shuffled_upto i xs \<longleftrightarrow>
     (\<forall>p < length xs. if p < i then xs ! p \<noteq> Suc p else xs ! p = Suc p \<or> xs ! p \<le> i)"

lemma shuffled_upto_step:
  assumes "shuffled_upto i xs" "i < j" "j < length xs"
  shows "shuffled_upto (Suc i) (swap_int i j xs)"
  unfolding shuffled_upto_def
proof (intro allI impI)
  fix p assume "p < length (swap_int i j xs)"
  then have p: "p < length xs" by simp
  have h: "if q < i then xs ! q \<noteq> Suc q else xs ! q = Suc q \<or> xs ! q \<le> i" if "q < length xs" for q
    using assms(1) that by (simp add: shuffled_upto_def)
  show "if p < Suc i then swap_int i j xs ! p \<noteq> Suc p
        else swap_int i j xs ! p = Suc p \<or> swap_int i j xs ! p \<le> Suc i"
    using h [OF p] h [of i] h [of j] assms(2,3) p by (auto simp: nth_swap_int split: if_splits)
qed

lemma perm_shuffle_moves:
  assumes "length xs = n" "i < n" "shuffled_upto i xs" "Suc i = n \<Longrightarrow> xs ! i \<noteq> n"
  shows "shuffled_upto n (fst (perm_shuffle r n i xs g))"
  using assms
proof (induction "n - i" arbitrary: i xs g)
  case 0
  then show ?case by simp
next
  case (Suc d)
  show ?case
  proof (cases "i + 1 < n")
    case True
    then obtain j g1 where j: "i < j" "j < n"
      and e: "perm_shuffle r n i xs g = perm_shuffle r n (Suc i) (swap_int i j xs) g1"
      by (rule perm_shuffle_step)
    have s: "shuffled_upto (Suc i) (swap_int i j xs)"
      using shuffled_upto_step Suc.prems j by simp
    have "xs ! i \<noteq> n" if "Suc (Suc i) = n"
      using Suc.prems(1,2) that spec [OF Suc.prems(3) [unfolded shuffled_upto_def], of i] by auto
    then have l: "swap_int i j xs ! Suc i \<noteq> n" if "Suc (Suc i) = n"
      using that j Suc.prems(1) by (auto simp: nth_swap_int)
    have "d = n - Suc i" using Suc.hyps(2) by simp
    then show ?thesis
      using Suc.hyps(1) [of "Suc i" "swap_int i j xs" g1] s l Suc.prems True e by simp
  next
    case False
    then have n: "n = Suc i" using Suc.prems(2) by simp
    have "xs ! p \<noteq> Suc p" if "p < length xs" for p
    proof (cases "p < i")
      case True
      then show ?thesis using Suc.prems(3) that by (simp add: shuffled_upto_def)
    next
      case False
      then show ?thesis using Suc.prems(1,4) that n by (simp add: less_Suc_eq)
    qed
    then show ?thesis using n Suc.prems(1) by (simp add: perm_shuffle.simps shuffled_upto_def)
  qed
qed

section \<open>The permutation of the customers\<close>

text \<open>The calls of \<open>GetPermutation\<close> in a row.\<close>

fun take_customers :: "nat \<Rightarrow> perm_state \<Rightarrow> (nat list \<times> perm_state) option" where
  "take_customers 0 p = Some ([], p)"
| "take_customers (Suc m) p =
     (case GetPermutation p of
        None \<Rightarrow> None
      | Some (c, p1) \<Rightarrow>
          (case take_customers m p1 of None \<Rightarrow> None | Some (cs, p2) \<Rightarrow> Some (c # cs, p2)))"

lemma take_customers_list:
  assumes "length (nums p) = ORD_PER_DIST" "perm_count p + m \<le> ORD_PER_DIST"
  shows "take_customers m p = Some (take m (drop (perm_count p) (nums p)), p\<lparr>perm_count := perm_count p + m\<rparr>)"
  using assms
proof (induction m arbitrary: p)
  case (Suc m)
  let ?p = "p\<lparr>perm_count := Suc (perm_count p)\<rparr>"
  have "take_customers m ?p = Some (take m (drop (Suc (perm_count p)) (nums p)), p\<lparr>perm_count := perm_count p + Suc m\<rparr>)"
    using Suc.IH [of ?p] Suc.prems by simp
  moreover have "drop (perm_count p) (nums p) = nums p ! perm_count p # drop (Suc (perm_count p)) (nums p)"
    using Suc.prems by (simp add: Cons_nth_drop_Suc)
  ultimately show ?case using Suc.prems by (simp add: GetPermutation_def)
qed simp

lemma InitPermutation_props:
  assumes "InitPermutation r g = (p, g')"
  shows "length (nums p) = ORD_PER_DIST" "perm_count p = 0"
    "mset (nums p) = mset (map Suc [0..<ORD_PER_DIST])" "shuffled_upto ORD_PER_DIST (nums p)"
proof -
  let ?l = "map Suc [0..<ORD_PER_DIST]"
  let ?x = "fst (perm_shuffle r ORD_PER_DIST 0 ?l g)"
  have p: "nums p = ?x" "perm_count p = 0"
    using assms by (auto simp: InitPermutation_def split: prod.splits)
  have m: "mset ?x = mset ?l" by (rule perm_shuffle_mset) simp
  have "shuffled_upto 0 ?l" by (simp add: shuffled_upto_def)
  then have "shuffled_upto ORD_PER_DIST ?x"
    by (intro perm_shuffle_moves) (simp_all add: ORD_PER_DIST_def)
  then show "length (nums p) = ORD_PER_DIST" "perm_count p = 0" "mset (nums p) = mset ?l"
    "shuffled_upto ORD_PER_DIST (nums p)"
    using p m mset_eq_length [OF m] by simp_all
qed

text \<open>
  C40: the permutation the loader draws the customers of a district's orders from: after
  \<open>InitPermutation\<close> the 3000 calls of \<open>GetPermutation\<close> answer every customer 1 to 3000 exactly
  once, the next call aborts, and customer \<open>i\<close> never gets order \<open>i\<close>.
\<close>

theorem customers_permuted:
  assumes "InitPermutation r g = (p, g')"
  shows "\<exists>cs p'. take_customers ORD_PER_DIST p = Some (cs, p') \<and> GetPermutation p' = None \<and>
           distinct cs \<and> set cs = {1..ORD_PER_DIST} \<and>
           (\<forall>i < ORD_PER_DIST. cs ! i \<noteq> i + 1)"
proof -
  note p = InitPermutation_props [OF assms]
  have t: "take_customers ORD_PER_DIST p = Some (nums p, p\<lparr>perm_count := ORD_PER_DIST\<rparr>)"
    using take_customers_list [of p ORD_PER_DIST] p by simp
  have s: "set (nums p) = {1..ORD_PER_DIST}"
    using arg_cong [OF p(3), of set_mset] image_Suc_atLeastLessThan [of 0 ORD_PER_DIST]
    by (auto simp: atLeastLessThanSuc_atLeastAtMost simp flip: One_nat_def)
  have "distinct (nums p)"
    using p(3) mset_eq_imp_distinct_iff [of "nums p" "map Suc [0..<ORD_PER_DIST]"]
    by (simp add: distinct_map)
  then show ?thesis using t s p(1,4) by (simp add: GetPermutation_def shuffled_upto_def)
qed

section \<open>Last names\<close>

lemma Lastname_defined: "Lastname num = None \<longleftrightarrow> num < 0 \<or> 1000 \<le> num"
  by (simp add: Lastname_def) linarith

definition prefix_free :: "string list \<Rightarrow> bool" where
  "prefix_free ws \<longleftrightarrow>
     (\<forall>i < length ws. \<forall>j < length ws. i \<noteq> j \<longrightarrow> take (length (ws ! i)) (ws ! j) \<noteq> ws ! i)"

lemma prefix_free_append:
  assumes "prefix_free ws" "i < length ws" "j < length ws" "ws ! i @ s = ws ! j @ t"
  shows "i = j \<and> s = t"
proof -
  have "i = j"
  proof (rule ccontr)
    assume "i \<noteq> j"
    then have "take (length (ws ! i)) (ws ! j) \<noteq> ws ! i" "take (length (ws ! j)) (ws ! i) \<noteq> ws ! j"
      using assms(1-3) by (simp_all add: prefix_free_def)
    moreover have "take (length (ws ! i)) (ws ! j) = ws ! i \<or> take (length (ws ! j)) (ws ! i) = ws ! j"
      using assms(4) by (metis append_eq_append_conv_if)
    ultimately show False by blast
  qed
  then show ?thesis using assms(4) by simp
qed

lemma length_syllables [simp]: "length syllables = 10"
  by (simp add: syllables_def)

lemma syllables_prefix_free: "prefix_free syllables"
  unfolding prefix_free_def syllables_def
  by (simp add: eval_nat_numeral All_less_Suc)

lemma syllable_length: "i < 10 \<Longrightarrow> length (syllables ! i) \<le> 5"
  by (simp add: syllables_def eval_nat_numeral less_Suc_eq nth_Cons split: nat.splits) auto


lemma decimal_digits: "k = 100 * (k div 100) + 10 * (k div 10 mod 10) + k mod 10" for k :: int
proof -
  have "k div 100 = k div 10 div 10" using zdiv_zmult2_eq [of 10 k 10] by simp
  then show ?thesis
    using mult_div_mod_eq [of 10 k] mult_div_mod_eq [of 10 "k div 10"] by linarith
qed

text \<open>
  The last names: every number below 1000 has one, of at most 15 characters, which fits the
  16 and 17 bytes of the callers, and different numbers have different names.
\<close>

theorem Lastname_injective:
  assumes "0 \<le> m" "m < 1000" "0 \<le> n" "n < 1000"
  shows "\<exists>s. Lastname m = Some s \<and> length s \<le> 15 \<and> (Lastname n = Some s \<longleftrightarrow> m = n)"
proof -
  define a b c where "a = nat (m div 100)" and "b = nat (m div 10 mod 10)" and "c = nat (m mod 10)"
  define a' b' c' where "a' = nat (n div 100)" and "b' = nat (n div 10 mod 10)" and "c' = nat (n mod 10)"
  note abc = a_def b_def c_def and abc' = a'_def b'_def c'_def
  have mn: "m div 100 < 10" "n div 100 < 10" using assms by presburger+
  then have r: "a < 10" "b < 10" "c < 10" "a' < 10" "b' < 10" "c' < 10"
    unfolding abc abc' by simp_all
  have l: "Lastname m = Some (syllables ! a @ syllables ! b @ syllables ! c)"
    "Lastname n = Some (syllables ! a' @ syllables ! b' @ syllables ! c')"
    using mn assms by (simp_all add: Lastname_def abc abc')
  have "m = n" if e: "syllables ! a @ syllables ! b @ syllables ! c =
                      syllables ! a' @ syllables ! b' @ syllables ! c'"
  proof -
    note pf = prefix_free_append [OF syllables_prefix_free, unfolded length_syllables]
    have 1: "a = a'" "syllables ! b @ syllables ! c = syllables ! b' @ syllables ! c'"
      using pf [OF r(1,4) e] by blast+
    have 2: "b = b'" "syllables ! c = syllables ! c'" using pf [OF r(2,5) 1(2)] by blast+
    have "c = c'" using 2(2) pf [OF r(3,6), of "[]" "[]"] by simp
    have "int a = m div 100" "int b = m div 10 mod 10" "int c = m mod 10"
      "int a' = n div 100" "int b' = n div 10 mod 10" "int c' = n mod 10"
      using assms(1,3) unfolding abc abc' by (simp_all add: pos_imp_zdiv_nonneg_iff)
    then show ?thesis
      using 1(1) 2(1) \<open>c = c'\<close> decimal_digits [of m] decimal_digits [of n] by metis
  qed
  moreover have "length (syllables ! a @ syllables ! b @ syllables ! c) \<le> 15"
    using syllable_length [OF r(1)] syllable_length [OF r(2)] syllable_length [OF r(3)] by simp
  moreover have "m = n \<Longrightarrow> Lastname n = Lastname m" by simp
  ultimately have "length (syllables ! a @ syllables ! b @ syllables ! c) \<le> 15 \<and>
    (Lastname n = Some (syllables ! a @ syllables ! b @ syllables ! c) \<longleftrightarrow> m = n)"
    unfolding l option.inject by metis
  with l(1) show ?thesis by (metis (no_types, lifting))
qed

theorem Lastname_injective_witness:
  "\<exists>s. Lastname 371 = Some s \<and> length s \<le> 15 \<and> (Lastname 999 = Some s \<longleftrightarrow> (371::int) = 999)"
  by (rule Lastname_injective) simp_all

section \<open>The sequence of transactions\<close>

lemma length_seq_fill [simp]: "length (seq_fill s) = seq_total s"
  by (simp add: seq_fill_def seq_total_def)

lemma seq_mix_mset:
  "i + j < length xs \<Longrightarrow> mset (fst (seq_mix r i j xs k)) = mset xs"
proof (induction j arbitrary: i xs k)
  case (Suc j)
  have "r k mod (j + 2) + i < length xs"
    using Suc.prems mod_less_divisor [of "j + 2" "r k"] by linarith
  then show ?case using Suc.IH [of "Suc i" "swap_int i (r k mod (j + 2) + i) xs" "Suc k"] Suc.prems
    by (simp add: mset_swap_int)
qed simp

lemma seq_mix_fill:
  "0 < seq_total s \<Longrightarrow> mset (fst (seq_mix r 0 (seq_total s - 1) (seq_fill s) k)) = mset (seq_fill s)"
  by (rule seq_mix_mset) simp

definition weights_kept :: "seq_state \<Rightarrow> seq_state \<Rightarrow> bool" where
  "weights_kept s s' \<longleftrightarrow> seq_no s' = seq_no s \<and> seq_py s' = seq_py s \<and> seq_os s' = seq_os s \<and>
     seq_dl s' = seq_dl s \<and> seq_sl s' = seq_sl s"

lemma weights_kept_same:
  "weights_kept s s' \<Longrightarrow> seq_total s' = seq_total s \<and> seq_fill s' = seq_fill s"
  by (simp add: weights_kept_def seq_total_def seq_fill_def)

lemma shuffle_seq_props:
  assumes "shuffle_seq r s k = (s', k')" "0 < seq_total s"
  shows "weights_kept s s'" "next_num s' = next_num s" "mset (seq s') = mset (seq_fill s)"
  using assms seq_mix_fill [of s r k] by (auto simp: shuffle_seq_def weights_kept_def split: prod.splits)

lemma seq_get_inside:
  "next_num s < seq_total s \<Longrightarrow>
   seq_get r s k = (seq s ! next_num s, s\<lparr>next_num := Suc (next_num s)\<rparr>, k)"
  by (simp add: seq_get_def)

lemma seq_gets_rest:
  assumes "length (seq s) = seq_total s" "next_num s + length ks \<le> seq_total s"
  shows "seq_gets r ks s =
     (take (length ks) (drop (next_num s) (seq s)), s\<lparr>next_num := next_num s + length ks\<rparr>)"
  using assms
proof (induction ks arbitrary: s)
  case (Cons k ks)
  let ?s = "s\<lparr>next_num := Suc (next_num s)\<rparr>"
  have t: "seq_total ?s = seq_total s" by (simp add: seq_total_def)
  have "seq_gets r ks ?s =
      (take (length ks) (drop (Suc (next_num s)) (seq s)), s\<lparr>next_num := next_num s + Suc (length ks)\<rparr>)"
    using Cons.IH [of ?s] Cons.prems t by simp
  moreover have "drop (next_num s) (seq s) = seq s ! next_num s # drop (Suc (next_num s)) (seq s)"
    using Cons.prems by (simp add: Cons_nth_drop_Suc)
  ultimately show ?case using Cons.prems by (simp add: seq_get_inside)
qed simp

lemma seq_get_reshuffles:
  assumes "next_num s = seq_total s" "0 < seq_total s" "shuffle_seq r s k = (s1, k1)"
  shows "seq_get r s k = seq_get r (s1\<lparr>next_num := 0\<rparr>) k1"
proof -
  have "seq_total (s1\<lparr>next_num := 0\<rparr>) = seq_total s"
    using shuffle_seq_props(1) [OF assms(3,2)] weights_kept_same [of s s1] by (simp add: seq_total_def)
  then show ?thesis using assms by (simp add: seq_get_def)
qed

text \<open>One whole round from the end of a sequence is a permutation of the weights.\<close>

lemma seq_round:
  assumes "next_num s = seq_total s" "0 < seq_total s" "length ks = seq_total s"
  obtains ts s' where "seq_gets r ks s = (ts, s')" "mset ts = mset (seq_fill s)"
    "weights_kept s s'" "next_num s' = seq_total s'"
proof -
  obtain k ks' where ks: "ks = k # ks'" using assms(2,3) by (cases ks) auto
  obtain s1 k1 where sh: "shuffle_seq r s k = (s1, k1)" by fastforce
  note p = shuffle_seq_props [OF sh assms(2)]
  let ?s = "s1\<lparr>next_num := 0\<rparr>"
  have w: "weights_kept s ?s" using p(1) by (simp add: weights_kept_def)
  then have t: "seq_total ?s = seq_total s" "seq_fill ?s = seq_fill s"
    by (simp_all add: weights_kept_same)
  have "seq_gets r ks s = seq_gets r (k1 # ks') ?s"
    using seq_get_reshuffles [OF assms(1,2) sh] by (simp add: ks)
  moreover have l: "length (seq ?s) = seq_total ?s"
    using mset_eq_length [OF p(3)] t by simp
  moreover have "seq_gets r (k1 # ks') ?s = (seq s1, s1\<lparr>next_num := seq_total s\<rparr>)"
    using seq_gets_rest [of ?s "k1 # ks'" r] l t assms(3) ks by simp
  ultimately have "seq_gets r ks s = (seq s1, s1\<lparr>next_num := seq_total s\<rparr>)" by simp
  moreover have "weights_kept s (s1\<lparr>next_num := seq_total s\<rparr>)"
    using p(1) by (simp add: weights_kept_def)
  ultimately show thesis using p(3) weights_kept_same that by fastforce
qed

lemma seq_gets_append:
  "seq_gets r (ks @ ls) s =
     (let (ts, s1) = seq_gets r ks s; (us, s2) = seq_gets r ls s1 in (ts @ us, s2))"
  by (induction ks arbitrary: s) (auto simp: Let_def split: prod.splits)

lemma seq_rounds:
  assumes "next_num s = seq_total s" "0 < seq_total s" "length ks = m * seq_total s"
  shows "mset (fst (seq_gets r ks s)) = repeat_mset m (mset (seq_fill s))"
  using assms
proof (induction m arbitrary: s ks)
  case (Suc m)
  let ?a = "take (seq_total s) ks" and ?b = "drop (seq_total s) ks"
  have "length ?a = seq_total s" using Suc.prems(3) by simp
  then obtain ts s1 where 1: "seq_gets r ?a s = (ts, s1)" "mset ts = mset (seq_fill s)"
    "weights_kept s s1" "next_num s1 = seq_total s1"
    using seq_round [OF Suc.prems(1,2)] by metis
  have e: "seq_total s1 = seq_total s" "seq_fill s1 = seq_fill s" using weights_kept_same [OF 1(3)] by simp_all
  have "mset (fst (seq_gets r ?b s1)) = repeat_mset m (mset (seq_fill s))"
    using Suc.IH [of s1 ?b] 1(4) e Suc.prems(2,3) by simp
  then show ?case using 1 seq_gets_append [of r ?a ?b s]
    by (cases "seq_gets r ?b s1") simp
qed simp

lemma seq_init_rounds:
  assumes "seq_init r n p os d sl k = (s, k0)" "0 < n + p + os + d + sl" "length ks = m * (n + p + os + d + sl)"
  shows "mset (fst (seq_gets r ks s)) =
    repeat_mset m (replicate_mset n 0 + replicate_mset p 1 + replicate_mset os 2 +
                   replicate_mset d 3 + replicate_mset sl 4)"
proof (cases m)
  case 0
  then show ?thesis using assms(3) by simp
next
  case (Suc m')
  define s0 where "s0 = \<lparr>seq_no = n, seq_py = p, seq_os = os, seq_dl = d, seq_sl = sl, seq = [], next_num = 0\<rparr>"
  have sh: "shuffle_seq r s0 k = (s, k0)" using assms(1) by (simp add: seq_init_def s0_def)
  have t0: "seq_total s0 = n + p + os + d + sl" by (simp add: seq_total_def s0_def)
  note pr = shuffle_seq_props [OF sh]
  have t: "seq_total s = n + p + os + d + sl" "seq_fill s = seq_fill s0"
    using pr(1) weights_kept_same [of s0 s] t0 assms(2) by simp_all
  have l: "length (seq s) = seq_total s" using mset_eq_length [OF pr(3)] t t0 assms(2) by simp
  let ?a = "take (seq_total s) ks" and ?b = "drop (seq_total s) ks"
  have la: "length ?a = seq_total s" using assms(3) t Suc by simp
  have 1: "seq_gets r ?a s = (seq s, s\<lparr>next_num := seq_total s\<rparr>)"
    using seq_gets_rest [of s ?a r] l la pr(2) t0 assms(2) by (simp add: s0_def)
  let ?s = "s\<lparr>next_num := seq_total s\<rparr>"
  have "seq_total ?s = seq_total s" "seq_fill ?s = seq_fill s"
    by (simp_all add: seq_total_def seq_fill_def)
  then have "mset (fst (seq_gets r ?b ?s)) = repeat_mset m' (mset (seq_fill s))"
    using seq_rounds [of ?s ?b m' r] t assms(2,3) Suc by simp
  moreover have "mset (seq_fill s) = replicate_mset n 0 + replicate_mset p 1 + replicate_mset os 2 +
                   replicate_mset d 3 + replicate_mset sl 4"
    unfolding t(2) by (simp add: s0_def seq_fill_def ac_simps)
  moreover have "mset (seq s) = mset (seq_fill s)" using pr(3) t0 t(2) assms(2) by simp
  ultimately show ?thesis using 1 Suc seq_gets_append [of r ?a ?b s]
    by (cases "seq_gets r ?b ?s") simp
qed

text \<open>
  C27: the mix of transactions: whatever the weights, in every whole round of calls of \<open>seq_get\<close>, by
  whichever threads, each kind comes exactly as often as its weight says.
\<close>

theorem transaction_mix:
  assumes "seq_init r n p os d sl k = (s, k0)" and "0 < n + p + os + d + sl"
    and "length ks = m * (n + p + os + d + sl)" and "seq_gets r ks s = (ts, s')"
  shows "map (count (mset ts)) [0, 1, 2, 3, 4] = [m * n, m * p, m * os, m * d, m * sl]"
proof -
  have "mset ts = repeat_mset m (replicate_mset n 0 + replicate_mset p 1 + replicate_mset os 2 +
                   replicate_mset d 3 + replicate_mset sl 4)"
    using seq_init_rounds [OF assms(1-3)] assms(4) by simp
  then show ?thesis by simp
qed

theorem transaction_mix_witness:
  "map (count (mset (fst (seq_gets (\<lambda>k. 7 * k) [9, 12, 13, 20, 21, 22, 30, 33, 34, 40]
        (fst (seq_init (\<lambda>k. 7 * k) 2 1 1 0 1 0)))))) [0, 1, 2, 3, 4] = [4, 2, 2, 0, 2]"
  using transaction_mix [OF prod.collapse [symmetric] _ _ prod.collapse [symmetric],
      of 2 1 1 0 1 "[9, 12, 13, 20, 21, 22, 30, 33, 34, 40]" 2 "\<lambda>k. 7 * k" 0] by simp

section \<open>Response time histogram (rthist.c)\<close>

text \<open>
  Response times are doubles in milliseconds, taken here as whole nanoseconds. The histogram has
  one list of buckets per kind of transaction. A negative index is a write outside the array,
  the result None; an index past the end is the last bucket.
\<close>

definition MAXREC :: nat where "MAXREC = 20"
definition REC_PER_SEC :: nat where "REC_PER_SEC = 1000"

definition hist_size :: nat where "hist_size = MAXREC * REC_PER_SEC"

record hist_state =
  total_hist :: "nat list list"
  cur_hist :: "nat list list"
  cur_max_rt :: "int list"

definition hist_init :: "hist_state \<Rightarrow> hist_state" where
  "hist_init h = h\<lparr>total_hist := replicate 5 (replicate hist_size 0),
                   cur_hist := replicate 5 (replicate hist_size 0)\<rparr>"

text \<open>The bucket is \<open>rtclk * 1000\<close> cut to an integer, with \<open>rtclk\<close> in milliseconds.\<close>

definition hist_index :: "int \<Rightarrow> int" where
  "hist_index ns =
     (let i = (ns * int REC_PER_SEC) sdiv 1000000
      in if i \<ge> int hist_size then int hist_size - 1 else i)"

definition hist_inc :: "nat \<Rightarrow> int \<Rightarrow> hist_state \<Rightarrow> hist_state option" where
  "hist_inc t ns h =
     (let i = hist_index ns;
          h1 = (if ns > cur_max_rt h ! t then h\<lparr>cur_max_rt := (cur_max_rt h)[t := ns]\<rparr> else h);
          b = cur_hist h1 ! t
      in if i < 0 then None
         else Some (h1\<lparr>cur_hist := (cur_hist h1)[t := b[nat i := Suc (b ! nat i)]]\<rparr>))"

text \<open>
  The second loop of \<open>hist_ckp\<close>: bucket by bucket it adds up, moves the count to the total and
  remembers the first bucket at which 99 per cent are reached.
\<close>

fun ckp_loop :: "nat \<Rightarrow> nat \<Rightarrow> nat \<Rightarrow> nat option \<Rightarrow> nat list \<Rightarrow> nat list \<Rightarrow> nat option \<times> nat list \<times> nat list" where
  "ckp_loop tot i tmp line (c # cs) (t # ts) =
     (let tmp1 = tmp + c;
          line1 = (if tot * 99 div 100 \<le> tmp1 \<and> line = None then Some i else line);
          (l, cs1, ts1) = ckp_loop tot (Suc i) tmp1 line1 cs ts
      in (l, 0 # cs1, (t + c) # ts1))"
| "ckp_loop tot i tmp line cs ts = (line, cs, ts)"

text \<open>The value returned is the bucket; the code divides it by \<open>REC_PER_SEC\<close>.\<close>

definition hist_ckp :: "nat \<Rightarrow> hist_state \<Rightarrow> nat \<times> hist_state" where
  "hist_ckp t h =
     (let (line, cs, ts) = ckp_loop (sum_list (cur_hist h ! t)) 0 0 None (cur_hist h ! t) (total_hist h ! t)
      in (case line of None \<Rightarrow> hist_size | Some i \<Rightarrow> i,
          h\<lparr>cur_hist := (cur_hist h)[t := cs], total_hist := (total_hist h)[t := ts]\<rparr>))"

text \<open>The downward loop of \<open>hist_report\<close>: the last bucket at which at most a tenth lies behind.\<close>

fun report_loop :: "nat \<Rightarrow> nat list \<Rightarrow> nat \<Rightarrow> nat \<Rightarrow> nat \<Rightarrow> nat" where
  "report_loop tot h 0 tmp line = line"
| "report_loop tot h (Suc i) tmp line =
     (let tmp1 = tmp + h ! i
      in report_loop tot h i tmp1 (if tmp1 * 10 \<le> tot then i else line))"

definition hist_report_line :: "nat \<Rightarrow> hist_state \<Rightarrow> nat" where
  "hist_report_line j h =
     report_loop (sum_list (total_hist h ! j)) (total_hist h ! j) hist_size 0 hist_size"

section \<open>Percentiles (sb_percentile.c)\<close>

text \<open>
  The bucket of a value is \<open>floor((log(value) - range_deduct) * range_mult + 0.5)\<close>, the value cut
  to the range before; the logarithm is a parameter, \<open>bucket\<close>. Times are nanoseconds.
\<close>

record percentile =
  pc_values :: "nat list"
  pc_total :: nat
  range_min :: int
  range_max :: int

definition sb_percentile_init :: "nat \<Rightarrow> int \<Rightarrow> int \<Rightarrow> percentile" where
  "sb_percentile_init sz lo hi =
     \<lparr>pc_values = replicate sz 0, pc_total = 0, range_min = lo, range_max = hi\<rparr>"

definition sb_percentile_update :: "(int \<Rightarrow> nat) \<Rightarrow> int \<Rightarrow> percentile \<Rightarrow> percentile" where
  "sb_percentile_update bucket v p =
     (let v1 = (if v < range_min p then range_min p else if v > range_max p then range_max p else v);
          n = bucket v1
      in p\<lparr>pc_total := Suc (pc_total p),
           pc_values := (pc_values p)[n := Suc (pc_values p ! n)]\<rparr>)"

text \<open>The loop starts at bucket 1 with the count of bucket 0; it answers the bucket it stops at.\<close>

function pc_loop :: "nat list \<Rightarrow> nat \<Rightarrow> nat \<Rightarrow> nat \<Rightarrow> nat" where
  "pc_loop vs nmax i ncur =
     (if i < length vs
      then (if nmax \<le> ncur + vs ! i then i else pc_loop vs nmax (Suc i) (ncur + vs ! i))
      else i)"
  by pat_completeness auto
termination by (relation "measure (\<lambda>(vs, nmax, i, ncur). length vs - i)") auto

declare pc_loop.simps [simp del]

text \<open>\<open>floor(tot * percent / 100 + 0.5)\<close>, and None where the code answers 0.0.\<close>

definition sb_percentile_calculate :: "nat \<Rightarrow> percentile \<Rightarrow> nat option" where
  "sb_percentile_calculate percent p =
     (if pc_total p = 0 then None
      else Some (pc_loop (pc_values p) ((pc_total p * percent + 50) div 100) 1 (pc_values p ! 0)))"

definition sb_percentile_reset :: "percentile \<Rightarrow> percentile" where
  "sb_percentile_reset p = p\<lparr>pc_total := 0, pc_values := replicate (length (pc_values p)) 0\<rparr>"

section \<open>The 99 per cent line\<close>

lemma ckp_loop_lists:
  "length cs = length ts \<Longrightarrow>
   snd (ckp_loop tot i tmp line cs ts) = (replicate (length cs) 0, map2 (+) ts cs)"
  by (induction tot i tmp line cs ts rule: ckp_loop.induct) (auto simp: Let_def split: prod.splits)

lemma ckp_loop_line_set:
  "length cs = length ts \<Longrightarrow> fst (ckp_loop tot i tmp (Some l) cs ts) = Some l"
proof (induction cs arbitrary: ts i tmp)
  case (Cons c cs)
  then obtain t ts' where "ts = t # ts'" by (cases ts) auto
  then show ?case using Cons.IH [of ts' "Suc i" "tmp + c"] Cons.prems
    by (auto simp: Let_def split: prod.splits)
qed simp


text \<open>The first bucket whose running sum reaches the bound, where one does.\<close>

lemma ckp_loop_line:
  assumes "length cs = length ts" "n < length cs" "tot * 99 div 100 \<le> tmp + sum_list (take (Suc n) cs)"
    "\<forall>m < n. tmp + sum_list (take (Suc m) cs) < tot * 99 div 100"
  shows "fst (ckp_loop tot i tmp None cs ts) = Some (i + n)"
  using assms
proof (induction n arbitrary: i tmp cs ts)
  case 0
  then obtain c cs' t ts' where "cs = c # cs'" "ts = t # ts'" by (metis length_greater_0_conv list.exhaust)
  then show ?case using 0 ckp_loop_line_set [of cs' ts'] by (simp add: Let_def split: prod.splits, metis fst_conv)
next
  case (Suc n)
  then obtain c cs' t ts' where e: "cs = c # cs'" "ts = t # ts'"
    by (metis length_greater_0_conv list.exhaust Suc_less_eq2 zero_less_Suc)
  have "tmp + c < tot * 99 div 100" using Suc.prems(4) e by force
  moreover have "\<forall>m < n. tmp + c + sum_list (take (Suc m) cs') < tot * 99 div 100"
    using Suc.prems(4) e by (auto simp: add.assoc dest: spec [of _ "Suc _"])
  ultimately show ?case using Suc.IH [of cs' ts' "tmp + c" "Suc i"] Suc.prems e
    by (auto simp: Let_def add.assoc split: prod.splits)
qed

definition hist_ok :: "hist_state \<Rightarrow> bool" where
  "hist_ok h \<longleftrightarrow> length (cur_hist h) = 5 \<and> length (total_hist h) = 5 \<and> length (cur_max_rt h) = 5 \<and>
     (\<forall>t < 5. length (cur_hist h ! t) = hist_size \<and> length (total_hist h ! t) = hist_size)"

lemma hist_init_ok: "length (cur_max_rt h) = 5 \<Longrightarrow> hist_ok (hist_init h)"
  by (simp add: hist_ok_def hist_init_def)

lemma hist_index_bounds: "0 \<le> ns \<Longrightarrow> 0 \<le> hist_index ns \<and> hist_index ns < int hist_size"
  by (cases "ns = 0")
    (auto simp: hist_index_def hist_size_def MAXREC_def REC_PER_SEC_def signed_divide_int_def Let_def
      sgn_if pos_imp_zdiv_nonneg_iff)

text \<open>A non-negative time is counted in one bucket of its transaction, and nothing else changes.\<close>

lemma hist_inc_counts:
  assumes "hist_ok h" "t < 5" "0 \<le> ns"
  shows "\<exists>h'. hist_inc t ns h = Some h' \<and> hist_ok h' \<and> total_hist h' = total_hist h \<and>
           sum_list (cur_hist h' ! t) = Suc (sum_list (cur_hist h ! t)) \<and>
           (\<forall>u. u \<noteq> t \<longrightarrow> cur_hist h' ! u = cur_hist h ! u)"
proof -
  have i: "nat (hist_index ns) < length (cur_hist h ! t)" "\<not> hist_index ns < 0"
    using hist_index_bounds [OF assms(3)] assms by (auto simp: hist_ok_def nat_less_iff)
  have s: "sum_list (b[n := Suc (b ! n)]) = Suc (sum_list b)" if "n < length b" for b :: "nat list" and n
    using that by (simp add: sum_list_update elem_le_sum_list)
  show ?thesis using assms i s [OF i(1)]
    by (auto simp: hist_inc_def Let_def hist_ok_def nth_list_update)
qed

text \<open>
  A check point of the histogram: the counts move to the totals, the current buckets are empty
  afterwards, and the answer is the first bucket up to which at least 99 per cent (rounded down)
  of the counts lie, which always exists; the comment promises the 90 per cent line.
\<close>

theorem hist_ckp_line:
  assumes "hist_ok h" "t < 5" "hist_ckp t h = (line, h')"
  defines "c \<equiv> cur_hist h ! t"
  shows "line < hist_size \<and> sum_list c * 99 div 100 \<le> sum_list (take (Suc line) c) \<and>
    (\<forall>m < line. sum_list (take (Suc m) c) < sum_list c * 99 div 100) \<and>
    cur_hist h' ! t = replicate hist_size 0 \<and> total_hist h' ! t = map2 (+) (total_hist h ! t) c \<and> hist_ok h'"
proof -
  let ?P = "\<lambda>n. sum_list c * 99 div 100 \<le> sum_list (take (Suc n) c)"
  have l: "length c = hist_size" "length (total_hist h ! t) = hist_size" "0 < hist_size"
    using assms(1,2) by (auto simp: c_def hist_ok_def hist_size_def MAXREC_def REC_PER_SEC_def)
  have "?P (hist_size - 1)" using l by (simp add: div_le_dividend div_le_mono)
  then obtain n where n: "?P n" "\<forall>m < n. \<not> ?P m" "n \<le> hist_size - 1"
    using exists_least_iff [of ?P] by (metis (no_types, lifting) not_less)
  have "fst (ckp_loop (sum_list c) 0 0 None c (total_hist h ! t)) = Some (0 + n)"
    by (rule ckp_loop_line) (use n l in auto)
  moreover have "snd (ckp_loop (sum_list c) 0 0 None c (total_hist h ! t)) =
      (replicate hist_size 0, map2 (+) (total_hist h ! t) c)"
    using ckp_loop_lists [of c "total_hist h ! t"] l by simp
  ultimately have "ckp_loop (sum_list c) 0 0 None c (total_hist h ! t) =
      (Some n, replicate hist_size 0, map2 (+) (total_hist h ! t) c)"
    by (metis add_0 prod.collapse)
  then have "line = n" "h' = h\<lparr>cur_hist := (cur_hist h)[t := replicate hist_size 0],
      total_hist := (total_hist h)[t := map2 (+) (total_hist h ! t) c]\<rparr>"
    using assms(3) by (auto simp: hist_ckp_def c_def)
  then show ?thesis using n l assms(1,2) by (auto simp: hist_ok_def nth_list_update)
qed

text \<open>The percentile loop stops at the first bucket from 1 on at which the sum is reached.\<close>

lemma pc_loop_first:
  assumes "0 < i" "ncur = sum_list (take i vs)" "i \<le> length vs"
  shows "i \<le> pc_loop vs nmax i ncur \<and>
    (pc_loop vs nmax i ncur < length vs \<longrightarrow> nmax \<le> sum_list (take (Suc (pc_loop vs nmax i ncur)) vs)) \<and>
    (\<forall>m. i \<le> m \<longrightarrow> m < pc_loop vs nmax i ncur \<longrightarrow> sum_list (take (Suc m) vs) < nmax)"
  using assms
proof (induction vs nmax i ncur rule: pc_loop.induct)
  case (1 vs nmax i ncur)
  show ?case
  proof (cases "i < length vs \<and> ncur + vs ! i < nmax")
    case True
    have s: "ncur + vs ! i = sum_list (take (Suc i) vs)" using 1(3) True by (simp add: take_Suc_conv_app_nth)
    have e: "pc_loop vs nmax i ncur = pc_loop vs nmax (Suc i) (ncur + vs ! i)"
      using True by (simp add: pc_loop.simps [of vs nmax i])
    show ?thesis using 1(1) s True unfolding e by (fastforce simp: le_less_Suc_eq Suc_le_eq dest: le_imp_less_or_eq)
  next
    case False
    then have "pc_loop vs nmax i ncur = i" by (auto simp: pc_loop.simps [of vs nmax i])
    then show ?thesis using False 1(3) by (auto simp: take_Suc_conv_app_nth)
  qed
qed

theorem customers_permuted_witness:
  "\<exists>cs p'. take_customers ORD_PER_DIST (fst (InitPermutation (\<lambda>k. 3 * k) \<lparr>calls = 0, first_call = True\<rparr>)) = Some (cs, p') \<and>
     distinct cs \<and> set cs = {1..ORD_PER_DIST}"
  using customers_permuted [of "\<lambda>k. 3 * k" "\<lparr>calls = 0, first_call = True\<rparr>", OF prod.collapse [symmetric]] by blast

end
