(* ===== verification/TpccTrans.thy ===== *)
theory TpccTrans
  imports TpccDb TpccSupport
begin

text \<open>
  The five transactions of the TPC-C load generator: neword.c, payment.c, ordstat.c, delivery.c
  and slev.c. Each runs its statements over the connection of the database model, and ends with
  a commit or, at its error labels, with a rollback. Local arrays that are filled and never read
  again are left out. Every transaction has its effect on the database as a pure function beside
  it; that the code does this or nothing is shown for any behaviour of the client library.
\<close>

section \<open>Floating point values\<close>

text \<open>
  The operations on C's float: fetching a decimal column into a float, storing a float in one,
  the server's \<open>column + ?\<close>, an integer converted to float, and the arithmetic.
\<close>

record 'f fops =
  to_float :: "int \<Rightarrow> 'f"
  to_dec :: "'f \<Rightarrow> int"
  dec_add :: "int \<Rightarrow> 'f \<Rightarrow> int"
  int_float :: "int \<Rightarrow> 'f"
  fadd :: "'f \<Rightarrow> 'f \<Rightarrow> 'f"
  fsub :: "'f \<Rightarrow> 'f \<Rightarrow> 'f"
  fmul :: "'f \<Rightarrow> 'f \<Rightarrow> 'f"
  fdiv :: "'f \<Rightarrow> 'f \<Rightarrow> 'f"

section \<open>New order (neword.c)\<close>

text \<open>
  Sorting the lines by warehouse and item, so that all transactions lock the stock rows in one
  order: a selection sort of the line numbers.
\<close>

definition line_key :: "int list \<Rightarrow> int list \<Rightarrow> nat \<Rightarrow> int" where
  "line_key supware itemid k = (MAXITEMS + 1) * supware ! k + itemid ! k"

function sort_inner :: "(nat \<Rightarrow> int) \<Rightarrow> nat \<Rightarrow> nat list \<Rightarrow> nat \<Rightarrow> int \<Rightarrow> nat \<Rightarrow> nat" where
  "sort_inner key n ol_num_seq j tmp min_num =
     (if j < n
      then (if key (ol_num_seq ! j) < tmp
            then sort_inner key n ol_num_seq (Suc j) (key (ol_num_seq ! j)) j
            else sort_inner key n ol_num_seq (Suc j) tmp min_num)
      else min_num)"
  by pat_completeness auto
termination by (relation "measure (\<lambda>(key, n, xs, j, tmp, m). n - j)") auto

function sort_outer :: "(nat \<Rightarrow> int) \<Rightarrow> nat \<Rightarrow> nat \<Rightarrow> nat list \<Rightarrow> nat list" where
  "sort_outer key n i ol_num_seq =
     (if i + 1 < n
      then (let min_num = sort_inner key n ol_num_seq (i + 1) (key (ol_num_seq ! i)) i
            in sort_outer key n (Suc i) (if min_num \<noteq> i then swap_int min_num i ol_num_seq else ol_num_seq))
      else ol_num_seq)"
  by pat_completeness auto
termination by (relation "measure (\<lambda>(key, n, i, xs). n - i)") auto

declare sort_inner.simps [simp del] sort_outer.simps [simp del]

definition neword_sort :: "nat \<Rightarrow> int list \<Rightarrow> int list \<Rightarrow> nat list" where
  "neword_sort o_ol_cnt supware itemid = sort_outer (line_key supware itemid) o_ol_cnt 0 [0..<o_ol_cnt]"

text \<open>The macro leaves the variable as it was for a district outside 1 to 10.\<close>

definition pick_dist_info :: "string \<Rightarrow> string list \<Rightarrow> int \<Rightarrow> string" where
  "pick_dist_info ol_dist_info s_dist d_id =
     (if 1 \<le> d_id \<and> d_id \<le> 10 then s_dist ! nat (d_id - 1) else ol_dist_info)"

definition new_quantity :: "int \<Rightarrow> int \<Rightarrow> int" where
  "new_quantity s_quantity ol_quantity =
     (if s_quantity > ol_quantity then s_quantity - ol_quantity else s_quantity - ol_quantity + 91)"

definition line_amount :: "'f fops \<Rightarrow> int \<Rightarrow> 'f \<Rightarrow> 'f \<Rightarrow> 'f \<Rightarrow> 'f \<Rightarrow> 'f" where
  "line_amount F ol_quantity i_price w_tax d_tax c_discount =
     fmul F (fmul F (fmul F (int_float F ol_quantity) i_price)
                    (fadd F (fadd F (int_float F 1) w_tax) d_tax))
            (fsub F (int_float F 1) c_discount)"

definition neword_customer :: "int \<Rightarrow> int \<Rightarrow> int \<Rightarrow> (int \<times> string \<times> string \<times> int) tx" where
  "neword_customer w_id d_id c_id = select_row True SqlErr (stmt0 w_id d_id c_id)"

definition neword_district :: "int \<Rightarrow> int \<Rightarrow> (int \<times> int) tx" where
  "neword_district d_id w_id = select_row True SqlErr (stmt1 d_id w_id)"

definition neword_next_id :: "int \<Rightarrow> int \<Rightarrow> int \<Rightarrow> unit tx" where
  "neword_next_id d_next_o_id d_id w_id = run_update (stmt2 d_next_o_id d_id w_id)"

definition neword_order :: "int \<Rightarrow> int \<Rightarrow> int \<Rightarrow> int \<Rightarrow> string \<Rightarrow> nat \<Rightarrow> int \<Rightarrow> unit tx" where
  "neword_order o_id d_id w_id c_id datetime o_ol_cnt o_all_local =
     run_update (stmt3 o_id d_id w_id c_id datetime (int o_ol_cnt) o_all_local)"

definition neword_new_order :: "int \<Rightarrow> int \<Rightarrow> int \<Rightarrow> unit tx" where
  "neword_new_order o_id d_id w_id = run_update (stmt4 o_id d_id w_id)"

definition neword_item :: "int \<Rightarrow> (int \<times> string \<times> string) tx" where
  "neword_item ol_i_id = select_row True InvalidItem (stmt5 ol_i_id)"

definition neword_stock :: "int \<Rightarrow> int \<Rightarrow> (int \<times> string \<times> string list) tx" where
  "neword_stock ol_i_id ol_supply_w_id = select_row False SqlErr (stmt6 ol_i_id ol_supply_w_id)"

definition neword_take_stock :: "int \<Rightarrow> int \<Rightarrow> int \<Rightarrow> int \<Rightarrow> unit tx" where
  "neword_take_stock s_quantity ol_quantity ol_i_id ol_supply_w_id =
     run_update (stmt7 (new_quantity s_quantity ol_quantity) ol_i_id ol_supply_w_id)"

definition neword_insert_line ::
  "int \<Rightarrow> int \<Rightarrow> int \<Rightarrow> int \<Rightarrow> int \<Rightarrow> int \<Rightarrow> int \<Rightarrow> int \<Rightarrow> string \<Rightarrow> unit tx" where
  "neword_insert_line o_id d_id w_id ol_number ol_i_id ol_supply_w_id ol_quantity ol_amount ol_dist_info =
     run_update (stmt8 o_id d_id w_id ol_number ol_i_id ol_supply_w_id ol_quantity ol_amount ol_dist_info)"

text \<open>The arguments that stay fixed over the lines of one order.\<close>

record 'f order_ctx =
  x_o_id :: int
  x_d_id :: int
  x_w_id :: int
  x_w_tax :: 'f
  x_d_tax :: 'f
  x_discount :: 'f

definition neword_line :: "'f fops \<Rightarrow> 'f order_ctx \<Rightarrow> int \<Rightarrow> int \<Rightarrow> int \<Rightarrow> int \<Rightarrow> string \<Rightarrow> string tx" where
  "neword_line F x ol_number ol_supply_w_id ol_i_id ol_quantity ol_dist_info =
     tx_bind (neword_item ol_i_id) (\<lambda>(i_price, i_name, i_data).
     tx_bind (neword_stock ol_i_id ol_supply_w_id) (\<lambda>(s_quantity, s_data, s_dist).
       let info = pick_dist_info ol_dist_info s_dist (x_d_id x);
           ol_amount = line_amount F ol_quantity (to_float F i_price) (x_w_tax x) (x_d_tax x) (x_discount x)
       in tx_bind (neword_take_stock s_quantity ol_quantity ol_i_id ol_supply_w_id) (\<lambda>_.
          tx_bind (neword_insert_line (x_o_id x) (x_d_id x) (x_w_id x) ol_number ol_i_id ol_supply_w_id
                     ol_quantity (to_dec F ol_amount) info) (\<lambda>_. tx_return info))))"

fun neword_lines :: "'f fops \<Rightarrow> 'f order_ctx \<Rightarrow> int list \<Rightarrow> int list \<Rightarrow> int list \<Rightarrow> nat list \<Rightarrow> int \<Rightarrow> string \<Rightarrow> unit tx" where
  "neword_lines F x itemid supware qty [] ol_number info = tx_return ()"
| "neword_lines F x itemid supware qty (k # ks) ol_number info =
     tx_bind (neword_line F x ol_number (supware ! k) (itemid ! k) (qty ! k) info) (\<lambda>info1.
       neword_lines F x itemid supware qty ks (ol_number + 1) info1)"

record neword_args =
  n_w_id :: int
  n_d_id :: int
  n_c_id :: int
  n_ol_cnt :: nat
  n_all_local :: int
  n_itemid :: "int list"
  n_supware :: "int list"
  n_qty :: "int list"

definition neword_body :: "'f fops \<Rightarrow> string \<Rightarrow> string \<Rightarrow> neword_args \<Rightarrow> unit tx" where
  "neword_body F datetime junk a =
     tx_bind (neword_customer (n_w_id a) (n_d_id a) (n_c_id a)) (\<lambda>(c_discount, c_last, c_credit, w_tax).
     tx_bind (neword_district (n_d_id a) (n_w_id a)) (\<lambda>(d_next_o_id, d_tax).
     tx_bind (neword_next_id d_next_o_id (n_d_id a) (n_w_id a)) (\<lambda>_.
     tx_bind (neword_order d_next_o_id (n_d_id a) (n_w_id a) (n_c_id a) datetime (n_ol_cnt a) (n_all_local a)) (\<lambda>_.
     tx_bind (neword_new_order d_next_o_id (n_d_id a) (n_w_id a)) (\<lambda>_.
       neword_lines F
         \<lparr>x_o_id = d_next_o_id, x_d_id = n_d_id a, x_w_id = n_w_id a, x_w_tax = to_float F w_tax,
          x_d_tax = to_float F d_tax, x_discount = to_float F c_discount\<rparr>
         (n_itemid a) (n_supware a) (n_qty a)
         (neword_sort (n_ol_cnt a) (n_supware a) (n_itemid a)) 1 junk)))))"

text \<open>\<open>junk\<close> is what the uninitialised \<open>ol_dist_info\<close> holds.\<close>

definition neword :: "'f fops \<Rightarrow> string \<Rightarrow> string \<Rightarrow> neword_args \<Rightarrow> mysql_lib \<Rightarrow> conn \<Rightarrow> int \<times> conn" where
  "neword F datetime junk a = run_tx (tx_bind (neword_body F datetime junk a) (\<lambda>_. commit))"

section \<open>Payment (payment.c)\<close>

text \<open>Fetching \<open>n\<close> rows in a row; the bound variable holds the last one, or what it held before.\<close>

fun fetch_times :: "bool \<Rightarrow> nat \<Rightarrow> 'r list \<Rightarrow> 'r \<Rightarrow> 'r tx" where
  "fetch_times trunc_ok 0 rows v = tx_return v"
| "fetch_times trunc_ok (Suc n) rows v =
     tx_bind (fetch trunc_ok rows) (\<lambda>x.
       case x of None \<Rightarrow> tx_fail SqlErr | Some (r, rs) \<Rightarrow> fetch_times trunc_ok n rs r)"

definition midpoint :: "nat \<Rightarrow> nat" where
  "midpoint namecnt = (if namecnt mod 2 \<noteq> 0 then namecnt + 1 else namecnt) div 2"

definition payment_by_name :: "(customer list \<Rightarrow> customer list) \<Rightarrow> int \<Rightarrow> int \<Rightarrow> string \<Rightarrow> int \<Rightarrow> int tx" where
  "payment_by_name ord c_w_id c_d_id c_last c_id =
     tx_bind (select_row False SqlErr (stmt13 c_w_id c_d_id c_last)) (\<lambda>namecnt.
     tx_bind (query (stmt14 ord c_w_id c_d_id c_last)) (\<lambda>rows.
       fetch_times False (midpoint namecnt) rows c_id))"

definition has_substring :: "string \<Rightarrow> string \<Rightarrow> bool" where
  "has_substring pat s = list_ex (\<lambda>i. take (length pat) (drop i s) = pat) [0..<Suc (length s)]"

text \<open>
  The new text of a customer with bad credit is built in \<open>c_new_data\<close>, but the statement is
  bound to \<open>c_data\<close>, the text just read: that is what is written back.
\<close>

definition payment_customer :: "'f fops \<Rightarrow> int \<Rightarrow> int \<Rightarrow> int \<Rightarrow> 'f \<Rightarrow> unit tx" where
  "payment_customer F c_w_id c_d_id c_id h_amount =
     tx_bind (select_row True SqlErr (stmt15 c_w_id c_d_id c_id)) (\<lambda>(c_credit, balance).
       let c_balance = fsub F (to_float F balance) h_amount
       in if has_substring ''BC'' (take 2 c_credit)
          then tx_bind (select_row False SqlErr (stmt16 c_w_id c_d_id c_id)) (\<lambda>c_data.
                 run_update (stmt17 (to_dec F c_balance) c_data c_w_id c_d_id c_id))
          else run_update (stmt18 (to_dec F c_balance) c_w_id c_d_id c_id))"

definition payment_h_data :: "string \<Rightarrow> string \<Rightarrow> string" where
  "payment_h_data w_name d_name =
     (let s = take 10 w_name @ take 10 d_name in if length s = 20 then s @ ''    '' else s)"

record 'f payment_args =
  p_w_id :: int
  p_d_id :: int
  p_byname :: bool
  p_c_w_id :: int
  p_c_d_id :: int
  p_c_id :: int
  p_c_last :: string
  p_amount :: 'f

definition payment_body :: "'f fops \<Rightarrow> (customer list \<Rightarrow> customer list) \<Rightarrow> string \<Rightarrow> 'f payment_args \<Rightarrow> unit tx" where
  "payment_body F ord datetime a =
     tx_bind (run_update (stmt9 (\<lambda>x. dec_add F x (p_amount a)) (p_w_id a))) (\<lambda>_.
     tx_bind (select_row False SqlErr (stmt10 (p_w_id a))) (\<lambda>w_name.
     tx_bind (run_update (stmt11 (\<lambda>x. dec_add F x (p_amount a)) (p_w_id a) (p_d_id a))) (\<lambda>_.
     tx_bind (select_row False SqlErr (stmt12 (p_w_id a) (p_d_id a))) (\<lambda>d_name.
     tx_bind (if p_byname a then payment_by_name ord (p_c_w_id a) (p_c_d_id a) (p_c_last a) (p_c_id a)
              else tx_return (p_c_id a)) (\<lambda>c_id.
     tx_bind (payment_customer F (p_c_w_id a) (p_c_d_id a) c_id (p_amount a)) (\<lambda>_.
       run_update (stmt19 (p_c_d_id a) (p_c_w_id a) c_id (p_d_id a) (p_w_id a) datetime
                     (to_dec F (p_amount a)) (payment_h_data w_name d_name))))))))"

definition payment ::
  "'f fops \<Rightarrow> (customer list \<Rightarrow> customer list) \<Rightarrow> string \<Rightarrow> 'f payment_args \<Rightarrow> mysql_lib \<Rightarrow> conn \<Rightarrow> int \<times> conn" where
  "payment F ord datetime a = run_tx (tx_bind (payment_body F ord datetime a) (\<lambda>_. commit))"

section \<open>Order status (ordstat.c)\<close>

text \<open>Found by name or not, the order looked up is the one of the customer number passed in.\<close>

definition ordstat_customer ::
  "(customer list \<Rightarrow> customer list) \<Rightarrow> int \<Rightarrow> int \<Rightarrow> bool \<Rightarrow> int \<Rightarrow> string \<Rightarrow> (int \<times> string \<times> string) tx" where
  "ordstat_customer ord c_w_id c_d_id byname c_id c_last =
     (if byname
      then tx_bind (select_row False SqlErr (stmt13 c_w_id c_d_id c_last)) (\<lambda>namecnt.
           tx_bind (query (stmt21 ord c_w_id c_d_id c_last)) (\<lambda>rows.
             fetch_times True (midpoint namecnt) rows (0, [], c_last)))
      else select_row True SqlErr (stmt22 c_w_id c_d_id c_id))"

fun fetch_all :: "bool \<Rightarrow> 'r list \<Rightarrow> unit tx" where
  "fetch_all trunc_ok [] = tx_bind (fetch trunc_ok ([] :: 'r list)) (\<lambda>_. tx_return ())"
| "fetch_all trunc_ok (r # rs) = tx_bind (fetch trunc_ok (r # rs)) (\<lambda>_. fetch_all trunc_ok rs)"

definition ordstat_body ::
  "(customer list \<Rightarrow> customer list) \<Rightarrow> int \<Rightarrow> int \<Rightarrow> bool \<Rightarrow> int \<Rightarrow> string \<Rightarrow> unit tx" where
  "ordstat_body ord w_id d_id byname c_id c_last =
     tx_bind (ordstat_customer ord w_id d_id byname c_id c_last) (\<lambda>_.
     tx_bind (select_row False SqlErr (stmt23 w_id d_id c_id)) (\<lambda>(o_id, o_entry_d, o_carrier_id).
     tx_bind (query (stmt24 w_id d_id o_id)) (\<lambda>rows. fetch_all True rows)))"

definition ordstat ::
  "(customer list \<Rightarrow> customer list) \<Rightarrow> int \<Rightarrow> int \<Rightarrow> bool \<Rightarrow> int \<Rightarrow> string \<Rightarrow> mysql_lib \<Rightarrow> conn \<Rightarrow> int \<times> conn" where
  "ordstat ord w_id d_id byname c_id c_last =
     run_tx (tx_bind (ordstat_body ord w_id d_id byname c_id c_last) (\<lambda>_. commit))"

section \<open>Stock level (slev.c)\<close>

text \<open>The loop over the distinct items: each fetch is followed by a count of low stock.\<close>

fun slev_items :: "int \<Rightarrow> int \<Rightarrow> int list \<Rightarrow> unit tx" where
  "slev_items w_id level [] = tx_bind (fetch False ([] :: int list)) (\<lambda>_. tx_return ())"
| "slev_items w_id level (i # is) =
     tx_bind (fetch False (i # is)) (\<lambda>_.
     tx_bind (select_row False SqlErr (stmt34 w_id i level)) (\<lambda>_. slev_items w_id level is))"

definition slev_body :: "int \<Rightarrow> int \<Rightarrow> int \<Rightarrow> unit tx" where
  "slev_body w_id d_id level =
     tx_bind (select_row False SqlErr (stmt32 d_id w_id)) (\<lambda>d_next_o_id.
     tx_bind (query (stmt33 w_id d_id d_next_o_id)) (\<lambda>rows. slev_items w_id level rows))"

definition slev :: "int \<Rightarrow> int \<Rightarrow> int \<Rightarrow> mysql_lib \<Rightarrow> conn \<Rightarrow> int \<times> conn" where
  "slev w_id d_id level = run_tx (tx_bind (slev_body w_id d_id level) (\<lambda>_. commit))"

section \<open>Delivery (delivery.c)\<close>

text \<open>
  One district: the oldest new order, or nothing when there is none. \<open>ol_total\<close> is the variable
  the sum is fetched into. Every district is committed on its own.
\<close>

definition deliver_order :: "'f fops \<Rightarrow> string \<Rightarrow> int \<Rightarrow> int \<Rightarrow> int \<Rightarrow> int \<Rightarrow> 'f \<Rightarrow> 'f tx" where
  "deliver_order F datetime w_id o_carrier_id d_id no_o_id ol_total =
     tx_bind (run_update (stmt26 no_o_id d_id w_id)) (\<lambda>_.
     tx_bind (select_row False SqlErr (stmt27 no_o_id d_id w_id)) (\<lambda>c_id.
     tx_bind (run_update (stmt28 o_carrier_id no_o_id d_id w_id)) (\<lambda>_.
     tx_bind (run_update (stmt29 datetime no_o_id d_id w_id)) (\<lambda>_.
     tx_bind (select_row True SqlErr (stmt30 no_o_id d_id w_id)) (\<lambda>s.
       let total = (case s of None \<Rightarrow> ol_total | Some v \<Rightarrow> to_float F v)
       in tx_bind (run_update (stmt31 (\<lambda>x. dec_add F x total) c_id d_id w_id)) (\<lambda>_. tx_return total))))))"

definition delivery_district :: "'f fops \<Rightarrow> string \<Rightarrow> int \<Rightarrow> int \<Rightarrow> int \<Rightarrow> 'f \<Rightarrow> 'f tx" where
  "delivery_district F datetime w_id o_carrier_id d_id ol_total =
     tx_bind (select_row False SqlErr (stmt25 d_id w_id)) (\<lambda>no_o_id.
       if no_o_id = 0 then tx_return ol_total
       else tx_bind (deliver_order F datetime w_id o_carrier_id d_id no_o_id ol_total) (\<lambda>total.
            tx_bind commit (\<lambda>_. tx_return total)))"

fun delivery_loop :: "'f fops \<Rightarrow> string \<Rightarrow> int \<Rightarrow> int \<Rightarrow> int list \<Rightarrow> 'f \<Rightarrow> unit tx" where
  "delivery_loop F datetime w_id o_carrier_id [] ol_total = tx_return ()"
| "delivery_loop F datetime w_id o_carrier_id (d_id # ds) ol_total =
     tx_bind (delivery_district F datetime w_id o_carrier_id d_id ol_total) (\<lambda>total.
       delivery_loop F datetime w_id o_carrier_id ds total)"

definition delivery :: "'f fops \<Rightarrow> string \<Rightarrow> 'f \<Rightarrow> int \<Rightarrow> int \<Rightarrow> mysql_lib \<Rightarrow> conn \<Rightarrow> int \<times> conn" where
  "delivery F datetime junk w_id o_carrier_id =
     run_tx (delivery_loop F datetime w_id o_carrier_id [1..DIST_PER_WARE] junk)"

section \<open>Effects\<close>

definition line_eff :: "'f fops \<Rightarrow> 'f order_ctx \<Rightarrow> int \<Rightarrow> int \<Rightarrow> int \<Rightarrow> int \<Rightarrow> string \<Rightarrow> string pure" where
  "line_eff F x ol_number ol_supply_w_id ol_i_id ol_quantity ol_dist_info =
     p_bind (p_select InvalidItem (stmt5 ol_i_id)) (\<lambda>(i_price, i_name, i_data).
     p_bind (p_select SqlErr (stmt6 ol_i_id ol_supply_w_id)) (\<lambda>(s_quantity, s_data, s_dist).
       let info = pick_dist_info ol_dist_info s_dist (x_d_id x);
           ol_amount = line_amount F ol_quantity (to_float F i_price) (x_w_tax x) (x_d_tax x) (x_discount x)
       in p_bind (p_update (stmt7 (new_quantity s_quantity ol_quantity) ol_i_id ol_supply_w_id)) (\<lambda>_.
          p_bind (p_update (stmt8 (x_o_id x) (x_d_id x) (x_w_id x) ol_number ol_i_id ol_supply_w_id
                     ol_quantity (to_dec F ol_amount) info)) (\<lambda>_. p_return info))))"

fun lines_eff :: "'f fops \<Rightarrow> 'f order_ctx \<Rightarrow> int list \<Rightarrow> int list \<Rightarrow> int list \<Rightarrow> nat list \<Rightarrow> int \<Rightarrow> string \<Rightarrow> unit pure" where
  "lines_eff F x itemid supware qty [] ol_number info = p_return ()"
| "lines_eff F x itemid supware qty (k # ks) ol_number info =
     p_bind (line_eff F x ol_number (supware ! k) (itemid ! k) (qty ! k) info) (\<lambda>info1.
       lines_eff F x itemid supware qty ks (ol_number + 1) info1)"

definition neword_eff :: "'f fops \<Rightarrow> string \<Rightarrow> string \<Rightarrow> neword_args \<Rightarrow> unit pure" where
  "neword_eff F datetime junk a =
     p_bind (p_select SqlErr (stmt0 (n_w_id a) (n_d_id a) (n_c_id a))) (\<lambda>(c_discount, c_last, c_credit, w_tax).
     p_bind (p_select SqlErr (stmt1 (n_d_id a) (n_w_id a))) (\<lambda>(d_next_o_id, d_tax).
     p_bind (p_update (stmt2 d_next_o_id (n_d_id a) (n_w_id a))) (\<lambda>_.
     p_bind (p_update (stmt3 d_next_o_id (n_d_id a) (n_w_id a) (n_c_id a) datetime (int (n_ol_cnt a)) (n_all_local a))) (\<lambda>_.
     p_bind (p_update (stmt4 d_next_o_id (n_d_id a) (n_w_id a))) (\<lambda>_.
       lines_eff F
         \<lparr>x_o_id = d_next_o_id, x_d_id = n_d_id a, x_w_id = n_w_id a, x_w_tax = to_float F w_tax,
          x_d_tax = to_float F d_tax, x_discount = to_float F c_discount\<rparr>
         (n_itemid a) (n_supware a) (n_qty a)
         (neword_sort (n_ol_cnt a) (n_supware a) (n_itemid a)) 1 junk)))))"

text \<open>The customer a payment by name goes to: the one in the middle of those with the name.\<close>

definition by_name_eff :: "(customer list \<Rightarrow> customer list) \<Rightarrow> int \<Rightarrow> int \<Rightarrow> string \<Rightarrow> int \<Rightarrow> int pure" where
  "by_name_eff ord c_w_id c_d_id c_last c_id d =
     (let n = midpoint (length (filter (\<lambda>r. C_W_ID r = c_w_id \<and> C_D_ID r = c_d_id \<and> C_LAST r = c_last) (customers d)));
          rows = stmt14 ord c_w_id c_d_id c_last d
      in if length rows < n then Inl SqlErr
         else Inr (if n = 0 then c_id else rows ! (n - 1), d))"

definition customer_eff :: "'f fops \<Rightarrow> int \<Rightarrow> int \<Rightarrow> int \<Rightarrow> 'f \<Rightarrow> unit pure" where
  "customer_eff F c_w_id c_d_id c_id h_amount =
     p_bind (p_select SqlErr (stmt15 c_w_id c_d_id c_id)) (\<lambda>(c_credit, balance).
       let c_balance = fsub F (to_float F balance) h_amount
       in if has_substring ''BC'' (take 2 c_credit)
          then p_bind (p_select SqlErr (stmt16 c_w_id c_d_id c_id)) (\<lambda>c_data.
                 p_update (stmt17 (to_dec F c_balance) c_data c_w_id c_d_id c_id))
          else p_update (stmt18 (to_dec F c_balance) c_w_id c_d_id c_id))"

definition payment_eff :: "'f fops \<Rightarrow> (customer list \<Rightarrow> customer list) \<Rightarrow> string \<Rightarrow> 'f payment_args \<Rightarrow> unit pure" where
  "payment_eff F ord datetime a =
     p_bind (p_update (stmt9 (\<lambda>x. dec_add F x (p_amount a)) (p_w_id a))) (\<lambda>_.
     p_bind (p_select SqlErr (stmt10 (p_w_id a))) (\<lambda>w_name.
     p_bind (p_update (stmt11 (\<lambda>x. dec_add F x (p_amount a)) (p_w_id a) (p_d_id a))) (\<lambda>_.
     p_bind (p_select SqlErr (stmt12 (p_w_id a) (p_d_id a))) (\<lambda>d_name.
     p_bind (if p_byname a then by_name_eff ord (p_c_w_id a) (p_c_d_id a) (p_c_last a) (p_c_id a)
             else p_return (p_c_id a)) (\<lambda>c_id.
     p_bind (customer_eff F (p_c_w_id a) (p_c_d_id a) c_id (p_amount a)) (\<lambda>_.
       p_update (stmt19 (p_c_d_id a) (p_c_w_id a) c_id (p_d_id a) (p_w_id a) datetime
                     (to_dec F (p_amount a)) (payment_h_data w_name d_name))))))))"

definition deliver_eff :: "'f fops \<Rightarrow> string \<Rightarrow> int \<Rightarrow> int \<Rightarrow> int \<Rightarrow> int \<Rightarrow> 'f \<Rightarrow> 'f pure" where
  "deliver_eff F datetime w_id o_carrier_id d_id no_o_id ol_total =
     p_bind (p_update (stmt26 no_o_id d_id w_id)) (\<lambda>_.
     p_bind (p_select SqlErr (stmt27 no_o_id d_id w_id)) (\<lambda>c_id.
     p_bind (p_update (stmt28 o_carrier_id no_o_id d_id w_id)) (\<lambda>_.
     p_bind (p_update (stmt29 datetime no_o_id d_id w_id)) (\<lambda>_.
     p_bind (p_select SqlErr (stmt30 no_o_id d_id w_id)) (\<lambda>s.
       let total = (case s of None \<Rightarrow> ol_total | Some v \<Rightarrow> to_float F v)
       in p_bind (p_update (stmt31 (\<lambda>x. dec_add F x total) c_id d_id w_id)) (\<lambda>_. p_return total))))))"

section \<open>The transactions refine their effects\<close>

lemma line_refines: "tx_refines (neword_line F x n w i q info) (line_eff F x n w i q info)"
  unfolding neword_line_def line_eff_def neword_item_def neword_stock_def neword_take_stock_def
    neword_insert_line_def Let_def
  by (intro refine_bind refine_prod refine)

lemma lines_refine:
  "tx_refines (neword_lines F x itemid supware qty ks n info) (lines_eff F x itemid supware qty ks n info)"
  by (induction ks arbitrary: n info) (auto intro: refine_bind refine_return line_refines)

lemma neword_refines: "tx_refines (neword_body F datetime junk a) (neword_eff F datetime junk a)"
  unfolding neword_body_def neword_eff_def neword_customer_def neword_district_def neword_next_id_def
    neword_order_def neword_new_order_def
  by (intro refine_bind refine_prod lines_refine refine)

lemma fetch_times_refines:
  "tx_refines (fetch_times t n rows v)
     (if length rows < n then p_fail SqlErr else p_return (if n = 0 then v else rows ! (n - 1)))"
proof (induction n arbitrary: rows v)
  case 0
  then show ?case by (simp add: refine_return)
next
  case (Suc n)
  have "tx_refines (fetch_times t (Suc n) rows v)
     (p_bind (p_return (case rows of [] \<Rightarrow> None | r # rs \<Rightarrow> Some (r, rs))) (\<lambda>x.
        case x of None \<Rightarrow> p_fail SqlErr
        | Some (r, rs) \<Rightarrow> if length rs < n then p_fail SqlErr else p_return (if n = 0 then r else rs ! (n - 1))))"
    unfolding fetch_times.simps
    by (intro refine_bind refine_fetch refine_option refine_prod refine_fail Suc.IH)
  then show ?case by (cases rows) (auto simp: nth_Cons' split: if_splits)
qed

lemma by_name_refines:
  "tx_refines (payment_by_name ord c_w_id c_d_id c_last c_id) (by_name_eff ord c_w_id c_d_id c_last c_id)"
proof -
  have "tx_refines (payment_by_name ord c_w_id c_d_id c_last c_id)
    (p_bind (p_select SqlErr (stmt13 c_w_id c_d_id c_last)) (\<lambda>namecnt.
     p_bind (p_query (stmt14 ord c_w_id c_d_id c_last)) (\<lambda>rows.
       if length rows < midpoint namecnt then p_fail SqlErr
       else p_return (if midpoint namecnt = 0 then c_id else rows ! (midpoint namecnt - 1)))))"
    unfolding payment_by_name_def by (intro refine_bind refine_select_row refine_query fetch_times_refines)
  moreover have "p_bind (p_select SqlErr (stmt13 c_w_id c_d_id c_last)) (\<lambda>namecnt.
     p_bind (p_query (stmt14 ord c_w_id c_d_id c_last)) (\<lambda>rows.
       if length rows < midpoint namecnt then p_fail SqlErr
       else p_return (if midpoint namecnt = 0 then c_id else rows ! (midpoint namecnt - 1)))) d =
     by_name_eff ord c_w_id c_d_id c_last c_id d" for d
    by (simp add: p_bind_def p_select_def stmt13_def p_query_def p_fail_def p_return_def by_name_eff_def Let_def)
  ultimately show ?thesis by (rule refine_cong)
qed

lemma customer_refines:
  "tx_refines (payment_customer F c_w_id c_d_id c_id h) (customer_eff F c_w_id c_d_id c_id h)"
  unfolding payment_customer_def customer_eff_def Let_def
  by (intro refine_bind refine_prod refine_if refine)

lemma payment_refines: "tx_refines (payment_body F ord datetime a) (payment_eff F ord datetime a)"
  unfolding payment_body_def payment_eff_def
  by (intro refine_bind refine_if refine by_name_refines customer_refines)

lemma deliver_refines:
  "tx_refines (deliver_order F datetime w o_c d n t) (deliver_eff F datetime w o_c d n t)"
  unfolding deliver_order_def deliver_eff_def Let_def by (intro refine_bind refine)



text \<open>Order status and stock level: what they ask for is all their effect depends on.\<close>

definition ordstat_customer_eff ::
  "(customer list \<Rightarrow> customer list) \<Rightarrow> int \<Rightarrow> int \<Rightarrow> bool \<Rightarrow> int \<Rightarrow> string \<Rightarrow> (int \<times> string \<times> string) pure" where
  "ordstat_customer_eff ord c_w_id c_d_id byname c_id c_last =
     (if byname
      then p_bind (p_select SqlErr (stmt13 c_w_id c_d_id c_last)) (\<lambda>namecnt.
           p_bind (p_query (stmt21 ord c_w_id c_d_id c_last)) (\<lambda>rows.
             if length rows < midpoint namecnt then p_fail SqlErr
             else p_return (if midpoint namecnt = 0 then (0, [], c_last) else rows ! (midpoint namecnt - 1))))
      else p_select SqlErr (stmt22 c_w_id c_d_id c_id))"

definition ordstat_eff :: "(customer list \<Rightarrow> customer list) \<Rightarrow> int \<Rightarrow> int \<Rightarrow> bool \<Rightarrow> int \<Rightarrow> string \<Rightarrow> unit pure" where
  "ordstat_eff ord w_id d_id byname c_id c_last =
     p_bind (ordstat_customer_eff ord w_id d_id byname c_id c_last) (\<lambda>_.
     p_bind (p_select SqlErr (stmt23 w_id d_id c_id)) (\<lambda>_. p_return ()))"

definition slev_eff :: "int \<Rightarrow> int \<Rightarrow> int \<Rightarrow> unit pure" where
  "slev_eff w_id d_id level = p_bind (p_select SqlErr (stmt32 d_id w_id)) (\<lambda>_. p_return ())"

lemma fetch_all_refines: "tx_refines (fetch_all t rows) (p_return ())"
proof (induction rows)
  case Nil
  show ?case using refine_bind [OF refine_fetch, of "\<lambda>_. tx_return ()" "\<lambda>_. p_return ()" t "[]"]
    by (simp add: refine_return)
next
  case (Cons r rs)
  show ?case using refine_bind [OF refine_fetch, of "\<lambda>_. fetch_all t rs" "\<lambda>_. p_return ()" t "r # rs"] Cons
    by simp
qed

lemma p_select_count: "p_bind (p_select SqlErr (stmt34 w i l)) (\<lambda>_. p) = p"
  by (simp add: fun_eq_iff p_bind_def p_select_def stmt34_def)

lemma slev_items_refine: "tx_refines (slev_items w l is) (p_return ())"
proof (induction "is")
  case Nil
  show ?case using refine_bind [OF refine_fetch, of "\<lambda>_. tx_return ()" "\<lambda>_. p_return ()" False "[]"]
    by (simp add: refine_return)
next
  case (Cons i "is")
  have "tx_refines (tx_bind (select_row False SqlErr (stmt34 w i l)) (\<lambda>_. slev_items w l is)) (p_return ())"
    using refine_bind [OF refine_select_row, of "\<lambda>_. slev_items w l is" "\<lambda>_. p_return ()" False SqlErr "stmt34 w i l"] Cons
    by (simp add: p_select_count)
  then show ?case
    using refine_bind [OF refine_fetch, of _ "\<lambda>_. p_return ()" False "i # is"] by simp
qed

lemma p_query_unit: "p_bind (p_query q) (\<lambda>_. p) = p"
  by (simp add: fun_eq_iff p_bind_def p_query_def)

lemma ordstat_customer_refines:
  "tx_refines (ordstat_customer ord w d byname c_id c_last) (ordstat_customer_eff ord w d byname c_id c_last)"
  unfolding ordstat_customer_def ordstat_customer_eff_def
  by (intro refine_if refine_bind refine_select_row refine_query fetch_times_refines)

lemma ordstat_refines:
  "tx_refines (ordstat_body ord w_id d_id byname c_id c_last) (ordstat_eff ord w_id d_id byname c_id c_last)"
proof -
  have "tx_refines (tx_bind (query (stmt24 w_id d_id o_id)) (\<lambda>rows. fetch_all True rows)) (p_return ())" for o_id
    using refine_bind [OF refine_query fetch_all_refines] by (simp add: p_query_unit)
  then show ?thesis unfolding ordstat_body_def ordstat_eff_def
    by (intro refine_bind ordstat_customer_refines refine_select_row) (simp split: prod.split)
qed

lemma slev_refines: "tx_refines (slev_body w_id d_id level) (slev_eff w_id d_id level)"
proof -
  have "tx_refines (tx_bind (query (stmt33 w_id d_id n)) (\<lambda>rows. slev_items w_id level rows)) (p_return ())" for n
    using refine_bind [OF refine_query slev_items_refine] by (simp add: p_query_unit)
  then show ?thesis unfolding slev_body_def slev_eff_def by (intro refine_bind refine_select_row)
qed

lemma p_bind_cases:
  assumes "p_bind p g d = Inr y"
  obtains v d1 where "p d = Inr (v, d1)" "g v d1 = Inr y"
  using assms by (auto simp: p_bind_def split: sum.splits prod.splits)

lemma p_select_same: "p_select miss q d = Inr (v, d') \<Longrightarrow> d' = d"
  by (auto simp: p_select_def split: list.splits)

lemma ordstat_eff_same: "ordstat_eff ord w_id d_id byname c_id c_last d = Inr ((), d') \<Longrightarrow> d' = d"
  unfolding ordstat_eff_def ordstat_customer_eff_def
  by (auto elim!: p_bind_cases simp: p_return_def p_fail_def p_query_def dest!: p_select_same split: if_splits)

lemma slev_eff_same: "slev_eff w_id d_id level d = Inr ((), d') \<Longrightarrow> d' = d"
  unfolding slev_eff_def by (auto elim!: p_bind_cases simp: p_return_def dest!: p_select_same)

interpretation neword_tx: tx_body "neword_body F datetime junk" "neword_eff F datetime junk" for F datetime junk
  by unfold_locales (rule neword_refines)

interpretation payment_tx: tx_body "payment_body F ord datetime" "payment_eff F ord datetime" for F ord datetime
  by unfold_locales (rule payment_refines)

interpretation ordstat_tx: tx_body "ordstat_body ord w_id d_id byname c_id" "ordstat_eff ord w_id d_id byname c_id"
  for ord w_id d_id byname c_id
  by unfold_locales (rule ordstat_refines)

interpretation slev_tx: tx_body "slev_body w_id d_id" "slev_eff w_id d_id" for w_id d_id
  by unfold_locales (rule slev_refines)

section \<open>Delivery district by district\<close>

text \<open>The effect of one district: nothing without a new order, otherwise the oldest is delivered.\<close>

definition district_eff :: "'f fops \<Rightarrow> string \<Rightarrow> int \<Rightarrow> int \<Rightarrow> int \<Rightarrow> 'f \<Rightarrow> 'f pure" where
  "district_eff F datetime w_id o_carrier_id d_id ol_total =
     p_bind (p_select SqlErr (stmt25 d_id w_id)) (\<lambda>no_o_id.
       if no_o_id = 0 then p_return ol_total
       else deliver_eff F datetime w_id o_carrier_id d_id no_o_id ol_total)"

fun delivery_eff :: "'f fops \<Rightarrow> string \<Rightarrow> int \<Rightarrow> int \<Rightarrow> int list \<Rightarrow> 'f \<Rightarrow> unit pure" where
  "delivery_eff F datetime w_id o_carrier_id [] ol_total = p_return ()"
| "delivery_eff F datetime w_id o_carrier_id (d_id # ds) ol_total =
     p_bind (district_eff F datetime w_id o_carrier_id d_id ol_total) (\<lambda>total.
       delivery_eff F datetime w_id o_carrier_id ds total)"

lemma delivery_district_cases:
  assumes idle: "working c = committed c"
    and run: "delivery_district F datetime w o_c d_id t e c = (r, c')"
  shows "(\<exists>t1. r = Inr t1 \<and> district_eff F datetime w o_c d_id t (committed c) = Inr (t1, committed c') \<and>
            working c' = committed c') \<or>
    (r = Inl SqlErr \<and> (committed c' = committed c \<or>
        (\<exists>t1. district_eff F datetime w o_c d_id t (committed c) = Inr (t1, committed c'))) \<and>
        (reliable e \<longrightarrow> district_eff F datetime w o_c d_id t (committed c) = Inl SqlErr \<and> committed c' = committed c))"
proof -
  let ?n = "stmt25 d_id w (committed c)"
  obtain n where n: "?n = [n]" by (simp add: stmt25_def Let_def)
  obtain r1 c1 where 1: "select_row False SqlErr (stmt25 d_id w) e c = (r1, c1)" by fastforce
  note D = tx_refinesD [OF refine_select_row 1]
  have sel: "p_select SqlErr (stmt25 d_id w) (working c) = Inr (n, working c)"
    using n idle by (simp add: p_select_def)
  show ?thesis
  proof (cases r1)
    case (Inl x)
    have "r1 = Inl SqlErr" using D(3) [OF sel] Inl by auto
    then have "r = Inl SqlErr" "c' = c1" "\<not> reliable e"
      using run 1 D(4) sel by (auto simp: delivery_district_def tx_bind_def)
    then show ?thesis using D(1) by simp
  next
    case (Inr v)
    then have v: "v = n" "working c1 = committed c" "committed c1 = committed c"
      using D(1) D(3) [OF sel] idle by auto
    show ?thesis
    proof (cases "n = 0")
      case True
      then have "r = Inr t" "c' = c1"
        using run 1 Inr v by (simp_all add: delivery_district_def tx_bind_def tx_return_def)
      moreover have "district_eff F datetime w o_c d_id t (committed c) = Inr (t, committed c)"
        using True sel idle by (simp add: district_eff_def p_bind_def p_return_def)
      ultimately show ?thesis using v by simp
    next
      case False
      obtain r2 c2 where 2: "deliver_order F datetime w o_c d_id n t e c1 = (r2, c2)" by fastforce
      note E = tx_refinesD [OF deliver_refines 2, unfolded v]
      have eff: "district_eff F datetime w o_c d_id t (committed c) = deliver_eff F datetime w o_c d_id n t (committed c)"
        using False sel idle by (simp add: district_eff_def p_bind_def)
      have no_inv: "deliver_eff F datetime w o_c d_id n t (committed c) \<noteq> Inl InvalidItem"
        by (auto simp: deliver_eff_def p_bind_def p_update_def p_select_def p_return_def Let_def
            split: sum.splits option.splits list.splits)
      show ?thesis
      proof (cases r2)
        case (Inl x)
        then have x: "x = SqlErr"
          using E(2,3) no_inv by (cases "deliver_eff F datetime w o_c d_id n t (committed c)") (auto, metis tx_error.exhaust)
        then have "r = Inl SqlErr" "c' = c2"
          using run 1 2 Inr v False Inl by (auto simp: delivery_district_def tx_bind_def)
        then show ?thesis using E(1,4) Inl x eff by simp
      next
        case (Inr t1)
        have d: "deliver_eff F datetime w o_c d_id n t (committed c) = Inr (t1, working c2)"
          using E(2,3) Inr by (cases "deliver_eff F datetime w o_c d_id n t (committed c)") auto
        have "(r, c') = (case commit e c2 of (Inl x, c3) \<Rightarrow> (Inl x, c3) | (Inr _, c3) \<Rightarrow> (Inr t1, c3))"
          using run 1 2 \<open>r1 = Inr v\<close> v False Inr by (auto simp: delivery_district_def tx_bind_def tx_return_def split: prod.splits sum.splits)
        then show ?thesis using d eff E(1)
          by (auto simp: commit_def Let_def reliable_def split: if_splits)
      qed
    qed
  qed
qed


lemma delivery_eff_Cons:
  "district_eff F datetime w o_c d_id t d = Inr (t1, d1) \<Longrightarrow>
   delivery_eff F datetime w o_c (d_id # ds) t d = delivery_eff F datetime w o_c ds t1 d1"
  by (simp add: p_bind_def)

lemma delivery_loop_prefix:
  assumes "working c = committed c" "delivery_loop F datetime w o_c ds t e c = (r, c')"
  shows "\<exists>k \<le> length ds. delivery_eff F datetime w o_c (take k ds) t (committed c) = Inr ((), committed c') \<and>
     (r = Inr () \<longrightarrow> k = length ds \<and> working c' = committed c') \<and> r \<noteq> Inl InvalidItem \<and>
     (reliable e \<longrightarrow> r = Inl SqlErr \<longrightarrow> delivery_eff F datetime w o_c ds t (committed c) = Inl SqlErr)"
  using assms
proof (induction ds arbitrary: t c)
  case Nil
  then show ?case by (auto simp: tx_return_def p_return_def)
next
  case (Cons d_id ds)
  let ?eff = "district_eff F datetime w o_c d_id t (committed c)"
  obtain r1 c1 where 1: "delivery_district F datetime w o_c d_id t e c = (r1, c1)" by fastforce
  note D = delivery_district_cases [OF Cons.prems(1) 1]
  show ?case
  proof (cases r1)
    case (Inr t1)
    then have eff: "?eff = Inr (t1, committed c1)" and idle: "working c1 = committed c1" using D by auto
    have "delivery_loop F datetime w o_c ds t1 e c1 = (r, c')"
      using Cons.prems(2) 1 Inr by (simp add: tx_bind_def)
    from Cons.IH [OF idle this] obtain k where k: "k \<le> length ds"
      "delivery_eff F datetime w o_c (take k ds) t1 (committed c1) = Inr ((), committed c')"
      "r = Inr () \<longrightarrow> k = length ds \<and> working c' = committed c'" "r \<noteq> Inl InvalidItem"
      "reliable e \<longrightarrow> r = Inl SqlErr \<longrightarrow> delivery_eff F datetime w o_c ds t1 (committed c1) = Inl SqlErr"
      by blast
    then show ?thesis using delivery_eff_Cons [OF eff]
      by (intro exI [of _ "Suc k"]) simp
  next
    case (Inl x)
    then have r: "r = Inl SqlErr" "c' = c1" using D Cons.prems(2) 1 by (auto simp: tx_bind_def)
    consider "committed c1 = committed c" | t1 where "?eff = Inr (t1, committed c1)" using D Inl by auto
    then obtain k where "k \<le> 1" "delivery_eff F datetime w o_c (take k (d_id # ds)) t (committed c) = Inr ((), committed c1)"
    proof cases
      case 1
      then show ?thesis using that [of 0] by (simp add: p_return_def)
    next
      case 2
      then show ?thesis using that [of 1] by (simp add: p_bind_def p_return_def)
    qed
    moreover have "reliable e \<Longrightarrow> delivery_eff F datetime w o_c (d_id # ds) t (committed c) = Inl SqlErr"
      using D Inl by (auto simp: p_bind_def)
    ultimately show ?thesis using r by (intro exI [of _ k]) auto
  qed
qed

lemma length_districts: "length [1..DIST_PER_WARE] = 10"
  by (simp add: DIST_PER_WARE_def)

text \<open>
  A delivery commits district by district: whatever the client library returns, what is in the
  database afterwards is the delivery of the first \<open>k\<close> districts, all ten when it answers 1.
\<close>

lemma delivery_prefix:
  assumes "working c = committed c"
    and "delivery F datetime junk w_id o_carrier_id e c = (ret, c')"
  shows "\<exists>k \<le> 10. delivery_eff F datetime w_id o_carrier_id (take k [1..DIST_PER_WARE]) junk (committed c) =
                    Inr ((), committed c') \<and>
           (ret = 1 \<longrightarrow> k = 10) \<and> (ret = 0 \<or> ret = 1) \<and> working c' = committed c' \<and>
           (reliable e \<longrightarrow> ret = 0 \<longrightarrow>
              delivery_eff F datetime w_id o_carrier_id [1..DIST_PER_WARE] junk (committed c) = Inl SqlErr)"
proof -
  obtain r c1 where 1: "delivery_loop F datetime w_id o_carrier_id [1..DIST_PER_WARE] junk e c = (r, c1)" by fastforce
  obtain k where k: "k \<le> 10"
      "delivery_eff F datetime w_id o_carrier_id (take k [1..DIST_PER_WARE]) junk (committed c) = Inr ((), committed c1)"
      "r = Inr () \<longrightarrow> k = 10 \<and> working c1 = committed c1" "r \<noteq> Inl InvalidItem"
      "reliable e \<longrightarrow> r = Inl SqlErr \<longrightarrow>
         delivery_eff F datetime w_id o_carrier_id [1..DIST_PER_WARE] junk (committed c) = Inl SqlErr"
    using delivery_loop_prefix [OF assms(1) 1] unfolding length_districts by blast
  show ?thesis
  proof (cases r)
    case (Inl x)
    then have "x = SqlErr" using k(4) by (cases x) auto
    then show ?thesis using assms(2) 1 k Inl by (auto simp: delivery_def run_tx_def rollback_def)
  next
    case (Inr u)
    then show ?thesis using assms(2) 1 k by (auto simp: delivery_def run_tx_def)
  qed
qed

section \<open>The order in which stock rows are locked\<close>

lemma sort_inner_min:
  assumes "tmp = key (xs ! m)" "m < j" "j \<le> n"
  shows "sort_inner key n xs j tmp m < n \<and> m \<le> sort_inner key n xs j tmp m \<and>
     key (xs ! sort_inner key n xs j tmp m) \<le> tmp \<and>
     (\<forall>p. j \<le> p \<and> p < n \<longrightarrow> key (xs ! sort_inner key n xs j tmp m) \<le> key (xs ! p))"
  using assms
proof (induction key n xs j tmp m rule: sort_inner.induct)
  case (1 key n xs j tmp m)
  show ?case
  proof (cases "j < n")
    case True
    let ?m = "if key (xs ! j) < tmp then j else m"
    have e: "sort_inner key n xs j tmp m = sort_inner key n xs (Suc j) (key (xs ! ?m)) ?m"
      using True 1(3) by (simp add: sort_inner.simps [of key n xs j])
    have h: "sort_inner key n xs j tmp m < n \<and> ?m \<le> sort_inner key n xs j tmp m \<and>
       key (xs ! sort_inner key n xs j tmp m) \<le> key (xs ! ?m) \<and>
       (\<forall>p. Suc j \<le> p \<and> p < n \<longrightarrow> key (xs ! sort_inner key n xs j tmp m) \<le> key (xs ! p))"
      unfolding e using 1 True by (cases "key (xs ! j) < tmp") simp_all
    have "key (xs ! ?m) \<le> key (xs ! j)" "key (xs ! ?m) \<le> tmp" "m \<le> ?m" using 1(3,4) by auto
    moreover have "key (xs ! sort_inner key n xs j tmp m) \<le> key (xs ! p)" if "j \<le> p" "p < n" for p
      using h that calculation(1) by (cases "p = j") auto
    ultimately show ?thesis using h by force
  next
    case False
    then have "sort_inner key n xs j tmp m = m" by (simp add: sort_inner.simps [of key n xs j])
    then show ?thesis using 1(3-) False by simp
  qed
qed

definition sorted_upto :: "(nat \<Rightarrow> int) \<Rightarrow> nat \<Rightarrow> nat list \<Rightarrow> bool" where
  "sorted_upto key i xs \<longleftrightarrow> (\<forall>p q. p < i \<and> p < q \<and> q < length xs \<longrightarrow> key (xs ! p) \<le> key (xs ! q))"

lemma sorted_upto_step:
  assumes "sorted_upto key i xs" "i \<le> m" "m < length xs"
    and "\<And>p. i \<le> p \<Longrightarrow> p < length xs \<Longrightarrow> key (xs ! m) \<le> key (xs ! p)"
  shows "sorted_upto key (Suc i) (swap_int m i xs)"
  unfolding sorted_upto_def
proof (intro allI impI)
  fix p q assume a: "p < Suc i \<and> p < q \<and> q < length (swap_int m i xs)"
  have s: "p' < i \<Longrightarrow> p' < q' \<Longrightarrow> q' < length xs \<Longrightarrow> key (xs ! p') \<le> key (xs ! q')" for p' q'
    using assms(1) by (simp add: sorted_upto_def)
  show "key (swap_int m i xs ! p) \<le> key (swap_int m i xs ! q)"
  proof (cases "p = i")
    case True
    then show ?thesis using a assms(2-4) by (auto simp: nth_swap_int)
  next
    case False
    then show ?thesis using a assms(2,3) s by (auto simp: nth_swap_int)
  qed
qed

lemma swap_int_same: "i < length xs \<Longrightarrow> swap_int i i xs = xs"
  by (simp add: swap_int_def)

lemma sort_outer_sorts:
  assumes "length xs = n" "sorted_upto key i xs"
  shows "mset (sort_outer key n i xs) = mset xs \<and> sorted_upto key n (sort_outer key n i xs)"
  using assms
proof (induction key n i xs rule: sort_outer.induct)
  case (1 key n i xs)
  show ?case
  proof (cases "i + 1 < n")
    case True
    define m where "m = sort_inner key n xs (i + 1) (key (xs ! i)) i"
    have m: "m < n" "i \<le> m" "key (xs ! m) \<le> key (xs ! i)"
      "\<And>p. i + 1 \<le> p \<Longrightarrow> p < n \<Longrightarrow> key (xs ! m) \<le> key (xs ! p)"
      using sort_inner_min [of "key (xs ! i)" key xs i "i + 1" n] True by (auto simp: m_def)
    have e: "(if m \<noteq> i then swap_int m i xs else xs) = swap_int m i xs"
      using swap_int_same [of i xs] True 1(2) by auto
    have "key (xs ! m) \<le> key (xs ! p)" if "i \<le> p" "p < length xs" for p
      using m(3) m(4) [of p] that 1(2) by (cases "p = i") auto
    then have "sorted_upto key (Suc i) (swap_int m i xs)"
      using sorted_upto_step [of key i xs m] 1(2,3) m(1,2) by simp
    then have "mset (sort_outer key n (Suc i) (swap_int m i xs)) = mset (swap_int m i xs) \<and>
        sorted_upto key n (sort_outer key n (Suc i) (swap_int m i xs))"
      using 1(1) [OF True refl, folded m_def, unfolded e] 1(2) by simp
    moreover have "mset (swap_int m i xs) = mset xs" using m True 1(2) by (simp add: mset_swap_int)
    moreover have "sort_outer key n i xs = sort_outer key n (Suc i) (swap_int m i xs)"
      using True by (subst sort_outer.simps) (simp only: Let_def m_def [symmetric] e if_True)
    ultimately show ?thesis by simp
  next
    case False
    then have "sorted_upto key n xs"
      using 1(2,3) by (auto simp: sorted_upto_def)
    then show ?thesis using False by (simp add: sort_outer.simps [of key n i])
  qed
qed

lemma neword_sort_mset: "mset (neword_sort n supware itemid) = mset [0..<n]"
  using sort_outer_sorts [of "[0..<n]" n "line_key supware itemid" 0]
  by (simp add: neword_sort_def sorted_upto_def)


section \<open>All or nothing\<close>

text \<open>
  C12: new orders are all or nothing: for any behaviour of the client library the database is as it
  was or has the whole effect of the order; the answer 1 means it has the effect, or that an item
  does not exist and nothing changed; with a library that works, it does exactly that.
\<close>

theorem neword_atomic:
  assumes "working c = committed c" and "neword F datetime junk a e c = (ret, c')"
  shows "working c' = committed c' \<and> (ret = 0 \<or> ret = 1) \<and>
    (committed c' = committed c \<or> neword_eff F datetime junk a (committed c) = Inr ((), committed c')) \<and>
    (ret = 1 \<longrightarrow> neword_eff F datetime junk a (committed c) = Inr ((), committed c') \<or>
       neword_eff F datetime junk a (committed c) = Inl InvalidItem \<and> committed c' = committed c) \<and>
    (reliable e \<longrightarrow> ret = (if neword_eff F datetime junk a (committed c) = Inl SqlErr then 0 else 1))"
proof -
  note N = neword_tx.all_or_nothing [OF assms(1) assms(2) [unfolded neword_def]]
  have "reliable e \<longrightarrow> ret = (if neword_eff F datetime junk a (committed c) = Inl SqlErr then 0 else 1)"
    using N(5) by (auto split: sum.splits tx_error.splits)
  then show ?thesis using N(1-4) by blast
qed

text \<open>The same for payments.\<close>

lemma payment_atomic:
  assumes "working c = committed c" and "payment F ord datetime a e c = (ret, c')"
  shows "working c' = committed c'"
    "committed c' = committed c \<or> payment_eff F ord datetime a (committed c) = Inr ((), committed c')"
    "ret = 1 \<Longrightarrow> payment_eff F ord datetime a (committed c) = Inr ((), committed c') \<or>
       payment_eff F ord datetime a (committed c) = Inl InvalidItem \<and> committed c' = committed c"
    "ret = 0 \<or> ret = 1"
  using payment_tx.all_or_nothing(1-4) [OF assms(1) assms(2) [unfolded payment_def]] by blast+

lemma ordstat_keeps:
  assumes "working c = committed c" and "ordstat ord w_id d_id byname c_id c_last e c = (ret, c')"
  shows "committed c' = committed c \<and> working c' = committed c' \<and> (ret = 0 \<or> ret = 1)"
  using ordstat_tx.all_or_nothing(1,2,4) [OF assms(1) assms(2) [unfolded ordstat_def]] ordstat_eff_same by metis

lemma slev_keeps:
  assumes "working c = committed c" and "slev w_id d_id level e c = (ret, c')"
  shows "committed c' = committed c \<and> working c' = committed c' \<and> (ret = 0 \<or> ret = 1)"
  using slev_tx.all_or_nothing(1,2,4) [OF assms(1) assms(2) [unfolded slev_def]] slev_eff_same by metis

section \<open>A small database\<close>

text \<open>Amounts in whole hundredths, and a database with one warehouse, district, customer and order.\<close>

definition cent_fops :: "int fops" where
  "cent_fops = \<lparr>to_float = (\<lambda>x. x), to_dec = (\<lambda>x. x), dec_add = (+), int_float = (\<lambda>n. 100 * n), fadd = (+), fsub = (-),
                fmul = (\<lambda>x y. x * y div 100), fdiv = (\<lambda>x y. x * 100 div y)\<rparr>"

definition sample_db :: db where
  "sample_db =
     \<lparr>warehouses = [\<lparr>W_ID = 1, W_NAME = ''w'', W_TAX = 10, W_YTD = 1000\<rparr>],
      districts = [\<lparr>D_ID = 1, D_W_ID = 1, D_NAME = ''d'', D_TAX = 20, D_YTD = 1000, D_NEXT_O_ID = 2\<rparr>],
      customers = [\<lparr>C_ID = 1, C_D_ID = 1, C_W_ID = 1, C_FIRST = ''f'', C_LAST = ''BARBARBAR'', C_CREDIT = ''GC'', C_DISCOUNT = 5,
                    C_BALANCE = -1000, C_YTD_PAYMENT = 1000, C_PAYMENT_CNT = 1, C_DELIVERY_CNT = 0, C_DATA = ''''\<rparr>],
      histories = [\<lparr>H_C_ID = 1, H_C_D_ID = 1, H_C_W_ID = 1, H_D_ID = 1, H_W_ID = 1, H_DATE = ''t0'', H_AMOUNT = 1000, H_DATA = ''''\<rparr>],
      new_orders = [\<lparr>NO_O_ID = 1, NO_D_ID = 1, NO_W_ID = 1\<rparr>],
      orders = [\<lparr>O_ID = 1, O_D_ID = 1, O_W_ID = 1, O_C_ID = 1, O_ENTRY_D = ''t0'', O_CARRIER_ID = None, O_OL_CNT = 1, O_ALL_LOCAL = 1\<rparr>],
      order_lines = [\<lparr>OL_O_ID = 1, OL_D_ID = 1, OL_W_ID = 1, OL_NUMBER = 1, OL_I_ID = 7, OL_SUPPLY_W_ID = 1, OL_DELIVERY_D = None,
                      OL_QUANTITY = 5, OL_AMOUNT = 400, OL_DIST_INFO = ''x''\<rparr>],
      items = [\<lparr>I_ID = 7, I_IM_ID = 3, I_NAME = ''seven'', I_PRICE = 250, I_DATA = ''''\<rparr>, \<lparr>I_ID = 3, I_IM_ID = 4, I_NAME = ''three'', I_PRICE = 100, I_DATA = ''''\<rparr>],
      stocks = [\<lparr>S_I_ID = 7, S_W_ID = 1, S_QUANTITY = 12, S_DIST = replicate 10 ''s'', S_DATA = ''''\<rparr>,
                \<lparr>S_I_ID = 3, S_W_ID = 1, S_QUANTITY = 9, S_DIST = replicate 10 ''s'', S_DATA = ''''\<rparr>]\<rparr>"

definition sample_conn :: conn where
  "sample_conn = \<lparr>committed = sample_db, working = sample_db, api_calls = 0\<rparr>"

definition sample_order :: neword_args where
  "sample_order = \<lparr>n_w_id = 1, n_d_id = 1, n_c_id = 1, n_ol_cnt = 2, n_all_local = 1, n_itemid = [7, 3], n_supware = [1, 1], n_qty = [4, 10]\<rparr>"

definition good_lib :: mysql_lib where "good_lib = \<lparr>code = (\<lambda>_. 0), applied = (\<lambda>_. False)\<rparr>"

lemma good_lib_reliable: "reliable good_lib"
  by (simp add: reliable_def good_lib_def)

theorem neword_atomic_witness:
  "fst (neword cent_fops ''t1'' '''' sample_order good_lib sample_conn) = 1 \<and>
   neword_eff cent_fops ''t1'' '''' sample_order sample_db =
     Inr ((), committed (snd (neword cent_fops ''t1'' '''' sample_order good_lib sample_conn))) \<and>
   map (\<lambda>l. (OL_O_ID l, OL_NUMBER l, OL_I_ID l)) (order_lines (committed (snd (neword cent_fops ''t1'' '''' sample_order good_lib sample_conn)))) =
     [(1, 1, 7), (2, 1, 3), (2, 2, 7)]"
proof -
  let ?run = "neword cent_fops ''t1'' '''' sample_order good_lib sample_conn"
  have "working sample_conn = committed sample_conn" "committed sample_conn = sample_db" by (simp_all add: sample_conn_def)
  then have "fst ?run = (if neword_eff cent_fops ''t1'' '''' sample_order sample_db = Inl SqlErr then 0 else 1)"
    "fst ?run = 1 \<longrightarrow> neword_eff cent_fops ''t1'' '''' sample_order sample_db = Inr ((), committed (snd ?run)) \<or>
       neword_eff cent_fops ''t1'' '''' sample_order sample_db = Inl InvalidItem \<and> committed (snd ?run) = sample_db"
    using neword_atomic [of sample_conn cent_fops "''t1''" "''''" sample_order good_lib "fst ?run" "snd ?run"] good_lib_reliable by simp_all
  moreover have "case neword_eff cent_fops ''t1'' '''' sample_order sample_db of
      Inl _ \<Rightarrow> False | Inr (_, d) \<Rightarrow> map (\<lambda>l. (OL_O_ID l, OL_NUMBER l, OL_I_ID l)) (order_lines d) = [(1, 1, 7), (2, 1, 3), (2, 2, 7)]"
    by code_simp
  ultimately show ?thesis by (auto split: sum.splits prod.splits if_splits)
qed

end
