(* ===== verification/TpccConsistency.thy ===== *)
theory TpccConsistency
  imports TpccTrans
begin

text \<open>
  The consistency conditions of TPC-C on the database: order numbers without gaps, new orders as
  the undelivered orders, the youngest last, as many order lines as the order says, delivery
  dates with the carrier, year-to-date amounts that add up, and stock between 1 and 100. Every
  transaction keeps them, whatever the client library returns.
\<close>

section \<open>Conditions\<close>

definition order_ids :: "order list \<Rightarrow> int \<times> int \<Rightarrow> int set" where
  "order_ids os k = O_ID ` {o'. o' \<in> set os \<and> (O_W_ID o', O_D_ID o') = k}"

definition orders_ok :: "district list \<Rightarrow> order list \<Rightarrow> bool" where
  "orders_ok ds os \<longleftrightarrow> distinct (map pk_district ds) \<and> distinct (map pk_order os) \<and>
     (\<forall>r \<in> set ds. 1 \<le> D_NEXT_O_ID r \<and> order_ids os (pk_district r) = {1..<D_NEXT_O_ID r}) \<and>
     (\<forall>x \<in> set os. (O_W_ID x, O_D_ID x) \<in> pk_district ` set ds)"

definition open_orders :: "order list \<Rightarrow> order set" where
  "open_orders os = {x. x \<in> set os \<and> O_CARRIER_ID x = None}"

definition oldest_first :: "order list \<Rightarrow> bool" where
  "oldest_first os \<longleftrightarrow>
     (\<forall>x \<in> set os. \<forall>y \<in> set os. (O_W_ID x, O_D_ID x) = (O_W_ID y, O_D_ID y) \<longrightarrow> O_ID x < O_ID y \<longrightarrow>
        O_CARRIER_ID x = None \<longrightarrow> O_CARRIER_ID y = None)"

definition new_orders_ok :: "order list \<Rightarrow> new_order list \<Rightarrow> bool" where
  "new_orders_ok os ns \<longleftrightarrow> distinct (map pk_new_order ns) \<and>
     pk_new_order ` set ns = pk_order ` open_orders os \<and> oldest_first os"

definition line_numbers :: "order_line list \<Rightarrow> int \<times> int \<times> int \<Rightarrow> int set" where
  "line_numbers ls k = OL_NUMBER ` {l. l \<in> set ls \<and> fst (pk_order_line l) = k}"

text \<open>The number of lines of an order is a parameter: while an order is entered it grows.\<close>

definition lines_ok :: "(order \<Rightarrow> int) \<Rightarrow> order list \<Rightarrow> order_line list \<Rightarrow> bool" where
  "lines_ok cnt os ls \<longleftrightarrow> distinct (map pk_order_line ls) \<and>
     (\<forall>x \<in> set os. 0 \<le> cnt x \<and> line_numbers ls (pk_order x) = {1..cnt x}) \<and>
     (\<forall>l \<in> set ls. fst (pk_order_line l) \<in> pk_order ` set os) \<and>
     (\<forall>x \<in> set os. \<forall>l \<in> set ls. fst (pk_order_line l) = pk_order x \<longrightarrow>
        (OL_DELIVERY_D l = None \<longleftrightarrow> O_CARRIER_ID x = None))"

definition consistent :: "db \<Rightarrow> bool" where
  "consistent d \<longleftrightarrow> orders_ok (districts d) (orders d) \<and> new_orders_ok (orders d) (new_orders d) \<and>
     lines_ok O_OL_CNT (orders d) (order_lines d)"

definition ytd_districts :: "int \<Rightarrow> district list \<Rightarrow> int" where
  "ytd_districts w ds = sum_list (map D_YTD (filter (\<lambda>r. D_W_ID r = w) ds))"

definition ytd_history :: "int \<times> int \<Rightarrow> history list \<Rightarrow> int" where
  "ytd_history k hs = sum_list (map H_AMOUNT (filter (\<lambda>h. (H_W_ID h, H_D_ID h) = k) hs))"

definition books_ok :: "db \<Rightarrow> bool" where
  "books_ok d \<longleftrightarrow> distinct (map W_ID (warehouses d)) \<and> distinct (map pk_district (districts d)) \<and>
     (\<forall>w \<in> set (warehouses d). W_YTD w = ytd_districts (W_ID w) (districts d)) \<and>
     (\<forall>r \<in> set (districts d). D_YTD r = ytd_history (pk_district r) (histories d))"

definition stock_ok :: "db \<Rightarrow> bool" where
  "stock_ok d \<longleftrightarrow> (\<forall>s \<in> set (stocks d). 1 \<le> S_QUANTITY s \<and> S_QUANTITY s \<le> 100)"

section \<open>Tables\<close>

lemma set_upd: "set (upd P f t) = (\<lambda>r. if P r then f r else r) ` set t"
  by (simp add: upd_def)

lemma map_upd_same: "(\<And>r. P r \<Longrightarrow> key (f r) = key r) \<Longrightarrow> map key (upd P f t) = map key t"
  by (simp add: upd_def)

lemma filter_upd:
  "(\<And>r. P r \<Longrightarrow> Q (f r) = Q r) \<Longrightarrow> filter Q (upd P f t) = upd P f (filter Q t)"
  by (induction t) (auto simp: upd_def)

lemma sum_upd_key:
  assumes "distinct (map key t)" "r \<in> set t" "\<And>x. P x \<longleftrightarrow> key x = key r" "\<And>x. v (f x) = v x + (a::int)"
  shows "sum_list (map v (upd P f t)) = sum_list (map v t) + a"
  using assms(1,2)
proof (induction t)
  case (Cons x t)
  show ?case
  proof (cases "x = r")
    case True
    have "\<not> P y" if "y \<in> set t" for y
      using Cons.prems(1) True that assms(3) [of y] by (auto simp: image_iff)
    then have "upd P f t = t" unfolding upd_def by (intro map_idI) simp
    then show ?thesis using True assms(3,4) by (simp add: upd_def)
  next
    case False
    then have "r \<in> set t" "\<not> P x" using Cons.prems assms(3) by auto
    then show ?thesis using Cons by (simp add: upd_def)
  qed
qed simp

lemma key_unique: "distinct (map key t) \<Longrightarrow> x \<in> set t \<Longrightarrow> y \<in> set t \<Longrightarrow> key x = key y \<Longrightarrow> x = y"
  by (auto simp: distinct_map inj_on_def)

lemma ins_Some: "ins key r t = Some t' \<longleftrightarrow> key r \<notin> key ` set t \<and> t' = t @ [r]"
  by (auto simp: ins_def)

lemma p_update_Inr: "p_update f d = Inr (u, d') \<longleftrightarrow> f d = Some d'"
  by (auto simp: p_update_def split: option.splits)

lemma p_select_Inr: "p_select miss q d = Inr (v, d') \<longleftrightarrow> d' = d \<and> (\<exists>rs. q d = v # rs)"
  by (auto simp: p_select_def split: list.splits)

lemma p_bind_Inr: "p_bind p g d = Inr y \<longleftrightarrow> (\<exists>v d1. p d = Inr (v, d1) \<and> g v d1 = Inr y)"
  by (auto simp: p_bind_def split: sum.splits prod.splits)

lemma p_return_Inr: "p_return v d = Inr (v', d') \<longleftrightarrow> v' = v \<and> d' = d"
  by (auto simp: p_return_def)

lemmas p_simps = p_bind_Inr p_update_Inr p_select_Inr p_return_Inr

section \<open>Entering an order\<close>

lemma order_ids_append: "order_ids (os @ [x]) k = order_ids os k \<union> (if (O_W_ID x, O_D_ID x) = k then {O_ID x} else {})"
  by (auto simp: order_ids_def)

lemma orders_ok_new:
  assumes ok: "orders_ok ds os" and r: "r \<in> set ds" "D_W_ID r = w" "D_ID r = d"
    and x: "O_ID x = D_NEXT_O_ID r" "O_W_ID x = w" "O_D_ID x = d"
  shows "orders_ok (upd (\<lambda>r. D_ID r = d \<and> D_W_ID r = w) (\<lambda>r. r\<lparr>D_NEXT_O_ID := O_ID x + 1\<rparr>) ds) (os @ [x])"
proof -
  let ?ds = "upd (\<lambda>r. D_ID r = d \<and> D_W_ID r = w) (\<lambda>r. r\<lparr>D_NEXT_O_ID := O_ID x + 1\<rparr>) ds"
  have keys: "map pk_district ?ds = map pk_district ds"
    by (rule map_upd_same) (simp add: pk_district_def)
  then have kset: "pk_district ` set ?ds = pk_district ` set ds" by (simp flip: set_map)
  have ids: "order_ids os (w, d) = {1..<D_NEXT_O_ID r}" "1 \<le> D_NEXT_O_ID r"
    using ok r by (auto simp: orders_ok_def pk_district_def)
  have fresh: "pk_order x \<notin> pk_order ` set os"
  proof
    assume "pk_order x \<in> pk_order ` set os"
    then have "O_ID x \<in> order_ids os (w, d)" using x by (auto simp: order_ids_def pk_order_def)
    then show False using ids x by simp
  qed
  have "1 \<le> D_NEXT_O_ID q \<and> order_ids (os @ [x]) (pk_district q) = {1..<D_NEXT_O_ID q}" if q: "q \<in> set ?ds" for q
  proof (cases "pk_district q = (w, d)")
    case True
    then obtain r' where "r' \<in> set ds" "q = r'\<lparr>D_NEXT_O_ID := O_ID x + 1\<rparr>"
      using q by (auto simp: set_upd pk_district_def split: if_splits)
    then have "D_NEXT_O_ID q = D_NEXT_O_ID r + 1" using x by simp
    then show ?thesis using True ids x by (auto simp: order_ids_append)
  next
    case False
    then have "q \<in> set ds" using q by (auto simp: set_upd pk_district_def split: if_splits)
    then show ?thesis using False ok x by (auto simp: orders_ok_def order_ids_append)
  qed
  moreover have "(w, d) \<in> pk_district ` set ds" using r by (force simp: pk_district_def)
  ultimately show ?thesis using ok keys kset fresh x unfolding orders_ok_def by simp
qed

lemma new_orders_ok_new:
  assumes "new_orders_ok os ns" "O_CARRIER_ID x = None" "pk_new_order n = pk_order x"
    "pk_new_order n \<notin> pk_new_order ` set ns"
    "\<And>y. y \<in> set os \<Longrightarrow> (O_W_ID y, O_D_ID y) = (O_W_ID x, O_D_ID x) \<Longrightarrow> O_ID y < O_ID x"
  shows "new_orders_ok (os @ [x]) (ns @ [n])"
proof -
  have "open_orders (os @ [x]) = insert x (open_orders os)"
    using assms(2) by (auto simp: open_orders_def)
  moreover have "oldest_first (os @ [x])"
    using assms(1,2,5) by (fastforce simp: new_orders_ok_def oldest_first_def)
  ultimately show ?thesis using assms(1,3,4) by (simp add: new_orders_ok_def)
qed

text \<open>While order \<open>k\<close> is entered, \<open>n\<close> of its lines are there.\<close>

definition entering :: "int \<times> int \<times> int \<Rightarrow> int \<Rightarrow> order \<Rightarrow> int" where
  "entering k n x = (if pk_order x = k then n else O_OL_CNT x)"

lemma lines_ok_open:
  assumes ok: "lines_ok O_OL_CNT os ls" and fresh: "pk_order x \<notin> pk_order ` set os"
  shows "lines_ok (entering (pk_order x) 0) (os @ [x]) ls"
proof -
  have none: "fst (pk_order_line l) \<noteq> pk_order x" if "l \<in> set ls" for l
    using ok fresh that unfolding lines_ok_def by metis
  then have "line_numbers ls (pk_order x) = {}" by (auto simp: line_numbers_def)
  moreover have "pk_order y \<noteq> pk_order x" if "y \<in> set os" for y using fresh that by (metis imageI)
  ultimately show ?thesis using ok none by (auto simp: lines_ok_def entering_def)
qed

lemma line_numbers_append:
  "line_numbers (ls @ [l]) k = line_numbers ls k \<union> (if fst (pk_order_line l) = k then {OL_NUMBER l} else {})"
  by (auto simp: line_numbers_def)

lemma lines_ok_add:
  assumes ok: "lines_ok (entering k n) os ls" and x: "x \<in> set os" "pk_order x = k"
    and uniq: "distinct (map pk_order os)"
    and l: "fst (pk_order_line l) = k" "OL_NUMBER l = n + 1" "OL_DELIVERY_D l = None \<longleftrightarrow> O_CARRIER_ID x = None"
    and fresh: "pk_order_line l \<notin> pk_order_line ` set ls"
  shows "lines_ok (entering k (n + 1)) os (ls @ [l])"
proof -
  have n: "0 \<le> n" "line_numbers ls k = {1..n}" using ok x by (auto simp: lines_ok_def entering_def)
  have un: "y = x" if "y \<in> set os" "pk_order y = k" for y
    using key_unique [OF uniq] x that by metis
  have "0 \<le> entering k (n + 1) y \<and> line_numbers (ls @ [l]) (pk_order y) = {1..entering k (n + 1) y}"
    if y: "y \<in> set os" for y
  proof (cases "pk_order y = k")
    case True
    then show ?thesis using n l by (auto simp: entering_def line_numbers_append)
  next
    case False
    then show ?thesis using ok y l by (auto simp: lines_ok_def entering_def line_numbers_append)
  qed
  moreover have "OL_DELIVERY_D m = None \<longleftrightarrow> O_CARRIER_ID y = None"
    if "y \<in> set os" "m \<in> set (ls @ [l])" "fst (pk_order_line m) = pk_order y" for y m
  proof (cases "m = l")
    case True
    then have "y = x" using un that l(1) by simp
    then show ?thesis using True l(3) by simp
  next
    case False
    then show ?thesis using that ok by (simp add: lines_ok_def)
  qed
  moreover have "fst (pk_order_line m) \<in> pk_order ` set os" if "m \<in> set (ls @ [l])" for m
  proof (cases "m = l")
    case True
    then show ?thesis using l(1) x(1,2) by (metis imageI)
  next
    case False
    then show ?thesis using that ok by (simp add: lines_ok_def)
  qed
  ultimately show ?thesis using ok fresh unfolding lines_ok_def by simp
qed

lemma lines_ok_close:
  assumes "lines_ok (entering k n) os ls" "x \<in> set os" "pk_order x = k" "O_OL_CNT x = n" "distinct (map pk_order os)"
  shows "lines_ok O_OL_CNT os ls"
proof -
  have "entering k n y = O_OL_CNT y" if "y \<in> set os" for y
    using key_unique [OF assms(5) assms(2) that] assms(3,4) unfolding entering_def by (cases "pk_order y = k") simp_all
  then show ?thesis using assms(1) by (simp add: lines_ok_def)
qed

section \<open>New orders keep the database consistent\<close>

text \<open>What a line changes: one row of the lines and the stock.\<close>

lemma line_eff_changes:
  assumes "line_eff F x n w i q info d = Inr (info', d')"
  obtains l s' where "d' = d\<lparr>stocks := s', order_lines := order_lines d @ [l]\<rparr>"
    "pk_order_line l = ((x_w_id x, x_d_id x, x_o_id x), n)" "OL_DELIVERY_D l = None"
    "pk_order_line l \<notin> pk_order_line ` set (order_lines d)"
    "\<exists>t. s' = upd (\<lambda>r. S_I_ID r = i \<and> S_W_ID r = w) (\<lambda>r. r\<lparr>S_QUANTITY := new_quantity t q\<rparr>) (stocks d) \<and>
       (\<exists>r \<in> set (stocks d). S_QUANTITY r = t)"
proof -
  obtain i_price sq sd dist rs where q: "stmt6 i w d = (sq, sd, dist) # rs"
    and u: "stmt8 (x_o_id x) (x_d_id x) (x_w_id x) n i w q
        (to_dec F (line_amount F q (to_float F i_price) (x_w_tax x) (x_d_tax x) (x_discount x)))
        (pick_dist_info info dist (x_d_id x))
        (d\<lparr>stocks := upd (\<lambda>r. S_I_ID r = i \<and> S_W_ID r = w) (\<lambda>r. r\<lparr>S_QUANTITY := new_quantity sq q\<rparr>) (stocks d)\<rparr>)
        = Some d'"
    using assms by (auto simp: line_eff_def p_simps Let_def stmt7_def)
  have "(sq, sd, dist) \<in> set (stmt6 i w d)" using q by simp
  then have sq: "\<exists>r \<in> set (stocks d). S_QUANTITY r = sq" by (auto simp: stmt6_def)
  show thesis
    using u sq by (intro that [of "\<lparr>OL_O_ID = x_o_id x, OL_D_ID = x_d_id x, OL_W_ID = x_w_id x, OL_NUMBER = n,
        OL_I_ID = i, OL_SUPPLY_W_ID = w, OL_DELIVERY_D = None, OL_QUANTITY = q,
        OL_AMOUNT = to_dec F (line_amount F q (to_float F i_price) (x_w_tax x) (x_d_tax x) (x_discount x)),
        OL_DIST_INFO = pick_dist_info info dist (x_d_id x)\<rparr>"
        "upd (\<lambda>r. S_I_ID r = i \<and> S_W_ID r = w) (\<lambda>r. r\<lparr>S_QUANTITY := new_quantity sq q\<rparr>) (stocks d)"])
      (auto simp: stmt8_def ins_Some pk_order_line_def)
qed

text \<open>The tables the lines of an order leave alone.\<close>

definition same_but_lines :: "db \<Rightarrow> db \<Rightarrow> bool" where
  "same_but_lines d d' \<longleftrightarrow> (\<exists>s ls. d' = d\<lparr>stocks := s, order_lines := ls\<rparr>)"

lemma lines_eff_keep:
  assumes "lines_eff F x itemid supware qty ks (n + 1) info d = Inr (u, d')"
    and "lines_ok (entering (x_w_id x, x_d_id x, x_o_id x) n) (orders d) (order_lines d)"
    and "y \<in> set (orders d)" "pk_order y = (x_w_id x, x_d_id x, x_o_id x)" "O_CARRIER_ID y = None"
    and "distinct (map pk_order (orders d))"
  shows "same_but_lines d d' \<and>
    lines_ok (entering (x_w_id x, x_d_id x, x_o_id x) (n + int (length ks))) (orders d') (order_lines d')"
  using assms
proof (induction ks arbitrary: n info d)
  case Nil
  then have "d' = d" by (simp add: p_simps)
  moreover have "same_but_lines d d" unfolding same_but_lines_def
    by (rule exI [of _ "stocks d"], rule exI [of _ "order_lines d"]) simp
  ultimately show ?case using Nil by simp
next
  case (Cons k ks)
  then obtain info1 d1 where 1: "line_eff F x (n + 1) (supware ! k) (itemid ! k) (qty ! k) info d = Inr (info1, d1)"
    and 2: "lines_eff F x itemid supware qty ks (n + 1 + 1) info1 d1 = Inr (u, d')"
    by (auto simp: p_simps)
  obtain l s' where l: "d1 = d\<lparr>stocks := s', order_lines := order_lines d @ [l]\<rparr>"
    "pk_order_line l = ((x_w_id x, x_d_id x, x_o_id x), n + 1)" "OL_DELIVERY_D l = None"
    "pk_order_line l \<notin> pk_order_line ` set (order_lines d)"
    by (rule line_eff_changes [OF 1]) blast
  have "lines_ok (entering (x_w_id x, x_d_id x, x_o_id x) (n + 1)) (orders d) (order_lines d @ [l])"
    by (rule lines_ok_add [OF Cons.prems(2,3,4,6)]) (use l Cons.prems(5) in \<open>auto simp: pk_order_line_def\<close>)
  then have "same_but_lines d1 d' \<and>
    lines_ok (entering (x_w_id x, x_d_id x, x_o_id x) (n + 1 + int (length ks))) (orders d') (order_lines d')"
    using Cons.IH [OF 2] Cons.prems l(1) by simp
  then show ?case using l(1) by (auto simp: same_but_lines_def ac_simps)
qed

lemma neword_sort_length: "length (neword_sort n supware itemid) = n"
  using mset_eq_length [OF neword_sort_mset] by simp

theorem neword_keeps_consistent:
  assumes "consistent d" "neword_eff F datetime junk a d = Inr ((), d')"
  shows "consistent d'"
proof -
  let ?k = "(n_w_id a, n_d_id a)"
  obtain nxt d_tax rs where q: "stmt1 (n_d_id a) (n_w_id a) d = (nxt, d_tax) # rs"
    and rest: "\<exists>d3 d4 x. stmt3 nxt (n_d_id a) (n_w_id a) (n_c_id a) datetime (int (n_ol_cnt a)) (n_all_local a)
        (d\<lparr>districts := upd (\<lambda>r. D_ID r = n_d_id a \<and> D_W_ID r = n_w_id a) (\<lambda>r. r\<lparr>D_NEXT_O_ID := nxt + 1\<rparr>) (districts d)\<rparr>) = Some d3 \<and>
      stmt4 nxt (n_d_id a) (n_w_id a) d3 = Some d4 \<and>
      x_o_id x = nxt \<and> x_d_id x = n_d_id a \<and> x_w_id x = n_w_id a \<and>
      lines_eff F x (n_itemid a) (n_supware a) (n_qty a) (neword_sort (n_ol_cnt a) (n_supware a) (n_itemid a)) (0 + 1) junk d4
        = Inr ((), d')"
    using assms(2) by (fastforce simp: neword_eff_def p_simps stmt2_def)
  then obtain d3 d4 x where 3: "stmt3 nxt (n_d_id a) (n_w_id a) (n_c_id a) datetime (int (n_ol_cnt a)) (n_all_local a)
        (d\<lparr>districts := upd (\<lambda>r. D_ID r = n_d_id a \<and> D_W_ID r = n_w_id a) (\<lambda>r. r\<lparr>D_NEXT_O_ID := nxt + 1\<rparr>) (districts d)\<rparr>) = Some d3"
    and 4: "stmt4 nxt (n_d_id a) (n_w_id a) d3 = Some d4"
    and x: "x_o_id x = nxt" "x_d_id x = n_d_id a" "x_w_id x = n_w_id a"
    and 5: "lines_eff F x (n_itemid a) (n_supware a) (n_qty a) (neword_sort (n_ol_cnt a) (n_supware a) (n_itemid a)) (0 + 1) junk d4
        = Inr ((), d')" by blast
  have "(nxt, d_tax) \<in> set (stmt1 (n_d_id a) (n_w_id a) d)" using q by simp
  then obtain r where r: "r \<in> set (districts d)" "D_W_ID r = n_w_id a" "D_ID r = n_d_id a" "D_NEXT_O_ID r = nxt"
    by (auto simp: stmt1_def)
  define y where "y = \<lparr>O_ID = nxt, O_D_ID = n_d_id a, O_W_ID = n_w_id a, O_C_ID = n_c_id a, O_ENTRY_D = datetime,
          O_CARRIER_ID = None, O_OL_CNT = int (n_ol_cnt a), O_ALL_LOCAL = n_all_local a\<rparr>"
  have y: "O_ID y = D_NEXT_O_ID r" "O_W_ID y = n_w_id a" "O_D_ID y = n_d_id a" "O_CARRIER_ID y = None"
    "O_OL_CNT y = int (n_ol_cnt a)" "pk_order y = (n_w_id a, n_d_id a, nxt)"
    using r by (simp_all add: y_def pk_order_def)
  have d4: "orders d4 = orders d @ [y]" "pk_order y \<notin> pk_order ` set (orders d)"
    "new_orders d4 = new_orders d @ [\<lparr>NO_O_ID = nxt, NO_D_ID = n_d_id a, NO_W_ID = n_w_id a\<rparr>]"
    "pk_new_order \<lparr>NO_O_ID = nxt, NO_D_ID = n_d_id a, NO_W_ID = n_w_id a\<rparr> \<notin> pk_new_order ` set (new_orders d)"
    "order_lines d4 = order_lines d"
    "districts d4 = upd (\<lambda>r. D_ID r = n_d_id a \<and> D_W_ID r = n_w_id a) (\<lambda>r. r\<lparr>D_NEXT_O_ID := O_ID y + 1\<rparr>) (districts d)"
    using 3 4 r y by (auto simp: stmt3_def stmt4_def ins_Some y_def)
  have c: "orders_ok (districts d) (orders d)" "new_orders_ok (orders d) (new_orders d)"
    "lines_ok O_OL_CNT (orders d) (order_lines d)" using assms(1) by (simp_all add: consistent_def)
  have o: "orders_ok (districts d4) (orders d4)"
    using orders_ok_new [OF c(1) r(1,2,3) y(1-3)] d4 by simp
  have older: "O_ID z < O_ID y" if "z \<in> set (orders d)" "(O_W_ID z, O_D_ID z) = (O_W_ID y, O_D_ID y)" for z
  proof -
    have "O_ID z \<in> order_ids (orders d) (pk_district r)"
      using that r y by (auto simp: order_ids_def pk_district_def)
    then show ?thesis using c(1) r(1) y(1) by (auto simp: orders_ok_def)
  qed
  have n: "new_orders_ok (orders d4) (new_orders d4)"
    unfolding d4 by (rule new_orders_ok_new [OF c(2) y(4) _ d4(4) older]) (simp_all add: pk_new_order_def y)
  have l: "lines_ok (entering (pk_order y) 0) (orders d4) (order_lines d4)"
    using lines_ok_open [OF c(3) d4(2)] d4 by simp
  have dist: "distinct (map pk_order (orders d4))" using o by (simp add: orders_ok_def)
  have "same_but_lines d4 d' \<and> lines_ok (entering (pk_order y) (0 + int (n_ol_cnt a))) (orders d') (order_lines d')"
    using lines_eff_keep [OF 5, of y] l dist d4(1) y x by (simp add: neword_sort_length)
  then show ?thesis using o n dist d4(1) lines_ok_close [of "pk_order y" _ "orders d'" "order_lines d'" y] y(5)
    by (auto simp: consistent_def same_but_lines_def)
qed

section \<open>Payments and deliveries keep the database consistent\<close>

lemma orders_ok_same_keys:
  assumes "orders_ok ds os" "map (\<lambda>r. (pk_district r, D_NEXT_O_ID r)) ds' = map (\<lambda>r. (pk_district r, D_NEXT_O_ID r)) ds"
    "map pk_order os' = map pk_order os"
  shows "orders_ok ds' os'"
proof -
  have k: "map pk_district ds' = map pk_district ds"
    using arg_cong [OF assms(2), of "map fst"] by (simp add: comp_def)
  have ids: "order_ids xs q = {i. (fst q, snd q, i) \<in> set (map pk_order xs)}" for xs q
    by (cases q) (auto simp: order_ids_def pk_order_def)
  have own: "(\<forall>x \<in> set xs. (O_W_ID x, O_D_ID x) \<in> A) \<longleftrightarrow> (\<forall>(w, d, i) \<in> set (map pk_order xs). (w, d) \<in> A)" for xs A
    by (auto simp: pk_order_def)
  have rows: "(\<forall>r \<in> set ds'. P (pk_district r) (D_NEXT_O_ID r)) \<longleftrightarrow> (\<forall>r \<in> set ds. P (pk_district r) (D_NEXT_O_ID r))" for P
    using arg_cong [OF assms(2), of "\<lambda>l. \<forall>(p, n) \<in> set l. P p n"] by simp
  have keys: "pk_district ` set ds' = pk_district ` set ds" using k by (simp flip: set_map)
  show ?thesis
    using assms(1) rows [of "\<lambda>p n. 1 \<le> n \<and> {i. (fst p, snd p, i) \<in> set (map pk_order os)} = {1..<n}"]
    unfolding orders_ok_def own keys k assms(3) ids by blast
qed

lemma payment_eff_changes:
  assumes "payment_eff F ord datetime a d = Inr (u, d')"
  obtains c_id cs h_data where
    "d' = d\<lparr>warehouses := upd (\<lambda>r. W_ID r = p_w_id a) (\<lambda>r. r\<lparr>W_YTD := dec_add F (W_YTD r) (p_amount a)\<rparr>) (warehouses d),
           districts := upd (\<lambda>r. D_W_ID r = p_w_id a \<and> D_ID r = p_d_id a) (\<lambda>r. r\<lparr>D_YTD := dec_add F (D_YTD r) (p_amount a)\<rparr>) (districts d),
           customers := cs,
           histories := histories d @ [\<lparr>H_C_ID = c_id, H_C_D_ID = p_c_d_id a, H_C_W_ID = p_c_w_id a,
             H_D_ID = p_d_id a, H_W_ID = p_w_id a, H_DATE = datetime, H_AMOUNT = to_dec F (p_amount a), H_DATA = h_data\<rparr>]\<rparr>"
    "\<exists>w \<in> set (warehouses d). W_ID w = p_w_id a" "\<exists>r \<in> set (districts d). pk_district r = (p_w_id a, p_d_id a)"
proof -
  let ?d1 = "d\<lparr>warehouses := upd (\<lambda>r. W_ID r = p_w_id a) (\<lambda>r. r\<lparr>W_YTD := dec_add F (W_YTD r) (p_amount a)\<rparr>) (warehouses d)\<rparr>"
  let ?d2 = "?d1\<lparr>districts := upd (\<lambda>r. D_W_ID r = p_w_id a \<and> D_ID r = p_d_id a) (\<lambda>r. r\<lparr>D_YTD := dec_add F (D_YTD r) (p_amount a)\<rparr>) (districts d)\<rparr>"
  obtain w_name d_name c_id d3 d4 rs rs' where
    w: "stmt10 (p_w_id a) ?d1 = w_name # rs" and dn: "stmt12 (p_w_id a) (p_d_id a) ?d2 = d_name # rs'"
    and n: "(if p_byname a then by_name_eff ord (p_c_w_id a) (p_c_d_id a) (p_c_last a) (p_c_id a)
             else p_return (p_c_id a)) ?d2 = Inr (c_id, d3)"
    and c: "customer_eff F (p_c_w_id a) (p_c_d_id a) c_id (p_amount a) d3 = Inr ((), d4)"
    and h: "stmt19 (p_c_d_id a) (p_c_w_id a) c_id (p_d_id a) (p_w_id a) datetime
                     (to_dec F (p_amount a)) (payment_h_data w_name d_name) d4 = Some d'"
    using assms unfolding payment_eff_def p_simps stmt9_def stmt11_def by auto
  have d3: "d3 = ?d2" using n by (auto simp: by_name_eff_def p_return_def Let_def split: if_splits)
  obtain cs where d4: "d4 = ?d2\<lparr>customers := cs\<rparr>"
    using c unfolding d3 by (auto simp: customer_eff_def p_simps stmt17_def stmt18_def Let_def split: if_splits)
  have "w_name \<in> set (stmt10 (p_w_id a) ?d1)" using w by simp
  then have 1: "\<exists>w \<in> set (warehouses d). W_ID w = p_w_id a" by (auto simp: stmt10_def set_upd split: if_splits)
  have "d_name \<in> set (stmt12 (p_w_id a) (p_d_id a) ?d2)" using dn by simp
  then have "\<exists>r \<in> set (districts d). pk_district r = (p_w_id a, p_d_id a)"
    by (auto simp: stmt12_def set_upd pk_district_def split: if_splits)
  then show thesis using 1 h unfolding d4
    by (intro that [of c_id "payment_h_data w_name d_name" cs]) (auto simp: stmt19_def)
qed

lemma payment_keeps_consistent:
  assumes "consistent d" "payment_eff F ord datetime a d = Inr (u, d')"
  shows "consistent d'"
proof -
  let ?ds = "upd (\<lambda>r. D_W_ID r = p_w_id a \<and> D_ID r = p_d_id a) (\<lambda>r. r\<lparr>D_YTD := dec_add F (D_YTD r) (p_amount a)\<rparr>) (districts d)"
  have t: "districts d' = ?ds" "orders d' = orders d" "new_orders d' = new_orders d" "order_lines d' = order_lines d"
    by (rule payment_eff_changes [OF assms(2)], simp)+
  have "orders_ok ?ds (orders d)"
    by (rule orders_ok_same_keys [of "districts d" "orders d"])
      (use assms(1) in \<open>auto simp: consistent_def pk_district_def intro!: map_upd_same\<close>)
  then show ?thesis using assms(1) t by (simp add: consistent_def)
qed

text \<open>The sums of the payments: with an amount that is exact to the cent the books stay balanced.\<close>

definition exact_amount :: "'f fops \<Rightarrow> 'f \<Rightarrow> bool" where
  "exact_amount F v \<longleftrightarrow> (\<forall>x. dec_add F x v = x + to_dec F v)"

lemma payment_keeps_books:
  assumes ok: "books_ok d" and eff: "payment_eff F ord datetime a d = Inr (u, d')"
    and exact: "exact_amount F (p_amount a)"
  shows "books_ok d'"
proof -
  let ?v = "to_dec F (p_amount a)" and ?w = "p_w_id a" and ?k = "(p_w_id a, p_d_id a)"
  let ?ws = "upd (\<lambda>r. W_ID r = ?w) (\<lambda>r. r\<lparr>W_YTD := W_YTD r + ?v\<rparr>) (warehouses d)"
  let ?ds = "upd (\<lambda>r. D_W_ID r = p_w_id a \<and> D_ID r = p_d_id a) (\<lambda>r. r\<lparr>D_YTD := D_YTD r + ?v\<rparr>) (districts d)"
  obtain h r where t: "warehouses d' = ?ws" "districts d' = ?ds" "histories d' = histories d @ [h]"
    "H_AMOUNT h = ?v" "(H_W_ID h, H_D_ID h) = ?k" and r: "r \<in> set (districts d)" "pk_district r = ?k"
    by (rule payment_eff_changes [OF eff]) (use exact in \<open>auto simp: exact_amount_def\<close>)
  have dw: "distinct (map W_ID (warehouses d))" and dd: "distinct (map pk_district (districts d))"
    using ok by (auto simp: books_ok_def)
  have hist: "ytd_history q (histories d @ [h]) = ytd_history q (histories d) + (if q = ?k then ?v else 0)" for q
    using t(4,5) by (auto simp: ytd_history_def)
  have yd: "ytd_districts w ?ds = ytd_districts w (districts d) + (if w = ?w then ?v else 0)" for w
  proof (cases "w = ?w")
    case True
    have "sum_list (map D_YTD (upd (\<lambda>r. D_W_ID r = p_w_id a \<and> D_ID r = p_d_id a) (\<lambda>r. r\<lparr>D_YTD := D_YTD r + ?v\<rparr>)
            (filter (\<lambda>r. D_W_ID r = w) (districts d)))) =
          sum_list (map D_YTD (filter (\<lambda>r. D_W_ID r = w) (districts d))) + ?v"
      by (rule sum_upd_key [of pk_district _ r])
        (use dd r True in \<open>auto simp: pk_district_def distinct_map inj_on_def\<close>)
    then show ?thesis using True by (simp add: ytd_districts_def filter_upd)
  next
    case False
    have "filter (\<lambda>r. D_W_ID r = w) ?ds = upd (\<lambda>r. D_W_ID r = p_w_id a \<and> D_ID r = p_d_id a)
        (\<lambda>r. r\<lparr>D_YTD := D_YTD r + ?v\<rparr>) (filter (\<lambda>r. D_W_ID r = w) (districts d))"
      by (rule filter_upd) simp
    also have "\<dots> = filter (\<lambda>r. D_W_ID r = w) (districts d)"
      unfolding upd_def using False by (intro map_idI) auto
    finally have "filter (\<lambda>r. D_W_ID r = w) ?ds = filter (\<lambda>r. D_W_ID r = w) (districts d)" .
    then show ?thesis using False by (simp add: ytd_districts_def)
  qed
  have "map W_ID ?ws = map W_ID (warehouses d)" "map pk_district ?ds = map pk_district (districts d)"
    by (auto intro!: map_upd_same simp: pk_district_def)
  then show ?thesis using ok dw dd unfolding books_ok_def t
    by (auto simp: set_upd yd hist pk_district_def split: if_splits)
qed


section \<open>Delivering an order\<close>

lemma deliver_eff_changes:
  assumes "deliver_eff F datetime w o_c di n t d = Inr (t1, d')"
  obtains cs where
    "d' = d\<lparr>new_orders := filter (\<lambda>r. \<not> (NO_O_ID r = n \<and> NO_D_ID r = di \<and> NO_W_ID r = w)) (new_orders d),
           orders := upd (\<lambda>r. pk_order r = (w, di, n)) (\<lambda>r. r\<lparr>O_CARRIER_ID := Some o_c\<rparr>) (orders d),
           order_lines := upd (\<lambda>r. fst (pk_order_line r) = (w, di, n)) (\<lambda>r. r\<lparr>OL_DELIVERY_D := Some datetime\<rparr>) (order_lines d),
           customers := cs\<rparr>"
proof -
  have 1: "(\<lambda>r. O_ID r = n \<and> O_D_ID r = di \<and> O_W_ID r = w) = (\<lambda>r. pk_order r = (w, di, n))"
    by (auto simp: pk_order_def)
  have 2: "(\<lambda>r. OL_O_ID r = n \<and> OL_D_ID r = di \<and> OL_W_ID r = w) = (\<lambda>r. fst (pk_order_line r) = (w, di, n))"
    by (auto simp: pk_order_line_def)
  show thesis using assms
    by (auto simp: deliver_eff_def p_simps stmt26_def stmt28_def stmt29_def stmt31_def Let_def 1 2 intro: that)
qed

lemma oldest_delivered:
  assumes ok: "oldest_first os"
    and oldest: "\<And>x. x \<in> open_orders os \<Longrightarrow> (O_W_ID x, O_D_ID x) = (w, di) \<Longrightarrow> n \<le> O_ID x"
  shows "oldest_first (upd (\<lambda>r. pk_order r = (w, di, n)) (\<lambda>r. r\<lparr>O_CARRIER_ID := Some o_c\<rparr>) os)"
  unfolding oldest_first_def
proof (intro ballI impI)
  let ?f = "\<lambda>r. if pk_order r = (w, di, n) then r\<lparr>O_CARRIER_ID := Some o_c\<rparr> else r"
  fix x y assume xy: "x \<in> set (upd (\<lambda>r. pk_order r = (w, di, n)) (\<lambda>r. r\<lparr>O_CARRIER_ID := Some o_c\<rparr>) os)"
    "y \<in> set (upd (\<lambda>r. pk_order r = (w, di, n)) (\<lambda>r. r\<lparr>O_CARRIER_ID := Some o_c\<rparr>) os)"
    and h: "(O_W_ID x, O_D_ID x) = (O_W_ID y, O_D_ID y)" "O_ID x < O_ID y" "O_CARRIER_ID x = None"
  obtain x0 where x0: "x0 \<in> set os" "x = ?f x0" using xy(1) unfolding set_upd by blast
  obtain y0 where y0: "y0 \<in> set os" "y = ?f y0" using xy(2) unfolding set_upd by blast
  have x: "x = x0" "O_CARRIER_ID x0 = None" using x0(2) h(3) by (auto split: if_splits)
  have yk: "O_ID y = O_ID y0" "O_W_ID y = O_W_ID y0" "O_D_ID y = O_D_ID y0" using y0(2) by simp_all
  then have "O_CARRIER_ID y0 = None"
    using ok x0(1) y0(1) x h unfolding oldest_first_def by metis
  moreover have "pk_order y0 \<noteq> (w, di, n)"
  proof
    assume "pk_order y0 = (w, di, n)"
    then show False using oldest [of x0] x x0(1) h yk by (simp add: open_orders_def pk_order_def)
  qed
  ultimately show "O_CARRIER_ID y = None" using y0(2) by simp
qed

lemma new_orders_ok_deliver:
  assumes ok: "new_orders_ok os ns" and keys: "distinct (map pk_order os)"
    and oldest: "\<And>r. r \<in> set ns \<Longrightarrow> NO_W_ID r = w \<Longrightarrow> NO_D_ID r = di \<Longrightarrow> n \<le> NO_O_ID r"
  shows "new_orders_ok (upd (\<lambda>r. pk_order r = (w, di, n)) (\<lambda>r. r\<lparr>O_CARRIER_ID := Some o_c\<rparr>) os)
           (filter (\<lambda>r. \<not> (NO_O_ID r = n \<and> NO_D_ID r = di \<and> NO_W_ID r = w)) ns)"
proof -
  let ?os = "upd (\<lambda>r. pk_order r = (w, di, n)) (\<lambda>r. r\<lparr>O_CARRIER_ID := Some o_c\<rparr>) os"
  let ?ns = "filter (\<lambda>r. \<not> (NO_O_ID r = n \<and> NO_D_ID r = di \<and> NO_W_ID r = w)) ns"
  have k: "pk_new_order ` set ns = pk_order ` open_orders os" using ok by (simp add: new_orders_ok_def)
  have "pk_new_order ` set ?ns = pk_new_order ` set ns - {(w, di, n)}"
    by (auto simp: pk_new_order_def)
  moreover have "open_orders ?os = {x \<in> open_orders os. pk_order x \<noteq> (w, di, n)}"
    by (auto simp: open_orders_def set_upd split: if_splits)
  moreover have "n \<le> O_ID x" if "x \<in> open_orders os" "(O_W_ID x, O_D_ID x) = (w, di)" for x
  proof -
    have "pk_order x \<in> pk_new_order ` set ns" using that k by auto
    then show ?thesis using that oldest by (auto simp: pk_order_def pk_new_order_def)
  qed
  then have "oldest_first ?os"
    using oldest_delivered ok by (simp add: new_orders_ok_def)
  ultimately show ?thesis using ok k
    by (auto simp: new_orders_ok_def distinct_map_filter)
qed

lemma lines_ok_deliver:
  assumes "lines_ok O_OL_CNT os ls"
  shows "lines_ok O_OL_CNT (upd (\<lambda>r. pk_order r = k) (\<lambda>r. r\<lparr>O_CARRIER_ID := Some o_c\<rparr>) os)
           (upd (\<lambda>r. fst (pk_order_line r) = k) (\<lambda>r. r\<lparr>OL_DELIVERY_D := Some datetime\<rparr>) ls)"
proof -
  let ?os = "upd (\<lambda>r. pk_order r = k) (\<lambda>r. r\<lparr>O_CARRIER_ID := Some o_c\<rparr>) os"
  let ?ls = "upd (\<lambda>r. fst (pk_order_line r) = k) (\<lambda>r. r\<lparr>OL_DELIVERY_D := Some datetime\<rparr>) ls"
  have ml: "map pk_order_line ?ls = map pk_order_line ls"
    by (rule map_upd_same) (simp add: pk_order_line_def)
  have mo: "map (\<lambda>x. (pk_order x, O_OL_CNT x)) ?os = map (\<lambda>x. (pk_order x, O_OL_CNT x)) os"
    by (rule map_upd_same) (simp add: pk_order_def)
  have ko: "map pk_order ?os = map pk_order os"
    by (rule map_upd_same) (simp add: pk_order_def)
  have num: "line_numbers xs q = {i. (q, i) \<in> set (map pk_order_line xs)}" for xs q
    by (auto simp: line_numbers_def pk_order_line_def)
  have rows: "(\<forall>x \<in> set xs. P (pk_order x) (O_OL_CNT x)) \<longleftrightarrow>
      (\<forall>(p, c) \<in> set (map (\<lambda>x. (pk_order x, O_OL_CNT x)) xs). P p c)" for xs P by auto
  have own: "(\<forall>l \<in> set xs. fst (pk_order_line l) \<in> A) \<longleftrightarrow> (\<forall>p \<in> set (map pk_order_line xs). fst p \<in> A)" for xs A
    by auto
  have "distinct (map pk_order_line ?ls) \<and> (\<forall>x \<in> set ?os. 0 \<le> O_OL_CNT x \<and> line_numbers ?ls (pk_order x) = {1..O_OL_CNT x}) \<and>
     (\<forall>l \<in> set ?ls. fst (pk_order_line l) \<in> set (map pk_order ?os))"
    using assms unfolding lines_ok_def own ko ml num rows [of _ "\<lambda>p c. 0 \<le> c \<and> {i. (p, i) \<in> set (map pk_order_line _)} = {1..c}"] mo set_map [symmetric]
    by blast
  moreover have "OL_DELIVERY_D l = None \<longleftrightarrow> O_CARRIER_ID x = None"
    if xl: "x \<in> set ?os" "l \<in> set ?ls" "fst (pk_order_line l) = pk_order x" for x l
  proof -
    obtain x0 where x0: "x0 \<in> set os" "x = (if pk_order x0 = k then x0\<lparr>O_CARRIER_ID := Some o_c\<rparr> else x0)"
      using xl(1) unfolding set_upd by blast
    obtain l0 where l0: "l0 \<in> set ls" "l = (if fst (pk_order_line l0) = k then l0\<lparr>OL_DELIVERY_D := Some datetime\<rparr> else l0)"
      using xl(2) unfolding set_upd by blast
    have e: "pk_order x = pk_order x0" "fst (pk_order_line l) = fst (pk_order_line l0)"
      using x0(2) l0(2) by (simp_all add: pk_order_def pk_order_line_def)
    show ?thesis using assms x0 l0 xl(3) e by (auto simp: lines_ok_def)
  qed
  ultimately show ?thesis unfolding lines_ok_def by simp
qed

lemma stmt25_oldest:
  assumes "stmt25 di w d = [n]" "n \<noteq> 0"
  shows "r \<in> set (new_orders d) \<Longrightarrow> NO_W_ID r = w \<Longrightarrow> NO_D_ID r = di \<Longrightarrow> n \<le> NO_O_ID r"
    "\<exists>r \<in> set (new_orders d). pk_new_order r = (w, di, n)"
proof -
  define ids where "ids = [NO_O_ID r. r \<leftarrow> new_orders d, NO_D_ID r = di \<and> NO_W_ID r = w]"
  have set: "set ids = NO_O_ID ` {r \<in> set (new_orders d). NO_D_ID r = di \<and> NO_W_ID r = w}"
    by (auto simp: ids_def)
  have "[if ids = [] then 0 else Min (set ids)] = [n]"
    using assms(1) unfolding stmt25_def ids_def Let_def .
  then have n: "ids \<noteq> []" "n = Min (set ids)" using assms(2) by (simp_all split: if_splits)
  then have "n \<in> set ids" by simp
  then show "\<exists>r \<in> set (new_orders d). pk_new_order r = (w, di, n)"
    unfolding set pk_new_order_def by blast
  show "n \<le> NO_O_ID r" if "r \<in> set (new_orders d)" "NO_W_ID r = w" "NO_D_ID r = di"
    unfolding n(2) by (rule Min_le) (use that in \<open>simp_all add: set\<close>)
qed

lemma district_keeps_consistent:
  assumes ok: "consistent d" and eff: "district_eff F datetime w o_c di t d = Inr (t1, d')"
  shows "consistent d'"
proof -
  obtain n where n: "stmt25 di w d = [n]" by (simp add: stmt25_def Let_def)
  show ?thesis
  proof (cases "n = 0")
    case True
    then show ?thesis using eff ok n by (auto simp: district_eff_def p_simps)
  next
    case False
    then have d: "deliver_eff F datetime w o_c di n t d = Inr (t1, d')"
      using eff n by (auto simp: district_eff_def p_simps)
    have c: "orders_ok (districts d) (orders d)" "new_orders_ok (orders d) (new_orders d)"
      "lines_ok O_OL_CNT (orders d) (order_lines d)" "distinct (map pk_order (orders d))"
      using ok by (simp_all add: consistent_def orders_ok_def)
    have "orders_ok (districts d) (upd (\<lambda>r. pk_order r = (w, di, n)) (\<lambda>r. r\<lparr>O_CARRIER_ID := Some o_c\<rparr>) (orders d))"
      by (rule orders_ok_same_keys [OF c(1)]) (auto intro!: map_upd_same simp: pk_order_def)
    then show ?thesis
      using new_orders_ok_deliver [OF c(2,4) stmt25_oldest(1) [OF n False]] lines_ok_deliver [OF c(3), of "(w, di, n)"]
      by (rule_tac deliver_eff_changes [OF d]) (simp add: consistent_def)
  qed
qed

lemma delivery_keeps_consistent:
  "consistent d \<Longrightarrow> delivery_eff F datetime w o_c ds t d = Inr (u, d') \<Longrightarrow> consistent d'"
  by (induction ds arbitrary: t d) (auto simp: p_simps dest: district_keeps_consistent)


section \<open>Runs of transactions\<close>

text \<open>
  One transaction of any thread on its own connection, with any arguments, any behaviour of the
  client library, and a connection on which nothing is open.
\<close>

inductive tpcc_step :: "'f fops \<Rightarrow> (customer list \<Rightarrow> customer list) \<Rightarrow> db \<Rightarrow> db \<Rightarrow> bool"
  for F :: "'f fops" and ord :: "customer list \<Rightarrow> customer list" where
  step_neword: "neword F datetime junk a e \<lparr>committed = d, working = d, api_calls = k\<rparr> = (ret, c) \<Longrightarrow>
     tpcc_step F ord d (committed c)"
| step_payment: "payment F ord datetime p e \<lparr>committed = d, working = d, api_calls = k\<rparr> = (ret, c) \<Longrightarrow>
     tpcc_step F ord d (committed c)"
| step_ordstat: "ordstat ord w_id d_id byname c_id c_last e \<lparr>committed = d, working = d, api_calls = k\<rparr> = (ret, c) \<Longrightarrow>
     tpcc_step F ord d (committed c)"
| step_delivery: "delivery F datetime v w_id o_carrier_id e \<lparr>committed = d, working = d, api_calls = k\<rparr> = (ret, c) \<Longrightarrow>
     tpcc_step F ord d (committed c)"
| step_slev: "slev w_id d_id level e \<lparr>committed = d, working = d, api_calls = k\<rparr> = (ret, c) \<Longrightarrow>
     tpcc_step F ord d (committed c)"

inductive_cases tpcc_stepE: "tpcc_step F ord d d'"

lemma tpcc_step_consistent:
  assumes "tpcc_step F ord d d'" "consistent d"
  shows "consistent d'"
  using assms(1)
proof cases
  case (step_neword datetime junk a e k ret c)
  then show ?thesis
    using neword_tx.all_or_nothing(2) [OF _ step_neword(2) [unfolded neword_def]] neword_keeps_consistent assms(2) by auto
next
  case (step_payment datetime p e k ret c)
  then show ?thesis
    using payment_atomic(2) [OF _ step_payment(2)] payment_keeps_consistent assms(2) by auto
next
  case (step_ordstat w_id d_id byname c_id c_last e k ret c)
  then show ?thesis using ordstat_keeps [OF _ step_ordstat(2)] assms(2) by simp
next
  case (step_delivery datetime v w_id o_carrier_id e k ret c)
  then show ?thesis
    using delivery_prefix [OF _ step_delivery(2)] delivery_keeps_consistent assms(2) by fastforce
next
  case (step_slev w_id d_id level e k ret c)
  then show ?thesis using slev_keeps [OF _ step_slev(2)] assms(2) by simp
qed

text \<open>
  C8: the consistency of the database: order numbers of a district run from 1 to the one before
  \<open>d_next_o_id\<close>, the new orders are exactly the orders without carrier and no younger order was
  delivered before them, every order has the lines it says, and lines have a delivery date
  exactly when the order has a carrier. Any run of transactions keeps this, whatever errors the
  client library reports, also where a commit reports an error and was applied.
\<close>

theorem tpcc_consistent:
  assumes "(tpcc_step F ord)\<^sup>*\<^sup>* d d'" and "consistent d"
  shows "consistent d'"
  using assms by (induction rule: rtranclp_induct) (auto dest: tpcc_step_consistent)

section \<open>Books and stock\<close>

lemma lines_eff_same:
  "lines_eff F x itemid supware qty ks n info d = Inr (u, d') \<Longrightarrow> same_but_lines d d'"
proof (induction ks arbitrary: n info d)
  case Nil
  have "same_but_lines d d" unfolding same_but_lines_def
    by (rule exI [of _ "stocks d"], rule exI [of _ "order_lines d"]) simp
  then show ?case using Nil by (simp add: p_simps)
next
  case (Cons k ks)
  then obtain info1 d1 where 1: "line_eff F x n (supware ! k) (itemid ! k) (qty ! k) info d = Inr (info1, d1)"
    and 2: "lines_eff F x itemid supware qty ks (n + 1) info1 d1 = Inr (u, d')" by (auto simp: p_simps)
  have "same_but_lines d d1" by (rule line_eff_changes [OF 1]) (auto simp: same_but_lines_def)
  moreover have "same_but_lines d1 d'" using Cons.IH [OF 2] .
  ultimately obtain s ls where "d' = d\<lparr>stocks := s, order_lines := ls\<rparr>"
    unfolding same_but_lines_def by force
  then show ?case unfolding same_but_lines_def by blast
qed

lemma new_quantity_range:
  "1 \<le> s \<Longrightarrow> s \<le> 100 \<Longrightarrow> 1 \<le> q \<Longrightarrow> q \<le> 10 \<Longrightarrow> 1 \<le> new_quantity s q \<and> new_quantity s q \<le> 100"
  by (simp add: new_quantity_def)

lemma lines_eff_stock:
  assumes "lines_eff F x itemid supware qty ks n info d = Inr (u, d')" "stock_ok d"
    "\<And>k. k \<in> set ks \<Longrightarrow> 1 \<le> qty ! k \<and> qty ! k \<le> 10"
  shows "stock_ok d'"
  using assms
proof (induction ks arbitrary: n info d)
  case Nil
  then show ?case by (simp add: p_simps)
next
  case (Cons k ks)
  then obtain info1 d1 where 1: "line_eff F x n (supware ! k) (itemid ! k) (qty ! k) info d = Inr (info1, d1)"
    and 2: "lines_eff F x itemid supware qty ks (n + 1) info1 d1 = Inr (u, d')" by (auto simp: p_simps)
  obtain t where t: "stocks d1 = upd (\<lambda>r. S_I_ID r = itemid ! k \<and> S_W_ID r = supware ! k)
      (\<lambda>r. r\<lparr>S_QUANTITY := new_quantity t (qty ! k)\<rparr>) (stocks d)" "\<exists>r \<in> set (stocks d). S_QUANTITY r = t"
    by (rule line_eff_changes [OF 1]) auto
  have "1 \<le> new_quantity t (qty ! k) \<and> new_quantity t (qty ! k) \<le> 100"
    using t(2) Cons.prems(2,3) by (intro new_quantity_range) (auto simp: stock_ok_def)
  then have "stock_ok d1" using Cons.prems(2) unfolding stock_ok_def t(1) set_upd by auto
  then show ?case using Cons.IH [OF 2] Cons.prems(3) by simp
qed

lemma neword_eff_tables:
  assumes "neword_eff F datetime junk a d = Inr (u, d')"
  obtains nxt d4 x where "districts d' = upd (\<lambda>r. D_ID r = n_d_id a \<and> D_W_ID r = n_w_id a) (\<lambda>r. r\<lparr>D_NEXT_O_ID := nxt + 1\<rparr>) (districts d)"
    "warehouses d' = warehouses d" "histories d' = histories d" "customers d' = customers d" "items d' = items d"
    "stocks d4 = stocks d"
    "lines_eff F x (n_itemid a) (n_supware a) (n_qty a) (neword_sort (n_ol_cnt a) (n_supware a) (n_itemid a)) 1 junk d4 = Inr (u, d')"
proof -
  obtain nxt d3 d4 x where 3: "stmt3 nxt (n_d_id a) (n_w_id a) (n_c_id a) datetime (int (n_ol_cnt a)) (n_all_local a)
        (d\<lparr>districts := upd (\<lambda>r. D_ID r = n_d_id a \<and> D_W_ID r = n_w_id a) (\<lambda>r. r\<lparr>D_NEXT_O_ID := nxt + 1\<rparr>) (districts d)\<rparr>) = Some d3"
    and 4: "stmt4 nxt (n_d_id a) (n_w_id a) d3 = Some d4"
    and 5: "lines_eff F x (n_itemid a) (n_supware a) (n_qty a) (neword_sort (n_ol_cnt a) (n_supware a) (n_itemid a)) 1 junk d4
        = Inr (u, d')"
    using assms by (auto simp: neword_eff_def p_simps stmt2_def)
  have s: "same_but_lines d4 d'" using lines_eff_same [OF 5] .
  show thesis
    using 3 4 s by (intro that [OF _ _ _ _ _ _ 5]) (auto simp: stmt3_def stmt4_def same_but_lines_def)
qed

lemma books_ok_same:
  assumes "books_ok d" "warehouses d' = warehouses d" "histories d' = histories d"
    "map (\<lambda>r. (pk_district r, D_YTD r)) (districts d') = map (\<lambda>r. (pk_district r, D_YTD r)) (districts d)"
  shows "books_ok d'"
proof -
  have k: "map pk_district (districts d') = map pk_district (districts d)"
    using arg_cong [OF assms(4), of "map fst"] by (simp add: comp_def)
  have y: "ytd_districts w xs = sum_list (map snd (filter (\<lambda>(k, v). fst k = w) (map (\<lambda>r. (pk_district r, D_YTD r)) xs)))" for w xs
    by (simp add: ytd_districts_def filter_map comp_def pk_district_def)
  have rows: "(\<forall>r \<in> set (districts d'). P (pk_district r) (D_YTD r)) \<longleftrightarrow> (\<forall>r \<in> set (districts d). P (pk_district r) (D_YTD r))" for P
    using arg_cong [OF assms(4), of "\<lambda>l. \<forall>(p, n) \<in> set l. P p n"] by simp
  show ?thesis
    using assms(1) rows [of "\<lambda>p v. v = ytd_history p (histories d)"] unfolding books_ok_def assms(2-4) k y by simp
qed

lemma neword_keeps_books:
  assumes "books_ok d" "neword_eff F datetime junk a d = Inr (u, d')"
  shows "books_ok d'"
proof -
  obtain nxt where t: "districts d' = upd (\<lambda>r. D_ID r = n_d_id a \<and> D_W_ID r = n_w_id a) (\<lambda>r. r\<lparr>D_NEXT_O_ID := nxt + 1\<rparr>) (districts d)"
    "warehouses d' = warehouses d" "histories d' = histories d"
    by (rule neword_eff_tables [OF assms(2)]) blast
  show ?thesis
    by (rule books_ok_same [OF assms(1) t(2,3)]) (simp add: t(1) map_upd_same pk_district_def)
qed

lemma neword_keeps_stock:
  assumes "stock_ok d" "neword_eff F datetime junk a d = Inr (u, d')"
    "length (n_qty a) = n_ol_cnt a" "\<forall>q \<in> set (n_qty a). 1 \<le> q \<and> q \<le> 10"
  shows "stock_ok d'"
proof -
  obtain d4 x where s: "stocks d4 = stocks d"
    and l: "lines_eff F x (n_itemid a) (n_supware a) (n_qty a) (neword_sort (n_ol_cnt a) (n_supware a) (n_itemid a)) 1 junk d4 = Inr (u, d')"
    by (rule neword_eff_tables [OF assms(2)]) blast
  have "set (neword_sort (n_ol_cnt a) (n_supware a) (n_itemid a)) = {..<n_ol_cnt a}"
    using arg_cong [OF neword_sort_mset, of set_mset] by auto
  then have "1 \<le> n_qty a ! k \<and> n_qty a ! k \<le> 10"
    if "k \<in> set (neword_sort (n_ol_cnt a) (n_supware a) (n_itemid a))" for k
    using that assms(3,4) by simp
  then show ?thesis using lines_eff_stock [OF l] assms(1) s by (simp add: stock_ok_def)
qed

lemma deliver_keeps_rest:
  assumes "district_eff F datetime w o_c di t d = Inr (t1, d')"
  shows "warehouses d' = warehouses d \<and> districts d' = districts d \<and> histories d' = histories d \<and> stocks d' = stocks d"
  using assms
  by (auto simp: district_eff_def deliver_eff_def p_simps stmt26_def stmt28_def stmt29_def stmt31_def Let_def split: if_splits)

lemma delivery_keeps_rest:
  "delivery_eff F datetime w o_c ds t d = Inr (u, d') \<Longrightarrow>
   warehouses d' = warehouses d \<and> districts d' = districts d \<and> histories d' = histories d \<and> stocks d' = stocks d"
  by (induction ds arbitrary: t d) (fastforce simp: p_simps dest: deliver_keeps_rest)+

lemma delivery_keeps_books:
  assumes "books_ok d" "delivery_eff F datetime w o_c ds t d = Inr (u, d')"
  shows "books_ok d'"
  by (rule books_ok_same [OF assms(1)]) (simp_all add: delivery_keeps_rest [OF assms(2)])

lemma payment_keeps_stock:
  assumes "stock_ok d" "payment_eff F ord datetime a d = Inr (u, d')"
  shows "stock_ok d'"
proof -
  have "stocks d' = stocks d" by (rule payment_eff_changes [OF assms(2)]) simp
  then show ?thesis using assms(1) by (simp add: stock_ok_def)
qed

section \<open>The small database is consistent\<close>

lemma one_row:
  "order_ids [x] k = (if (O_W_ID x, O_D_ID x) = k then {O_ID x} else {})"
  "open_orders [x] = (if O_CARRIER_ID x = None then {x} else {})"
  "line_numbers [l] j = (if fst (pk_order_line l) = j then {OL_NUMBER l} else {})"
  by (auto simp: order_ids_def open_orders_def line_numbers_def)

lemma sample_orders: "orders_ok (districts sample_db) (orders sample_db)"
proof -
  have "{1..<2} = {1 :: int}" by auto
  then show ?thesis by (simp add: orders_ok_def pk_defs sample_db_def one_row)
qed

lemma sample_new_orders: "new_orders_ok (orders sample_db) (new_orders sample_db)"
  by (simp add: new_orders_ok_def oldest_first_def pk_defs sample_db_def one_row)

lemma sample_lines: "lines_ok O_OL_CNT (orders sample_db) (order_lines sample_db)"
  by (simp add: lines_ok_def pk_defs sample_db_def one_row)

lemma sample_consistent: "consistent sample_db"
  by (simp add: consistent_def sample_orders sample_new_orders sample_lines)

lemma sample_books: "books_ok sample_db" and sample_stock: "stock_ok sample_db"
  by (simp_all add: books_ok_def stock_ok_def ytd_districts_def ytd_history_def sample_db_def pk_defs)

theorem tpcc_consistent_witness:
  "consistent (committed (snd (neword cent_fops ''t1'' '''' sample_order good_lib sample_conn))) \<and>
   map D_NEXT_O_ID (districts (committed (snd (neword cent_fops ''t1'' '''' sample_order good_lib sample_conn)))) = [3]"
proof -
  let ?run = "neword cent_fops ''t1'' '''' sample_order good_lib sample_conn"
  have "tpcc_step cent_fops (\<lambda>cs. cs) sample_db (committed (snd ?run))"
    by (rule step_neword [of _ "''t1''" "''''" sample_order good_lib _ 0 "fst ?run"]) (simp add: sample_conn_def)
  then have "consistent (committed (snd ?run))" by (rule tpcc_consistent [OF r_into_rtranclp sample_consistent])
  moreover have "map D_NEXT_O_ID (districts (committed (snd ?run))) = [3]" by code_simp
  ultimately show ?thesis by simp
qed

end
