(* ===== verification/TpccDriver.thy ===== *)
theory TpccDriver
  imports TpccConsistency
begin

text \<open>
  The driver of the TPC-C load generator (driver.c): it draws the arguments of the transactions,
  runs each up to 2000 times until it answers 1, and keeps the counters of main.c. A thread of
  the driver works on its own connection; the answers of \<open>rand()\<close>, the values of uninitialised
  variables and the measured times are parameters.
\<close>

section \<open>Arguments of the transactions\<close>

record config =
  num_ware :: int
  num_conn :: int
  num_node :: int

text \<open>The checks of main on the number of nodes; the others are commented out there.\<close>

definition main_checks :: "config \<Rightarrow> bool" where
  "main_checks cf \<longleftrightarrow> \<not> (num_node cf > 0 \<and> (num_ware cf smod num_node cf \<noteq> 0 \<or> num_conn cf smod num_node cf \<noteq> 0))"

text \<open>
  The home warehouse of a transaction: any, or in cluster mode one of the node the thread belongs
  to. An empty range is a division by zero, the result None.
\<close>

definition pick_ware :: "config \<Rightarrow> rand \<Rightarrow> int \<Rightarrow> rng \<Rightarrow> (int \<times> rng) option" where
  "pick_ware cf r t_num g =
     (let (lo, hi) =
        (if num_node cf = 0 then (1, num_ware cf)
         else (let c_num = (num_node cf * t_num) sdiv num_conn cf
               in (1 + (num_ware cf * c_num) sdiv num_node cf, (num_ware cf * (c_num + 1)) sdiv num_node cf)))
      in if hi - lo + 1 = 0 then None else Some (rand_in r lo hi g))"

text \<open>A warehouse other than the home one: the loop runs until \<open>rand\<close> answers another one.\<close>

partial_function (option) other_ware_loop :: "rand \<Rightarrow> int \<Rightarrow> int \<Rightarrow> rng \<Rightarrow> (int \<times> rng) option" where
  "other_ware_loop r n home_ware g =
     (let (tmp, g1) = rand_in r 1 n g
      in if tmp = home_ware then other_ware_loop r n home_ware g1 else Some (tmp, g1))"

definition other_ware :: "config \<Rightarrow> rand \<Rightarrow> int \<Rightarrow> rng \<Rightarrow> (int \<times> rng) option" where
  "other_ware cf r home_ware g =
     (if num_ware cf = 1 then Some (home_ware, g) else other_ware_loop r (num_ware cf) home_ware g)"

text \<open>\<open>nurand\<close> is \<open>NURand\<close> with one of its three constants, which never aborts.\<close>

definition nurand :: "rand \<Rightarrow> (nat \<Rightarrow> nat) \<Rightarrow> int \<Rightarrow> int \<Rightarrow> int \<Rightarrow> rng \<Rightarrow> int \<times> rng" where
  "nurand r junk A x y g = (case NURand r junk A x y g of (Some v, g1) \<Rightarrow> (v, g1) | (None, g1) \<Rightarrow> (0, g1))"

text \<open>The lines of a new order, and whether all of them are local.\<close>

fun neword_items ::
  "config \<Rightarrow> rand \<Rightarrow> (nat \<Rightarrow> nat) \<Rightarrow> int \<Rightarrow> int \<Rightarrow> nat \<Rightarrow> rng \<Rightarrow> ((int \<times> int \<times> int) list \<times> int \<times> rng) option" where
  "neword_items cf r junk w_id rbk 0 g = Some ([], 1, g)"
| "neword_items cf r junk w_id rbk (Suc n) g =
     (let (i0, g1) = nurand r junk 8191 1 MAXITEMS g;
          item = (if n = 0 \<and> rbk = 1 then MAXITEMS + 1 else i0);
          (p, g2) = rand_in r 1 100 g1
      in case (if p \<noteq> 1 then Some (w_id, g2) else other_ware cf r w_id g2) of
           None \<Rightarrow> None
         | Some (sw, g3) \<Rightarrow>
             let (q, g4) = rand_in r 1 10 g3
             in case neword_items cf r junk w_id rbk n g4 of
                  None \<Rightarrow> None
                | Some (ls, loc, g5) \<Rightarrow> Some ((item, sw, q) # ls, if p \<noteq> 1 then loc else 0, g5))"

definition neword_input :: "config \<Rightarrow> rand \<Rightarrow> (nat \<Rightarrow> nat) \<Rightarrow> int \<Rightarrow> rng \<Rightarrow> (neword_args \<times> rng) option" where
  "neword_input cf r junk t_num g =
     (case pick_ware cf r t_num g of
        None \<Rightarrow> None
      | Some (w_id, g1) \<Rightarrow>
          let (d_id, g2) = rand_in r 1 DIST_PER_WARE g1;
              (c_id, g3) = nurand r junk 1023 1 CUST_PER_DIST g2;
              (ol_cnt, g4) = rand_in r 5 15 g3;
              (rbk, g5) = rand_in r 1 100 g4
          in case neword_items cf r junk w_id rbk (nat ol_cnt) g5 of
               None \<Rightarrow> None
             | Some (ls, all_local, g6) \<Rightarrow>
                 Some (\<lparr>n_w_id = w_id, n_d_id = d_id, n_c_id = c_id, n_ol_cnt = nat ol_cnt, n_all_local = all_local,
                        n_itemid = map fst ls, n_supware = map (fst \<circ> snd) ls, n_qty = map (snd \<circ> snd) ls\<rparr>, g6))"

text \<open>The amount of a payment is a whole number, converted to float by the call.\<close>

definition payment_input ::
  "'f fops \<Rightarrow> config \<Rightarrow> rand \<Rightarrow> (nat \<Rightarrow> nat) \<Rightarrow> int \<Rightarrow> rng \<Rightarrow> ('f payment_args \<times> rng) option" where
  "payment_input F cf r junk t_num g =
     (case pick_ware cf r t_num g of
        None \<Rightarrow> None
      | Some (w_id, g1) \<Rightarrow>
          let (d_id, g2) = rand_in r 1 DIST_PER_WARE g1;
              (c_id, g3) = nurand r junk 1023 1 CUST_PER_DIST g2;
              (num, g4) = nurand r junk 255 0 999 g3;
              (h_amount, g5) = rand_in r 1 5000 g4;
              (b, g6) = rand_in r 1 100 g5;
              (p, g7) = rand_in r 1 100 g6
          in case (if p \<le> 85 then Some (w_id, d_id, g7)
                   else map_option (\<lambda>(w, g8). let (d, g9) = rand_in r 1 DIST_PER_WARE g8 in (w, d, g9)) (other_ware cf r w_id g7)) of
               None \<Rightarrow> None
             | Some (c_w_id, c_d_id, g10) \<Rightarrow>
                 Some (\<lparr>p_w_id = w_id, p_d_id = d_id, p_byname = b \<le> 60, p_c_w_id = c_w_id, p_c_d_id = c_d_id,
                        p_c_id = c_id, p_c_last = the (Lastname num), p_amount = int_float F h_amount\<rparr>, g10))"

definition ordstat_input ::
  "config \<Rightarrow> rand \<Rightarrow> (nat \<Rightarrow> nat) \<Rightarrow> int \<Rightarrow> rng \<Rightarrow> ((int \<times> int \<times> bool \<times> int \<times> string) \<times> rng) option" where
  "ordstat_input cf r junk t_num g =
     (case pick_ware cf r t_num g of
        None \<Rightarrow> None
      | Some (w_id, g1) \<Rightarrow>
          let (d_id, g2) = rand_in r 1 DIST_PER_WARE g1;
              (c_id, g3) = nurand r junk 1023 1 CUST_PER_DIST g2;
              (num, g4) = nurand r junk 255 0 999 g3;
              (b, g5) = rand_in r 1 100 g4
          in Some ((w_id, d_id, b \<le> 60, c_id, the (Lastname num)), g5))"

definition delivery_input :: "config \<Rightarrow> rand \<Rightarrow> int \<Rightarrow> rng \<Rightarrow> ((int \<times> int) \<times> rng) option" where
  "delivery_input cf r t_num g =
     (case pick_ware cf r t_num g of
        None \<Rightarrow> None
      | Some (w_id, g1) \<Rightarrow> let (o_carrier_id, g2) = rand_in r 1 10 g1 in Some ((w_id, o_carrier_id), g2))"

definition slev_input :: "config \<Rightarrow> rand \<Rightarrow> int \<Rightarrow> rng \<Rightarrow> ((int \<times> int \<times> int) \<times> rng) option" where
  "slev_input cf r t_num g =
     (case pick_ware cf r t_num g of
        None \<Rightarrow> None
      | Some (w_id, g1) \<Rightarrow>
          let (d_id, g2) = rand_in r 1 DIST_PER_WARE g1; (level, g3) = rand_in r 10 20 g2
          in Some ((w_id, d_id, level), g3))"

section \<open>Running a transaction\<close>

record counters =
  success :: "int list"
  late :: "int list"
  retry :: "int list"
  failure :: "int list"
  success2 :: "int list list"
  late2 :: "int list list"
  retry2 :: "int list list"
  failure2 :: "int list list"
  max_rt :: "int list"
  total_rt :: "int list"
  hist :: hist_state
  local_percentile :: percentile

definition MAX_RETRY :: nat where "MAX_RETRY = 2000"

definition bump :: "nat \<Rightarrow> int \<Rightarrow> int list \<Rightarrow> int list" where
  "bump t v xs = xs[t := xs ! t + v]"

definition bump2 :: "nat \<Rightarrow> nat \<Rightarrow> int \<Rightarrow> int list list \<Rightarrow> int list list" where
  "bump2 t t_num v xs = xs[t := bump t_num v (xs ! t)]"

text \<open>
  After an answer 1: the time is recorded, and counted as a success or as late. The percentile is
  kept for new orders only. \<open>rt_limit\<close> is compared with the milliseconds.
\<close>

definition record_success ::
  "(int \<Rightarrow> nat) \<Rightarrow> (nat \<Rightarrow> int) \<Rightarrow> nat \<Rightarrow> nat \<Rightarrow> bool \<Rightarrow> int \<Rightarrow> counters \<Rightarrow> counters option" where
  "record_success bucket rt_limit t t_num counting_on rt s =
     (let s1 = s\<lparr>max_rt := (if rt > max_rt s ! t then (max_rt s)[t := rt] else max_rt s),
                 total_rt := bump t rt (total_rt s),
                 local_percentile := (if t = 0 then sb_percentile_update bucket rt (local_percentile s) else local_percentile s)\<rparr>
      in case hist_inc t rt (hist s1) of
           None \<Rightarrow> None
         | Some h \<Rightarrow>
             let s2 = s1\<lparr>hist := h\<rparr>
             in Some (if counting_on
                      then (if rt < rt_limit t * 1000000
                            then s2\<lparr>success := bump t 1 (success s2), success2 := bump2 t t_num 1 (success2 s2)\<rparr>
                            else s2\<lparr>late := bump t 1 (late s2), late2 := bump2 t t_num 1 (late2 s2)\<rparr>)
                      else s2))"

definition record_retry :: "nat \<Rightarrow> nat \<Rightarrow> bool \<Rightarrow> counters \<Rightarrow> counters" where
  "record_retry t t_num counting_on s =
     (if counting_on then s\<lparr>retry := bump t 1 (retry s), retry2 := bump2 t t_num 1 (retry2 s)\<rparr> else s)"

definition record_failure :: "nat \<Rightarrow> nat \<Rightarrow> bool \<Rightarrow> counters \<Rightarrow> counters" where
  "record_failure t t_num counting_on s =
     (if counting_on
      then s\<lparr>retry := bump t (-1) (retry s), retry2 := bump2 t t_num (-1) (retry2 s),
             failure := bump t 1 (failure s), failure2 := bump2 t t_num 1 (failure2 s)\<rparr>
      else s)"

text \<open>
  The loop all five routines have: \<open>txn i\<close> is attempt \<open>i\<close> of the transaction, \<open>rt i\<close> the time
  since the first attempt after it, \<open>on i\<close> what \<open>counting_on\<close> holds then, which the main thread
  may change.
\<close>

function attempts ::
  "(int \<Rightarrow> nat) \<Rightarrow> (nat \<Rightarrow> int) \<Rightarrow> nat \<Rightarrow> nat \<Rightarrow> (nat \<Rightarrow> bool) \<Rightarrow> (nat \<Rightarrow> int) \<Rightarrow> (nat \<Rightarrow> conn \<Rightarrow> int \<times> conn) \<Rightarrow>
   nat \<Rightarrow> counters \<Rightarrow> conn \<Rightarrow> (int \<times> counters \<times> conn) option" where
  "attempts bucket rt_limit t t_num on rt txn i s c =
     (if i < MAX_RETRY
      then (let (ret, c1) = txn i c
            in if ret \<noteq> 0
               then map_option (\<lambda>s1. (1, s1, c1)) (record_success bucket rt_limit t t_num (on i) (rt i) s)
               else attempts bucket rt_limit t t_num on rt txn (Suc i) (record_retry t t_num (on i) s) c1)
      else Some (0, record_failure t t_num (on i) s, c))"
  by pat_completeness auto
termination by (relation "measure (\<lambda>(bucket, rl, t, tn, on, rt, txn, i, s, c). MAX_RETRY - i)") auto

declare attempts.simps [simp del]

text \<open>
  What the routines take from outside. The timestamp of an attempt is taken when it starts, a
  moment given by the calls made on the connection so far.
\<close>

record 'f world =
  wd_fops :: "'f fops"
  wd_ord :: "customer list \<Rightarrow> customer list"
  wd_rand :: rand
  wd_junk :: "nat \<Rightarrow> nat"
  wd_bucket :: "int \<Rightarrow> nat"
  wd_rt_limit :: "nat \<Rightarrow> int"
  wd_lib :: mysql_lib
  wd_now :: "nat \<Rightarrow> string"
  wd_junk_text :: string
  wd_junk_float :: 'f

definition do_neword ::
  "'f world \<Rightarrow> config \<Rightarrow> nat \<Rightarrow> (nat \<Rightarrow> bool) \<Rightarrow> (nat \<Rightarrow> int) \<Rightarrow> rng \<Rightarrow> counters \<Rightarrow> conn \<Rightarrow>
   ((int \<times> counters \<times> conn) \<times> rng) option" where
  "do_neword x cf t_num on rt g s c =
     (case neword_input cf (wd_rand x) (wd_junk x) (int t_num) g of
        None \<Rightarrow> None
      | Some (a, g1) \<Rightarrow>
          map_option (\<lambda>y. (y, g1))
            (attempts (wd_bucket x) (wd_rt_limit x) 0 t_num on rt
               (\<lambda>i c. neword (wd_fops x) (wd_now x (api_calls c)) (wd_junk_text x) a (wd_lib x) c) 0 s c))"

definition do_payment ::
  "'f world \<Rightarrow> config \<Rightarrow> nat \<Rightarrow> (nat \<Rightarrow> bool) \<Rightarrow> (nat \<Rightarrow> int) \<Rightarrow> rng \<Rightarrow> counters \<Rightarrow> conn \<Rightarrow>
   ((int \<times> counters \<times> conn) \<times> rng) option" where
  "do_payment x cf t_num on rt g s c =
     (case payment_input (wd_fops x) cf (wd_rand x) (wd_junk x) (int t_num) g of
        None \<Rightarrow> None
      | Some (a, g1) \<Rightarrow>
          map_option (\<lambda>y. (y, g1))
            (attempts (wd_bucket x) (wd_rt_limit x) 1 t_num on rt
               (\<lambda>i c. payment (wd_fops x) (wd_ord x) (wd_now x (api_calls c)) a (wd_lib x) c) 0 s c))"

definition do_ordstat ::
  "'f world \<Rightarrow> config \<Rightarrow> nat \<Rightarrow> (nat \<Rightarrow> bool) \<Rightarrow> (nat \<Rightarrow> int) \<Rightarrow> rng \<Rightarrow> counters \<Rightarrow> conn \<Rightarrow>
   ((int \<times> counters \<times> conn) \<times> rng) option" where
  "do_ordstat x cf t_num on rt g s c =
     (case ordstat_input cf (wd_rand x) (wd_junk x) (int t_num) g of
        None \<Rightarrow> None
      | Some ((w_id, d_id, byname, c_id, c_last), g1) \<Rightarrow>
          map_option (\<lambda>y. (y, g1))
            (attempts (wd_bucket x) (wd_rt_limit x) 2 t_num on rt
               (\<lambda>i. ordstat (wd_ord x) w_id d_id byname c_id c_last (wd_lib x)) 0 s c))"

definition do_delivery ::
  "'f world \<Rightarrow> config \<Rightarrow> nat \<Rightarrow> (nat \<Rightarrow> bool) \<Rightarrow> (nat \<Rightarrow> int) \<Rightarrow> rng \<Rightarrow> counters \<Rightarrow> conn \<Rightarrow>
   ((int \<times> counters \<times> conn) \<times> rng) option" where
  "do_delivery x cf t_num on rt g s c =
     (case delivery_input cf (wd_rand x) (int t_num) g of
        None \<Rightarrow> None
      | Some ((w_id, o_carrier_id), g1) \<Rightarrow>
          map_option (\<lambda>y. (y, g1))
            (attempts (wd_bucket x) (wd_rt_limit x) 3 t_num on rt
               (\<lambda>i c. delivery (wd_fops x) (wd_now x (api_calls c)) (wd_junk_float x) w_id o_carrier_id (wd_lib x) c) 0 s c))"

definition do_slev ::
  "'f world \<Rightarrow> config \<Rightarrow> nat \<Rightarrow> (nat \<Rightarrow> bool) \<Rightarrow> (nat \<Rightarrow> int) \<Rightarrow> rng \<Rightarrow> counters \<Rightarrow> conn \<Rightarrow>
   ((int \<times> counters \<times> conn) \<times> rng) option" where
  "do_slev x cf t_num on rt g s c =
     (case slev_input cf (wd_rand x) (int t_num) g of
        None \<Rightarrow> None
      | Some ((w_id, d_id, level), g1) \<Rightarrow>
          map_option (\<lambda>y. (y, g1))
            (attempts (wd_bucket x) (wd_rt_limit x) 4 t_num on rt
               (\<lambda>i. slev w_id d_id level (wd_lib x)) 0 s c))"

text \<open>One round of the driver's loop: the kind \<open>seq_get\<close> answers decides; any other is reported.\<close>

definition dispatch ::
  "'f world \<Rightarrow> config \<Rightarrow> nat \<Rightarrow> (nat \<Rightarrow> bool) \<Rightarrow> (nat \<Rightarrow> int) \<Rightarrow> nat \<Rightarrow> rng \<Rightarrow> counters \<Rightarrow> conn \<Rightarrow>
   ((int \<times> counters \<times> conn) \<times> rng) option" where
  "dispatch x cf t_num on rt kind g s c =
     (if kind = 0 then do_neword x cf t_num on rt g s c
      else if kind = 1 then do_payment x cf t_num on rt g s c
      else if kind = 2 then do_ordstat x cf t_num on rt g s c
      else if kind = 3 then do_delivery x cf t_num on rt g s c
      else if kind = 4 then do_slev x cf t_num on rt g s c
      else Some ((0, s, c), g))"

text \<open>
  The driver's loop as long as transactions are active, one observation of \<open>counting_on\<close> and the
  clock per round; the sequence of kinds is shared and draws from the same \<open>rand\<close>.
\<close>

fun driver ::
  "'f world \<Rightarrow> config \<Rightarrow> nat \<Rightarrow> ((nat \<Rightarrow> bool) \<times> (nat \<Rightarrow> int)) list \<Rightarrow> seq_state \<Rightarrow> rng \<Rightarrow> counters \<Rightarrow> conn \<Rightarrow>
   (seq_state \<times> rng \<times> counters \<times> conn) option" where
  "driver x cf t_num [] q g s c = Some (q, g, s, c)"
| "driver x cf t_num ((on, rt) # rounds) q g s c =
     (let (kind, q1, k1) = seq_get (wd_rand x) q (calls g)
      in case dispatch x cf t_num on rt kind (g\<lparr>calls := k1\<rparr>) s c of
           None \<Rightarrow> None
         | Some ((ret, s1, c1), g1) \<Rightarrow> driver x cf t_num rounds q1 g1 s1 c1)"

section \<open>The arguments are valid\<close>

lemma smod_nonneg: "0 \<le> a \<Longrightarrow> 0 < b \<Longrightarrow> a smod b = a mod (b::int)"
  by (cases "a = 0") (simp_all add: signed_modulo_int_def signed_divide_int_def minus_mult_div_eq_mod)

definition sane :: "config \<Rightarrow> int \<Rightarrow> bool" where
  "sane cf t_num \<longleftrightarrow> main_checks cf \<and> 1 \<le> num_ware cf \<and> 0 \<le> num_node cf \<and> 0 \<le> t_num \<and> t_num < num_conn cf"

lemma sdiv_nonneg: "0 \<le> a \<Longrightarrow> 0 < b \<Longrightarrow> a sdiv b = a div (b::int)"
  by (cases "a = 0") (simp_all add: signed_divide_int_def)

text \<open>The home warehouse exists, and in cluster mode it belongs to the node of the thread.\<close>

lemma pick_ware_valid:
  assumes "sane cf t_num"
  shows "\<exists>w g'. pick_ware cf r t_num g = Some (w, g') \<and> 1 \<le> w \<and> w \<le> num_ware cf"
proof (cases "num_node cf = 0")
  case True
  obtain w g' where w: "rand_in r 1 (num_ware cf) g = (w, g')" by fastforce
  then show ?thesis using True assms rand_in_range [OF w] by (simp add: pick_ware_def sane_def)
next
  case False
  then have n: "0 < num_node cf" using assms by (simp add: sane_def)
  let ?c = "(num_node cf * t_num) div num_conn cf"
  have conn: "0 < num_conn cf" "0 \<le> t_num" "t_num < num_conn cf" using assms by (auto simp: sane_def)
  have c: "0 \<le> ?c" "?c < num_node cf"
  proof -
    show "0 \<le> ?c" using n conn by (simp add: pos_imp_zdiv_nonneg_iff)
    have "num_conn cf * ?c \<le> num_node cf * t_num"
      using mult_div_mod_eq [of "num_conn cf" "num_node cf * t_num"]
        pos_mod_sign [OF conn(1), of "num_node cf * t_num"] by linarith
    also have "\<dots> < num_conn cf * num_node cf" using n conn by simp
    finally show "?c < num_node cf" using conn(1) by simp
  qed
  have "num_node cf dvd num_ware cf"
    using assms n by (auto simp: sane_def main_checks_def smod_nonneg)
  then obtain k where k: "num_ware cf = num_node cf * k" by (rule dvdE)
  have "0 < num_node cf * k" using k assms by (simp add: sane_def)
  then have "1 \<le> k" using n by (simp add: zero_less_mult_iff)
  have lo: "1 + (num_ware cf * ?c) sdiv num_node cf = 1 + k * ?c"
    and hi: "(num_ware cf * (?c + 1)) sdiv num_node cf = k * (?c + 1)"
    using k n c \<open>1 \<le> k\<close> by (simp_all add: sdiv_nonneg mult.assoc)
  obtain w g' where w: "rand_in r (1 + k * ?c) (k * (?c + 1)) g = (w, g')" by fastforce
  have "k * (?c + 1) \<le> k * num_node cf" using c \<open>1 \<le> k\<close> by simp
  moreover have "0 \<le> k * ?c" using c \<open>1 \<le> k\<close> by simp
  moreover have "1 + k * ?c \<le> k * (?c + 1)" using \<open>1 \<le> k\<close> by (simp add: distrib_left)
  ultimately have "1 \<le> w" "w \<le> num_ware cf"
    using rand_in_range [OF w] k by (simp_all add: mult.commute [of k "num_node cf"])
  moreover have "pick_ware cf r t_num g = Some (w, g')"
  proof -
    have e: "(num_node cf * t_num) sdiv num_conn cf = ?c" using n conn by (simp add: sdiv_nonneg)
    have "k * (?c + 1) - (1 + k * ?c) + 1 \<noteq> 0" using \<open>1 \<le> k\<close> by (simp add: distrib_left)
    then show ?thesis using False w unfolding pick_ware_def e Let_def lo hi by simp
  qed
  ultimately show ?thesis by blast
qed

lemma other_ware_loop_result:
  assumes "other_ware_loop r n home g = Some (w, g')" "1 \<le> n"
  shows "w \<noteq> home \<and> 1 \<le> w \<and> w \<le> n"
proof -
  have "1 \<le> n \<longrightarrow> fst (w, g') \<noteq> home \<and> 1 \<le> fst (w, g') \<and> fst (w, g') \<le> n"
  proof (rule other_ware_loop.raw_induct [where P = "\<lambda>r n home g y. 1 \<le> n \<longrightarrow> fst y \<noteq> home \<and> 1 \<le> fst y \<and> fst y \<le> n",
      OF _ assms(1)])
    fix loop r n home g y
    assume ih: "\<And>r n home g y. loop r n home g = Some y \<Longrightarrow> 1 \<le> n \<longrightarrow> fst y \<noteq> home \<and> 1 \<le> fst y \<and> fst y \<le> n"
      and y: "(let (tmp, g1) = rand_in r 1 n g in if tmp = home then loop r n home g1 else Some (tmp, g1)) = Some y"
    obtain v g1 where v: "rand_in r 1 n g = (v, g1)" by fastforce
    show "1 \<le> n \<longrightarrow> fst y \<noteq> home \<and> 1 \<le> fst y \<and> fst y \<le> n"
    proof (cases "v = home")
      case True
      then show ?thesis using ih [of r n home g1 y] y v by simp
    next
      case False
      then have "y = (v, g1)" using y v by simp
      then show ?thesis using False rand_in_range [OF v] by simp
    qed
  qed
  then show ?thesis using assms(2) by simp
qed

text \<open>The search for another warehouse ends as soon as \<open>rand\<close> answers one.\<close>

lemma other_ware_loop_ends:
  assumes "fst (RandomNumber r 1 n (calls g + m)) \<noteq> home"
  shows "\<exists>y. other_ware_loop r n home g = Some y"
  using assms
proof (induction m arbitrary: g)
  case 0
  then show ?case by (subst other_ware_loop.simps) (simp add: rand_in_def)
next
  case (Suc m)
  let ?g = "g\<lparr>calls := Suc (calls g)\<rparr>"
  have "\<exists>y. other_ware_loop r n home ?g = Some y" using Suc.IH [of ?g] Suc.prems by simp
  then show ?case by (subst other_ware_loop.simps) (simp add: rand_in_def)
qed

lemma other_ware_valid:
  assumes "other_ware cf r home g = Some (w, g')" "1 \<le> num_ware cf" "1 \<le> home" "home \<le> num_ware cf"
  shows "1 \<le> w \<and> w \<le> num_ware cf \<and> (w = home \<longleftrightarrow> num_ware cf = 1)"
  using assms other_ware_loop_result [of r "num_ware cf" home g w g'] by (auto simp: other_ware_def split: if_splits)

lemma nurand_range:
  assumes "nurand r junk A x y g = (v, g')" "A \<in> {255, 1023, 8191}" "0 \<le> x" "x \<le> y"
  shows "x \<le> v \<and> v \<le> y"
  using NURand_returns [OF assms(2-4), of r junk g] assms(1) by (auto simp: nurand_def)

definition valid_line :: "config \<Rightarrow> int \<times> int \<times> int \<Rightarrow> bool" where
  "valid_line cf l \<longleftrightarrow> (case l of (item, sw, q) \<Rightarrow>
     1 \<le> item \<and> item \<le> MAXITEMS + 1 \<and> 1 \<le> sw \<and> sw \<le> num_ware cf \<and> 1 \<le> q \<and> q \<le> 10)"

lemma neword_items_valid:
  assumes "neword_items cf r junk w_id rbk n g = Some (ls, loc, g')"
    "1 \<le> num_ware cf" "1 \<le> w_id" "w_id \<le> num_ware cf"
  shows "length ls = n \<and> list_all (valid_line cf) ls \<and>
    (\<forall>(item, sw, q) \<in> set (butlast ls). item \<le> MAXITEMS) \<and> (loc = 1 \<longrightarrow> (\<forall>(item, sw, q) \<in> set ls. sw = w_id))"
  using assms(1)
proof (induction n arbitrary: g g' ls loc)
  case 0
  then show ?case by simp
next
  case (Suc n)
  obtain i0 g1 where i: "nurand r junk 8191 1 MAXITEMS g = (i0, g1)" by fastforce
  obtain p g2 where p: "rand_in r 1 100 g1 = (p, g2)" by fastforce
  obtain sw g3 where sw: "(if p \<noteq> 1 then Some (w_id, g2) else other_ware cf r w_id g2) = Some (sw, g3)"
    using Suc.prems i p by (auto split: option.splits)
  obtain q g4 where q: "rand_in r 1 10 g3 = (q, g4)" by fastforce
  obtain ls0 loc0 g5 where r: "neword_items cf r junk w_id rbk n g4 = Some (ls0, loc0, g5)"
    using Suc.prems i p sw q by (auto split: option.splits)
  let ?item = "if n = 0 \<and> rbk = 1 then MAXITEMS + 1 else i0"
  have e: "ls = (?item, sw, q) # ls0" "loc = (if p \<noteq> 1 then loc0 else 0)"
    using Suc.prems i p sw q r by auto
  have "1 \<le> i0 \<and> i0 \<le> MAXITEMS" using nurand_range [OF i] by (simp add: MAXITEMS_def)
  moreover have "1 \<le> sw \<and> sw \<le> num_ware cf" "p \<noteq> 1 \<Longrightarrow> sw = w_id"
    using sw assms(2-4) other_ware_valid [of cf r w_id g2 sw g3] by (auto split: if_splits)
  moreover have "1 \<le> q \<and> q \<le> 10" using rand_in_range [OF q] by simp
  ultimately show ?case using Suc.IH [OF r] e
    by (auto simp: valid_line_def split: if_splits)
qed

lemma driver_orders_args:
  assumes "neword_input cf r junk t_num g = Some (a, g')" and "sane cf t_num"
  shows "n_w_id a \<in> {1..num_ware cf} \<and> n_d_id a \<in> {1..10} \<and> n_c_id a \<in> {1..3000} \<and> n_ol_cnt a \<in> {5..15} \<and>
    length (n_itemid a) = n_ol_cnt a \<and> length (n_supware a) = n_ol_cnt a \<and> length (n_qty a) = n_ol_cnt a \<and>
    set (n_itemid a) \<subseteq> {1..MAXITEMS + 1} \<and> set (butlast (n_itemid a)) \<subseteq> {1..MAXITEMS} \<and>
    set (n_supware a) \<subseteq> {1..num_ware cf} \<and> set (n_qty a) \<subseteq> {1..10} \<and>
    (n_all_local a = 1 \<longrightarrow> set (n_supware a) \<subseteq> {n_w_id a})"
proof -
  obtain w_id g1 where w: "pick_ware cf r t_num g = Some (w_id, g1)" "1 \<le> w_id" "w_id \<le> num_ware cf"
    using pick_ware_valid [OF assms(2), of r g] by blast
  obtain d_id g2 where d: "rand_in r 1 DIST_PER_WARE g1 = (d_id, g2)" by fastforce
  obtain c_id g3 where c: "nurand r junk 1023 1 CUST_PER_DIST g2 = (c_id, g3)" by fastforce
  obtain cnt g4 where n: "rand_in r 5 15 g3 = (cnt, g4)" by fastforce
  obtain rbk g5 where b: "rand_in r 1 100 g4 = (rbk, g5)" by fastforce
  obtain ls loc where l: "neword_items cf r junk w_id rbk (nat cnt) g5 = Some (ls, loc, g')"
    and a: "a = \<lparr>n_w_id = w_id, n_d_id = d_id, n_c_id = c_id, n_ol_cnt = nat cnt, n_all_local = loc,
                 n_itemid = map fst ls, n_supware = map (fst \<circ> snd) ls, n_qty = map (snd \<circ> snd) ls\<rparr>"
    using assms(1) w d c n b by (auto simp: neword_input_def split: option.splits)
  have ware: "1 \<le> num_ware cf" using assms(2) by (simp add: sane_def)
  have v: "length ls = nat cnt" "\<forall>x \<in> set ls. valid_line cf x" "\<forall>(item, sw, q) \<in> set (butlast ls). item \<le> MAXITEMS"
    "loc = 1 \<longrightarrow> (\<forall>(item, sw, q) \<in> set ls. sw = w_id)"
    using neword_items_valid [OF l ware w(2,3)] by (auto simp: list_all_iff)
  have "1 \<le> d_id \<and> d_id \<le> 10" using rand_in_range [OF d] by (simp add: DIST_PER_WARE_def)
  moreover have "1 \<le> c_id \<and> c_id \<le> 3000" using nurand_range [OF c] by (simp add: CUST_PER_DIST_def)
  moreover have "5 \<le> cnt \<and> cnt \<le> 15" using rand_in_range [OF n] by simp
  moreover have "set (butlast ls) \<subseteq> set ls" by (auto dest: in_set_butlastD)
  ultimately show ?thesis using w v a
    by (fastforce simp: valid_line_def simp flip: map_butlast)
qed



section \<open>The counters\<close>

text \<open>
  Counters of the right size: five kinds, and per kind one entry per thread.
\<close>

definition counters_ok :: "nat \<Rightarrow> counters \<Rightarrow> bool" where
  "counters_ok n s \<longleftrightarrow> length (success s) = 5 \<and> length (late s) = 5 \<and> length (retry s) = 5 \<and> length (failure s) = 5 \<and>
     length (success2 s) = 5 \<and> length (late2 s) = 5 \<and> length (retry2 s) = 5 \<and> length (failure2 s) = 5 \<and>
     length (max_rt s) = 5 \<and> length (total_rt s) = 5 \<and> hist_ok (hist s) \<and>
     (\<forall>t < 5. length (success2 s ! t) = n \<and> length (late2 s ! t) = n \<and> length (retry2 s ! t) = n \<and> length (failure2 s ! t) = n)"

lemma length_bump [simp]: "length (bump t v xs) = length xs"
  by (simp add: bump_def)

lemma nth_bump: "t < length xs \<Longrightarrow> bump t v xs ! u = (if u = t then xs ! t + v else xs ! u)"
  by (auto simp: bump_def nth_list_update)

lemma length_bump2 [simp]: "length (bump2 t n v xs) = length xs"
  by (simp add: bump2_def)

lemma nth_bump2: "t < length xs \<Longrightarrow> bump2 t n v xs ! u = (if u = t then bump n v (xs ! t) else xs ! u)"
  by (auto simp: bump2_def nth_list_update)

text \<open>How many transactions of a kind were counted as ended.\<close>

definition ended :: "counters \<Rightarrow> nat \<Rightarrow> int" where
  "ended s t = success s ! t + late s ! t + failure s ! t"

lemma record_success_counts:
  assumes "counters_ok n s" "t < 5" "tn < n" "0 \<le> rt"
  shows "\<exists>s'. record_success bucket rt_limit t tn on rt s = Some s' \<and> counters_ok n s' \<and>
    (\<forall>u. ended s' u = ended s u + (if on \<and> u = t then 1 else 0)) \<and> retry s' = retry s \<and> failure s' = failure s"
proof -
  let ?s = "s\<lparr>max_rt := (if rt > max_rt s ! t then (max_rt s)[t := rt] else max_rt s),
              total_rt := bump t rt (total_rt s),
              local_percentile := (if t = 0 then sb_percentile_update bucket rt (local_percentile s) else local_percentile s)\<rparr>"
  obtain h where h: "hist_inc t rt (hist s) = Some h" "hist_ok h"
    using hist_inc_counts [of "hist s", OF _ assms(2,4)] assms(1) unfolding counters_ok_def by blast
  have ok: "counters_ok n (?s\<lparr>hist := h\<rparr>)" using assms(1) h(2) by (simp add: counters_ok_def)
  show ?thesis
    using h(1) ok assms(1-3) unfolding record_success_def Let_def
    by (auto simp: counters_ok_def ended_def nth_bump nth_bump2 split: if_splits)
qed

lemma record_retry_counts:
  assumes "counters_ok n s" "t < 5"
  shows "counters_ok n (record_retry t tn on s) \<and> ended (record_retry t tn on s) = ended s \<and>
    (\<forall>u. retry (record_retry t tn on s) ! u = retry s ! u + (if on \<and> u = t then 1 else 0)) \<and>
    failure (record_retry t tn on s) = failure s"
  using assms by (auto simp: record_retry_def counters_ok_def ended_def fun_eq_iff nth_bump nth_bump2)

lemma record_failure_counts:
  assumes "counters_ok n s" "t < 5"
  shows "counters_ok n (record_failure t tn on s) \<and>
    (\<forall>u. ended (record_failure t tn on s) u = ended s u + (if on \<and> u = t then 1 else 0)) \<and>
    (\<forall>u. retry (record_failure t tn on s) ! u = retry s ! u - (if on \<and> u = t then 1 else 0))"
  using assms by (auto simp: record_failure_def counters_ok_def ended_def nth_bump nth_bump2)

text \<open>
  The retry loop: with counting on it always returns, counts exactly one more transaction of its
  kind as a success, as late or as a failure and none of another kind, and counts every attempt
  but the last as a retry: all but the successful one, or all 2000 less one.
\<close>

lemma attempts_counted:
  assumes "counters_ok n s" "t < 5" "tn < n" "\<And>j. 0 \<le> rt j" "i \<le> MAX_RETRY"
  shows "\<exists>ret s' c' k. attempts bucket rt_limit t tn (\<lambda>_. True) rt txn i s c = Some (ret, s', c') \<and> counters_ok n s' \<and>
    (\<forall>u. ended s' u = ended s u + (if u = t then 1 else 0)) \<and> i \<le> k \<and>
    (\<forall>u. u \<noteq> t \<longrightarrow> retry s' ! u = retry s ! u) \<and>
    (if ret = 0 then retry s' ! t = retry s ! t + int (MAX_RETRY - i) - 1 \<and> failure s' ! t = failure s ! t + 1
     else ret = 1 \<and> k < MAX_RETRY \<and> retry s' ! t = retry s ! t + int (k - i) \<and> failure s' ! t = failure s ! t)"
  using assms(1,5)
proof (induction "MAX_RETRY - i" arbitrary: i s c)
  case 0
  then have i: "i = MAX_RETRY" by simp
  have "attempts bucket rt_limit t tn (\<lambda>_. True) rt txn i s c = Some (0, record_failure t tn True s, c)"
    using i by (subst attempts.simps) simp
  moreover have "failure (record_failure t tn True s) ! t = failure s ! t + 1"
    using 0(2) assms(2) by (simp add: record_failure_def counters_ok_def nth_bump)
  ultimately show ?case using record_failure_counts [OF 0(2) assms(2), of tn True] i by auto
next
  case (Suc m)
  then have i: "i < MAX_RETRY" by simp
  obtain ret c1 where t: "txn i c = (ret, c1)" by fastforce
  show ?case
  proof (cases "ret = 0")
    case False
    obtain s' where s': "record_success bucket rt_limit t tn True (rt i) s = Some s'" "counters_ok n s'"
      "\<forall>u. ended s' u = ended s u + (if u = t then 1 else 0)" "retry s' = retry s" "failure s' = failure s"
      using record_success_counts [OF Suc.prems(1) assms(2,3) assms(4) [of i], of bucket rt_limit True] by auto
    have "attempts bucket rt_limit t tn (\<lambda>_. True) rt txn i s c = Some (1, s', c1)"
      using i t False s'(1) by (subst attempts.simps) simp
    then show ?thesis using s' i by auto
  next
    case True
    let ?s = "record_retry t tn True s"
    note r = record_retry_counts [OF Suc.prems(1) assms(2), of tn True]
    have e: "attempts bucket rt_limit t tn (\<lambda>_. True) rt txn i s c =
        attempts bucket rt_limit t tn (\<lambda>_. True) rt txn (Suc i) ?s c1"
      using i t True by (subst attempts.simps) simp
    have "m = MAX_RETRY - Suc i" "Suc i \<le> MAX_RETRY" using Suc.hyps(2) i by simp_all
    from Suc.hyps(1) [OF this(1) conjunct1 [OF r] this(2), of c1]
    obtain ret' s' c' k where h: "attempts bucket rt_limit t tn (\<lambda>_. True) rt txn (Suc i) ?s c1 = Some (ret', s', c')"
      "counters_ok n s'" "\<forall>u. ended s' u = ended ?s u + (if u = t then 1 else 0)" "Suc i \<le> k"
      "\<forall>u. u \<noteq> t \<longrightarrow> retry s' ! u = retry ?s ! u"
      "if ret' = 0 then retry s' ! t = retry ?s ! t + int (MAX_RETRY - Suc i) - 1 \<and> failure s' ! t = failure ?s ! t + 1
       else ret' = 1 \<and> k < MAX_RETRY \<and> retry s' ! t = retry ?s ! t + int (k - Suc i) \<and> failure s' ! t = failure ?s ! t"
      by blast
    show ?thesis unfolding e using h r i
      by (intro exI [of _ ret'] exI [of _ s'] exI [of _ c'] exI [of _ k]) (auto split: if_splits)
  qed
qed

section \<open>Runs of the driver\<close>

text \<open>What every attempt keeps, the retry loop keeps.\<close>

lemma attempts_preserve:
  assumes "attempts bucket rt_limit t tn on rt txn i s c = Some (ret, s', c')"
    and "working c = committed c" "P (committed c)"
    and "\<And>i c ret c1. working c = committed c \<Longrightarrow> P (committed c) \<Longrightarrow> txn i c = (ret, c1) \<Longrightarrow>
           working c1 = committed c1 \<and> P (committed c1)"
  shows "working c' = committed c' \<and> P (committed c')"
  using assms(1-3)
proof (induction "MAX_RETRY - i" arbitrary: i s c)
  case 0
  then show ?case by (subst (asm) attempts.simps) auto
next
  case (Suc m)
  obtain ret1 c1 where t: "txn i c = (ret1, c1)" by fastforce
  note k = assms(4) [OF Suc.prems(2,3) t]
  show ?case
  proof (cases "ret1 = 0")
    case True
    have i: "i < MAX_RETRY" "m = MAX_RETRY - Suc i" using Suc.hyps(2) by simp_all
    have "attempts bucket rt_limit t tn on rt txn (Suc i) (record_retry t tn (on i) s) c1 = Some (ret, s', c')"
      using Suc.prems(1) t True i(1) by (subst (asm) attempts.simps) simp
    then show ?thesis using Suc.hyps(1) [OF i(2)] k by blast
  next
    case False
    have i: "i < MAX_RETRY" using Suc.hyps(2) by simp
    have "c' = c1" using Suc.prems(1) t False i by (subst (asm) attempts.simps) auto
    then show ?thesis using k by simp
  qed
qed

text \<open>Whole amounts are exact: what the driver pays.\<close>

definition whole_exact :: "'f fops \<Rightarrow> bool" where
  "whole_exact F \<longleftrightarrow> (\<forall>n. exact_amount F (int_float F n))"

definition sound :: "db \<Rightarrow> bool" where
  "sound d \<longleftrightarrow> consistent d \<and> books_ok d \<and> stock_ok d"

lemma neword_sound:
  assumes "working c = committed c" "sound (committed c)" "neword F datetime junk a e c = (ret, c1)"
    "length (n_qty a) = n_ol_cnt a" "set (n_qty a) \<subseteq> {1..10}"
  shows "working c1 = committed c1 \<and> sound (committed c1)"
proof -
  note N = neword_tx.all_or_nothing(1,2) [OF assms(1) assms(3) [unfolded neword_def]]
  have q: "\<forall>q \<in> set (n_qty a). 1 \<le> q \<and> q \<le> 10" using assms(5) by auto
  have "sound d'" if "neword_eff F datetime junk a (committed c) = Inr ((), d')" for d'
    using assms(2) neword_keeps_consistent [OF _ that] neword_keeps_books [OF _ that]
      neword_keeps_stock [OF _ that assms(4) q] by (simp add: sound_def)
  then show ?thesis using N assms(2) by metis
qed

lemma payment_sound:
  assumes "working c = committed c" "sound (committed c)" "payment F ord datetime a e c = (ret, c1)"
    "exact_amount F (p_amount a)"
  shows "working c1 = committed c1 \<and> sound (committed c1)"
proof -
  have "sound d'" if "payment_eff F ord datetime a (committed c) = Inr ((), d')" for d'
    using assms(2) payment_keeps_consistent [OF _ that] payment_keeps_books [OF _ that assms(4)]
      payment_keeps_stock [OF _ that] by (simp add: sound_def)
  then show ?thesis using payment_atomic(1,2) [OF assms(1,3)] assms(2) by metis
qed

lemma delivery_sound:
  assumes "working c = committed c" "sound (committed c)" "delivery F datetime v w o_c e c = (ret, c1)"
  shows "working c1 = committed c1 \<and> sound (committed c1)"
proof -
  obtain k where k: "delivery_eff F datetime w o_c (take k [1..DIST_PER_WARE]) v (committed c) = Inr ((), committed c1)"
    "working c1 = committed c1" using delivery_prefix [OF assms(1,3)] by blast
  show ?thesis
    using assms(2) k(2) delivery_keeps_consistent [OF _ k(1)] delivery_keeps_books [OF _ k(1)] delivery_keeps_rest [OF k(1)]
    by (simp add: sound_def stock_ok_def)
qed

lemma do_neword_sound:
  assumes "do_neword x cf tn on rt g s c = Some ((ret, s', c'), g')" "sane cf (int tn)"
    "working c = committed c" "sound (committed c)"
  shows "working c' = committed c' \<and> sound (committed c')"
proof -
  obtain a where a: "neword_input cf (wd_rand x) (wd_junk x) (int tn) g = Some (a, g')"
    and r: "attempts (wd_bucket x) (wd_rt_limit x) 0 tn on rt
       (\<lambda>i c. neword (wd_fops x) (wd_now x (api_calls c)) (wd_junk_text x) a (wd_lib x) c) 0 s c = Some (ret, s', c')"
    using assms(1) by (auto simp: do_neword_def split: option.splits)
  have q: "length (n_qty a) = n_ol_cnt a" "set (n_qty a) \<subseteq> {1..10}"
    using driver_orders_args [OF a assms(2)] by simp_all
  show ?thesis
    by (rule attempts_preserve [where P = sound, OF r assms(3,4)]) (rule neword_sound [OF _ _ _ q])
qed

lemma do_payment_sound:
  assumes "do_payment x cf tn on rt g s c = Some ((ret, s', c'), g')" "whole_exact (wd_fops x)"
    "working c = committed c" "sound (committed c)"
  shows "working c' = committed c' \<and> sound (committed c')"
proof -
  obtain a where a: "payment_input (wd_fops x) cf (wd_rand x) (wd_junk x) (int tn) g = Some (a, g')"
    and r: "attempts (wd_bucket x) (wd_rt_limit x) 1 tn on rt
       (\<lambda>i c. payment (wd_fops x) (wd_ord x) (wd_now x (api_calls c)) a (wd_lib x) c) 0 s c = Some (ret, s', c')"
    using assms(1) by (auto simp: do_payment_def split: option.splits)
  have "\<exists>n. p_amount a = int_float (wd_fops x) n"
    using a by (auto simp: payment_input_def Let_def split: option.splits prod.splits if_splits)
  then have "exact_amount (wd_fops x) (p_amount a)" using assms(2) by (auto simp: whole_exact_def)
  then show ?thesis
    using attempts_preserve [where P = sound, OF r assms(3,4)] payment_sound by metis
qed

lemma do_readers_sound:
  assumes "do_ordstat x cf tn on rt g s c = Some ((ret, s', c'), g') \<or> do_slev x cf tn on rt g s c = Some ((ret, s', c'), g')"
    "working c = committed c" "sound (committed c)"
  shows "working c' = committed c' \<and> sound (committed c')"
  using assms(1)
proof
  assume "do_ordstat x cf tn on rt g s c = Some ((ret, s', c'), g')"
  then obtain w d b ci cl where r: "attempts (wd_bucket x) (wd_rt_limit x) 2 tn on rt
       (\<lambda>i. ordstat (wd_ord x) w d b ci cl (wd_lib x)) 0 s c = Some (ret, s', c')"
    by (auto simp: do_ordstat_def split: option.splits)
  show ?thesis by (rule attempts_preserve [where P = sound, OF r assms(2,3)]) (use ordstat_keeps in metis)
next
  assume "do_slev x cf tn on rt g s c = Some ((ret, s', c'), g')"
  then obtain w d l where r: "attempts (wd_bucket x) (wd_rt_limit x) 4 tn on rt
       (\<lambda>i. slev w d l (wd_lib x)) 0 s c = Some (ret, s', c')"
    by (auto simp: do_slev_def split: option.splits)
  show ?thesis by (rule attempts_preserve [where P = sound, OF r assms(2,3)]) (use slev_keeps in metis)
qed

lemma do_delivery_sound:
  assumes "do_delivery x cf tn on rt g s c = Some ((ret, s', c'), g')"
    "working c = committed c" "sound (committed c)"
  shows "working c' = committed c' \<and> sound (committed c')"
proof -
  obtain w o_c where r: "attempts (wd_bucket x) (wd_rt_limit x) 3 tn on rt
       (\<lambda>i c. delivery (wd_fops x) (wd_now x (api_calls c)) (wd_junk_float x) w o_c (wd_lib x) c) 0 s c = Some (ret, s', c')"
    using assms(1) by (auto simp: do_delivery_def split: option.splits)
  show ?thesis by (rule attempts_preserve [where P = sound, OF r assms(2,3)]) (rule delivery_sound)
qed

lemma dispatch_sound:
  assumes "dispatch x cf tn on rt kind g s c = Some ((ret, s', c'), g')" "sane cf (int tn)" "whole_exact (wd_fops x)"
    "working c = committed c" "sound (committed c)"
  shows "working c' = committed c' \<and> sound (committed c')"
proof -
  consider "do_neword x cf tn on rt g s c = Some ((ret, s', c'), g')" | "do_payment x cf tn on rt g s c = Some ((ret, s', c'), g')"
    | "do_ordstat x cf tn on rt g s c = Some ((ret, s', c'), g') \<or> do_slev x cf tn on rt g s c = Some ((ret, s', c'), g')"
    | "do_delivery x cf tn on rt g s c = Some ((ret, s', c'), g')" | "c' = c"
    using assms(1) by (auto simp: dispatch_def split: if_splits)
  then show ?thesis
  proof cases
    case 1
    then show ?thesis using do_neword_sound assms(2,4,5) by blast
  next
    case 2
    then show ?thesis using do_payment_sound assms(3-5) by blast
  next
    case 3
    then show ?thesis using do_readers_sound assms(4,5) by blast
  next
    case 4
    then show ?thesis using do_delivery_sound assms(4,5) by blast
  qed (use assms in simp)
qed

lemma driver_sound:
  assumes "driver x cf tn rounds q g s c = Some (q', g', s', c')" "sane cf (int tn)" "whole_exact (wd_fops x)"
    "working c = committed c" "sound (committed c)"
  shows "working c' = committed c' \<and> sound (committed c')"
  using assms(1,4,5)
proof (induction rounds arbitrary: q g s c)
  case (Cons o1 rounds)
  obtain on rt where o1: "o1 = (on, rt)" by fastforce
  obtain kind q1 k1 where k: "seq_get (wd_rand x) q (calls g) = (kind, q1, k1)" by (metis surj_pair)
  obtain ret s1 c1 g1 where d: "dispatch x cf tn on rt kind (g\<lparr>calls := k1\<rparr>) s c = Some ((ret, s1, c1), g1)"
    and r: "driver x cf tn rounds q1 g1 s1 c1 = Some (q', g', s', c')"
    using Cons.prems(1) o1 k by (auto split: option.splits)
  show ?case
    using Cons.IH [OF r] dispatch_sound [OF d assms(2,3) Cons.prems(2,3)] by blast
qed simp


section \<open>What a run of the driver counts\<close>

text \<open>\<open>rand\<close> answers every warehouse but one again and again, where there is more than one.\<close>

definition fair_rand :: "config \<Rightarrow> rand \<Rightarrow> bool" where
  "fair_rand cf r \<longleftrightarrow> num_ware cf = 1 \<or> (\<forall>k home. \<exists>m. fst (RandomNumber r 1 (num_ware cf) (k + m)) \<noteq> home)"

lemma other_ware_returns: "fair_rand cf r \<Longrightarrow> \<exists>w g'. other_ware cf r home g = Some (w, g')"
  using other_ware_loop_ends [of r "num_ware cf" g _ home] unfolding fair_rand_def other_ware_def
  by (metis surj_pair)

lemma neword_items_return: "fair_rand cf r \<Longrightarrow> \<exists>y. neword_items cf r junk w rbk n g = Some y"
proof (induction n arbitrary: g)
  case (Suc n)
  obtain i0 g1 where i: "nurand r junk 8191 1 MAXITEMS g = (i0, g1)" by fastforce
  obtain p g2 where p: "rand_in r 1 100 g1 = (p, g2)" by fastforce
  obtain sw g3 where sw: "(if p \<noteq> 1 then Some (w, g2) else other_ware cf r w g2) = Some (sw, g3)"
    using other_ware_returns [OF Suc.prems, of w g2] by (cases "p = 1") auto
  obtain q g4 where q: "rand_in r 1 10 g3 = (q, g4)" by fastforce
  obtain ls loc g5 where "neword_items cf r junk w rbk n g4 = Some (ls, loc, g5)"
    using Suc.IH [OF Suc.prems, of g4] by (metis surj_pair)
  then show ?case using i p sw q by (simp add: Let_def)
qed simp

lemma inputs_return:
  assumes "sane cf tn" "fair_rand cf r"
  shows "\<exists>a g'. neword_input cf r junk tn g = Some (a, g')" "\<exists>a g'. payment_input F cf r junk tn g = Some (a, g')"
    "\<exists>a g'. ordstat_input cf r junk tn g = Some (a, g')" "\<exists>a g'. delivery_input cf r tn g = Some (a, g')"
    "\<exists>a g'. slev_input cf r tn g = Some (a, g')"
proof -
  obtain w g1 where w: "pick_ware cf r tn g = Some (w, g1)" using pick_ware_valid [OF assms(1)] by blast
  show "\<exists>a g'. ordstat_input cf r junk tn g = Some (a, g')" "\<exists>a g'. delivery_input cf r tn g = Some (a, g')"
    "\<exists>a g'. slev_input cf r tn g = Some (a, g')"
    using w by (simp_all add: ordstat_input_def delivery_input_def slev_input_def split: prod.splits)
  show "\<exists>a g'. neword_input cf r junk tn g = Some (a, g')"
    using w neword_items_return [OF assms(2)] unfolding neword_input_def
    by (simp add: Let_def split: prod.splits option.splits) (metis option.distinct(1))
  show "\<exists>a g'. payment_input F cf r junk tn g = Some (a, g')"
    using w other_ware_returns [OF assms(2)] unfolding payment_input_def
    by (simp add: Let_def split: prod.splits option.splits) (metis option.distinct(1))
qed

definition counting :: "(nat \<Rightarrow> bool) \<times> (nat \<Rightarrow> int) \<Rightarrow> bool" where
  "counting o1 \<longleftrightarrow> fst o1 = (\<lambda>_. True) \<and> (\<forall>j. 0 \<le> snd o1 j)"

lemma dispatch_counts:
  assumes "sane cf (int tn)" "fair_rand cf (wd_rand x)" "counters_ok n s" "tn < n" "counting (on, rt)"
  shows "\<exists>ret s' c' g'. dispatch x cf tn on rt kind g s c = Some ((ret, s', c'), g') \<and> counters_ok n s' \<and>
    (\<forall>u < 5. ended s' u = ended s u + (if u = kind then 1 else 0))"
proof -
  have on: "on = (\<lambda>_. True)" "\<And>j. 0 \<le> rt j" using assms(5) by (simp_all add: counting_def)
  have att: "\<exists>ret s' c'. attempts (wd_bucket x) (wd_rt_limit x) t tn on rt txn 0 s c = Some (ret, s', c') \<and>
      counters_ok n s' \<and> (\<forall>u. ended s' u = ended s u + (if u = t then 1 else 0))" if "t < 5" for t txn
    using attempts_counted [OF assms(3) that assms(4) on(2), of 0] unfolding on(1) by fastforce
  note inp = inputs_return [OF assms(1,2)]
  consider "kind = 0" | "kind = 1" | "kind = 2" | "kind = 3" | "kind = 4" | "5 \<le> kind" by linarith
  then show ?thesis
  proof cases
    case 1
    then show ?thesis using inp(1) [of "wd_junk x" g] att [of 0] by (fastforce simp: dispatch_def do_neword_def)
  next
    case 2
    then show ?thesis using inp(2) [of "wd_fops x" "wd_junk x" g] att [of 1] by (fastforce simp: dispatch_def do_payment_def)
  next
    case 3
    then show ?thesis using inp(3) [of "wd_junk x" g] att [of 2] by (fastforce simp: dispatch_def do_ordstat_def)
  next
    case 4
    then show ?thesis using inp(4) [of g] att [of 3] by (fastforce simp: dispatch_def do_delivery_def)
  next
    case 5
    then show ?thesis using inp(5) [of g] att [of 4] by (fastforce simp: dispatch_def do_slev_def)
  next
    case 6
    then show ?thesis using assms(3) by (simp add: dispatch_def)
  qed
qed

lemma driver_counts:
  assumes "sane cf (int tn)" "fair_rand cf (wd_rand x)" "counters_ok n s" "tn < n" "list_all counting rounds"
  shows "\<exists>q' g' s' c' ks ts. driver x cf tn rounds q g s c = Some (q', g', s', c') \<and> counters_ok n s' \<and>
    length ks = length rounds \<and> seq_gets (wd_rand x) ks q = (ts, q') \<and>
    (\<forall>u < 5. ended s' u = ended s u + int (count (mset ts) u))"
  using assms(3,5)
proof (induction rounds arbitrary: q g s c)
  case (Cons o1 rounds)
  obtain on rt where o1: "o1 = (on, rt)" by fastforce
  obtain kind q1 k1 where k: "seq_get (wd_rand x) q (calls g) = (kind, q1, k1)" by (metis surj_pair)
  obtain ret s1 c1 g1 where d: "dispatch x cf tn on rt kind (g\<lparr>calls := k1\<rparr>) s c = Some ((ret, s1, c1), g1)"
    "counters_ok n s1" "\<forall>u < 5. ended s1 u = ended s u + (if u = kind then 1 else 0)"
    using dispatch_counts [OF assms(1,2) Cons.prems(1) assms(4), of on rt kind "g\<lparr>calls := k1\<rparr>" c] Cons.prems(2) o1
    by auto
  obtain q' g' s' c' ks ts where r: "driver x cf tn rounds q1 g1 s1 c1 = Some (q', g', s', c')" "counters_ok n s'"
    "length ks = length rounds" "seq_gets (wd_rand x) ks q1 = (ts, q')"
    "\<forall>u < 5. ended s' u = ended s1 u + int (count (mset ts) u)"
    using Cons.IH [OF d(2), of q1 g1 c1] Cons.prems(2) by auto
  show ?case
    using r k d o1
    by (intro exI [of _ q'] exI [of _ g'] exI [of _ s'] exI [of _ c'] exI [of _ "calls g # ks"] exI [of _ "kind # ts"]) auto
qed auto

text \<open>
  C20: a run of the driver with counting on, over whole rounds of the sequence with the weights 10,
  10, 1, 1, 1 of main.c: it returns, whatever the client library does; of every kind exactly as
  many transactions are counted as ended (in time, late or failed) as the mix asks for; and the
  database is sound afterwards when it was before, with nothing left open.
\<close>

theorem driver_run:
  assumes "sane cf (int tn)" "fair_rand cf (wd_rand x)" "counters_ok n s" "tn < n"
    and "list_all counting rounds" "length rounds = m * 23"
    and "seq_init (wd_rand x) 10 10 1 1 1 k = (q, k0)"
    and "whole_exact (wd_fops x)" "working c = committed c" "sound (committed c)"
  shows "\<exists>q' g' s' c'. driver x cf tn rounds q g s c = Some (q', g', s', c') \<and>
    map (\<lambda>t. ended s' t - ended s t) [0, 1, 2, 3, 4] = map int [10 * m, 10 * m, m, m, m] \<and>
    working c' = committed c' \<and> sound (committed c')"
proof -
  obtain q' g' s' c' ks ts where r: "driver x cf tn rounds q g s c = Some (q', g', s', c')"
      "length ks = length rounds" "seq_gets (wd_rand x) ks q = (ts, q')"
      "\<forall>u < 5. ended s' u = ended s u + int (count (mset ts) u)"
    using driver_counts [OF assms(1-5), of q g c] by blast
  have "mset ts = repeat_mset m (replicate_mset 10 0 + replicate_mset 10 1 + replicate_mset 1 2 +
                   replicate_mset 1 3 + replicate_mset 1 4)"
    using seq_init_rounds [OF assms(7), of ks m] r(2,3) assms(6) by simp
  then have "map (\<lambda>t. ended s' t - ended s t) [0, 1, 2, 3, 4] = map int [10 * m, 10 * m, m, m, m]" using r(4) by simp
  then show ?thesis using r(1) driver_sound [OF r(1) assms(1,8-10)] by blast
qed

definition zero_counters :: "nat \<Rightarrow> counters" where
  "zero_counters n =
     (let z = replicate 5 0; z2 = replicate 5 (replicate n 0)
      in \<lparr>success = z, late = z, retry = z, failure = z, success2 = z2, late2 = z2, retry2 = z2, failure2 = z2,
          max_rt = z, total_rt = z, hist = hist_init \<lparr>total_hist = [], cur_hist = [], cur_max_rt = z\<rparr>,
          local_percentile = \<lparr>pc_values = [], pc_total = 0, range_min = 0, range_max = 0\<rparr>\<rparr>)"

lemma zero_counters_ok: "counters_ok n (zero_counters n)"
  by (simp add: counters_ok_def zero_counters_def Let_def hist_init_ok)

definition sample_world :: "int world" where
  "sample_world = \<lparr>wd_fops = cent_fops, wd_ord = (\<lambda>cs. cs), wd_rand = (\<lambda>k. 7 * k), wd_junk = (\<lambda>k. 5), wd_bucket = (\<lambda>v. 3),
     wd_rt_limit = (\<lambda>t. 5), wd_lib = good_lib, wd_now = (\<lambda>k. ''t''), wd_junk_text = '''', wd_junk_float = 0\<rparr>"

definition sample_config :: config where
  "sample_config = \<lparr>num_ware = 1, num_conn = 2, num_node = 0\<rparr>"

lemma sample_sane: "sane sample_config 1"
  by (simp add: sane_def main_checks_def sample_config_def)

lemma sample_fair: "fair_rand sample_config r"
  by (simp add: fair_rand_def sample_config_def)

lemma sample_exact: "whole_exact cent_fops"
  by (simp add: whole_exact_def exact_amount_def cent_fops_def)

lemma sample_sound: "sound sample_db"
  by (simp add: sound_def sample_consistent sample_books sample_stock)

theorem driver_run_witness:
  "\<exists>q' g' s' c'. driver sample_world sample_config 1 (replicate 46 ((\<lambda>_. True), (\<lambda>_. 1000)))
      (fst (seq_init (\<lambda>k. 7 * k) 10 10 1 1 1 0)) \<lparr>calls = 99, first_call = True\<rparr> (zero_counters 2) sample_conn = Some (q', g', s', c') \<and>
    map (\<lambda>t. ended s' t - ended (zero_counters 2) t) [0, 1, 2, 3, 4] = map int [10 * 2, 10 * 2, 2, 2, 2] \<and>
    working c' = committed c' \<and> sound (committed c')"
proof (rule driver_run [where n = 2])
  show "seq_init (wd_rand sample_world) 10 10 1 1 1 0 =
      (fst (seq_init (\<lambda>k. 7 * k) 10 10 1 1 1 0), snd (seq_init (\<lambda>k. 7 * k) 10 10 1 1 1 0))"
    by (simp add: sample_world_def)
  show "list_all counting (replicate 46 ((\<lambda>_. True), (\<lambda>_. 1000)))"
    by (simp add: list_all_iff counting_def)
qed (use sample_sane sample_fair sample_exact sample_sound zero_counters_ok in \<open>simp_all add: sample_world_def sample_conn_def\<close>)


end
