(* ===== verification/TpccLoad.thy ===== *)
theory TpccLoad
  imports TpccDriver
begin

text \<open>
  The loader of the TPC-C load generator (load.c), which fills the tables through one connection.
  Every unit (the items, one warehouse with its stock and districts, the customers of a district,
  the orders of a district) is one transaction: an insert that fails rolls back and the unit
  starts again, a failing bind or commit ends the program.
\<close>

section \<open>Programs that load\<close>

datatype load_error = Again | Fatal

type_synonym 'a ld = "mysql_lib \<Rightarrow> rng \<Rightarrow> conn \<Rightarrow> (load_error + 'a) \<times> rng \<times> conn"

definition ld_return :: "'a \<Rightarrow> 'a ld" where "ld_return v e g c = (Inr v, g, c)"

definition ld_fail :: "load_error \<Rightarrow> 'a ld" where "ld_fail x e g c = (Inl x, g, c)"

definition ld_bind :: "'a ld \<Rightarrow> ('a \<Rightarrow> 'b ld) \<Rightarrow> 'b ld" where
  "ld_bind m f e g c = (case m e g c of (Inl x, g1, c1) \<Rightarrow> (Inl x, g1, c1) | (Inr v, g1, c1) \<Rightarrow> f v e g1 c1)"

text \<open>Drawing random values.\<close>

definition ld_gen :: "(rng \<Rightarrow> 'a \<times> rng) \<Rightarrow> 'a ld" where
  "ld_gen f e g c = (let (v, g1) = f g in (Inr v, g1, c))"

definition try_stmt_execute :: "(db \<Rightarrow> db option) \<Rightarrow> mysql_lib \<Rightarrow> conn \<Rightarrow> bool \<times> conn" where
  "try_stmt_execute f e c =
     (let k = api_calls c; c1 = c\<lparr>api_calls := Suc k\<rparr>
      in if code e k = 0 then (case f (working c) of None \<Rightarrow> (False, rollback c1) | Some d \<Rightarrow> (True, c1\<lparr>working := d\<rparr>))
         else (False, rollback c1))"

definition ld_insert :: "(db \<Rightarrow> db option) \<Rightarrow> unit ld" where
  "ld_insert f e g c =
     (let c1 = c\<lparr>api_calls := Suc (api_calls c)\<rparr>
      in if code e (api_calls c) \<noteq> 0 then (Inl Fatal, g, c1)
         else (let (ok, c2) = try_stmt_execute f e c1 in (if ok then Inr () else Inl Again, g, c2)))"

definition ld_commit :: "unit ld" where
  "ld_commit e g c =
     (let k = api_calls c; c1 = c\<lparr>api_calls := Suc k\<rparr>
      in if code e k = 0 then (Inr (), g, c1\<lparr>committed := working c\<rparr>)
         else (Inl Fatal, g, if applied e k then c1\<lparr>committed := working c\<rparr> else c1))"

fun ld_for :: "int \<Rightarrow> nat \<Rightarrow> (int \<Rightarrow> 's \<Rightarrow> 's ld) \<Rightarrow> 's \<Rightarrow> 's ld" where
  "ld_for i 0 body s = ld_return s"
| "ld_for i (Suc n) body s = ld_bind (body i s) (\<lambda>s1. ld_for (i + 1) n body s1)"

section \<open>Statements of the loader\<close>

definition insert_item :: "item \<Rightarrow> db \<Rightarrow> db option" where
  "insert_item x d = map_option (\<lambda>t. d\<lparr>items := t\<rparr>) (ins I_ID x (items d))"

definition insert_warehouse :: "warehouse \<Rightarrow> db \<Rightarrow> db option" where
  "insert_warehouse x d = map_option (\<lambda>t. d\<lparr>warehouses := t\<rparr>) (ins W_ID x (warehouses d))"

definition insert_stock :: "stock \<Rightarrow> db \<Rightarrow> db option" where
  "insert_stock x d = map_option (\<lambda>t. d\<lparr>stocks := t\<rparr>) (ins pk_stock x (stocks d))"

definition insert_district :: "district \<Rightarrow> db \<Rightarrow> db option" where
  "insert_district x d = map_option (\<lambda>t. d\<lparr>districts := t\<rparr>) (ins pk_district x (districts d))"

definition insert_customer :: "customer \<Rightarrow> db \<Rightarrow> db option" where
  "insert_customer x d = map_option (\<lambda>t. d\<lparr>customers := t\<rparr>) (ins pk_customer x (customers d))"

definition insert_history :: "history \<Rightarrow> db \<Rightarrow> db option" where
  "insert_history x d = Some (d\<lparr>histories := histories d @ [x]\<rparr>)"

definition insert_order :: "order \<Rightarrow> db \<Rightarrow> db option" where
  "insert_order x d = map_option (\<lambda>t. d\<lparr>orders := t\<rparr>) (ins pk_order x (orders d))"

definition insert_new_order :: "new_order \<Rightarrow> db \<Rightarrow> db option" where
  "insert_new_order x d = map_option (\<lambda>t. d\<lparr>new_orders := t\<rparr>) (ins pk_new_order x (new_orders d))"

definition insert_order_line :: "order_line \<Rightarrow> db \<Rightarrow> db option" where
  "insert_order_line x d = map_option (\<lambda>t. d\<lparr>order_lines := t\<rparr>) (ins pk_order_line x (order_lines d))"

section \<open>Items\<close>

text \<open>
  Which items and stock rows carry the word original: the array is cleared up to a tenth only, so
  the rest of it holds whatever was there (\<open>junk\<close>); then a tenth is marked, each at a random place
  not marked yet.
\<close>

partial_function (option) free_place :: "rand \<Rightarrow> (int \<Rightarrow> bool) \<Rightarrow> rng \<Rightarrow> (int \<times> rng) option" where
  "free_place r orig g =
     (let (pos, g1) = rand_in r 0 MAXITEMS g in if orig pos then free_place r orig g1 else Some (pos, g1))"

fun mark_places :: "rand \<Rightarrow> nat \<Rightarrow> (int \<Rightarrow> bool) \<Rightarrow> rng \<Rightarrow> ((int \<Rightarrow> bool) \<times> rng) option" where
  "mark_places r 0 orig g = Some (orig, g)"
| "mark_places r (Suc n) orig g =
     (case free_place r orig g of
        None \<Rightarrow> None
      | Some (pos, g1) \<Rightarrow> mark_places r n (orig(pos := True)) g1)"

definition mark_original :: "rand \<Rightarrow> (int \<Rightarrow> bool) \<Rightarrow> rng \<Rightarrow> ((int \<Rightarrow> bool) \<times> rng) option" where
  "mark_original r junk g =
     mark_places r (nat (MAXITEMS div 10)) (\<lambda>i. if 0 \<le> i \<and> i < MAXITEMS div 10 then False else junk i) g"

text \<open>The data text, with the word written over it at a random place where the flag is set.\<close>

definition make_data :: "rand \<Rightarrow> bool \<Rightarrow> rng \<Rightarrow> string \<times> rng" where
  "make_data r orig g =
     (let (s, g1) = MakeAlphaString r 26 50 g
      in if orig
         then (let (pos, g2) = rand_in r 0 (int (length s) - 8) g1
               in (take (nat pos) s @ ''original'' @ drop (nat pos + 8) s, g2))
         else (s, g1))"

definition cents :: "'f fops \<Rightarrow> int \<Rightarrow> int" where
  "cents F x = to_dec F (fdiv F (int_float F x) (int_float F 100))"

definition load_item :: "'f fops \<Rightarrow> rand \<Rightarrow> (int \<Rightarrow> bool) \<Rightarrow> int \<Rightarrow> unit \<Rightarrow> unit ld" where
  "load_item F r orig i_id u =
     ld_bind (ld_gen (rand_in r 1 10000)) (\<lambda>i_im_id.
     ld_bind (ld_gen (MakeAlphaString r 14 24)) (\<lambda>i_name.
     ld_bind (ld_gen (rand_in r 100 10000)) (\<lambda>p.
     ld_bind (ld_gen (make_data r (orig i_id))) (\<lambda>i_data.
       ld_insert (insert_item \<lparr>I_ID = i_id, I_IM_ID = i_im_id, I_NAME = i_name, I_PRICE = cents F p, I_DATA = i_data\<rparr>)))))"

definition items_unit :: "'f fops \<Rightarrow> rand \<Rightarrow> (int \<Rightarrow> bool) \<Rightarrow> unit ld" where
  "items_unit F r orig = ld_bind (ld_for 1 (nat MAXITEMS) (load_item F r orig) ()) (\<lambda>_. ld_commit)"

section \<open>Warehouses\<close>

text \<open>The address strings are drawn; the columns are not part of the model.\<close>

definition MakeAddress :: "rand \<Rightarrow> rng \<Rightarrow> (string \<times> string \<times> string \<times> string \<times> string) \<times> rng" where
  "MakeAddress r g =
     (let (str1, g1) = MakeAlphaString r 10 20 g; (str2, g2) = MakeAlphaString r 10 20 g1;
          (city, g3) = MakeAlphaString r 10 20 g2; (state, g4) = MakeAlphaString r 2 2 g3;
          (zip, g5) = MakeNumberString r 9 9 g4
      in ((str1, str2, city, state, zip), g5))"

fun make_dists :: "rand \<Rightarrow> nat \<Rightarrow> rng \<Rightarrow> string list \<times> rng" where
  "make_dists r 0 g = ([], g)"
| "make_dists r (Suc n) g =
     (let (s, g1) = MakeAlphaString r 24 24 g; (ss, g2) = make_dists r n g1 in (s # ss, g2))"

definition load_stock :: "rand \<Rightarrow> (int \<Rightarrow> bool) \<Rightarrow> int \<Rightarrow> int \<Rightarrow> unit \<Rightarrow> unit ld" where
  "load_stock r orig w_id s_i_id u =
     ld_bind (ld_gen (rand_in r 10 100)) (\<lambda>s_quantity.
     ld_bind (ld_gen (make_dists r 10)) (\<lambda>s_dist.
     ld_bind (ld_gen (make_data r (orig s_i_id))) (\<lambda>s_data.
       ld_insert (insert_stock \<lparr>S_I_ID = s_i_id, S_W_ID = w_id, S_QUANTITY = s_quantity, S_DIST = s_dist, S_DATA = s_data\<rparr>))))"

definition Stock :: "rand \<Rightarrow> (int \<Rightarrow> bool) \<Rightarrow> int \<Rightarrow> unit ld" where
  "Stock r orig w_id = ld_for 1 (nat MAXITEMS) (load_stock r orig w_id) ()"

definition load_district :: "'f fops \<Rightarrow> rand \<Rightarrow> int \<Rightarrow> int \<Rightarrow> unit \<Rightarrow> unit ld" where
  "load_district F r w_id d_id u =
     ld_bind (ld_gen (MakeAlphaString r 6 10)) (\<lambda>d_name.
     ld_bind (ld_gen (MakeAddress r)) (\<lambda>_.
     ld_bind (ld_gen (rand_in r 10 20)) (\<lambda>t.
       ld_insert (insert_district \<lparr>D_ID = d_id, D_W_ID = w_id, D_NAME = d_name, D_TAX = cents F t,
                    D_YTD = to_dec F (int_float F 30000), D_NEXT_O_ID = 3001\<rparr>))))"

definition District :: "'f fops \<Rightarrow> rand \<Rightarrow> int \<Rightarrow> unit ld" where
  "District F r w_id = ld_for 1 (nat DIST_PER_WARE) (load_district F r w_id) ()"

text \<open>
  The warehouse, its stock and its districts. Which stock rows are original is drawn by \<open>Stock\<close>
  first; the search may run forever, the value None.
\<close>

definition ware_unit :: "'f fops \<Rightarrow> rand \<Rightarrow> (int \<Rightarrow> bool) \<Rightarrow> int \<Rightarrow> mysql_lib \<Rightarrow> rng \<Rightarrow> conn \<Rightarrow> ((load_error + unit) \<times> rng \<times> conn) option" where
  "ware_unit F r junk w_id e g c =
     (case ld_bind (ld_gen (MakeAlphaString r 6 10)) (\<lambda>w_name.
           ld_bind (ld_gen (MakeAddress r)) (\<lambda>_.
           ld_bind (ld_gen (rand_in r 10 20)) (\<lambda>t.
             ld_insert (insert_warehouse \<lparr>W_ID = w_id, W_NAME = w_name, W_TAX = cents F t,
                          W_YTD = to_dec F (int_float F 300000)\<rparr>)))) e g c of
        (Inl x, g1, c1) \<Rightarrow> Some (Inl x, g1, c1)
      | (Inr _, g1, c1) \<Rightarrow>
          (case mark_original r junk g1 of
             None \<Rightarrow> None
           | Some (orig, g2) \<Rightarrow>
               Some (ld_bind (Stock r orig w_id) (\<lambda>_. ld_bind (District F r w_id) (\<lambda>_. ld_commit)) e g2 c1)))"

section \<open>Customers\<close>

definition load_customer ::
  "'f fops \<Rightarrow> rand \<Rightarrow> (nat \<Rightarrow> nat) \<Rightarrow> string \<Rightarrow> int \<Rightarrow> int \<Rightarrow> int \<Rightarrow> unit \<Rightarrow> unit ld" where
  "load_customer F r junk timestamp d_id w_id c_id u =
     ld_bind (ld_gen (MakeAlphaString r 8 16)) (\<lambda>c_first.
     ld_bind (if c_id \<le> 1000 then ld_return (c_id - 1) else ld_gen (nurand r junk 255 0 999)) (\<lambda>num.
     ld_bind (ld_gen (MakeAddress r)) (\<lambda>_.
     ld_bind (ld_gen (MakeNumberString r 16 16)) (\<lambda>c_phone.
     ld_bind (ld_gen (rand_in r 0 1)) (\<lambda>b.
     ld_bind (ld_gen (rand_in r 0 50)) (\<lambda>disc.
     ld_bind (ld_gen (MakeAlphaString r 300 500)) (\<lambda>c_data.
     ld_bind (ld_insert (insert_customer \<lparr>C_ID = c_id, C_D_ID = d_id, C_W_ID = w_id, C_FIRST = c_first,
                C_LAST = the (Lastname num), C_CREDIT = (if b \<noteq> 0 then ''GC'' else ''BC''), C_DISCOUNT = cents F disc,
                C_BALANCE = to_dec F (int_float F (-10)), C_YTD_PAYMENT = 1000, C_PAYMENT_CNT = 1,
                C_DELIVERY_CNT = 0, C_DATA = c_data\<rparr>)) (\<lambda>_.
     ld_bind (ld_gen (MakeAlphaString r 12 24)) (\<lambda>h_data.
       ld_insert (insert_history \<lparr>H_C_ID = c_id, H_C_D_ID = d_id, H_C_W_ID = w_id, H_D_ID = d_id, H_W_ID = w_id,
                    H_DATE = timestamp, H_AMOUNT = to_dec F (int_float F 10), H_DATA = h_data\<rparr>))))))))))"

definition Customer :: "'f fops \<Rightarrow> rand \<Rightarrow> (nat \<Rightarrow> nat) \<Rightarrow> string \<Rightarrow> int \<Rightarrow> int \<Rightarrow> unit ld" where
  "Customer F r junk timestamp d_id w_id =
     ld_bind (ld_for 1 (nat CUST_PER_DIST) (load_customer F r junk timestamp d_id w_id) ()) (\<lambda>_. ld_commit)"

section \<open>Orders\<close>

definition load_line ::
  "'f fops \<Rightarrow> rand \<Rightarrow> string \<Rightarrow> int \<Rightarrow> int \<Rightarrow> int \<Rightarrow> int \<Rightarrow> unit \<Rightarrow> unit ld" where
  "load_line F r timestamp d_id w_id o_id ol u =
     ld_bind (ld_gen (rand_in r 1 MAXITEMS)) (\<lambda>ol_i_id.
     ld_bind (ld_gen (MakeAlphaString r 24 24)) (\<lambda>ol_dist_info.
     ld_bind (ld_gen (rand_in r 10 10000)) (\<lambda>p.
       if o_id > 2100
       then ld_insert (insert_order_line \<lparr>OL_O_ID = o_id, OL_D_ID = d_id, OL_W_ID = w_id, OL_NUMBER = ol, OL_I_ID = ol_i_id,
              OL_SUPPLY_W_ID = w_id, OL_DELIVERY_D = None, OL_QUANTITY = 5, OL_AMOUNT = cents F p, OL_DIST_INFO = ol_dist_info\<rparr>)
       else ld_insert (insert_order_line \<lparr>OL_O_ID = o_id, OL_D_ID = d_id, OL_W_ID = w_id, OL_NUMBER = ol, OL_I_ID = ol_i_id,
              OL_SUPPLY_W_ID = w_id, OL_DELIVERY_D = Some timestamp, OL_QUANTITY = 5, OL_AMOUNT = to_dec F (int_float F 0),
              OL_DIST_INFO = ol_dist_info\<rparr>))))"

text \<open>Running out of the permutation aborts the program.\<close>

definition load_order ::
  "'f fops \<Rightarrow> rand \<Rightarrow> string \<Rightarrow> int \<Rightarrow> int \<Rightarrow> int \<Rightarrow> perm_state \<Rightarrow> perm_state ld" where
  "load_order F r timestamp d_id w_id o_id perm =
     (case GetPermutation perm of
        None \<Rightarrow> ld_fail Fatal
      | Some (o_c_id, perm1) \<Rightarrow>
          ld_bind (ld_gen (rand_in r 1 10)) (\<lambda>o_carrier_id.
          ld_bind (ld_gen (rand_in r 5 15)) (\<lambda>o_ol_cnt.
          ld_bind (if o_id > 2100
                   then ld_bind (ld_insert (insert_order \<lparr>O_ID = o_id, O_D_ID = d_id, O_W_ID = w_id, O_C_ID = int o_c_id,
                               O_ENTRY_D = timestamp, O_CARRIER_ID = None, O_OL_CNT = o_ol_cnt, O_ALL_LOCAL = 1\<rparr>)) (\<lambda>_.
                        ld_insert (insert_new_order \<lparr>NO_O_ID = o_id, NO_D_ID = d_id, NO_W_ID = w_id\<rparr>))
                   else ld_insert (insert_order \<lparr>O_ID = o_id, O_D_ID = d_id, O_W_ID = w_id, O_C_ID = int o_c_id,
                               O_ENTRY_D = timestamp, O_CARRIER_ID = Some o_carrier_id, O_OL_CNT = o_ol_cnt, O_ALL_LOCAL = 1\<rparr>)) (\<lambda>_.
          ld_bind (ld_for 1 (nat o_ol_cnt) (load_line F r timestamp d_id w_id o_id) ()) (\<lambda>_. ld_return perm1)))))"

definition Orders :: "'f fops \<Rightarrow> rand \<Rightarrow> string \<Rightarrow> int \<Rightarrow> int \<Rightarrow> unit ld" where
  "Orders F r timestamp d_id w_id =
     ld_bind (ld_gen (InitPermutation r)) (\<lambda>perm.
     ld_bind (ld_for 1 ORD_PER_DIST (load_order F r timestamp d_id w_id) perm) (\<lambda>_. ld_commit))"

section \<open>The whole load\<close>

type_synonym 'a lp = "mysql_lib \<Rightarrow> rng \<Rightarrow> conn \<Rightarrow> ((load_error + 'a) \<times> rng \<times> conn) option"

text \<open>A unit is started again until it does not ask for it any more.\<close>

partial_function (option) until_done :: "'a lp \<Rightarrow> mysql_lib \<Rightarrow> rng \<Rightarrow> conn \<Rightarrow> ((load_error + 'a) \<times> rng \<times> conn) option" where
  "until_done m e g c =
     (case m e g c of
        None \<Rightarrow> None
      | Some (Inl Again, g1, c1) \<Rightarrow> until_done m e g1 c1
      | Some (Inl Fatal, g1, c1) \<Rightarrow> Some (Inl Fatal, g1, c1)
      | Some (Inr v, g1, c1) \<Rightarrow> Some (Inr v, g1, c1))"

definition lp_of :: "'a ld \<Rightarrow> 'a lp" where "lp_of m e g c = Some (m e g c)"

definition lp_bind :: "'a lp \<Rightarrow> ('a \<Rightarrow> 'b lp) \<Rightarrow> 'b lp" where
  "lp_bind m f e g c =
     (case m e g c of
        None \<Rightarrow> None
      | Some (Inl x, g1, c1) \<Rightarrow> Some (Inl x, g1, c1)
      | Some (Inr v, g1, c1) \<Rightarrow> f v e g1 c1)"

fun lp_each :: "'x list \<Rightarrow> ('x \<Rightarrow> unit lp) \<Rightarrow> unit lp" where
  "lp_each [] body = lp_of (ld_return ())"
| "lp_each (x # xs) body = lp_bind (body x) (\<lambda>_. lp_each xs body)"

definition LoadItems :: "'f fops \<Rightarrow> rand \<Rightarrow> (int \<Rightarrow> bool) \<Rightarrow> unit lp" where
  "LoadItems F r junk e g c =
     (case mark_original r junk g of
        None \<Rightarrow> None
      | Some (orig, g1) \<Rightarrow> until_done (lp_of (items_unit F r orig)) e g1 c)"

definition LoadWare :: "'f fops \<Rightarrow> rand \<Rightarrow> (int \<Rightarrow> bool) \<Rightarrow> int \<Rightarrow> int \<Rightarrow> unit lp" where
  "LoadWare F r junk min_ware max_ware =
     lp_each [min_ware..max_ware] (\<lambda>w_id. until_done (ware_unit F r junk w_id))"

definition district_list :: "int \<Rightarrow> int \<Rightarrow> (int \<times> int) list" where
  "district_list min_ware max_ware = [(w_id, d_id). w_id \<leftarrow> [min_ware..max_ware], d_id \<leftarrow> [1..DIST_PER_WARE]]"

definition LoadCust :: "'f fops \<Rightarrow> rand \<Rightarrow> (nat \<Rightarrow> nat) \<Rightarrow> string \<Rightarrow> int \<Rightarrow> int \<Rightarrow> unit lp" where
  "LoadCust F r junk timestamp min_ware max_ware =
     lp_bind (lp_each (district_list min_ware max_ware)
                (\<lambda>(w_id, d_id). until_done (lp_of (Customer F r junk timestamp d_id w_id)))) (\<lambda>_. lp_of ld_commit)"

definition LoadOrd :: "'f fops \<Rightarrow> rand \<Rightarrow> string \<Rightarrow> int \<Rightarrow> int \<Rightarrow> unit lp" where
  "LoadOrd F r timestamp min_ware max_ware =
     lp_bind (lp_each (district_list min_ware max_ware)
                (\<lambda>(w_id, d_id). until_done (lp_of (Orders F r timestamp d_id w_id)))) (\<lambda>_. lp_of ld_commit)"

text \<open>
  The main program after the connection is open, with all parts or with one (the option l), and
  the final commit. \<open>Error\<close> rolls back and ends the program.
\<close>

definition load_parts ::
  "'f fops \<Rightarrow> rand \<Rightarrow> (int \<Rightarrow> bool) \<Rightarrow> (nat \<Rightarrow> nat) \<Rightarrow> string \<Rightarrow> int option \<Rightarrow> int \<Rightarrow> int \<Rightarrow> unit lp" where
  "load_parts F r junk junk2 timestamp part min_ware max_ware =
     (case part of
        None \<Rightarrow>
          lp_bind (LoadItems F r junk) (\<lambda>_. lp_bind (LoadWare F r junk min_ware max_ware) (\<lambda>_.
          lp_bind (LoadCust F r junk2 timestamp min_ware max_ware) (\<lambda>_. LoadOrd F r timestamp min_ware max_ware)))
      | Some n \<Rightarrow>
          if n = 1 then LoadItems F r junk
          else if n = 2 then LoadWare F r junk min_ware max_ware
          else if n = 3 then LoadCust F r junk2 timestamp min_ware max_ware
          else if n = 4 then LoadOrd F r timestamp min_ware max_ware
          else lp_of (ld_return ()))"

definition load_main ::
  "'f fops \<Rightarrow> rand \<Rightarrow> (int \<Rightarrow> bool) \<Rightarrow> (nat \<Rightarrow> nat) \<Rightarrow> string \<Rightarrow> int option \<Rightarrow> int \<Rightarrow> int \<Rightarrow> int \<Rightarrow> mysql_lib \<Rightarrow> rng \<Rightarrow> conn \<Rightarrow>
   (int \<times> conn) option" where
  "load_main F r junk junk2 timestamp part count_ware opt_m opt_n e g c =
     (let min_ware = (if part = None then 1 else opt_m); max_ware = (if part = None then count_ware else opt_n)
      in case lp_bind (load_parts F r junk junk2 timestamp part min_ware max_ware) (\<lambda>_. lp_of ld_commit) e g c of
           None \<Rightarrow> None
         | Some (Inl _, g1, c1) \<Rightarrow> Some (-1, rollback c1)
         | Some (Inr _, g1, c1) \<Rightarrow> Some (0, c1))"

section \<open>Rules for the loader\<close>

text \<open>
  A triple for the part of a unit before its commit: from a working database with \<open>P\<close>, a normal
  end gives \<open>Q\<close>; asking to start again means the transaction was rolled back; nothing is
  committed; with a library that works the end is a normal one.
\<close>

definition ld_spec :: "(db \<Rightarrow> bool) \<Rightarrow> 'a ld \<Rightarrow> ('a \<Rightarrow> db \<Rightarrow> bool) \<Rightarrow> bool" where
  "ld_spec P m Q \<longleftrightarrow>
     (\<forall>e g c res g' c'. P (working c) \<longrightarrow> m e g c = (res, g', c') \<longrightarrow>
        committed c' = committed c \<and> (\<forall>v. res = Inr v \<longrightarrow> Q v (working c')) \<and>
        (res = Inl Again \<longrightarrow> working c' = committed c') \<and> (reliable e \<longrightarrow> (\<exists>v. res = Inr v)))"

lemma spec_return: "(\<And>d. P d \<Longrightarrow> Q v d) \<Longrightarrow> ld_spec P (ld_return v) Q"
  by (auto simp: ld_spec_def ld_return_def)

lemma spec_gen: "(\<And>g d. P d \<Longrightarrow> Q (fst (f g)) d) \<Longrightarrow> ld_spec P (ld_gen f) Q"
  by (auto simp: ld_spec_def ld_gen_def split: prod.splits) (metis fst_conv)

lemma spec_insert: "(\<And>d. P d \<Longrightarrow> \<exists>d'. f d = Some d' \<and> Q () d') \<Longrightarrow> ld_spec P (ld_insert f) Q"
  by (fastforce simp: ld_spec_def ld_insert_def try_stmt_execute_def rollback_def reliable_def Let_def
      split: if_splits option.splits)

lemma spec_bind:
  assumes "ld_spec P m R" "\<And>v. ld_spec (R v) (f v) Q"
  shows "ld_spec P (ld_bind m f) Q"
  unfolding ld_spec_def
proof (intro allI impI)
  fix e g c res g' c' assume p: "P (working c)" and b: "ld_bind m f e g c = (res, g', c')"
  obtain r1 g1 c1 where 1: "m e g c = (r1, g1, c1)" by (metis surj_pair)
  have h: "committed c1 = committed c" "\<And>v. r1 = Inr v \<Longrightarrow> R v (working c1)"
    "r1 = Inl Again \<Longrightarrow> working c1 = committed c1" "reliable e \<Longrightarrow> \<exists>v. r1 = Inr v"
    using assms(1) p 1 unfolding ld_spec_def by blast+
  show "committed c' = committed c \<and> (\<forall>v. res = Inr v \<longrightarrow> Q v (working c')) \<and>
        (res = Inl Again \<longrightarrow> working c' = committed c') \<and> (reliable e \<longrightarrow> (\<exists>v. res = Inr v))"
  proof (cases r1)
    case (Inl x)
    then show ?thesis using b 1 h by (auto simp: ld_bind_def)
  next
    case (Inr v)
    then have 2: "f v e g1 c1 = (res, g', c')" using b 1 by (simp add: ld_bind_def)
    show ?thesis using assms(2) [of v] h Inr 2 unfolding ld_spec_def by metis
  qed
qed

lemma spec_weaken: "ld_spec P m Q \<Longrightarrow> (\<And>v d. Q v d \<Longrightarrow> Q' v d) \<Longrightarrow> ld_spec P m Q'"
  unfolding ld_spec_def by blast

lemma spec_strengthen: "ld_spec P m Q \<Longrightarrow> (\<And>d. P' d \<Longrightarrow> P d) \<Longrightarrow> ld_spec P' m Q"
  unfolding ld_spec_def by blast

text \<open>The loop rule: \<open>I i s\<close> before round \<open>i\<close>.\<close>

lemma spec_for:
  assumes "\<And>i s. lo \<le> i \<Longrightarrow> i < lo + int n \<Longrightarrow> ld_spec (I i s) (body i s) (\<lambda>s'. I (i + 1) s')"
  shows "ld_spec (I lo s) (ld_for lo n body s) (\<lambda>s'. I (lo + int n) s')"
  using assms
proof (induction n arbitrary: lo s)
  case 0
  then show ?case by (simp add: spec_return)
next
  case (Suc n)
  have "ld_spec (I (lo + 1) s') (ld_for (lo + 1) n body s') (\<lambda>s''. I (lo + 1 + int n) s'')" for s'
    using Suc.prems by (intro Suc.IH) auto
  then show ?case using Suc.prems [of lo s] by (auto intro!: spec_bind [of "I lo s" _ "\<lambda>s'. I (lo + 1) s'"] simp: ac_simps)
qed

section \<open>Units\<close>

text \<open>
  The contract of a unit, which ends with its commit: run on a connection with nothing open and a
  database with \<open>P\<close>, a normal end leaves \<open>Q\<close> committed, asking to start again leaves all as it was.
\<close>

definition unit_spec :: "(db \<Rightarrow> bool) \<Rightarrow> unit lp \<Rightarrow> (db \<Rightarrow> bool) \<Rightarrow> bool" where
  "unit_spec P m Q \<longleftrightarrow>
     (\<forall>e g c res g' c'. working c = committed c \<longrightarrow> P (committed c) \<longrightarrow> m e g c = Some (res, g', c') \<longrightarrow>
        (res = Inr () \<longrightarrow> working c' = committed c' \<and> Q (committed c')) \<and>
        (res = Inl Again \<longrightarrow> working c' = committed c' \<and> committed c' = committed c) \<and>
        (reliable e \<longrightarrow> res = Inr ()))"

lemma commit_end:
  assumes "ld_spec P m (\<lambda>_. Q)" "P (working c)" "ld_bind m (\<lambda>_. ld_commit) e g c = (res, g', c')"
  shows "(res = Inr () \<longrightarrow> working c' = committed c' \<and> Q (committed c')) \<and>
    (res = Inl Again \<longrightarrow> working c' = committed c' \<and> committed c' = committed c) \<and> (reliable e \<longrightarrow> res = Inr ())"
proof -
  obtain r1 g1 c1 where 1: "m e g c = (r1, g1, c1)" by (metis surj_pair)
  have h: "committed c1 = committed c" "\<And>v. r1 = Inr v \<Longrightarrow> Q (working c1)"
    "r1 = Inl Again \<Longrightarrow> working c1 = committed c1" "reliable e \<Longrightarrow> \<exists>v. r1 = Inr v"
    using assms(1,2) 1 unfolding ld_spec_def by metis+
  show ?thesis
    using assms(3) 1 h by (cases r1) (auto simp: ld_bind_def ld_commit_def Let_def reliable_def split: if_splits)
qed

lemma unit_commit:
  assumes "ld_spec P m (\<lambda>_. Q)"
  shows "unit_spec P (lp_of (ld_bind m (\<lambda>_. ld_commit))) Q"
  unfolding unit_spec_def lp_of_def using commit_end [OF assms] by (metis option.inject)

text \<open>Started again until done, a unit never ends with the wish to start again.\<close>

definition prog_spec :: "(db \<Rightarrow> bool) \<Rightarrow> unit lp \<Rightarrow> (db \<Rightarrow> bool) \<Rightarrow> bool" where
  "prog_spec P m Q \<longleftrightarrow>
     (\<forall>e g c res g' c'. working c = committed c \<longrightarrow> P (committed c) \<longrightarrow> m e g c = Some (res, g', c') \<longrightarrow>
        res \<noteq> Inl Again \<and> (res = Inr () \<longrightarrow> working c' = committed c' \<and> Q (committed c')) \<and> (reliable e \<longrightarrow> res = Inr ()))"

lemma until_done_spec:
  assumes "unit_spec P m Q"
  shows "prog_spec P (until_done m) Q"
proof -
  have "fst y \<noteq> Inl Again \<and> (fst y = Inr () \<longrightarrow> working (snd (snd y)) = committed (snd (snd y)) \<and> Q (committed (snd (snd y)))) \<and>
      (reliable e \<longrightarrow> fst y = Inr ())"
    if run: "until_done m e g c = Some y" and start: "working c = committed c" "P (committed c)" for e g c y
  proof -
    have "unit_spec P m Q \<longrightarrow> working c = committed c \<longrightarrow> P (committed c) \<longrightarrow>
        fst y \<noteq> Inl Again \<and> (fst y = Inr () \<longrightarrow> working (snd (snd y)) = committed (snd (snd y)) \<and> Q (committed (snd (snd y)))) \<and>
        (reliable e \<longrightarrow> fst y = Inr ())"
    proof (rule until_done.raw_induct [where P = "\<lambda>m e g c y. unit_spec P m Q \<longrightarrow> working c = committed c \<longrightarrow> P (committed c) \<longrightarrow>
        fst y \<noteq> Inl Again \<and> (fst y = Inr () \<longrightarrow> working (snd (snd y)) = committed (snd (snd y)) \<and> Q (committed (snd (snd y)))) \<and>
        (reliable e \<longrightarrow> fst y = Inr ())", OF _ run], intro impI)
      fix loop m e g c y
      assume ih: "\<And>m e g c y. loop m e g c = Some y \<Longrightarrow> unit_spec P m Q \<longrightarrow> working c = committed c \<longrightarrow> P (committed c) \<longrightarrow>
          fst y \<noteq> Inl Again \<and> (fst y = Inr () \<longrightarrow> working (snd (snd y)) = committed (snd (snd y)) \<and> Q (committed (snd (snd y)))) \<and>
          (reliable e \<longrightarrow> fst y = Inr ())"
        and y: "(case m e g c of None \<Rightarrow> None | Some (Inl Again, g1, c1) \<Rightarrow> loop m e g1 c1
          | Some (Inl Fatal, g1, c1) \<Rightarrow> Some (Inl Fatal, g1, c1) | Some (Inr v, g1, c1) \<Rightarrow> Some (Inr v, g1, c1)) = Some y"
        and u: "unit_spec P m Q" "working c = committed c" "P (committed c)"
      obtain r1 g1 c1 where 1: "m e g c = Some (r1, g1, c1)" using y by (auto split: option.splits)
      have h: "r1 = Inr () \<longrightarrow> working c1 = committed c1 \<and> Q (committed c1)"
        "r1 = Inl Again \<longrightarrow> working c1 = committed c1 \<and> committed c1 = committed c" "reliable e \<longrightarrow> r1 = Inr ()"
        using u 1 unfolding unit_spec_def by blast+
      consider "r1 = Inr ()" | "r1 = Inl Again" | "r1 = Inl Fatal"
        by (cases r1) (auto intro: load_error.exhaust)
      then show "fst y \<noteq> Inl Again \<and> (fst y = Inr () \<longrightarrow> working (snd (snd y)) = committed (snd (snd y)) \<and> Q (committed (snd (snd y)))) \<and>
          (reliable e \<longrightarrow> fst y = Inr ())"
      proof cases
        case 2
        then have "loop m e g1 c1 = Some y" using y 1 by simp
        then show ?thesis using ih [of m e g1 c1 y] u h 2 by simp
      qed (use y 1 h in auto)
    qed
    then show ?thesis using assms start by blast
  qed
  then show ?thesis unfolding prog_spec_def by (metis fst_conv snd_conv)
qed

lemma prog_bind:
  assumes "prog_spec P m R" "prog_spec R n Q"
  shows "prog_spec P (lp_bind m (\<lambda>_. n)) Q"
  unfolding prog_spec_def
proof (intro allI impI)
  fix e g c res g' c'
  assume a: "working c = committed c" "P (committed c)" and b: "lp_bind m (\<lambda>_. n) e g c = Some (res, g', c')"
  obtain r1 g1 c1 where 1: "m e g c = Some (r1, g1, c1)" using b by (auto simp: lp_bind_def split: option.splits)
  have h: "r1 \<noteq> Inl Again" "r1 = Inr () \<longrightarrow> working c1 = committed c1 \<and> R (committed c1)" "reliable e \<longrightarrow> r1 = Inr ()"
    using assms(1) a 1 unfolding prog_spec_def by blast+
  show "res \<noteq> Inl Again \<and> (res = Inr () \<longrightarrow> working c' = committed c' \<and> Q (committed c')) \<and> (reliable e \<longrightarrow> res = Inr ())"
  proof (cases r1)
    case (Inl x)
    then show ?thesis using b 1 h by (auto simp: lp_bind_def)
  next
    case (Inr u)
    then have "n e g1 c1 = Some (res, g', c')" using b 1 by (simp add: lp_bind_def)
    moreover have "working c1 = committed c1" "R (committed c1)" using h Inr by simp_all
    ultimately show ?thesis using assms(2) unfolding prog_spec_def by blast
  qed
qed

lemma prog_each:
  assumes "\<And>pre x rest. xs = pre @ x # rest \<Longrightarrow> prog_spec (J pre) (body x) (J (pre @ [x]))"
  shows "prog_spec (J []) (lp_each xs body) (J xs)"
proof -
  have "prog_spec (J pre) (lp_each ys body) (J (pre @ ys))" if "xs = pre @ ys" for pre ys
    using that
  proof (induction ys arbitrary: pre)
    case Nil
    then show ?case by (auto simp: prog_spec_def lp_of_def ld_return_def)
  next
    case (Cons y ys)
    have "prog_spec (J (pre @ [y])) (lp_each ys body) (J ((pre @ [y]) @ ys))"
      using Cons.prems by (intro Cons.IH) simp
    then show ?case using prog_bind [OF assms [OF Cons.prems]] by simp
  qed
  from this [of "[]" xs] show ?thesis by simp
qed

lemma prog_commit: "prog_spec P (lp_of ld_commit) P"
  by (auto simp: prog_spec_def lp_of_def ld_commit_def Let_def reliable_def split: if_splits)

lemma prog_weaken: "prog_spec P m Q \<Longrightarrow> (\<And>d. P' d \<Longrightarrow> P d) \<Longrightarrow> (\<And>d. Q d \<Longrightarrow> Q' d) \<Longrightarrow> prog_spec P' m Q'"
  unfolding prog_spec_def by blast

end
