(* ===== verification/TpccLoaded.thy ===== *)
theory TpccLoaded
  imports TpccLoad
begin

text \<open>
  What the loader (load.c) leaves behind: the keys of every table, and that the database starts
  out with the consistency conditions that the transactions keep.
\<close>

section \<open>The shape of a database\<close>

text \<open>
  The keys of the tables, in the order of the rows, and how many lines of each order are there.
\<close>

record shape =
  sh_items :: "int list"
  sh_wares :: "int list"
  sh_stocks :: "(int \<times> int) list"
  sh_dists :: "(int \<times> int) list"
  sh_custs :: "(int \<times> int \<times> int) list"
  sh_pays :: "(int \<times> int) list"
  sh_ords :: "(int \<times> int \<times> int) list"
  sh_news :: "(int \<times> int \<times> int) list"
  sh_cnt :: "order \<Rightarrow> int"

definition ware_rows :: "int list \<Rightarrow> warehouse list \<Rightarrow> bool" where
  "ware_rows ks t \<longleftrightarrow> map W_ID t = ks \<and> (\<forall>w \<in> set t. W_YTD w = 30000000)"

definition stock_rows :: "(int \<times> int) list \<Rightarrow> stock list \<Rightarrow> bool" where
  "stock_rows ks t \<longleftrightarrow> map pk_stock t = ks \<and> (\<forall>x \<in> set t. 10 \<le> S_QUANTITY x \<and> S_QUANTITY x \<le> 100)"

definition dist_rows :: "(int \<times> int) list \<Rightarrow> district list \<Rightarrow> bool" where
  "dist_rows ks t \<longleftrightarrow> map pk_district t = ks \<and> (\<forall>x \<in> set t. D_YTD x = 3000000 \<and> D_NEXT_O_ID x = 3001)"

definition pay_rows :: "(int \<times> int) list \<Rightarrow> history list \<Rightarrow> bool" where
  "pay_rows ks t \<longleftrightarrow> map (\<lambda>h. (H_W_ID h, H_D_ID h)) t = ks \<and> (\<forall>x \<in> set t. H_AMOUNT x = 1000)"

definition order_rows :: "(int \<times> int \<times> int) list \<Rightarrow> order list \<Rightarrow> bool" where
  "order_rows ks t \<longleftrightarrow> map pk_order t = ks \<and> (\<forall>x \<in> set t. O_CARRIER_ID x = None \<longleftrightarrow> O_ID x > 2100)"

definition has_shape :: "shape \<Rightarrow> db \<Rightarrow> bool" where
  "has_shape s d \<longleftrightarrow> map I_ID (items d) = sh_items s \<and> ware_rows (sh_wares s) (warehouses d) \<and>
     stock_rows (sh_stocks s) (stocks d) \<and> dist_rows (sh_dists s) (districts d) \<and>
     map pk_customer (customers d) = sh_custs s \<and> pay_rows (sh_pays s) (histories d) \<and>
     order_rows (sh_ords s) (orders d) \<and> distinct (sh_ords s) \<and> map pk_new_order (new_orders d) = sh_news s \<and>
     lines_ok (sh_cnt s) (orders d) (order_lines d)"

lemmas rows_defs = ware_rows_def stock_rows_def dist_rows_def pay_rows_def order_rows_def

lemma ins_fresh: "map key t = ks \<Longrightarrow> key x \<notin> set ks \<Longrightarrow> ins key x t = Some (t @ [x])"
  by (auto simp: ins_def)

section \<open>One row\<close>

lemma item_row:
  assumes "I_ID x \<notin> set (sh_items s)"
  shows "ld_spec (has_shape s) (ld_insert (insert_item x)) (\<lambda>_. has_shape (s\<lparr>sh_items := sh_items s @ [I_ID x]\<rparr>))"
  by (rule spec_insert) (use assms in \<open>simp add: insert_item_def has_shape_def ins_fresh\<close>)

lemma ware_row:
  assumes "W_ID x \<notin> set (sh_wares s)" "W_YTD x = 30000000"
  shows "ld_spec (has_shape s) (ld_insert (insert_warehouse x)) (\<lambda>_. has_shape (s\<lparr>sh_wares := sh_wares s @ [W_ID x]\<rparr>))"
  by (rule spec_insert) (use assms in \<open>auto simp: insert_warehouse_def has_shape_def ware_rows_def ins_fresh\<close>)

lemma stock_row:
  assumes "pk_stock x \<notin> set (sh_stocks s)" "10 \<le> S_QUANTITY x" "S_QUANTITY x \<le> 100"
  shows "ld_spec (has_shape s) (ld_insert (insert_stock x)) (\<lambda>_. has_shape (s\<lparr>sh_stocks := sh_stocks s @ [pk_stock x]\<rparr>))"
  by (rule spec_insert) (use assms in \<open>auto simp: insert_stock_def has_shape_def stock_rows_def ins_fresh\<close>)

lemma district_row:
  assumes "pk_district x \<notin> set (sh_dists s)" "D_YTD x = 3000000" "D_NEXT_O_ID x = 3001"
  shows "ld_spec (has_shape s) (ld_insert (insert_district x)) (\<lambda>_. has_shape (s\<lparr>sh_dists := sh_dists s @ [pk_district x]\<rparr>))"
  by (rule spec_insert) (use assms in \<open>auto simp: insert_district_def has_shape_def dist_rows_def ins_fresh\<close>)

lemma customer_row:
  assumes "pk_customer x \<notin> set (sh_custs s)"
  shows "ld_spec (has_shape s) (ld_insert (insert_customer x)) (\<lambda>_. has_shape (s\<lparr>sh_custs := sh_custs s @ [pk_customer x]\<rparr>))"
  by (rule spec_insert) (use assms in \<open>simp add: insert_customer_def has_shape_def ins_fresh\<close>)

lemma history_row:
  assumes "H_AMOUNT x = 1000"
  shows "ld_spec (has_shape s) (ld_insert (insert_history x)) (\<lambda>_. has_shape (s\<lparr>sh_pays := sh_pays s @ [(H_W_ID x, H_D_ID x)]\<rparr>))"
  by (rule spec_insert) (use assms in \<open>auto simp: insert_history_def has_shape_def pay_rows_def\<close>)

text \<open>An order is open until its last line is there.\<close>

definition order_there :: "int \<times> int \<times> int \<Rightarrow> int \<Rightarrow> db \<Rightarrow> bool" where
  "order_there k n d \<longleftrightarrow> (\<exists>x \<in> set (orders d). pk_order x = k \<and> O_OL_CNT x = n)"

definition opened :: "int \<times> int \<times> int \<Rightarrow> int \<Rightarrow> shape \<Rightarrow> shape" where
  "opened k i s = s\<lparr>sh_ords := sh_ords s @ [k], sh_cnt := entering k i\<rparr>"

lemma opened_news:
  "sh_news (opened k i s) = sh_news s" "(opened k i s)\<lparr>sh_news := ks\<rparr> = opened k i (s\<lparr>sh_news := ks\<rparr>)"
  by (cases s, simp add: opened_def)+

lemma order_row:
  assumes "pk_order x \<notin> set (sh_ords s)" "sh_cnt s = O_OL_CNT" "O_CARRIER_ID x = None \<longleftrightarrow> O_ID x > 2100"
  shows "ld_spec (has_shape s) (ld_insert (insert_order x))
    (\<lambda>_ d. has_shape (opened (pk_order x) 0 s) d \<and> order_there (pk_order x) (O_OL_CNT x) d)"
proof (rule spec_insert)
  fix d assume s: "has_shape s d"
  then have k: "map pk_order (orders d) = sh_ords s" by (simp add: has_shape_def order_rows_def)
  have "lines_ok (entering (pk_order x) 0) (orders d @ [x]) (order_lines d)"
    using s assms(1,2) by (intro lines_ok_open) (simp_all add: has_shape_def flip: k)
  then show "\<exists>d'. insert_order x d = Some d' \<and> has_shape (opened (pk_order x) 0 s) d' \<and> order_there (pk_order x) (O_OL_CNT x) d'"
    using s assms k by (auto simp: insert_order_def has_shape_def order_rows_def order_there_def opened_def ins_fresh)
qed

lemma new_order_row:
  assumes "pk_new_order x \<notin> set (sh_news s)"
  shows "ld_spec (\<lambda>d. has_shape s d \<and> order_there k n d) (ld_insert (insert_new_order x))
    (\<lambda>_ d. has_shape (s\<lparr>sh_news := sh_news s @ [pk_new_order x]\<rparr>) d \<and> order_there k n d)"
  by (rule spec_insert) (use assms in \<open>auto simp: insert_new_order_def has_shape_def order_there_def ins_fresh\<close>)

lemma line_row:
  assumes "sh_cnt s = entering k i" "fst (pk_order_line x) = k" "OL_NUMBER x = i + 1"
    "OL_DELIVERY_D x = None \<longleftrightarrow> snd (snd k) > 2100"
  shows "ld_spec (\<lambda>d. has_shape s d \<and> order_there k n d) (ld_insert (insert_order_line x))
    (\<lambda>_ d. has_shape (s\<lparr>sh_cnt := entering k (i + 1)\<rparr>) d \<and> order_there k n d)"
proof (rule spec_insert)
  fix d assume s: "has_shape s d \<and> order_there k n d"
  then obtain y where y: "y \<in> set (orders d)" "pk_order y = k" by (auto simp: order_there_def)
  have uniq: "distinct (map pk_order (orders d))" and ok: "lines_ok (entering k i) (orders d) (order_lines d)"
    and c: "O_CARRIER_ID y = None \<longleftrightarrow> O_ID y > 2100"
    using s y(1) assms(1) by (auto simp: has_shape_def order_rows_def)
  have o: "O_ID y = snd (snd k)" using y(2) by (auto simp: pk_order_def)
  have "line_numbers (order_lines d) k = {1..i}" using ok y by (auto simp: lines_ok_def entering_def)
  then have "i + 1 \<notin> line_numbers (order_lines d) k" by simp
  then have fresh: "pk_order_line x \<notin> pk_order_line ` set (order_lines d)"
    using assms(2,3) by (auto simp: line_numbers_def pk_order_line_def)
  have "lines_ok (entering k (i + 1)) (orders d) (order_lines d @ [x])"
    using lines_ok_add [OF ok y uniq assms(2,3) _ fresh] assms(4) c o by simp
  then show "\<exists>d'. insert_order_line x d = Some d' \<and>
      has_shape (s\<lparr>sh_cnt := entering k (i + 1)\<rparr>) d' \<and> order_there k n d'"
    using s fresh by (auto simp: insert_order_line_def has_shape_def order_there_def ins_def)
qed

lemma order_closed:
  assumes "has_shape (opened k n s) d" "order_there k n d"
  shows "has_shape ((opened k n s)\<lparr>sh_cnt := O_OL_CNT\<rparr>) d"
proof -
  obtain x where x: "x \<in> set (orders d)" "pk_order x = k" "O_OL_CNT x = n" using assms(2) by (auto simp: order_there_def)
  have "lines_ok O_OL_CNT (orders d) (order_lines d)"
    using assms(1) x by (intro lines_ok_close [of k n _ _ x]) (auto simp: has_shape_def opened_def order_rows_def)
  then show ?thesis using assms(1) by (simp add: has_shape_def opened_def)
qed


section \<open>Units\<close>

lemma spec_pure: "(A \<Longrightarrow> ld_spec P m Q) \<Longrightarrow> ld_spec (\<lambda>d. A \<and> P d) m Q"
  by (auto simp: ld_spec_def)

text \<open>Random values: whatever is drawn, and a number within its bounds.\<close>

lemma spec_draw: "(\<And>v. ld_spec P (f v) Q) \<Longrightarrow> ld_spec P (ld_bind (ld_gen h) f) Q"
  by (rule spec_bind [of P _ "\<lambda>_. P"]) (auto intro: spec_gen)

lemma spec_number:
  assumes "lo \<le> hi" "\<And>v. lo \<le> v \<Longrightarrow> v \<le> hi \<Longrightarrow> ld_spec P (f v) Q"
  shows "ld_spec P (ld_bind (ld_gen (rand_in r lo hi)) f) Q"
proof (rule spec_bind [of P _ "\<lambda>v d. (lo \<le> v \<and> v \<le> hi) \<and> P d"])
  show "ld_spec P (ld_gen (rand_in r lo hi)) (\<lambda>v d. (lo \<le> v \<and> v \<le> hi) \<and> P d)"
    by (rule spec_gen) (metis assms(1) rand_in_range prod.collapse)
qed (auto intro!: spec_pure assms(2))

lemma spec_rows:
  assumes "\<And>i u. 1 \<le> i \<Longrightarrow> i \<le> int n \<Longrightarrow> ld_spec (has_shape (G (i - 1))) (body i u) (\<lambda>_. has_shape (G i))"
  shows "ld_spec (has_shape (G 0)) (ld_for 1 n body ()) (\<lambda>_. has_shape (G (int n)))"
  using spec_for [of 1 n "\<lambda>i u. has_shape (G (i - 1))" body "()"] assms by simp

lemma upto_last: "1 \<le> i \<Longrightarrow> [1..i] = [1..i - 1] @ [i]" for i :: int
  by (rule upto_rec2)

text \<open>Whole amounts are stored as they are.\<close>

definition whole_stored :: "'f fops \<Rightarrow> bool" where
  "whole_stored F \<longleftrightarrow> (\<forall>n. to_dec F (int_float F n) = 100 * n)"

lemma items_loaded:
  assumes "sh_items s = []"
  shows "unit_spec (has_shape s) (lp_of (items_unit F r orig)) (has_shape (s\<lparr>sh_items := sh_items s @ [1..MAXITEMS]\<rparr>))"
  unfolding items_unit_def
proof (rule unit_commit)
  let ?G = "\<lambda>i. s\<lparr>sh_items := sh_items s @ [1..i]\<rparr>"
  have "ld_spec (has_shape (?G (i - 1))) (load_item F r orig i u) (\<lambda>_. has_shape (?G i))" if "1 \<le> i" for i u
    unfolding load_item_def
  proof (intro spec_draw)
    fix a b c e
    show "ld_spec (has_shape (?G (i - 1)))
        (ld_insert (insert_item \<lparr>I_ID = i, I_IM_ID = a, I_NAME = b, I_PRICE = cents F c, I_DATA = e\<rparr>)) (\<lambda>_. has_shape (?G i))"
      using item_row [of "\<lparr>I_ID = i, I_IM_ID = a, I_NAME = b, I_PRICE = cents F c, I_DATA = e\<rparr>" "?G (i - 1)"] that assms
      by (simp add: upto_last)
  qed
  from spec_rows [of "nat MAXITEMS" ?G, OF this]
  show "ld_spec (has_shape s) (ld_for 1 (nat MAXITEMS) (load_item F r orig) ()) (\<lambda>_. has_shape (?G MAXITEMS))"
    by (simp add: MAXITEMS_def)
qed

lemma stock_loaded:
  assumes "\<And>i. (w_id, i) \<notin> set (sh_stocks s)"
  shows "ld_spec (has_shape s) (Stock r orig w_id)
    (\<lambda>_. has_shape (s\<lparr>sh_stocks := sh_stocks s @ map (Pair w_id) [1..MAXITEMS]\<rparr>))"
proof -
  let ?G = "\<lambda>i. s\<lparr>sh_stocks := sh_stocks s @ map (Pair w_id) [1..i]\<rparr>"
  have "ld_spec (has_shape (?G (i - 1))) (load_stock r orig w_id i u) (\<lambda>_. has_shape (?G i))" if "1 \<le> i" for i u
    unfolding load_stock_def
  proof (rule spec_number, simp, intro spec_draw)
    fix q a b assume q: "10 \<le> q" "q \<le> (100 :: int)"
    show "ld_spec (has_shape (?G (i - 1)))
        (ld_insert (insert_stock \<lparr>S_I_ID = i, S_W_ID = w_id, S_QUANTITY = q, S_DIST = a, S_DATA = b\<rparr>)) (\<lambda>_. has_shape (?G i))"
      using stock_row [of "\<lparr>S_I_ID = i, S_W_ID = w_id, S_QUANTITY = q, S_DIST = a, S_DATA = b\<rparr>" "?G (i - 1)"] that assms q
      by (simp add: upto_last pk_stock_def image_iff)
  qed
  from spec_rows [of "nat MAXITEMS" ?G, OF this] show ?thesis by (simp add: Stock_def MAXITEMS_def)
qed

lemma districts_loaded:
  assumes "\<And>i. (w_id, i) \<notin> set (sh_dists s)" "whole_stored F"
  shows "ld_spec (has_shape s) (District F r w_id)
    (\<lambda>_. has_shape (s\<lparr>sh_dists := sh_dists s @ map (Pair w_id) [1..DIST_PER_WARE]\<rparr>))"
proof -
  let ?G = "\<lambda>i. s\<lparr>sh_dists := sh_dists s @ map (Pair w_id) [1..i]\<rparr>"
  have "ld_spec (has_shape (?G (i - 1))) (load_district F r w_id i u) (\<lambda>_. has_shape (?G i))" if "1 \<le> i" for i u
    unfolding load_district_def
  proof (intro spec_draw)
    fix a t
    let ?x = "\<lparr>D_ID = i, D_W_ID = w_id, D_NAME = a, D_TAX = cents F t, D_YTD = to_dec F (int_float F 30000), D_NEXT_O_ID = 3001\<rparr>"
    show "ld_spec (has_shape (?G (i - 1))) (ld_insert (insert_district ?x)) (\<lambda>_. has_shape (?G i))"
      using district_row [of ?x "?G (i - 1)"] that assms
      by (simp add: upto_last pk_district_def whole_stored_def image_iff)
  qed
  from spec_rows [of "nat DIST_PER_WARE" ?G, OF this] show ?thesis by (simp add: District_def DIST_PER_WARE_def)
qed

lemma customers_loaded:
  assumes "\<And>i. (w_id, d_id, i) \<notin> set (sh_custs s)" "whole_stored F"
  shows "unit_spec (has_shape s) (lp_of (Customer F r junk timestamp d_id w_id))
    (has_shape (s\<lparr>sh_custs := sh_custs s @ map (\<lambda>i. (w_id, d_id, i)) [1..CUST_PER_DIST],
       sh_pays := sh_pays s @ map (\<lambda>i. (w_id, d_id)) [1..CUST_PER_DIST]\<rparr>))"
  unfolding Customer_def
proof (rule unit_commit)
  let ?G = "\<lambda>i. s\<lparr>sh_custs := sh_custs s @ map (\<lambda>i. (w_id, d_id, i)) [1..i], sh_pays := sh_pays s @ map (\<lambda>i. (w_id, d_id)) [1..i]\<rparr>"
  have "ld_spec (has_shape (?G (i - 1))) (load_customer F r junk timestamp d_id w_id i u) (\<lambda>_. has_shape (?G i))"
    if i: "1 \<le> i" for i u
  proof -
    let ?H = "(?G (i - 1))\<lparr>sh_custs := sh_custs (?G i)\<rparr>"
    have c: "ld_spec (has_shape (?G (i - 1))) (ld_insert (insert_customer x)) (\<lambda>_. has_shape ?H)"
      if "pk_customer x = (w_id, d_id, i)" for x
      using customer_row [of x "?G (i - 1)"] that i assms(1) by (simp add: upto_last image_iff)
    have h: "ld_spec (has_shape ?H) (ld_insert (insert_history x)) (\<lambda>_. has_shape (?G i))"
      if "H_AMOUNT x = 1000" "H_W_ID x = w_id" "H_D_ID x = d_id" for x
      using history_row [of x ?H] that i by (simp add: upto_last)
    have num: "ld_spec P (ld_bind (if b then ld_return y else ld_gen z) f) Q" if "\<And>v. ld_spec P (f v) Q" for P b y z f Q
      using that by (cases b) (auto intro!: spec_draw spec_bind [of P _ "\<lambda>_. P"] spec_return)
    have "to_dec F (int_float F 10) = 1000" using assms(2) by (simp add: whole_stored_def)
    then show ?thesis unfolding load_customer_def
      by (intro num spec_draw spec_bind [OF c] h) (simp_all add: pk_customer_def)
  qed
  from spec_rows [of "nat CUST_PER_DIST" ?G, OF this]
  show "ld_spec (has_shape s) (ld_for 1 (nat CUST_PER_DIST) (load_customer F r junk timestamp d_id w_id) ()) (\<lambda>_. has_shape (?G CUST_PER_DIST))"
    by (simp add: CUST_PER_DIST_def)
qed


text \<open>An order with its lines.\<close>

lemma line_loaded:
  assumes "sh_cnt s = entering (w_id, d_id, o_id) (i - 1)"
  shows "ld_spec (\<lambda>d. has_shape s d \<and> order_there (w_id, d_id, o_id) n d) (load_line F r timestamp d_id w_id o_id i u)
    (\<lambda>_ d. has_shape (s\<lparr>sh_cnt := entering (w_id, d_id, o_id) i\<rparr>) d \<and> order_there (w_id, d_id, o_id) n d)"
proof -
  have "ld_spec (\<lambda>d. has_shape s d \<and> order_there (w_id, d_id, o_id) n d) (ld_insert (insert_order_line x))
      (\<lambda>_ d. has_shape (s\<lparr>sh_cnt := entering (w_id, d_id, o_id) i\<rparr>) d \<and> order_there (w_id, d_id, o_id) n d)"
    if "fst (pk_order_line x) = (w_id, d_id, o_id)" "OL_NUMBER x = i" "OL_DELIVERY_D x = None \<longleftrightarrow> o_id > 2100" for x
    using line_row [of s "(w_id, d_id, o_id)" "i - 1" x n] assms that by simp
  then show ?thesis unfolding load_line_def
    by (cases "o_id > 2100") (simp_all add: spec_draw pk_order_line_def)
qed

lemma lines_loaded:
  assumes "0 \<le> n"
  shows "ld_spec (\<lambda>d. has_shape (opened (w_id, d_id, o_id) 0 s) d \<and> order_there (w_id, d_id, o_id) n d)
    (ld_for 1 (nat n) (load_line F r timestamp d_id w_id o_id) ())
    (\<lambda>_. has_shape ((opened (w_id, d_id, o_id) n s)\<lparr>sh_cnt := O_OL_CNT\<rparr>))"
proof -
  let ?k = "(w_id, d_id, o_id)"
  let ?I = "\<lambda>i u d. has_shape (opened ?k (i - 1) s) d \<and> order_there ?k n d"
  have "ld_spec (?I i u) (load_line F r timestamp d_id w_id o_id i u) (\<lambda>u'. ?I (i + 1) u')" for i u
    using line_loaded [of "opened ?k (i - 1) s" w_id d_id o_id i] by (simp add: opened_def)
  from spec_for [of 1 "nat n" ?I, OF this]
  have "ld_spec (?I 1 ()) (ld_for 1 (nat n) (load_line F r timestamp d_id w_id o_id) ()) (\<lambda>u. ?I (n + 1) u)"
    using assms by (simp add: ac_simps)
  then show ?thesis by (rule spec_weaken [THEN spec_strengthen]) (auto intro: order_closed)
qed

definition orders_upto :: "int \<Rightarrow> int \<Rightarrow> int \<Rightarrow> shape \<Rightarrow> shape" where
  "orders_upto w_id d_id i s = s\<lparr>sh_ords := sh_ords s @ map (\<lambda>o_id. (w_id, d_id, o_id)) [1..i],
     sh_news := sh_news s @ map (\<lambda>o_id. (w_id, d_id, o_id)) [2101..i], sh_cnt := O_OL_CNT\<rparr>"

lemma order_loaded:
  assumes "\<And>i. (w_id, d_id, i) \<notin> set (sh_ords s)" "\<And>i. (w_id, d_id, i) \<notin> set (sh_news s)"
    "1 \<le> i" "i \<le> int ORD_PER_DIST" "perm_count p = nat (i - 1)"
  shows "ld_spec (has_shape (orders_upto w_id d_id (i - 1) s)) (load_order F r timestamp d_id w_id i p)
    (\<lambda>p' d. perm_count p' = nat i \<and> has_shape (orders_upto w_id d_id i s) d)"
proof -
  let ?s = "orders_upto w_id d_id (i - 1) s"
  let ?k = "(w_id, d_id, i)"
  let ?t = "if i > 2100 then ?s\<lparr>sh_news := sh_news ?s @ [?k]\<rparr> else ?s"
  define p' where "p' = p\<lparr>perm_count := nat i\<rparr>"
  have p: "GetPermutation p = Some (nums p ! perm_count p, p')"
    using assms(3-5) by (auto simp: GetPermutation_def p'_def Suc_nat_eq_nat_zadd1)
  have head: "ld_spec (has_shape ?s)
      (if i > 2100 then ld_bind (ld_insert (insert_order x)) (\<lambda>_. ld_insert (insert_new_order y)) else ld_insert (insert_order z))
      (\<lambda>_ d. has_shape (opened ?k 0 ?t) d \<and> order_there ?k n d)"
    if "pk_order x = ?k" "O_CARRIER_ID x = None" "O_OL_CNT x = n" "pk_new_order y = ?k"
       "pk_order z = ?k" "O_CARRIER_ID z \<noteq> None" "O_OL_CNT z = n" for x y z n
  proof -
    have f: "?k \<notin> set (sh_ords ?s)" "?k \<notin> set (sh_news ?s)" "sh_cnt ?s = O_OL_CNT" "O_ID x = i" "O_ID z = i"
      using assms(1,2) that by (auto simp: orders_upto_def pk_order_def)
    show ?thesis
    proof (cases "i > 2100")
      case True
      have "ld_spec (has_shape ?s) (ld_insert (insert_order x)) (\<lambda>_ d. has_shape (opened ?k 0 ?s) d \<and> order_there ?k n d)"
        using order_row [of x ?s] that f True by simp
      moreover have "ld_spec (\<lambda>d. has_shape (opened ?k 0 ?s) d \<and> order_there ?k n d) (ld_insert (insert_new_order y))
          (\<lambda>_ d. has_shape (opened ?k 0 ?t) d \<and> order_there ?k n d)"
        using new_order_row [of y "opened ?k 0 ?s" ?k n] that f True by (simp add: opened_news)
      ultimately show ?thesis using True by (auto intro: spec_bind)
    next
      case False
      then show ?thesis using order_row [of z ?s] that f by simp
    qed
  qed
  have e: "(opened ?k n ?t)\<lparr>sh_cnt := O_OL_CNT\<rparr> = orders_upto w_id d_id i s" for n
    using assms(3) by (cases "i > 2100") (auto simp: opened_def orders_upto_def upto_last [of i] upto_rec2 [of 2101 i])
  have tail: "ld_spec (\<lambda>d. has_shape (opened ?k 0 ?t) d \<and> order_there ?k n d)
      (ld_bind (ld_for 1 (nat n) (load_line F r timestamp d_id w_id i) ()) (\<lambda>_. ld_return p'))
      (\<lambda>p' d. perm_count p' = nat i \<and> has_shape (orders_upto w_id d_id i s) d)" if "0 \<le> n" for n
    by (rule spec_bind [OF lines_loaded [OF that]], rule spec_return) (simp add: e p'_def)
  show ?thesis unfolding load_order_def p
    by (simp only: option.case prod.case, rule spec_draw, rule spec_number, simp, rule spec_bind [OF head tail])
      (simp_all add: pk_order_def pk_new_order_def)
qed

lemma ld_bind_assoc: "ld_bind (ld_bind m f) h = ld_bind m (\<lambda>v. ld_bind (f v) h)"
  by (simp add: fun_eq_iff ld_bind_def split: prod.splits sum.splits)

lemma orders_loaded:
  assumes "\<And>i. (w_id, d_id, i) \<notin> set (sh_ords s)" "\<And>i. (w_id, d_id, i) \<notin> set (sh_news s)" "sh_cnt s = O_OL_CNT"
  shows "unit_spec (has_shape s) (lp_of (Orders F r timestamp d_id w_id)) (has_shape (orders_upto w_id d_id (int ORD_PER_DIST) s))"
proof -
  let ?I = "\<lambda>i p d. perm_count p = nat (i - 1) \<and> has_shape (orders_upto w_id d_id (i - 1) s) d"
  have 0: "orders_upto w_id d_id 0 s = s" using assms(3) by (cases s) (simp add: orders_upto_def)
  have "ld_spec (has_shape s) (ld_gen (InitPermutation r)) (\<lambda>p. ?I 1 p)"
    by (rule spec_gen) (metis 0 InitPermutation_props(2) diff_self nat_zero_as_int prod.collapse)
  moreover have "ld_spec (?I i p) (load_order F r timestamp d_id w_id i p) (\<lambda>p'. ?I (i + 1) p')"
    if "1 \<le> i" "i < 1 + int ORD_PER_DIST" for i p
    using order_loaded [of w_id d_id s i p F r timestamp, OF assms(1,2)] that by (intro spec_pure) simp
  then have "ld_spec (?I 1 p) (ld_for 1 ORD_PER_DIST (load_order F r timestamp d_id w_id) p) (\<lambda>p'. ?I (1 + int ORD_PER_DIST) p')" for p
    by (rule spec_for)
  ultimately have "ld_spec (has_shape s)
      (ld_bind (ld_gen (InitPermutation r)) (ld_for 1 ORD_PER_DIST (load_order F r timestamp d_id w_id)))
      (\<lambda>p'. ?I (1 + int ORD_PER_DIST) p')" by (rule spec_bind)
  then have "ld_spec (has_shape s)
      (ld_bind (ld_gen (InitPermutation r)) (ld_for 1 ORD_PER_DIST (load_order F r timestamp d_id w_id)))
      (\<lambda>_. has_shape (orders_upto w_id d_id (int ORD_PER_DIST) s))"
    by (rule spec_weaken) simp
  from unit_commit [OF this] show ?thesis by (simp add: Orders_def ld_bind_assoc)
qed

definition ware_upto :: "int \<Rightarrow> shape \<Rightarrow> shape" where
  "ware_upto w_id s = s\<lparr>sh_wares := sh_wares s @ [w_id], sh_stocks := sh_stocks s @ map (Pair w_id) [1..MAXITEMS],
     sh_dists := sh_dists s @ map (Pair w_id) [1..DIST_PER_WARE]\<rparr>"

lemma ware_loaded:
  assumes "w_id \<notin> set (sh_wares s)" "\<And>i. (w_id, i) \<notin> set (sh_stocks s)" "\<And>i. (w_id, i) \<notin> set (sh_dists s)" "whole_stored F"
  shows "unit_spec (has_shape s) (ware_unit F r junk w_id) (has_shape (ware_upto w_id s))"
  unfolding unit_spec_def
proof (intro allI impI)
  fix e g c res g' c'
  assume idle: "working c = committed c" and s: "has_shape s (committed c)"
    and run: "ware_unit F r junk w_id e g c = Some (res, g', c')"
  let ?t = "s\<lparr>sh_wares := sh_wares s @ [w_id]\<rparr>"
  let ?row = "ld_bind (ld_gen (MakeAlphaString r 6 10)) (\<lambda>w_name. ld_bind (ld_gen (MakeAddress r)) (\<lambda>_.
      ld_bind (ld_gen (rand_in r 10 20)) (\<lambda>t. ld_insert (insert_warehouse \<lparr>W_ID = w_id, W_NAME = w_name, W_TAX = cents F t,
                          W_YTD = to_dec F (int_float F 300000)\<rparr>))))"
  have row: "ld_spec (has_shape s) ?row (\<lambda>_. has_shape ?t)"
  proof (intro spec_draw)
    fix a t
    let ?x = "\<lparr>W_ID = w_id, W_NAME = a, W_TAX = cents F t, W_YTD = to_dec F (int_float F 300000)\<rparr>"
    show "ld_spec (has_shape s) (ld_insert (insert_warehouse ?x)) (\<lambda>_. has_shape ?t)"
      using ware_row [of ?x s] assms(1,4) by (simp add: whole_stored_def)
  qed
  have rest: "ld_spec (has_shape ?t) (ld_bind (Stock r orig w_id) (\<lambda>_. District F r w_id)) (\<lambda>_. has_shape (ware_upto w_id s))" for orig
    using spec_bind [OF stock_loaded [of w_id ?t r orig]]
      districts_loaded [of w_id "?t\<lparr>sh_stocks := sh_stocks s @ map (Pair w_id) [1..MAXITEMS]\<rparr>" F r] assms(2-4)
    by (simp add: ware_upto_def)
  obtain r1 g1 c1 where 1: "?row e g c = (r1, g1, c1)" by (metis surj_pair)
  have h: "committed c1 = committed c" "\<And>v. r1 = Inr v \<Longrightarrow> has_shape ?t (working c1)"
    "r1 = Inl Again \<Longrightarrow> working c1 = committed c1" "reliable e \<Longrightarrow> \<exists>v. r1 = Inr v"
    using row idle s 1 unfolding ld_spec_def by metis+
  show "(res = Inr () \<longrightarrow> working c' = committed c' \<and> has_shape (ware_upto w_id s) (committed c')) \<and>
        (res = Inl Again \<longrightarrow> working c' = committed c' \<and> committed c' = committed c) \<and> (reliable e \<longrightarrow> res = Inr ())"
  proof (cases r1)
    case (Inl x)
    then show ?thesis using run 1 h by (auto simp: ware_unit_def)
  next
    case (Inr v)
    then obtain orig g2 where "ld_bind (Stock r orig w_id) (\<lambda>_. ld_bind (District F r w_id) (\<lambda>_. ld_commit)) e g2 c1 = (res, g', c')"
      using run 1 by (auto simp: ware_unit_def split: option.splits)
    then show ?thesis using commit_end [OF rest h(2) [OF Inr]] h(1) by (simp add: ld_bind_assoc)
  qed
qed


section \<open>The whole load\<close>

definition custs_upto :: "int \<times> int \<Rightarrow> shape \<Rightarrow> shape" where
  "custs_upto k s = s\<lparr>sh_custs := sh_custs s @ map (\<lambda>i. (fst k, snd k, i)) [1..CUST_PER_DIST],
     sh_pays := sh_pays s @ map (\<lambda>i. k) [1..CUST_PER_DIST]\<rparr>"

definition ords_upto :: "int \<times> int \<Rightarrow> shape \<Rightarrow> shape" where
  "ords_upto k s = orders_upto (fst k) (snd k) (int ORD_PER_DIST) s"

lemma wares_rows:
  "sh_wares (fold ware_upto ws s) = sh_wares s @ ws"
  "sh_stocks (fold ware_upto ws s) = sh_stocks s @ concat (map (\<lambda>w. map (Pair w) [1..MAXITEMS]) ws)"
  "sh_dists (fold ware_upto ws s) = sh_dists s @ concat (map (\<lambda>w. map (Pair w) [1..DIST_PER_WARE]) ws)"
  "sh_custs (fold ware_upto ws s) = sh_custs s" "sh_pays (fold ware_upto ws s) = sh_pays s"
  "sh_ords (fold ware_upto ws s) = sh_ords s" "sh_news (fold ware_upto ws s) = sh_news s"
  "sh_cnt (fold ware_upto ws s) = sh_cnt s" "sh_items (fold ware_upto ws s) = sh_items s"
  by (induction ws arbitrary: s; simp add: ware_upto_def)+

lemma custs_rows:
  "sh_wares (fold custs_upto ks s) = sh_wares s" "sh_stocks (fold custs_upto ks s) = sh_stocks s"
  "sh_dists (fold custs_upto ks s) = sh_dists s"
  "sh_custs (fold custs_upto ks s) = sh_custs s @ concat (map (\<lambda>k. map (\<lambda>i. (fst k, snd k, i)) [1..CUST_PER_DIST]) ks)"
  "sh_pays (fold custs_upto ks s) = sh_pays s @ concat (map (\<lambda>k. map (\<lambda>i. k) [1..CUST_PER_DIST]) ks)"
  "sh_ords (fold custs_upto ks s) = sh_ords s" "sh_news (fold custs_upto ks s) = sh_news s"
  "sh_cnt (fold custs_upto ks s) = sh_cnt s" "sh_items (fold custs_upto ks s) = sh_items s"
  by (induction ks arbitrary: s; simp add: custs_upto_def)+

lemma ords_rows:
  "sh_wares (fold ords_upto ks s) = sh_wares s" "sh_stocks (fold ords_upto ks s) = sh_stocks s"
  "sh_dists (fold ords_upto ks s) = sh_dists s" "sh_custs (fold ords_upto ks s) = sh_custs s"
  "sh_pays (fold ords_upto ks s) = sh_pays s" "sh_items (fold ords_upto ks s) = sh_items s"
  "sh_ords (fold ords_upto ks s) = sh_ords s @ concat (map (\<lambda>k. map (\<lambda>i. (fst k, snd k, i)) [1..int ORD_PER_DIST]) ks)"
  "sh_news (fold ords_upto ks s) = sh_news s @ concat (map (\<lambda>k. map (\<lambda>i. (fst k, snd k, i)) [2101..int ORD_PER_DIST]) ks)"
  "sh_cnt s = O_OL_CNT \<Longrightarrow> sh_cnt (fold ords_upto ks s) = O_OL_CNT"
  by (induction ks arbitrary: s; simp add: ords_upto_def orders_upto_def)+

lemmas shape_rows = wares_rows custs_rows ords_rows

definition sh_empty :: shape where
  "sh_empty = \<lparr>sh_items = [], sh_wares = [], sh_stocks = [], sh_dists = [], sh_custs = [], sh_pays = [], sh_ords = [],
               sh_news = [], sh_cnt = O_OL_CNT\<rparr>"

definition sh_full :: "int list \<Rightarrow> (int \<times> int) list \<Rightarrow> shape" where
  "sh_full ws ks = fold ords_upto ks (fold custs_upto ks (fold ware_upto ws (sh_empty\<lparr>sh_items := [1..MAXITEMS]\<rparr>)))"

text \<open>
  A loop over warehouses or districts: when every unit adds its rows, the loop adds them all.
\<close>

lemma each_adds:
  assumes "distinct xs"
    and "\<And>pre x. x \<notin> set pre \<Longrightarrow> unit_spec (has_shape (fold f pre s)) (body x) (has_shape (f x (fold f pre s)))"
  shows "prog_spec (has_shape s) (lp_each xs (\<lambda>x. until_done (body x))) (has_shape (fold f xs s))"
proof -
  have "prog_spec (has_shape (fold f [] s)) (lp_each xs (\<lambda>x. until_done (body x))) (has_shape (fold f xs s))"
    using assms by (intro prog_each [where J = "\<lambda>pre. has_shape (fold f pre s)"])
      (auto intro!: until_done_spec)
  then show ?thesis by simp
qed

lemma ware_step:
  assumes "sh_wares s = []" "sh_stocks s = []" "sh_dists s = []" "whole_stored F" "w \<notin> set pre"
  shows "unit_spec (has_shape (fold ware_upto pre s)) (ware_unit F r junk w) (has_shape (ware_upto w (fold ware_upto pre s)))"
  by (rule ware_loaded) (use assms in \<open>auto simp: wares_rows\<close>)

lemma customers_step:
  assumes "sh_custs s = []" "whole_stored F" "k \<notin> set pre"
  shows "unit_spec (has_shape (fold custs_upto pre s)) (lp_of (Customer F r junk timestamp (snd k) (fst k)))
    (has_shape (custs_upto k (fold custs_upto pre s)))"
proof -
  have "(fst k, snd k, i) \<notin> set (sh_custs (fold custs_upto pre s))" for i
    using assms(1,3) by (auto simp: custs_rows prod_eq_iff)
  from customers_loaded [OF this assms(2)] show ?thesis by (simp add: custs_upto_def)
qed

lemma orders_step:
  assumes "sh_ords s = []" "sh_news s = []" "sh_cnt s = O_OL_CNT" "k \<notin> set pre"
  shows "unit_spec (has_shape (fold ords_upto pre s)) (lp_of (Orders F r timestamp (snd k) (fst k)))
    (has_shape (ords_upto k (fold ords_upto pre s)))"
  unfolding ords_upto_def
  by (rule orders_loaded) (use assms in \<open>auto simp: ords_rows simp flip: ords_upto_def\<close>)

lemma distinct_district_list: "distinct (district_list lo hi)"
  unfolding district_list_def by (simp add: distinct_product flip: product_concat_map)

lemma LoadWare_spec:
  assumes "sh_wares s = []" "sh_stocks s = []" "sh_dists s = []" "whole_stored F"
  shows "prog_spec (has_shape s) (LoadWare F r junk lo hi) (has_shape (fold ware_upto [lo..hi] s))"
  unfolding LoadWare_def by (rule each_adds, simp) (rule ware_step [OF assms])

lemma LoadCust_spec:
  assumes "sh_custs s = []" "whole_stored F"
  shows "prog_spec (has_shape s) (LoadCust F r junk timestamp lo hi) (has_shape (fold custs_upto (district_list lo hi) s))"
  unfolding LoadCust_def case_prod_beta'
  by (rule prog_bind [OF each_adds [OF distinct_district_list customers_step [OF assms]] prog_commit])

lemma LoadOrd_spec:
  assumes "sh_ords s = []" "sh_news s = []" "sh_cnt s = O_OL_CNT"
  shows "prog_spec (has_shape s) (LoadOrd F r timestamp lo hi) (has_shape (fold ords_upto (district_list lo hi) s))"
  unfolding LoadOrd_def case_prod_beta'
  by (rule prog_bind [OF each_adds [OF distinct_district_list orders_step [OF assms]] prog_commit])

lemma LoadItems_spec:
  assumes "sh_items s = []"
  shows "prog_spec (has_shape s) (LoadItems F r junk) (has_shape (s\<lparr>sh_items := [1..MAXITEMS]\<rparr>))"
proof -
  have u: "prog_spec (has_shape s) (until_done (lp_of (items_unit F r orig))) (has_shape (s\<lparr>sh_items := [1..MAXITEMS]\<rparr>))" for orig
    using until_done_spec [OF items_loaded [OF assms, of F r orig]] assms by simp
  show ?thesis unfolding prog_spec_def
  proof (intro allI impI)
    fix e g c res g' c' assume c: "working c = committed c" "has_shape s (committed c)"
      and "LoadItems F r junk e g c = Some (res, g', c')"
    then obtain orig g1 where "until_done (lp_of (items_unit F r orig)) e g1 c = Some (res, g', c')"
      by (auto simp: LoadItems_def split: option.splits)
    then show "res \<noteq> Inl Again \<and> (res = Inr () \<longrightarrow> working c' = committed c' \<and>
        has_shape (s\<lparr>sh_items := [1..MAXITEMS]\<rparr>) (committed c')) \<and> (reliable e \<longrightarrow> res = Inr ())"
      using u [of orig] c unfolding prog_spec_def by blast
  qed
qed

lemma load_parts_spec:
  assumes "whole_stored F"
  shows "prog_spec (has_shape sh_empty) (load_parts F r junk junk2 timestamp None lo hi) (has_shape (sh_full [lo..hi] (district_list lo hi)))"
  unfolding load_parts_def sh_full_def option.case
  by (intro prog_bind [OF LoadItems_spec] prog_bind [OF LoadWare_spec] prog_bind [OF LoadCust_spec] LoadOrd_spec)
    (simp_all add: sh_empty_def shape_rows assms)

section \<open>The loaded database is sound\<close>

lemma count_blocks:
  assumes "distinct xs" "x \<in> set xs" "\<And>y i. P (f y i) \<longleftrightarrow> y = x"
  shows "length (filter P (concat (map (\<lambda>y. map (f y) L) xs))) = length L"
  using assms(1,2)
proof (induction xs)
  case (Cons y ys)
  have block: "filter P (map (f z) L) = (if z = x then map (f z) L else [])" for z
    using assms(3) by (auto simp: filter_empty_conv)
  have none: "x \<notin> set zs \<Longrightarrow> filter P (concat (map (\<lambda>y. map (f y) L) zs)) = []" for zs
    by (induction zs) (auto simp: block)
  show ?case
  proof (cases "y = x")
    case True
    then show ?thesis using Cons.prems none [of ys] by (simp add: block)
  next
    case False
    then show ?thesis using Cons by (simp add: block)
  qed
qed simp

lemma sum_constant: "(\<And>x. x \<in> set t \<Longrightarrow> v x = a) \<Longrightarrow> sum_list (map v t) = a * int (length t)" for a :: int
  by (induction t) (auto simp: algebra_simps)

lemma rows_with: "map key t = ks \<Longrightarrow> length (filter (\<lambda>x. P (key x)) t) = length (filter P ks)"
  by (auto simp: filter_map comp_def)

lemma sh_full_rows:
  "sh_items (sh_full ws ks) = [1..MAXITEMS]" "sh_wares (sh_full ws ks) = ws"
  "sh_stocks (sh_full ws ks) = concat (map (\<lambda>w. map (Pair w) [1..MAXITEMS]) ws)"
  "sh_dists (sh_full ws ks) = concat (map (\<lambda>w. map (Pair w) [1..DIST_PER_WARE]) ws)"
  "sh_custs (sh_full ws ks) = concat (map (\<lambda>k. map (\<lambda>i. (fst k, snd k, i)) [1..CUST_PER_DIST]) ks)"
  "sh_pays (sh_full ws ks) = concat (map (\<lambda>k. map (\<lambda>i. k) [1..CUST_PER_DIST]) ks)"
  "sh_ords (sh_full ws ks) = concat (map (\<lambda>k. map (\<lambda>i. (fst k, snd k, i)) [1..int ORD_PER_DIST]) ks)"
  "sh_news (sh_full ws ks) = concat (map (\<lambda>k. map (\<lambda>i. (fst k, snd k, i)) [2101..int ORD_PER_DIST]) ks)"
  "sh_cnt (sh_full ws ks) = O_OL_CNT"
  by (simp_all add: sh_full_def sh_empty_def shape_rows)

lemma dists_are_districts: "sh_dists (sh_full [lo..hi] ks) = district_list lo hi"
  by (simp add: sh_full_rows district_list_def)

lemma loaded_books:
  assumes s: "has_shape (sh_full [lo..hi] (district_list lo hi)) d"
  shows "books_ok d"
proof -
  let ?s = "sh_full [lo..hi] (district_list lo hi)"
  have w: "map W_ID (warehouses d) = [lo..hi]" "\<And>w. w \<in> set (warehouses d) \<Longrightarrow> W_YTD w = 30000000"
    and r: "map pk_district (districts d) = district_list lo hi" "\<And>r. r \<in> set (districts d) \<Longrightarrow> D_YTD r = 3000000"
    and h: "map (\<lambda>h. (H_W_ID h, H_D_ID h)) (histories d) = sh_pays ?s" "\<And>h. h \<in> set (histories d) \<Longrightarrow> H_AMOUNT h = 1000"
    using s dists_are_districts [of lo hi "district_list lo hi"]
    by (auto simp: has_shape_def ware_rows_def dist_rows_def pay_rows_def sh_full_rows(2))
  have "ytd_districts v (districts d) = 30000000" if "v \<in> set [lo..hi]" for v
  proof -
    have "length (filter (\<lambda>r. D_W_ID r = v) (districts d)) = length (filter (\<lambda>k. fst k = v) (district_list lo hi))"
      using rows_with [OF r(1), of "\<lambda>k. fst k = v"] by (simp add: pk_district_def)
    also have "\<dots> = 10"
      unfolding district_list_def using count_blocks [of "[lo..hi]" v "\<lambda>k. fst k = v" Pair "[1..DIST_PER_WARE]"] that
      by (simp add: DIST_PER_WARE_def)
    finally show ?thesis unfolding ytd_districts_def using sum_constant [of "filter (\<lambda>r. D_W_ID r = v) (districts d)" D_YTD 3000000] r(2) by simp
  qed
  moreover have "ytd_history k (histories d) = 3000000" if "k \<in> set (district_list lo hi)" for k
  proof -
    have "length (filter (\<lambda>h. (H_W_ID h, H_D_ID h) = k) (histories d)) = length (filter (\<lambda>x. x = k) (sh_pays ?s))"
      by (rule rows_with [OF h(1)])
    also have "\<dots> = 3000"
      using count_blocks [of "district_list lo hi" k "\<lambda>x. x = k" "\<lambda>k i. k" "[1..CUST_PER_DIST]"] that distinct_district_list [of lo hi]
      by (simp add: sh_full_rows CUST_PER_DIST_def)
    finally show ?thesis unfolding ytd_history_def using sum_constant [of "filter (\<lambda>h. (H_W_ID h, H_D_ID h) = k) (histories d)" H_AMOUNT 1000] h(2) by simp
  qed
  moreover have "W_ID v \<in> set [lo..hi]" if "v \<in> set (warehouses d)" for v using w(1) that by (metis imageI list.set_map)
  moreover have "pk_district x \<in> set (district_list lo hi)" if "x \<in> set (districts d)" for x
    using r(1) that by (metis imageI list.set_map)
  ultimately show ?thesis
    unfolding books_ok_def using w r distinct_district_list by simp
qed


lemma block_keys:
  "(w, d, i) \<in> set (concat (map (\<lambda>k. map (\<lambda>i. (fst k, snd k, i)) [a..b]) ks)) \<longleftrightarrow> (w, d) \<in> set ks \<and> a \<le> i \<and> i \<le> b"
  by force

lemma block_distinct: "distinct ks \<Longrightarrow> distinct (concat (map (\<lambda>k. map (\<lambda>i. (fst k, snd k, i)) [a..b]) ks))"
proof (induction ks)
  case (Cons k ks)
  have "set (map (\<lambda>i. (fst k, snd k, i)) [a..b]) \<inter> set (concat (map (\<lambda>k. map (\<lambda>i. (fst k, snd k, i)) [a..b]) ks)) = {}"
    using Cons.prems by (auto simp: prod_eq_iff)
  then show ?case using Cons by (simp add: distinct_map inj_on_def)
qed simp

lemma loaded_consistent:
  assumes s: "has_shape (sh_full [lo..hi] (district_list lo hi)) d"
  shows "consistent d"
proof -
  let ?s = "sh_full [lo..hi] (district_list lo hi)"
  have r: "map pk_district (districts d) = district_list lo hi" "\<And>r. r \<in> set (districts d) \<Longrightarrow> D_NEXT_O_ID r = 3001"
    and o: "map pk_order (orders d) = sh_ords ?s" "\<And>x. x \<in> set (orders d) \<Longrightarrow> O_CARRIER_ID x = None \<longleftrightarrow> O_ID x > 2100"
    and n: "map pk_new_order (new_orders d) = sh_news ?s"
    and l: "lines_ok O_OL_CNT (orders d) (order_lines d)"
    using s dists_are_districts [of lo hi "district_list lo hi"]
    by (auto simp: has_shape_def dist_rows_def order_rows_def sh_full_rows(9))
  have dk: "pk_district ` set (districts d) = set (district_list lo hi)" using r(1) by (metis list.set_map)
  have "pk_order ` set (orders d) = set (sh_ords ?s)" "pk_new_order ` set (new_orders d) = set (sh_news ?s)"
    using o(1) n by (metis list.set_map)+
  then have ok: "(w, e, i) \<in> pk_order ` set (orders d) \<longleftrightarrow> (w, e) \<in> set (district_list lo hi) \<and> 1 \<le> i \<and> i \<le> 3000"
    and nk: "(w, e, i) \<in> pk_new_order ` set (new_orders d) \<longleftrightarrow> (w, e) \<in> set (district_list lo hi) \<and> 2101 \<le> i \<and> i \<le> 3000" for w e i
    unfolding sh_full_rows ORD_PER_DIST_def by (simp_all only: block_keys of_nat_numeral)
  have "i \<in> order_ids (orders d) (w, e) \<longleftrightarrow> (w, e, i) \<in> pk_order ` set (orders d)" for w e i
    by (auto simp: order_ids_def pk_order_def image_iff)
  then have ids: "order_ids (orders d) (w, e) = {1..<3001}" if "(w, e) \<in> set (district_list lo hi)" for w e
    using that by (auto simp: ok)
  have "(O_W_ID x, O_D_ID x) \<in> set (district_list lo hi)" if "x \<in> set (orders d)" for x
    using imageI [OF that, of pk_order] ok by (simp add: pk_order_def)
  moreover have "order_ids (orders d) (pk_district x) = {1..<D_NEXT_O_ID x} \<and> 1 \<le> D_NEXT_O_ID x" if "x \<in> set (districts d)" for x
    using ids [of "D_W_ID x" "D_ID x"] imageI [OF that, of pk_district] r(2) [OF that] unfolding dk by (simp add: pk_district_def)
  moreover have keys: "distinct (sh_ords ?s)" "distinct (sh_news ?s)"
    using block_distinct [OF distinct_district_list] by (simp_all add: sh_full_rows)
  ultimately have "orders_ok (districts d) (orders d)"
    unfolding orders_ok_def r(1) o(1) dk using distinct_district_list by blast
  moreover have "pk_new_order ` set (new_orders d) = pk_order ` open_orders (orders d)"
  proof (rule set_eqI)
    fix k :: "int \<times> int \<times> int"
    obtain w e i where k: "k = (w, e, i)" by (cases k)
    have op: "(w, e, i) \<in> pk_order ` open_orders (orders d) \<longleftrightarrow> (w, e, i) \<in> pk_order ` set (orders d) \<and> i > 2100"
      using o(2) by (auto simp: open_orders_def pk_order_def image_iff)
    show "k \<in> pk_new_order ` set (new_orders d) \<longleftrightarrow> k \<in> pk_order ` open_orders (orders d)"
      unfolding k op ok nk by auto
  qed
  moreover have "oldest_first (orders d)" using o(2) by (auto simp: oldest_first_def)
  ultimately show ?thesis using l n keys by (simp add: consistent_def new_orders_ok_def)
qed

lemma loaded_sound:
  assumes "has_shape (sh_full [lo..hi] (district_list lo hi)) d"
  shows "sound d"
proof -
  have "1 \<le> S_QUANTITY x \<and> S_QUANTITY x \<le> 100" if "x \<in> set (stocks d)" for x
    using assms that by (fastforce simp: has_shape_def stock_rows_def)
  then show ?thesis using loaded_consistent [OF assms] loaded_books [OF assms] by (simp add: sound_def stock_ok_def)
qed

section \<open>The load ends\<close>

text \<open>\<open>rand\<close> answers every place of the array again and again.\<close>

definition fair_places :: "rand \<Rightarrow> bool" where
  "fair_places r \<longleftrightarrow> (\<forall>k p. 0 \<le> p \<longrightarrow> p \<le> MAXITEMS \<longrightarrow> (\<exists>m. fst (RandomNumber r 0 MAXITEMS (k + m)) = p))"

lemma free_place_ends:
  assumes "\<not> orig (fst (RandomNumber r 0 MAXITEMS (calls g + m)))"
  shows "\<exists>pos g'. free_place r orig g = Some (pos, g')"
  using assms
proof (induction m arbitrary: g)
  case 0
  then show ?case by (subst free_place.simps) (simp add: rand_in_def)
next
  case (Suc m)
  let ?g = "g\<lparr>calls := Suc (calls g)\<rparr>"
  have "\<exists>pos g'. free_place r orig ?g = Some (pos, g')" using Suc.IH [of ?g] Suc.prems by simp
  then show ?case by (subst free_place.simps) (simp add: rand_in_def)
qed

text \<open>Marking ends while as many places are free as are to be marked.\<close>

lemma mark_places_end:
  assumes "fair_places r" "finite A" "A \<subseteq> {0..MAXITEMS}" "\<forall>p \<in> A. \<not> orig p" "n \<le> card A"
  shows "\<exists>y. mark_places r n orig g = Some y"
  using assms(2-5)
proof (induction n arbitrary: A orig g)
  case (Suc n)
  have "A \<noteq> {}" using Suc.prems(4) by auto
  then obtain p where p: "p \<in> A" "0 \<le> p" "p \<le> MAXITEMS" using Suc.prems(2) by fastforce
  obtain m where "fst (RandomNumber r 0 MAXITEMS (calls g + m)) = p" using assms(1) p unfolding fair_places_def by blast
  then obtain pos g1 where f: "free_place r orig g = Some (pos, g1)" using free_place_ends [of orig r g m] p Suc.prems(3) by auto
  have "n \<le> card (A - {pos})" using Suc.prems(1,4) by (cases "pos \<in> A") auto
  then have "\<exists>y. mark_places r n (orig(pos := True)) g1 = Some y"
    using Suc.prems(1-3) by (intro Suc.IH [of "A - {pos}"]) auto
  then show ?case using f by simp
qed simp

lemma first_places: "{0..<MAXITEMS div 10} \<subseteq> {0..MAXITEMS}"
  by (auto simp: MAXITEMS_def)

lemma mark_original_ends: "fair_places r \<Longrightarrow> \<exists>orig g'. mark_original r junk g = Some (orig, g')"
  unfolding mark_original_def by (metis (no_types, lifting) surj_pair mark_places_end [of r "{0..<MAXITEMS div 10}"]
      first_places card_atLeastLessThan_int atLeastLessThan_iff diff_zero finite_atLeastLessThan_int order_refl)

definition prog_ends :: "(db \<Rightarrow> bool) \<Rightarrow> unit lp \<Rightarrow> bool" where
  "prog_ends P m \<longleftrightarrow> (\<forall>e g c. reliable e \<longrightarrow> working c = committed c \<longrightarrow> P (committed c) \<longrightarrow> m e g c \<noteq> None)"

lemma ends_lp_of: "prog_ends P (lp_of m)"
  by (simp add: prog_ends_def lp_of_def)

lemma ends_until_done:
  assumes "unit_spec P m Q" "prog_ends P m"
  shows "prog_ends P (until_done m)"
  unfolding prog_ends_def
proof (intro allI impI)
  fix e g and c :: conn assume c: "reliable e" "working c = committed c" "P (committed c)"
  then obtain res g1 c1 where 1: "m e g c = Some (res, g1, c1)" using assms(2) unfolding prog_ends_def by fastforce
  moreover have "res = Inr ()" using assms(1) c 1 unfolding unit_spec_def by blast
  ultimately show "until_done m e g c \<noteq> None" by (subst until_done.simps) simp
qed

lemma ends_bind:
  assumes "prog_spec P m R" "prog_ends P m" "prog_ends R n"
  shows "prog_ends P (lp_bind m (\<lambda>_. n))"
  unfolding prog_ends_def
proof (intro allI impI)
  fix e g and c :: conn assume c: "reliable e" "working c = committed c" "P (committed c)"
  then obtain res g1 c1 where 1: "m e g c = Some (res, g1, c1)" using assms(2) unfolding prog_ends_def by fastforce
  have 2: "res = Inr ()" "working c1 = committed c1" "R (committed c1)"
    using assms(1) c 1 unfolding prog_spec_def by blast+
  then have "n e g1 c1 \<noteq> None" using assms(3) c(1) unfolding prog_ends_def by blast
  then show "lp_bind m (\<lambda>_. n) e g c \<noteq> None" using 1 2(1) by (simp add: lp_bind_def)
qed

lemma ends_each:
  assumes "\<And>pre x rest. xs = pre @ x # rest \<Longrightarrow> prog_spec (J pre) (body x) (J (pre @ [x])) \<and> prog_ends (J pre) (body x)"
  shows "prog_ends (J []) (lp_each xs body)"
proof -
  have "prog_ends (J pre) (lp_each ys body)" if "xs = pre @ ys" for pre ys
    using that
  proof (induction ys arbitrary: pre)
    case Nil
    then show ?case by (simp add: ends_lp_of)
  next
    case (Cons y ys)
    have "prog_ends (J (pre @ [y])) (lp_each ys body)" using Cons.prems by (intro Cons.IH) simp
    then show ?case using ends_bind assms [OF Cons.prems] by simp blast
  qed
  from this [of "[]" xs] show ?thesis by simp
qed

lemma each_ends:
  assumes "distinct xs"
    and "\<And>pre x. x \<notin> set pre \<Longrightarrow> unit_spec (has_shape (fold f pre s)) (body x) (has_shape (f x (fold f pre s)))"
    and "\<And>P x. prog_ends P (body x)"
  shows "prog_ends (has_shape s) (lp_each xs (\<lambda>x. until_done (body x)))"
proof -
  have "prog_ends (has_shape (fold f [] s)) (lp_each xs (\<lambda>x. until_done (body x)))"
  proof (rule ends_each [where J = "\<lambda>pre. has_shape (fold f pre s)"])
    fix pre x rest assume "xs = pre @ x # rest"
    then have "unit_spec (has_shape (fold f pre s)) (body x) (has_shape (fold f (pre @ [x]) s))" using assms(1,2) by simp
    then show "prog_spec (has_shape (fold f pre s)) (until_done (body x)) (has_shape (fold f (pre @ [x]) s)) \<and>
        prog_ends (has_shape (fold f pre s)) (until_done (body x))"
      using until_done_spec ends_until_done assms(3) by blast
  qed
  then show ?thesis by simp
qed

lemma LoadItems_ends:
  assumes "fair_places r" "sh_items s = []"
  shows "prog_ends (has_shape s) (LoadItems F r junk)"
  unfolding prog_ends_def
proof (intro allI impI)
  fix e g and c :: conn assume c: "reliable e" "working c = committed c" "has_shape s (committed c)"
  obtain orig g1 where 1: "mark_original r junk g = Some (orig, g1)" using mark_original_ends [OF assms(1)] by blast
  have "until_done (lp_of (items_unit F r orig)) e g1 c \<noteq> None"
    using ends_until_done [OF items_loaded [OF assms(2)] ends_lp_of] c unfolding prog_ends_def by blast
  then show "LoadItems F r junk e g c \<noteq> None" using 1 by (simp add: LoadItems_def)
qed

lemma ware_unit_ends:
  assumes "fair_places r"
  shows "prog_ends P (ware_unit F r junk w)"
proof -
  have "mark_original r junk g = None \<longleftrightarrow> False" for g using mark_original_ends [OF assms, of junk g] by auto
  then show ?thesis unfolding prog_ends_def ware_unit_def
    by (simp del: not_None_eq split: prod.split sum.split option.split)
qed

lemma load_parts_ends:
  assumes "fair_places r" "whole_stored F"
  shows "prog_ends (has_shape sh_empty) (load_parts F r junk junk2 timestamp None lo hi)"
proof -
  have w: "prog_ends (has_shape s) (LoadWare F r junk lo hi)" if "sh_wares s = []" "sh_stocks s = []" "sh_dists s = []" for s
    unfolding LoadWare_def
    by (rule each_ends, simp) (rule ware_step [OF that assms(2)], assumption, rule ware_unit_ends [OF assms(1)])
  have c: "prog_ends (has_shape s) (LoadCust F r junk2 timestamp lo hi)" if "sh_custs s = []" for s
    unfolding LoadCust_def case_prod_beta' using customers_step [OF that assms(2)] distinct_district_list
    by (intro ends_bind [OF each_adds each_ends ends_lp_of] ends_lp_of)
  have o: "prog_ends (has_shape s) (LoadOrd F r timestamp lo hi)" if "sh_ords s = []" "sh_news s = []" "sh_cnt s = O_OL_CNT" for s
    unfolding LoadOrd_def case_prod_beta' using orders_step [OF that] distinct_district_list
    by (intro ends_bind [OF each_adds each_ends ends_lp_of] ends_lp_of)
  show ?thesis unfolding load_parts_def option.case
    by (intro ends_bind [OF LoadItems_spec] ends_bind [OF LoadWare_spec] ends_bind [OF LoadCust_spec] LoadItems_ends assms w c o)
      (simp_all add: sh_empty_def shape_rows)
qed

section \<open>Loading an empty database\<close>

definition empty_db :: db where
  "empty_db = \<lparr>warehouses = [], districts = [], customers = [], histories = [], new_orders = [], orders = [],
               order_lines = [], items = [], stocks = []\<rparr>"

lemma empty_shape: "has_shape sh_empty empty_db"
  by (simp add: has_shape_def sh_empty_def empty_db_def rows_defs lines_ok_def)

lemma load_main_full:
  assumes "whole_stored F" "working c = committed c" "committed c = empty_db"
    and "load_main F r junk junk2 timestamp None count_ware opt_m opt_n e g c = Some (0, c')"
  shows "working c' = committed c' \<and> has_shape (sh_full [1..count_ware] (district_list 1 count_ware)) (committed c')"
proof -
  have p: "prog_spec (has_shape sh_empty)
      (lp_bind (load_parts F r junk junk2 timestamp None 1 count_ware) (\<lambda>_. lp_of ld_commit))
      (has_shape (sh_full [1..count_ware] (district_list 1 count_ware)))"
    by (rule prog_bind [OF load_parts_spec [OF assms(1)] prog_commit])
  obtain g1 where "lp_bind (load_parts F r junk junk2 timestamp None 1 count_ware) (\<lambda>_. lp_of ld_commit) e g c = Some (Inr (), g1, c')"
    using assms(4) by (auto simp: load_main_def Let_def split: option.splits sum.splits)
  then show ?thesis using p assms(2,3) empty_shape unfolding prog_spec_def by metis
qed

lemma load_main_returns:
  assumes "whole_stored F" "working c = committed c" "committed c = empty_db" "reliable e" "fair_places r"
  shows "\<exists>c'. load_main F r junk junk2 timestamp None count_ware opt_m opt_n e g c = Some (0, c')"
proof -
  let ?m = "lp_bind (load_parts F r junk junk2 timestamp None 1 count_ware) (\<lambda>_. lp_of ld_commit)"
  have "prog_ends (has_shape sh_empty) ?m"
    by (rule ends_bind [OF load_parts_spec load_parts_ends ends_lp_of]) (rule assms)+
  then obtain res g1 c1 where 1: "?m e g c = Some (res, g1, c1)"
    using assms(2-4) empty_shape unfolding prog_ends_def by (metis option.exhaust surj_pair)
  have "prog_spec (has_shape sh_empty) ?m (has_shape (sh_full [1..count_ware] (district_list 1 count_ware)))"
    by (rule prog_bind [OF load_parts_spec [OF assms(1)] prog_commit])
  then have "res = Inr ()" using 1 assms(2-4) empty_shape unfolding prog_spec_def by metis
  then show ?thesis using 1 by (simp add: load_main_def Let_def)
qed

text \<open>
  C19: the load of an empty database: when it ends with 0, everything is committed, the items,
  warehouses, districts and the customers of each district are there under the numbers from 1 on,
  and the database is sound; and with a client library that works and a \<open>rand\<close> that reaches every
  place it does end with 0. Whatever is started again on the way leaves nothing behind.
\<close>

theorem load_sound:
  assumes "whole_stored F" "working c = committed c" "committed c = empty_db"
  shows "(\<forall>c'. load_main F r junk junk2 timestamp None count_ware opt_m opt_n e g c = Some (0, c') \<longrightarrow>
      working c' = committed c' \<and> sound (committed c') \<and>
      map I_ID (items (committed c')) = [1..MAXITEMS] \<and> map W_ID (warehouses (committed c')) = [1..count_ware] \<and>
      map pk_district (districts (committed c')) = district_list 1 count_ware \<and>
      map pk_stock (stocks (committed c')) = [(w, i). w \<leftarrow> [1..count_ware], i \<leftarrow> [1..MAXITEMS]] \<and>
      map pk_customer (customers (committed c')) = [(w, d, i). (w, d) \<leftarrow> district_list 1 count_ware, i \<leftarrow> [1..CUST_PER_DIST]]) \<and>
    (reliable e \<and> fair_places r \<longrightarrow>
      (\<exists>c'. load_main F r junk junk2 timestamp None count_ware opt_m opt_n e g c = Some (0, c')))"
proof (intro conjI allI impI)
  fix c' assume run: "load_main F r junk junk2 timestamp None count_ware opt_m opt_n e g c = Some (0, c')"
  note full = load_main_full [OF assms run]
  show "working c' = committed c'" using full by simp
  show "sound (committed c')" using full loaded_sound by blast
  have s: "has_shape (sh_full [1..count_ware] (district_list 1 count_ware)) (committed c')" using full by simp
  show "map I_ID (items (committed c')) = [1..MAXITEMS]" "map W_ID (warehouses (committed c')) = [1..count_ware]"
    using s by (simp_all add: has_shape_def ware_rows_def sh_full_rows(1,2))
  show "map pk_district (districts (committed c')) = district_list 1 count_ware"
    using s by (simp add: has_shape_def dist_rows_def dists_are_districts)
  show "map pk_stock (stocks (committed c')) = [(w, i). w \<leftarrow> [1..count_ware], i \<leftarrow> [1..MAXITEMS]]"
    using s by (simp add: has_shape_def stock_rows_def sh_full_rows(3))
  show "map pk_customer (customers (committed c')) = [(w, d, i). (w, d) \<leftarrow> district_list 1 count_ware, i \<leftarrow> [1..CUST_PER_DIST]]"
    using s by (simp add: has_shape_def sh_full_rows(5) case_prod_beta')
next
  assume "reliable e \<and> fair_places r"
  then show "\<exists>c'. load_main F r junk junk2 timestamp None count_ware opt_m opt_n e g c = Some (0, c')"
    using load_main_returns [OF assms] by blast
qed

lemma cents_whole: "whole_stored cent_fops"
  by (simp add: whole_stored_def cent_fops_def)

lemma counting_up_fair: "fair_places (\<lambda>k. k)"
proof -
  have "\<exists>m. fst (RandomNumber (\<lambda>k. k) 0 MAXITEMS (k + m)) = p" if p: "0 \<le> p" "p \<le> MAXITEMS" for k p
  proof -
    let ?n = "MAXITEMS + 1"
    have "(int k + (p - int k) mod ?n) mod ?n = p" using p by (simp add: mod_simps MAXITEMS_def)
    then show ?thesis
      by (intro exI [of _ "nat ((p - int k) mod ?n)"]) (simp add: RandomNumber_def MAXITEMS_def)
  qed
  then show ?thesis by (simp add: fair_places_def)
qed

theorem load_sound_witness:
  "\<exists>c'. load_main cent_fops (\<lambda>k. k) (\<lambda>_. True) (\<lambda>k. 5) ''t'' None 2 0 0 good_lib \<lparr>calls = 0, first_call = True\<rparr>
      \<lparr>committed = empty_db, working = empty_db, api_calls = 0\<rparr> = Some (0, c') \<and>
    sound (committed c') \<and> map W_ID (warehouses (committed c')) = [1, 2]"
proof -
  let ?c = "\<lparr>committed = empty_db, working = empty_db, api_calls = 0\<rparr>"
  note l = load_sound [of cent_fops ?c "\<lambda>k. k" "\<lambda>_. True" "\<lambda>k. 5" "''t''" 2 0 0 good_lib "\<lparr>calls = 0, first_call = True\<rparr>",
      OF cents_whole]
  obtain c' where c': "load_main cent_fops (\<lambda>k. k) (\<lambda>_. True) (\<lambda>k. 5) ''t'' None 2 0 0 good_lib \<lparr>calls = 0, first_call = True\<rparr> ?c = Some (0, c')"
    using l good_lib_reliable counting_up_fair by auto
  moreover have "[1..2] = [1, 2 :: int]" by code_simp
  ultimately show ?thesis using l by auto
qed

end
