(* ===== verification/Spec2Isabelle.thy ===== *)
theory Spec2Isabelle
  imports DefaultConcurrent City Icebox Plugins DaemonMain DaemonProc HashMap PvTrace MinerHook TpccLoaded
begin

text \<open>
  Verification of the C++ programs of the repository: the sequence service under
  \<open>src/app/sequence\<close> (unique identifiers over Ice, with a MySQL table, a connection pool and a leader
  election over ZooKeeper), the JVM supervisor under \<open>src/app/daemon/src/main/c\<close>, the call tracer
  under \<open>src/pvtrace\<close>, the preloaded library under \<open>src/app/hook-linux/claymore\<close> and the database
  load generator under \<open>src/app/tpcc-mysql/src\<close>.

  \<^bold>\<open>The sequence service.\<close> A client asks the servant \<open>SequenceServiceI\<close> for the next identifiers of a
  named sequence. The servant looks up the algorithm of the sequence and keeps one worker per name:
  a Snowflake worker composes identifiers from the clock, the machine's identity and a counter; an
  incrementing worker claims blocks of values from the table \<open>t_sequence\<close> through the stored function
  \<open>seq_nextval_v2\<close> and hands out ranges from its block. Database connections come from a pool per
  database with a maintenance thread. The ordered variant of the service runs on one machine at a
  time, chosen by an election among ephemeral sequential nodes in ZooKeeper.

  \<^item> \<open>Prelude\<close>: names for machine integers, words as disjoint bit fields, the locale
    \<open>range_source\<close> (a stateful call whose ranges move forward) with its lemmas on whole runs.
  \<^item> \<open>SeqBase\<close>: the exceptions of the service and the ways an execution ends.
  \<^item> \<open>CString\<close>: the C string functions the sources use (\<open>strtol\<close>, \<open>atoi\<close>, \<open>strchr\<close>, \<open>strcmp\<close>).
  \<^item> \<open>Snowflake\<close> (\<open>SnowflakeIdWorker.cpp\<close>): construction, the wait for the next millisecond and
    \<open>getAndIncrement\<close> on 64-bit and 32-bit words; the clock's answers are an argument. Identifiers of
    one worker increase, workers with different identities never share one, identifiers decode into
    their fields, every call returns, and the exceptions are thrown exactly where the code says.
  \<^item> \<open>DbPool\<close> (\<open>MySQLDBPool.cpp\<close>): parsing of the configuration, the pool of one database, the map of
    pools, maintenance. Every connection is either idle or counted as used; expired ones leave.
  \<^item> \<open>SeqTable\<close> (\<open>tests/init.sql\<close>): the stored function with other sessions between any two of its
    statements, the driver that answers the program's statements from the table. Blocks claimed by
    different calls never overlap.
  \<^item> \<open>DefaultWorker\<close>, \<open>DefaultConcurrent\<close> (\<open>DefaultSequenceWorker.cpp\<close>): parsing of the answer, the
    refill, \<open>addAndIncrement\<close>; several threads of one worker as a step relation over the atomic
    counter and the mutex. Ranges increase, and concurrent callers never get overlapping ranges.
  \<^item> \<open>SequenceService\<close> (\<open>SequenceServiceI.cpp\<close>): lookup, creation and retries in the servant; the
    identifiers a client gets for one name increase whichever algorithm it has, and calls for one
    name do not disturb another.
  \<^item> \<open>ZkHelper\<close> (\<open>zookeeper_helper.cpp\<close>): nodes, watches, the session watcher and the bookkeeping it
    replays after a lost session. The server is a parameter; the locale \<open>zk_server\<close> states what the
    code relies on, and a tree of nodes interprets it.
  \<^item> \<open>OrderAdapter\<close> (\<open>OrderSequenceAdapter.cpp\<close>): the election thread and its reactions. A process
    leads exactly when its node is the smallest it saw, so two never lead on the same view.
  \<^item> \<open>IceClient\<close> (\<open>IceExtClientUtil.cpp\<close>, \<open>IceExtClientUtil.h\<close>): the client side: which locators and
    routers a configuration names, one communicator for each, the choice of the communicator for a
    service, and the session thread of a router as a step relation. A service is resolved at the router
    its property names; proxies come only from a session that answered; \<open>destroy\<close> never ends well.
  \<^item> \<open>Icebox\<close> (\<open>Toolkits.cpp\<close>, \<open>startOrderSequence\<close>, \<open>SequenceServiceIcebox.cpp\<close>): the clock thread, and start and
    stop of the whole service composed from pool, ordered service and servant. From the configuration
    to the identifiers: what the servant of a started process hands out increases and begins after the
    stored value. What is left when a start gives up.
  \<^item> \<open>Plugins\<close> (\<open>RegistryPlugin.cpp\<close>, \<open>glacier2test/Classes/SessionServerI.cpp\<close>): the filter of the registry
    and the permission check of the router's server.
  \<^item> \<open>City\<close> (\<open>city.cpp\<close>, \<open>city.h\<close>): the CityHash family on byte strings with checked loads; no hash
    reads outside its string, and the final mix is a bijection.

  \<^bold>\<open>The JVM supervisor.\<close> \<open>main\<close> reads a configuration file, becomes a daemon, and keeps a worker JVM and
  optionally a master JVM alive as child processes, restarting them when they exit or when a check
  command reports a problem; it talks to them through signals and a shared memory block.

  \<^item> \<open>DaemonConf\<close> (\<open>del_tail\<close>, \<open>parse_properties\<close>): the reader on raw memory, with the line buffer
    and its moving pointer, unterminated blocks and uninitialised variables. A well-formed file that
    fits is read back completely; what undefined behaviour other files lead to.
  \<^item> \<open>DaemonSup\<close> (signal handlers, \<open>checkJVM\<close>, \<open>forkMaster\<close>, \<open>forkWork\<close>, the loop of \<open>main\<close>): a step
    relation in which handlers, exits of children and notifications come between any two steps of
    the loop. The supervisor refines an abstract one that starts a process only where none is alive;
    a recorded worker that dies is replaced; and the two races in which it is not, or in which the
    supervisor signals itself.
  \<^item> \<open>DaemonMain\<close> (the rest of \<open>main\<close>, \<open>callJVM\<close>, \<open>callExtJVM\<close>): command line, pid file, stop and
    restart, the start of the JVM. The configuration's class, options and arguments are what the JVM
    gets; stop signals exactly the process that start recorded.

  \<^item> \<open>DaemonProc\<close> (\<open>daemon\<close>, \<open>disableSTD\<close>, the log streams, \<open>org_daemon_wrapper_LibC.cpp\<close>): sessions and descriptors of
    the daemon, the native methods. A daemon that reports success is detached; pipes carry messages
    unchanged, with the kernel's promise as the locale \<open>pipe_kernel\<close>; which failures are undefined.
  \<^item> \<open>Crc32\<close>, \<open>HashMap\<close> (\<open>hashmap.c\<close>, \<open>hashmap.h\<close>): the hash map kept with the supervisor. The checksum's table
    loop equals the bitwise checksum; insertion with its reallocations refines the update of a map, as an
    interpretation of the locale \<open>insert_map\<close>; well-formedness survives every sequence of operations,
    uniqueness of keys does not survive a removal.

  \<^bold>\<open>The call tracer.\<close> A program compiled with \<open>instrument.c\<close> writes a line when a function begins and
  one when it ends; \<open>pvtrace\<close> turns the file into a graph with the number of calls per pair.

  \<^item> \<open>PvTrace\<close> (\<open>symbols.cpp\<close>, \<open>stack.c\<close>, \<open>trace.c\<close>): the tables, the stack as an interpretation of
    the locale \<open>bounded_stack\<close>, reading with \<open>fscanf\<close> and the text of the graph. The graph of the
    trace of a run is the call graph of the run; runs that nest too deeply abort.

  \<^bold>\<open>The preloaded library.\<close> Loaded into another process, it reads the command line of its parent and changes
  the process's name lookups, connections and login messages.

  \<^item> \<open>MinerHook\<close> (\<open>hook.c\<close>, \<open>claymore.c\<close>): parsing into arrays of fixed size and writing into the caller's
    buffer. When the arrays are left, that the usual command line is read back, and which bytes of a
    message can change.

  \<^bold>\<open>The load generator.\<close> \<open>tpcc_load\<close> fills the nine tables of TPC-C through one connection; \<open>tpcc_start\<close> runs
  threads, each of which draws the kind of the next transaction from a shared sequence and its arguments
  from \<open>rand\<close>, runs it over a connection of its own up to 2000 times until it succeeds, and counts.

  \<^item> \<open>TpccSupport\<close> (\<open>support.c\<close>, \<open>sequence.c\<close>, \<open>rthist.c\<close>, \<open>sb_percentile.c\<close>): random numbers, strings, names, the
    permutation of the customers, the sequence of kinds, the histogram and the percentile. Every customer
    gets one order; last names are unique; each kind comes as often as its weight says.
  \<^item> \<open>TpccDb\<close> (\<open>create_table.sql\<close>, the statements of \<open>main.c\<close>): tables as lists of rows, statements as functions
    on them, the connection with its committed and working database, a library whose every call may
    fail. The locale \<open>tx_body\<close> states what a transaction owes to its effect on the database.
  \<^item> \<open>TpccTrans\<close> (\<open>neword.c\<close>, \<open>payment.c\<close>, \<open>ordstat.c\<close>, \<open>delivery.c\<close>, \<open>slev.c\<close>): the five transactions and their effects,
    four of them as interpretations of \<open>tx_body\<close>. New orders are all or nothing and take their stock rows
    in one order; a delivery is done district by district.
  \<^item> \<open>TpccConsistency\<close>: the consistency conditions of TPC-C; every transaction keeps them, whatever fails.
  \<^item> \<open>TpccDriver\<close> (\<open>driver.c\<close>): arguments, retries and counters. Arguments are valid, every transaction is
    counted once, and a run keeps the database sound.
  \<^item> \<open>TpccLoad\<close>, \<open>TpccLoaded\<close> (\<open>load.c\<close>): the loader with its retries, rules for its units and loops, and what it
    leaves behind: the rows with their keys, a sound database.

  \<^bold>\<open>Conventions.\<close> Exceptions, \<open>exit\<close> and undefined behaviour are values. Code outside the repository
  (MySQL driver, ZooKeeper client, Ice, curl, JNI, \<open>addr2line\<close>, the CRC instruction, \<open>rand\<close>, floating
  point arithmetic, the kernel's answers) is a parameter of
  the definitions that use it; hypotheses on it are the laws of a locale or premises, and each has an
  instance. Loops are structural or have a termination proof; the wait for the next millisecond and
  the election's start loop consume the answers of the outside world, given as a list or a bound. The
  mutual recursion of \<open>hashmap_put\<close> and \<open>_hashmap_rehash\<close> has a bound on its depth; the number of doublings
  that exceeds the largest table \<open>calloc\<close> gives is enough, which is proved. The searches of the load generator
  for a free place and for another warehouse end when \<open>rand\<close> answers one at some time, which is a premise
  where it is said that they return.
  The bounds of the numeric theorems are those of the code's types: steps up to 50 million, half of
  the distance \<open>DELTA\<close> that \<open>nextRange\<close> keeps from the largest value, positions below \<open>2 ^ 62\<close> and at most
  \<open>2 ^ 20\<close> concurrent callers, so that 64-bit additions do not wrap. Signal handlers run to their end;
  a blocking \<open>waitpid\<close> returns when its child has ended.

  \<^bold>\<open>Not modelled.\<close> Logging (\<open>IceExtLoggerI.cpp\<close>, \<open>initGlog\<close>), which only writes messages; the native
  methods that are a single system call; the servants of the Glacier2 sample that
  only register objects with Ice; the hooks under \<open>hook-win32/claymore\<close>, which are Detours
  boilerplate around the functions modelled for Linux, and the sample kernel modules; the copied
  \<open>setproctitle.ci\<close>; the
  options, threads and printed reports of \<open>main.c\<close> of the load generator, and the address columns of its
  tables, which are written and never looked at; and the third-party code the repository keeps (glog,
  rapidjson, Detours, wrk).
\<close>

text \<open>
  C11: The loader and the driver together: a database that the loader filled and a thread of the
  driver then worked on, over a connection of its own, with any errors of the client library
  during the run, satisfies the consistency conditions, its books balance and its stock is within
  bounds.
\<close>

theorem loaded_run_sound:
  assumes "whole_stored F" "working c = committed c" "committed c = empty_db"
    and "load_main F r junk junk2 timestamp None (num_ware cf) opt_m opt_n e g c = Some (0, cl)"
    and "driver x cf tn rounds q g1 s \<lparr>committed = committed cl, working = committed cl, api_calls = 0\<rparr> = Some (q', g', s', c')"
    and "sane cf (int tn)" "whole_exact (wd_fops x)"
  shows "working c' = committed c' \<and> consistent (committed c') \<and> books_ok (committed c') \<and> stock_ok (committed c')"
proof -
  have "sound (committed cl)" using load_main_full [OF assms(1-4)] loaded_sound by blast
  then show ?thesis using driver_sound [OF assms(5-7)] by (simp add: sound_def)
qed

theorem loaded_run_sound_witness:
  "\<exists>cl q' g' s' c'. load_main cent_fops (\<lambda>k. k) (\<lambda>_. True) (\<lambda>k. 5) ''t'' None 1 0 0 good_lib \<lparr>calls = 0, first_call = True\<rparr>
       \<lparr>committed = empty_db, working = empty_db, api_calls = 0\<rparr> = Some (0, cl) \<and>
     driver sample_world sample_config 1 (replicate 5 ((\<lambda>_. True), (\<lambda>_. 1000))) (fst (seq_init (\<lambda>k. 7 * k) 10 10 1 1 1 0))
       \<lparr>calls = 99, first_call = True\<rparr> (zero_counters 2) \<lparr>committed = committed cl, working = committed cl, api_calls = 0\<rparr> =
       Some (q', g', s', c') \<and> consistent (committed c')"
proof -
  let ?c = "\<lparr>committed = empty_db, working = empty_db, api_calls = 0\<rparr>"
  obtain cl where l: "load_main cent_fops (\<lambda>k. k) (\<lambda>_. True) (\<lambda>k. 5) ''t'' None (num_ware sample_config) 0 0 good_lib
      \<lparr>calls = 0, first_call = True\<rparr> ?c = Some (0, cl)"
    using load_main_returns [OF cents_whole _ _ good_lib_reliable counting_up_fair, of ?c "\<lambda>_. True" "\<lambda>k. 5" "''t''" "num_ware sample_config" 0 0
        "\<lparr>calls = 0, first_call = True\<rparr>"] by auto
  obtain q' g' s' c' where d: "driver sample_world sample_config 1 (replicate 5 ((\<lambda>_. True), (\<lambda>_. 1000))) (fst (seq_init (\<lambda>k. 7 * k) 10 10 1 1 1 0))
       \<lparr>calls = 99, first_call = True\<rparr> (zero_counters 2) \<lparr>committed = committed cl, working = committed cl, api_calls = 0\<rparr> =
       Some (q', g', s', c')"
    using driver_counts [of sample_config 1 sample_world 2 "zero_counters 2" "replicate 5 ((\<lambda>_. True), (\<lambda>_. 1000))"]
      sample_sane sample_fair zero_counters_ok by (simp add: list_all_iff counting_def) metis
  have "consistent (committed c')"
    using loaded_run_sound [OF cents_whole _ _ l d] sample_sane sample_exact by (simp add: sample_world_def)
  then show ?thesis using l d by (auto simp: sample_config_def)
qed

end
